(* ===== verification/Prelude.thy ===== *)
theory Prelude
  imports Main "HOL-Library.Word"
begin

text \<open>
  What every component of the development shares: the machine integers of
  \<^verbatim>\<open>include/lmap_stdint.h\<close>, the ways in which a C function can fail to return, reads of a
  byte buffer (in both byte orders), and generic lemmas on lists, words and results.
\<close>

unbundle bit_operations_syntax

named_theorems decode_simps \<open>rules that execute a decoder on a buffer of known length\<close>
named_theorems fmt_len \<open>lengths of formatted strings\<close>

subsection \<open>Machine integers\<close>

type_synonym u_int8 = "8 word"
type_synonym u_int16 = "16 word"
type_synonym u_int32 = "32 word"
type_synonym bytes = "u_int8 list"

subsection \<open>Results\<close>

text \<open>
  A C function that does not return normally does so for one of these reasons: a read or write
  outside its buffer, a dereference of \<^verbatim>\<open>NULL\<close> or of freed memory, a loop that never ends, a
  division by zero, an overflow of a signed integer, or a call of \<^verbatim>\<open>exit\<close> (the macros
  \<^verbatim>\<open>ERROR_MSG\<close>, \<^verbatim>\<open>ON_ERROR\<close> and \<^verbatim>\<open>FATAL_MSG\<close> end the process).
\<close>

datatype c_error =
    Out_of_bounds
  | Null_pointer
  | Use_after_free
  | Endless_loop
  | Division_by_zero
  | Integer_overflow
  | Exit_process string

fun bindE :: "c_error + 'a \<Rightarrow> ('a \<Rightarrow> c_error + 'b) \<Rightarrow> c_error + 'b" where
  "bindE (Inl e) f = Inl e"
| "bindE (Inr x) f = f x"

lemma bindE_assoc [simp]: "bindE (bindE r f) g = bindE r (\<lambda>x. bindE (f x) g)"
  by (cases r) simp_all

lemma bindE_eq_Inr: "bindE r f = Inr y \<longleftrightarrow> (\<exists>x. r = Inr x \<and> f x = Inr y)"
  by (cases r) auto

lemma bindE_eq_Inl: "bindE r f = Inl e \<longleftrightarrow> r = Inl e \<or> (\<exists>x. r = Inr x \<and> f x = Inl e)"
  by (cases r) auto

text \<open>\<open>ensures P r\<close>: if the result is a value, it satisfies \<open>P\<close>.\<close>

definition ensures :: "('a \<Rightarrow> bool) \<Rightarrow> c_error + 'a \<Rightarrow> bool" where
  "ensures P r \<longleftrightarrow> (\<forall>x. r = Inr x \<longrightarrow> P x)"

lemma ensures_Inr [simp]: "ensures P (Inr x) = P x"
  by (simp add: ensures_def)

lemma ensures_Inl [simp]: "ensures P (Inl e)"
  by (simp add: ensures_def)

lemma ensures_bindE: "ensures (\<lambda>x. ensures P (f x)) r \<Longrightarrow> ensures P (bindE r f)"
  by (cases r) simp_all

lemma ensures_bindE_any: "(\<And>x. ensures P (f x)) \<Longrightarrow> ensures P (bindE r f)"
  by (cases r) simp_all

lemma ensures_if: "(b \<Longrightarrow> ensures P r) \<Longrightarrow> (\<not> b \<Longrightarrow> ensures P s) \<Longrightarrow> ensures P (if b then r else s)"
  by simp

lemma ensures_prod: "(\<And>a b. x = (a, b) \<Longrightarrow> ensures P (f a b)) \<Longrightarrow> ensures P (case x of (a, b) \<Rightarrow> f a b)"
  by (cases x) simp

lemma ensures_option:
  "(x = None \<Longrightarrow> ensures P r) \<Longrightarrow> (\<And>y. x = Some y \<Longrightarrow> ensures P (f y)) \<Longrightarrow>
    ensures P (case x of None \<Rightarrow> r | Some y \<Rightarrow> f y)"
  by (cases x) simp_all

lemma ensuresD: "ensures P r \<Longrightarrow> r = Inr x \<Longrightarrow> P x"
  by (simp add: ensures_def)

lemma ensures_mono: "ensures P r \<Longrightarrow> (\<And>x. P x \<Longrightarrow> Q x) \<Longrightarrow> ensures Q r"
  by (simp add: ensures_def)

lemmas ensures_intros = ensures_bindE_any ensures_if ensures_prod ensures_option

text \<open>The values that an expression of type \<^verbatim>\<open>int\<close> goes through, and what it is for.\<close>

definition checked :: "int list \<Rightarrow> c_error + 'a \<Rightarrow> c_error + 'a" where
  "checked vs r = (if list_all (\<lambda>v. - (2 ^ 31) \<le> v \<and> v < 2 ^ 31) vs then r else Inl Integer_overflow)"

subsection \<open>Reading a buffer\<close>

text \<open>
  A buffer is the list of the bytes that belong to it. The C code reads through a pointer without
  looking at the length, so a read behind the last byte is the error \<^term>\<open>Out_of_bounds\<close>.
\<close>

definition rd8 :: "bytes \<Rightarrow> nat \<Rightarrow> c_error + u_int8" where
  "rd8 d i = (if i < length d then Inr (d ! i) else Inl Out_of_bounds)"

definition rd_bytes :: "bytes \<Rightarrow> nat \<Rightarrow> nat \<Rightarrow> c_error + bytes" where
  "rd_bytes d i n = (if i + n \<le> length d then Inr (take n (drop i d)) else Inl Out_of_bounds)"

text \<open>The byte order of the host: \<^verbatim>\<open>WORDS_BIGENDIAN\<close> is defined or it is not.\<close>

datatype endian = Little | Big

definition join16 :: "u_int8 \<Rightarrow> u_int8 \<Rightarrow> u_int16" where
  "join16 hi lo = push_bit 8 (ucast hi) OR ucast lo"

definition hi8 :: "u_int16 \<Rightarrow> u_int8" where
  "hi8 w = ucast (drop_bit 8 w)"

definition lo8 :: "u_int16 \<Rightarrow> u_int8" where
  "lo8 w = ucast w"

fun of_mem16 :: "endian \<Rightarrow> u_int8 \<Rightarrow> u_int8 \<Rightarrow> u_int16" where
  "of_mem16 Little a b = join16 b a"
| "of_mem16 Big a b = join16 a b"

definition rd16 :: "endian \<Rightarrow> bytes \<Rightarrow> nat \<Rightarrow> c_error + u_int16" where
  "rd16 en d i =
     (if i + 1 < length d then Inr (of_mem16 en (d ! i) (d ! (i + 1))) else Inl Out_of_bounds)"

fun ntohs :: "endian \<Rightarrow> u_int16 \<Rightarrow> u_int16" where
  "ntohs Little w = join16 (lo8 w) (hi8 w)"
| "ntohs Big w = w"

abbreviation htons :: "endian \<Rightarrow> u_int16 \<Rightarrow> u_int16" where
  "htons \<equiv> ntohs"

lemma hi8_join16 [simp]: "hi8 (join16 h l) = h"
  unfolding hi8_def join16_def
  by (rule bit_word_eqI) (auto simp: bit_simps dest: bit_imp_le_length)

lemma lo8_join16 [simp]: "lo8 (join16 h l) = l"
  unfolding lo8_def join16_def
  by (rule bit_word_eqI) (auto simp: bit_simps dest: bit_imp_le_length)

lemma join16_hi_lo [simp]: "join16 (hi8 w) (lo8 w) = w"
  unfolding lo8_def hi8_def join16_def
  by (rule bit_word_eqI) (auto simp: bit_simps dest: bit_imp_le_length)

lemma ntohs_ntohs [simp]: "ntohs en (ntohs en w) = w"
  by (cases en) simp_all

lemma ntohs_zero [simp]: "ntohs en 0 = 0"
  by (cases en) (simp_all add: join16_def hi8_def lo8_def)

lemma ntohs_of_mem16 [simp]: "ntohs en (of_mem16 en a b) = join16 a b"
  by (cases en) simp_all

lemma unat_join16: "unat (join16 h l) = 256 * unat h + unat l"
proof -
  have "join16 h l = push_bit 8 (ucast h) + ucast l"
    unfolding join16_def
    by (rule disjunctive_add [symmetric]) (auto simp: bit_simps dest: bit_imp_le_length)
  moreover have "unat (ucast b :: u_int16) = unat b" for b :: u_int8
    using unsigned_less [of b, where ?'a = nat] by (simp add: unsigned_ucast_eq take_bit_nat_eq_self_iff)
  ultimately show ?thesis
    using unsigned_less [of h, where ?'a = nat] unsigned_less [of l, where ?'a = nat]
    by (simp add: push_bit_eq_mult unat_word_ariths)
qed

lemma rd8_ok [decode_simps]: "i < length d \<Longrightarrow> rd8 d i = Inr (d ! i)"
  by (simp add: rd8_def)

lemma rd16_ok [decode_simps]:
  "i + 1 < length d \<Longrightarrow> rd16 en d i = Inr (of_mem16 en (d ! i) (d ! (i + 1)))"
  by (simp add: rd16_def)

lemma rd_bytes_ok [decode_simps]:
  "i + n \<le> length d \<Longrightarrow> rd_bytes d i n = Inr (take n (drop i d))"
  by (simp add: rd_bytes_def)

lemma rd8_eq_Inr: "rd8 d i = Inr x \<longleftrightarrow> i < length d \<and> x = d ! i"
  by (auto simp: rd8_def)

lemma rd16_eq_Inr:
  "rd16 en d i = Inr x \<longleftrightarrow> i + 1 < length d \<and> x = of_mem16 en (d ! i) (d ! (i + 1))"
  by (auto simp: rd16_def)

lemma rd_bytes_eq_Inr:
  "rd_bytes d i n = Inr x \<longleftrightarrow> i + n \<le> length d \<and> x = take n (drop i d)"
  by (auto simp: rd_bytes_def)

lemmas rd_eq_Inr = rd8_eq_Inr rd16_eq_Inr rd_bytes_eq_Inr

subsection \<open>Writing into a buffer\<close>

text \<open>\<open>overwrite b i s\<close>: the buffer \<open>b\<close> after \<open>s\<close> has been copied over its elements from \<open>i\<close> on.\<close>

definition overwrite :: "'a list \<Rightarrow> nat \<Rightarrow> 'a list \<Rightarrow> 'a list" where
  "overwrite b i s = take i b @ s @ drop (i + length s) b"

lemma length_overwrite [simp]: "i + length s \<le> length b \<Longrightarrow> length (overwrite b i s) = length b"
  by (simp add: overwrite_def)

lemma nth_overwrite:
  assumes "i + length s \<le> length b" and "k < length b"
  shows "overwrite b i s ! k = (if i \<le> k \<and> k < i + length s then s ! (k - i) else b ! k)"
  using assms by (auto simp: overwrite_def nth_append min_def)

lemma overwrite_append_left:
  "i + length s \<le> length a \<Longrightarrow> overwrite (a @ b) i s = overwrite a i s @ b"
  by (simp add: overwrite_def)

lemma overwrite_append_right:
  "length a \<le> i \<Longrightarrow> overwrite (a @ b) i s = a @ overwrite b (i - length a) s"
  by (simp add: overwrite_def)

lemma overwrite_exact: "length s = length m \<Longrightarrow> overwrite (a @ m @ b) (length a) s = a @ s @ b"
  by (simp add: overwrite_def)

lemma drop_overwrite:
  "i + length s \<le> k \<Longrightarrow> i + length s \<le> length b \<Longrightarrow> drop k (overwrite b i s) = drop k b"
  by (simp add: overwrite_def)

lemma take_overwrite: "k \<le> i \<Longrightarrow> i \<le> length b \<Longrightarrow> take k (overwrite b i s) = take k b"
  by (simp add: overwrite_def)

end
