(* ===== verification/Formats.thy ===== *)
theory Formats
  imports Prelude
begin

text \<open>
  The conversions of the C library that the program's format strings use
  (\<^verbatim>\<open>%d %u %x %02x %04x %02X %04X\<close>), \<^verbatim>\<open>strtoul\<close> in base 16 and \<^verbatim>\<open>strncpy\<close>. A C string is the
  list of its characters in front of the terminating NUL.
\<close>

subsection \<open>Digits\<close>

abbreviation NUL :: char where
  "NUL \<equiv> CHR 0x00"

definition nl :: string where
  "nl = [CHR 0x0A]"

definition hex_digit :: "bool \<Rightarrow> nat \<Rightarrow> char" where
  "hex_digit upper n =
     (if upper then ''0123456789ABCDEF'' else ''0123456789abcdef'') ! n"

fun hexs :: "bool \<Rightarrow> nat \<Rightarrow> string" where
  "hexs upper n =
     (if n < 16 then [hex_digit upper n]
      else hexs upper (n div 16) @ [hex_digit upper (n mod 16)])"

declare hexs.simps [simp del]

fun decs :: "nat \<Rightarrow> string" where
  "decs n = (if n < 10 then [hex_digit True n] else decs (n div 10) @ [hex_digit True (n mod 10)])"

declare decs.simps [simp del]

definition pad0 :: "nat \<Rightarrow> string \<Rightarrow> string" where
  "pad0 w s = replicate (w - length s) CHR ''0'' @ s"

text \<open>The argument of an integer conversion is an \<^verbatim>\<open>int\<close>; \<^verbatim>\<open>%X\<close> reads it as unsigned.\<close>

definition fmt_X :: "bool \<Rightarrow> nat \<Rightarrow> int \<Rightarrow> string" where
  "fmt_X upper w v = pad0 w (hexs upper (nat (v mod 2 ^ 32)))"

definition fmt_d :: "int \<Rightarrow> string" where
  "fmt_d v = (if v < 0 then CHR ''-'' # decs (nat (- v)) else decs (nat v))"

lemma hexs_nonempty [simp]: "hexs u n \<noteq> []"
  by (subst hexs.simps) simp

lemma decs_nonempty [simp]: "decs n \<noteq> []"
  by (subst decs.simps) simp

lemma length_pad0 [fmt_len]: "length (pad0 w s) = max w (length s)"
  by (simp add: pad0_def)

lemma length_hexs_le: "n < 16 ^ k \<Longrightarrow> 0 < k \<Longrightarrow> length (hexs u n) \<le> k"
proof (induction k arbitrary: n)
  case (Suc k)
  show ?case
  proof (cases "n < 16")
    case True
    then show ?thesis by (subst hexs.simps) simp
  next
    case False
    with Suc.prems have "n div 16 < 16 ^ k" and "0 < k"
      by (auto simp: less_mult_imp_div_less mult.commute intro: Nat.gr0I)
    then have "length (hexs u (n div 16)) \<le> k" by (rule Suc.IH)
    with False show ?thesis by (subst hexs.simps) simp
  qed
qed simp

lemma length_decs_le: "n < 10 ^ k \<Longrightarrow> 0 < k \<Longrightarrow> length (decs n) \<le> k"
proof (induction k arbitrary: n)
  case (Suc k)
  show ?case
  proof (cases "n < 10")
    case True
    then show ?thesis by (subst decs.simps) simp
  next
    case False
    with Suc.prems have "n div 10 < 10 ^ k" and "0 < k"
      by (auto simp: less_mult_imp_div_less mult.commute intro: Nat.gr0I)
    then have "length (decs (n div 10)) \<le> k" by (rule Suc.IH)
    with False show ?thesis by (subst decs.simps) simp
  qed
qed simp

lemma length_fmt_X [fmt_len]:
  assumes "0 \<le> v" and "v < 16 ^ w" and "0 < w" and "w \<le> 8"
  shows "length (fmt_X u w v) = w"
proof -
  have "(16 :: int) ^ w \<le> 16 ^ 8" using assms(4) by (intro power_increasing) auto
  with assms(1,2) have "v mod 2 ^ 32 = v" by simp
  moreover have "nat v < 16 ^ w"
    using assms(1,2) by (simp add: nat_less_iff)
  ultimately show ?thesis
    using length_hexs_le [of "nat v" w u] assms(3) by (simp add: fmt_X_def length_pad0)
qed

lemma length_fmt_byte [fmt_len]: "length (fmt_X u 2 (uint (b :: u_int8))) = 2"
  using unsigned_less [of b, where ?'a = int] by (intro length_fmt_X) simp_all

subsection \<open>Reading hexadecimal numbers\<close>

definition hex_value :: "char \<Rightarrow> nat option" where
  "hex_value c =
     (let n = of_char c :: nat in
      if 48 \<le> n \<and> n \<le> 57 then Some (n - 48)
      else if 65 \<le> n \<and> n \<le> 70 then Some (n - 55)
      else if 97 \<le> n \<and> n \<le> 102 then Some (n - 87)
      else None)"

definition is_space :: "char \<Rightarrow> bool" where
  "is_space c \<longleftrightarrow> (let n = of_char c :: nat in n = 32 \<or> (9 \<le> n \<and> n \<le> 13))"

fun hex_prefix :: "nat \<Rightarrow> string \<Rightarrow> nat" where
  "hex_prefix acc [] = acc"
| "hex_prefix acc (c # s) =
     (case hex_value c of None \<Rightarrow> acc | Some v \<Rightarrow> hex_prefix (16 * acc + v) s)"

text \<open>
  \<^verbatim>\<open>strtoul(s, NULL, 16)\<close>: white space, a sign, \<^verbatim>\<open>0x\<close>, then the longest run of digits; 0 when there
  is none. The program only calls it on a string of at most two characters, so the value never
  reaches the limit of \<^verbatim>\<open>unsigned long\<close>.
\<close>

definition drop_0x :: "string \<Rightarrow> string" where
  "drop_0x s =
     (case s of
        a # b # c # r \<Rightarrow>
          if a = CHR ''0'' \<and> (b = CHR ''x'' \<or> b = CHR ''X'') \<and> hex_value c \<noteq> None
          then c # r else s
      | _ \<Rightarrow> s)"

definition strtoul16 :: "string \<Rightarrow> int" where
  "strtoul16 s =
     (let t = dropWhile is_space s in
      case t of
        [] \<Rightarrow> 0
      | c # r \<Rightarrow>
          if c = CHR ''-'' then - int (hex_prefix 0 (drop_0x r))
          else if c = CHR ''+'' then int (hex_prefix 0 (drop_0x r))
          else int (hex_prefix 0 (drop_0x t)))"

lemma hex_value_digit [simp]:
  assumes "n < 16"
  shows "hex_value (hex_digit u n) = Some n"
proof -
  have "n \<in> set [0..<16]" using assms by simp
  moreover have "\<forall>n \<in> set [0..<16]. hex_value (hex_digit u n) = Some n"
    by (cases u) (simp_all add: hex_value_def hex_digit_def upt_conv_Cons)
  ultimately show ?thesis by blast
qed

lemma hex_digit_not_space:
  assumes "n < 16"
  shows "\<not> is_space (hex_digit u n)" and "hex_digit u n \<noteq> CHR ''-''"
    and "hex_digit u n \<noteq> CHR ''+''" and "hex_digit u n \<noteq> CHR ''x''"
    and "hex_digit u n \<noteq> CHR ''X''" and "hex_digit u n \<noteq> NUL"
proof -
  have "n \<in> set [0..<16]" using assms by simp
  moreover have "\<forall>n \<in> set [0..<16]. \<not> is_space (hex_digit u n) \<and> hex_digit u n \<noteq> CHR ''-'' \<and>
      hex_digit u n \<noteq> CHR ''+'' \<and> hex_digit u n \<noteq> CHR ''x'' \<and> hex_digit u n \<noteq> CHR ''X'' \<and>
      hex_digit u n \<noteq> NUL"
    by (cases u) (simp_all add: is_space_def hex_digit_def upt_conv_Cons)
  ultimately show "\<not> is_space (hex_digit u n)" and "hex_digit u n \<noteq> CHR ''-''"
    and "hex_digit u n \<noteq> CHR ''+''" and "hex_digit u n \<noteq> CHR ''x''"
    and "hex_digit u n \<noteq> CHR ''X''" and "hex_digit u n \<noteq> NUL"
    by blast+
qed

lemma hexs_digits: "c \<in> set (hexs u n) \<Longrightarrow> \<exists>k < 16. c = hex_digit u k"
proof (induction u n rule: hexs.induct)
  case (1 u n)
  show ?case
  proof (cases "n < 16")
    case True
    with "1.prems" show ?thesis by (auto simp: hexs.simps [of u n])
  next
    case False
    with "1.prems" have "c \<in> set (hexs u (n div 16)) \<or> c = hex_digit u (n mod 16)"
      by (auto simp: hexs.simps [of u n])
    moreover have "n mod 16 < 16" by simp
    ultimately show ?thesis using "1.IH" [OF False] by blast
  qed
qed

lemma decs_digits: "c \<in> set (decs n) \<Longrightarrow> \<exists>k < 10. c = hex_digit True k"
proof (induction n rule: decs.induct)
  case (1 n)
  show ?case
  proof (cases "n < 10")
    case True
    with "1.prems" show ?thesis by (auto simp: decs.simps [of n])
  next
    case False
    with "1.prems" have "c \<in> set (decs (n div 10)) \<or> c = hex_digit True (n mod 10)"
      by (auto simp: decs.simps [of n])
    moreover have "n mod 10 < 10" by simp
    ultimately show ?thesis using "1.IH" [OF False] by blast
  qed
qed

text \<open>Formatted numbers hold no NUL.\<close>

lemma hexs_no_NUL [simp]: "NUL \<notin> set (hexs u n)"
  using hexs_digits hex_digit_not_space(6) by metis

lemma decs_no_NUL [simp]: "NUL \<notin> set (decs n)"
proof
  assume "NUL \<in> set (decs n)"
  then obtain k where "k < 10" and "NUL = hex_digit True k" using decs_digits by blast
  then show False using hex_digit_not_space(6) [of k True] by simp
qed

lemma fmt_X_no_NUL [simp]: "NUL \<notin> set (fmt_X u w v)"
  by (simp add: fmt_X_def pad0_def)

lemma fmt_d_no_NUL [simp]: "NUL \<notin> set (fmt_d v)"
  by (simp add: fmt_d_def)

text \<open>A number below 256 printed with two digits: which digits they are, and that it reads back.\<close>

lemma pad2_hexs:
  assumes "n < 256"
  shows "pad0 2 (hexs u n) = [hex_digit u (n div 16), hex_digit u (n mod 16)]"
proof (cases "n < 16")
  case True
  then show ?thesis by (simp add: hexs.simps [of u n] pad0_def hex_digit_def)
next
  case False
  with assms have "n div 16 < 16" by simp
  with False show ?thesis
    by (simp add: hexs.simps [of u n] hexs.simps [of u "n div 16"] pad0_def)
qed

lemma strtoul16_pad2:
  assumes "n < 256"
  shows "strtoul16 (pad0 2 (hexs u n)) = int n"
proof -
  have "n div 16 < 16" and "n mod 16 < 16" using assms by simp_all
  then show ?thesis
    unfolding pad2_hexs [OF assms]
    by (simp add: strtoul16_def hex_digit_not_space drop_0x_def Let_def)
qed

lemma pad2_no_NUL: "NUL \<notin> set (pad0 2 (hexs u n))"
  by (simp add: pad0_def)

subsection \<open>strncpy\<close>

text \<open>The bytes \<^verbatim>\<open>strncpy(dst, s, n)\<close> stores: the string, cut or padded with NUL to \<open>n\<close> bytes.\<close>

definition strncpy_bytes :: "string \<Rightarrow> nat \<Rightarrow> string" where
  "strncpy_bytes s n = take n (s @ replicate n NUL)"

lemma length_strncpy_bytes [simp]: "length (strncpy_bytes s n) = n"
  by (simp add: strncpy_bytes_def)

lemma strncpy_bytes_take: "n \<le> length s \<Longrightarrow> strncpy_bytes s n = take n s"
  by (simp add: strncpy_bytes_def)

text \<open>The string a buffer holds: its characters in front of the first NUL.\<close>

definition c_str :: "string \<Rightarrow> string" where
  "c_str b = takeWhile (\<lambda>c. c \<noteq> NUL) b"

lemma c_str_append_NUL: "NUL \<notin> set s \<Longrightarrow> c_str (s @ NUL # r) = s"
  by (auto simp: c_str_def takeWhile_append)

lemma NUL_notin_c_str [simp]: "NUL \<notin> set (c_str b)"
  by (auto simp: c_str_def dest: set_takeWhileD)

end
