(* ===== verification/Curses.thy ===== *)
theory Curses
  imports Formats "HOL-Library.Signed_Division" "HOL-Library.Multiset"
begin

text \<open>
  \<^verbatim>\<open>src/lmap_ncurses.c\<close> and \<^verbatim>\<open>include/lmap_ncurses.h\<close>: the windows with a border and a title, and the
  windows that scroll. The library \<^verbatim>\<open>ncurses\<close> is not modelled: a function of the program adds the calls
  it makes, with their arguments, to a trace, and a record holds what the library answers.
\<close>

subsection \<open>The calls of the library\<close>

text \<open>A \<^verbatim>\<open>WINDOW *\<close>; \<^term>\<open>None\<close> is \<^verbatim>\<open>NULL\<close>, for which every call returns \<^verbatim>\<open>ERR\<close>.\<close>

type_synonym handle = "nat option"

datatype glyph =
    ACS_VLINE | ACS_HLINE | ACS_ULCORNER | ACS_URCORNER | ACS_LLCORNER | ACS_LRCORNER
  | ACS_LARROW | ACS_RARROW | ACS_CKBOARD | Blank

datatype pair = C_BORDER | C_TITLE | C_MENU | C_FOCUS

datatype attr = COLOR_PAIR pair | A_BOLD | A_REVERSE

datatype color = COLOR_WHITE | COLOR_CYAN | COLOR_YELLOW | COLOR_BLACK

datatype call =
    Initscr | Cbreak | Noecho | Nonl | Clear | Start_color | Init_pair pair color color | Curs_set int
  | Refresh | Endwin
  | Newwin handle int int int int | Newpad handle int int | Delwin handle
  | Wborder handle "glyph list" | Wmove handle int int | Waddstr handle string | Waddch handle glyph
  | Wattrset handle attr | Wattron handle attr | Wattroff handle attr | Scrollok handle bool
  | Keypad handle bool | Nodelay handle bool | Whline handle glyph int | Wvline handle glyph int
  | Mvwprintw handle int int string | Wprintw handle string
  | Werase handle | Redrawwin handle | Wrefresh handle | Wnoutrefresh handle
  | Pnoutrefresh handle int int int int int int | Doupdate

type_synonym trace = "call list"

text \<open>
  The environment: the size of the terminal, whether it has colours, whether memory is left for
  \<^verbatim>\<open>calloc\<close>, and the window that the next call of \<^verbatim>\<open>newwin\<close> or \<^verbatim>\<open>newpad\<close> with these lines and columns
  gives after the calls so far.
\<close>

record console =
  LINES :: int
  COLS :: int
  has_colors :: bool
  memory_left :: bool
  new_handle :: "trace \<Rightarrow> int \<Rightarrow> int \<Rightarrow> handle"

definition newwin :: "'z console_scheme \<Rightarrow> int \<Rightarrow> int \<Rightarrow> int \<Rightarrow> int \<Rightarrow> trace \<Rightarrow> handle \<times> trace" where
  "newwin E lines cols y x tr =
     (let h = new_handle E tr lines cols in (h, tr @ [Newwin h lines cols y x]))"

definition newpad :: "'z console_scheme \<Rightarrow> int \<Rightarrow> int \<Rightarrow> trace \<Rightarrow> handle \<times> trace" where
  "newpad E lines cols tr = (let h = new_handle E tr lines cols in (h, tr @ [Newpad h lines cols]))"

text \<open>The eight glyphs of every \<^verbatim>\<open>wborder\<close>.\<close>

definition border_glyphs :: "glyph list" where
  "border_glyphs = [ACS_VLINE, ACS_VLINE, ACS_HLINE, ACS_HLINE,
     ACS_ULCORNER, ACS_URCORNER, ACS_LLCORNER, ACS_LRCORNER]"

subsection \<open>Starting and leaving\<close>

definition ncurses_init :: "'z console_scheme \<Rightarrow> bool \<times> trace \<Rightarrow> bool \<times> trace" where
  "ncurses_init E s =
     (case s of (onscreen, tr) \<Rightarrow>
        (True, tr @ [Initscr, Cbreak, Noecho, Nonl, Clear] @
          (if has_colors E then [Start_color] else []) @
          [Init_pair C_BORDER COLOR_WHITE COLOR_BLACK, Init_pair C_TITLE COLOR_CYAN COLOR_BLACK,
           Init_pair C_MENU COLOR_CYAN COLOR_BLACK, Init_pair C_FOCUS COLOR_YELLOW COLOR_BLACK,
           Curs_set 0]))"

text \<open>It is called by the main program and again, through \<^verbatim>\<open>atexit\<close>, at the end of the process.\<close>

definition ncurses_cleanup :: "bool \<times> trace \<Rightarrow> bool \<times> trace" where
  "ncurses_cleanup s =
     (case s of (onscreen, tr) \<Rightarrow>
        if \<not> onscreen then (onscreen, tr) else (False, tr @ [Curs_set 1, Clear, Refresh, Endwin]))"

subsection \<open>Windows\<close>

record lmap_win =
  win :: handle
  lines :: int
  cols :: int
  win_x :: int
  win_y :: int
  title :: string

text \<open>
  A scrolling window has two: \<^verbatim>\<open>win\<close> is the inner pad, \<^verbatim>\<open>out\<close> the outer window with the border.
\<close>

record lmap_scrollwin = lmap_win +
  out :: handle
  y_scroll :: int
  y_max :: int

text \<open>The title between two blanks.\<close>

definition put_title :: "handle \<Rightarrow> string \<Rightarrow> trace" where
  "put_title h t = [Waddstr h '' '', Waddstr h t, Waddstr h '' '']"

definition lmap_newwin :: "'z console_scheme \<Rightarrow> int \<Rightarrow> int \<Rightarrow> int \<Rightarrow> int \<Rightarrow> string \<Rightarrow> trace \<Rightarrow> c_error + (lmap_win \<times> trace)" where
  "lmap_newwin E l c y x t tr =
     (if \<not> memory_left E then Inl (Exit_process ''can't allocate memory'')
      else (case newwin E l c y x tr of (h, tr) \<Rightarrow>
        Inr (\<lparr>win = h, lines = l, cols = c, win_x = x, win_y = y, title = t\<rparr>,
             tr @ [Wborder h border_glyphs, Wmove h 0 2, Wattrset h (COLOR_PAIR C_TITLE)] @
             put_title h t @ [Wattroff h (COLOR_PAIR C_TITLE), Scrollok h True])))"

text \<open>What \<^verbatim>\<open>lmap_redrawwin\<close> and \<^verbatim>\<open>lmap_redrawscrollwin\<close> draw to show that a window has the focus.\<close>

definition put_focus :: "handle \<Rightarrow> bool \<Rightarrow> trace" where
  "put_focus h focus =
     (if focus then [Wmove h 0 0, Wattron h (COLOR_PAIR C_FOCUS), Waddch h ACS_LARROW, Waddch h ACS_RARROW,
        Wattroff h (COLOR_PAIR C_FOCUS)] else [])"

definition lmap_redrawwin :: "lmap_win \<Rightarrow> bool \<Rightarrow> trace \<Rightarrow> trace" where
  "lmap_redrawwin w focus tr =
     (let h = win w in
      tr @ (if focus then [Wattron h A_BOLD] else []) @
      [Werase h, Wmove h 0 0, Wattron h (COLOR_PAIR C_BORDER), Wborder h border_glyphs] @
      put_focus h focus @
      [Wmove h 0 2, Wattrset h (COLOR_PAIR C_TITLE)] @ put_title h (title w) @ [Wattroff h (COLOR_PAIR C_TITLE)] @
      (if focus then [Wattroff h A_BOLD] else []) @
      [Wrefresh h])"

text \<open>The pointer is \<^verbatim>\<open>NULL\<close> afterwards.\<close>

definition lmap_delwin :: "lmap_win option \<Rightarrow> trace \<Rightarrow> c_error + (lmap_win option \<times> trace)" where
  "lmap_delwin w tr =
     (case w of
        None \<Rightarrow> Inl Null_pointer
      | Some v \<Rightarrow> Inr (None, tr @ [Werase (win v), Wrefresh (win v), Delwin (win v)]))"

subsection \<open>The scroll indicator\<close>

text \<open>The conversion to \<^verbatim>\<open>short\<close>.\<close>

definition short :: "int \<Rightarrow> int" where
  "short v = sint (word_of_int v :: 16 word)"

text \<open>The height and the first line of the indicator.\<close>

definition scroller :: "lmap_scrollwin \<Rightarrow> c_error + (int \<times> int)" where
  "scroller w =
     (if y_max w = 0 then Inl Division_by_zero
      else checked [lines w - 2, (lines w - 2) * (lines w - 2), lines w * y_scroll w, lines w - 1]
        (let height = short (((lines w - 2) * (lines w - 2)) sdiv y_max w);
             vpos = short ((lines w * y_scroll w) sdiv y_max w);
             height = (if height < 1 then 1 else height);
             vpos = (if vpos = 0 then 1 else vpos);
             vpos = (if vpos > (lines w - 1) - height then short ((lines w - 1) - height) else vpos) in
         Inr (height, vpos)))"

definition lmap_drawscroller :: "lmap_scrollwin \<Rightarrow> trace \<Rightarrow> c_error + trace" where
  "lmap_drawscroller w tr =
     bindE (scroller w) (\<lambda>(height, vpos).
       let h = out w in
       Inr (tr @ [Wattron h (COLOR_PAIR C_TITLE), Wattroff h A_BOLD,
              Wmove h 1 (win_x w + cols w - 1), Wvline h ACS_CKBOARD (lines w - 2), Wattron h A_REVERSE,
              Wmove h vpos (win_x w + cols w - 1), Wvline h Blank height, Wattroff h A_REVERSE, Wnoutrefresh h]))"

subsection \<open>Windows that scroll\<close>

text \<open>The macro \<^verbatim>\<open>SAFE_SCROLL_REFRESH\<close>.\<close>

definition scroll_refresh :: "lmap_scrollwin \<Rightarrow> trace" where
  "scroll_refresh w =
     [Pnoutrefresh (win w) (y_scroll w) 0 (win_y w + 1) (win_x w + 1) (win_y w + lines w - 2) (cols w - 1),
      Wnoutrefresh (out w), Doupdate]"

definition lmap_newscrollwin ::
  "'z console_scheme \<Rightarrow> int \<Rightarrow> int \<Rightarrow> int \<Rightarrow> int \<Rightarrow> string \<Rightarrow> int \<Rightarrow> trace \<Rightarrow> c_error + (lmap_scrollwin \<times> trace)" where
  "lmap_newscrollwin E l c y x t maxlines tr =
     (if \<not> memory_left E then Inl (Exit_process ''can't allocate memory'')
      else checked [c - 2, l - 2, maxlines - (l - 2), maxlines - (l - 2) - 1]
        (case newpad E maxlines (c - 2) tr of (pad, tr) \<Rightarrow>
         case newwin E l c y x tr of (border, tr) \<Rightarrow>
         let w = \<lparr>win = pad, lines = l, cols = c, win_x = x, win_y = y, title = t,
                  out = border, y_scroll = maxlines - (l - 2), y_max = maxlines\<rparr> in
         bindE (lmap_drawscroller w
           (tr @ [Scrollok pad True, Wmove pad (y_scroll w - 1) 0,
                  Wattrset border (COLOR_PAIR C_BORDER), Wborder border border_glyphs,
                  Wmove border 0 2, Wattrset border (COLOR_PAIR C_TITLE)] @ put_title border t @
            [Wattrset border (COLOR_PAIR C_BORDER)])) (\<lambda>tr.
         Inr (w, tr))))"

definition lmap_redrawscrollwin :: "lmap_scrollwin \<Rightarrow> bool \<Rightarrow> trace \<Rightarrow> c_error + trace" where
  "lmap_redrawscrollwin w focus tr =
     (let h = out w in
      bindE (lmap_drawscroller w
        (tr @ (if focus then [Wattron h A_BOLD] else []) @
         [Werase h, Wmove h 0 0, Wattron h (COLOR_PAIR C_BORDER), Wborder h border_glyphs] @
         put_focus h focus @
         [Wattron h (COLOR_PAIR C_TITLE), Wmove h 0 2] @ put_title h (title w) @ [Wattroff h (COLOR_PAIR C_TITLE)] @
         [Redrawwin h] @
         (if focus then [Wattroff h A_BOLD] else []))) (\<lambda>tr.
      Inr (tr @ scroll_refresh w)))"

text \<open>The position after a scroll by \<open>delta\<close> lines.\<close>

definition scroll_to :: "int \<Rightarrow> lmap_scrollwin \<Rightarrow> c_error + lmap_scrollwin" where
  "scroll_to delta w =
     (let p = y_scroll w + delta; p' = (if p < 0 then 0 else p); mx = y_max w - (lines w - 2) in
      checked [p, lines w - 2, mx] (Inr (w\<lparr>y_scroll := if p' > mx then mx else p'\<rparr>)))"

definition lmap_scroll :: "lmap_scrollwin \<Rightarrow> int \<Rightarrow> trace \<Rightarrow> c_error + (lmap_scrollwin \<times> trace)" where
  "lmap_scroll w delta tr =
     bindE (scroll_to delta w) (\<lambda>w.
     bindE (lmap_drawscroller w tr) (\<lambda>tr.
     Inr (w, tr @ scroll_refresh w)))"

definition lmap_delscrollwin :: "lmap_scrollwin option \<Rightarrow> trace \<Rightarrow> c_error + (lmap_scrollwin option \<times> trace)" where
  "lmap_delscrollwin w tr =
     (case w of
        None \<Rightarrow> Inl Null_pointer
      | Some v \<Rightarrow> Inr (None, tr @ [Werase (win v), Wrefresh (win v), Werase (out v), Wrefresh (out v),
          Delwin (win v), Delwin (out v)]))"

subsection \<open>What the calls do to the windows\<close>

fun hs :: "handle \<Rightarrow> nat multiset" where
  "hs None = {#}"
| "hs (Some h) = {#h#}"

fun opens :: "call \<Rightarrow> nat multiset" where
  "opens (Newwin h _ _ _ _) = hs h"
| "opens (Newpad h _ _) = hs h"
| "opens _ = {#}"

fun closes :: "call \<Rightarrow> nat multiset" where
  "closes (Delwin h) = hs h"
| "closes _ = {#}"

fun prints :: "handle \<Rightarrow> call \<Rightarrow> string list" where
  "prints h (Wprintw h' t) = (if h' = h then [t] else [])"
| "prints h _ = []"

text \<open>The windows that a trace creates, those it deletes, and the texts it prints to a window.\<close>

definition created :: "trace \<Rightarrow> nat multiset" where
  "created cs = sum_list (map opens cs)"

definition deleted :: "trace \<Rightarrow> nat multiset" where
  "deleted cs = sum_list (map closes cs)"

definition printed :: "handle \<Rightarrow> trace \<Rightarrow> string list" where
  "printed h cs = concat (map (prints h) cs)"

named_theorems trace_simps \<open>the effect of a trace on the windows\<close>

lemma trace_empty [trace_simps]: "created [] = {#}" "deleted [] = {#}" "printed h [] = []"
  by (simp_all add: created_def deleted_def printed_def)

lemma trace_Cons [trace_simps]:
  "created (c # cs) = opens c + created cs" "deleted (c # cs) = closes c + deleted cs"
  "printed h (c # cs) = prints h c @ printed h cs"
  by (simp_all add: created_def deleted_def printed_def)

lemma trace_append [trace_simps]:
  "created (cs @ ds) = created cs + created ds" "deleted (cs @ ds) = deleted cs + deleted ds"
  "printed h (cs @ ds) = printed h cs @ printed h ds"
  by (simp_all add: created_def deleted_def printed_def)

text \<open>Calls that neither create nor delete a window, and print nothing to a pad.\<close>

definition quiet :: "trace \<Rightarrow> bool" where
  "quiet cs \<longleftrightarrow> created cs = {#} \<and> deleted cs = {#} \<and> (\<forall>h. printed h cs = [])"

lemma quiet_simps [simp]:
  "quiet []" "quiet (cs @ ds) \<longleftrightarrow> quiet cs \<and> quiet ds"
  "quiet (c # cs) \<longleftrightarrow> opens c = {#} \<and> closes c = {#} \<and> (\<forall>h. prints h c = []) \<and> quiet cs"
  by (auto simp: quiet_def trace_simps)

lemma quietD [trace_simps]: "quiet cs \<Longrightarrow> created cs = {#}" "quiet cs \<Longrightarrow> deleted cs = {#}" "quiet cs \<Longrightarrow> printed h cs = []"
  by (simp_all add: quiet_def)

lemma quiet_draw [simp]: "quiet (put_title h t)" "quiet (put_focus h f)" "quiet (scroll_refresh w)"
  by (simp_all add: put_title_def put_focus_def scroll_refresh_def)

subsection \<open>Where a window scrolls to, and what the indicator covers\<close>

lemma short_id: "- (2 ^ 15) \<le> v \<Longrightarrow> v < 2 ^ 15 \<Longrightarrow> short v = v"
  by (simp add: short_def sint_sbintrunc' signed_take_bit_int_eq_self)

text \<open>
  The windows for which the arithmetic of \<^verbatim>\<open>lmap_ncurses.c\<close> is that of the integers: at least one line
  between the borders, not more of them than lines of the pad, and sizes for which no product overflows.
\<close>

definition scrollable :: "lmap_scrollwin \<Rightarrow> bool" where
  "scrollable w \<longleftrightarrow> 3 \<le> lines w \<and> lines w < 2 ^ 15 \<and> lines w - 2 \<le> y_max w \<and> y_max w < 2 ^ 15 \<and>
     0 \<le> y_scroll w \<and> y_scroll w \<le> y_max w - (lines w - 2)"

lemma sdiv_nonneg: "0 \<le> a \<Longrightarrow> 0 < b \<Longrightarrow> (a :: int) sdiv b = a div b"
  by (simp add: signed_divide_int_def sgn_if)

lemma product_bound:
  assumes "(0 :: int) \<le> a" and "a < 2 ^ 15" and "0 \<le> b" and "b < 2 ^ 15"
  shows "- (2 ^ 31) \<le> a * b" and "a * b < 2 ^ 31"
proof -
  have "a * b \<le> 2 ^ 15 * 2 ^ 15" using assms by (intro mult_mono) auto
  then show "a * b < 2 ^ 31" by simp
  have "0 \<le> a * b" using assms by simp
  then show "- (2 ^ 31) \<le> a * b" by simp
qed

lemma div_share_le: "(0 :: int) < n \<Longrightarrow> 0 \<le> k \<Longrightarrow> m \<le> n \<Longrightarrow> k * m div n \<le> k"
  using zdiv_mono1 [of "k * m" "k * n" n] by (simp add: mult_left_mono)

lemma scroller_ok:
  assumes "scrollable w"
  shows "\<exists>h v. scroller w = Inr (h, v) \<and> 1 \<le> h \<and> 1 \<le> v \<and> v + h \<le> lines w - 1"
proof -
  let ?i = "lines w - 2" and ?p = "y_scroll w" and ?m = "y_max w"
  have b: "1 \<le> ?i" "?i < 2 ^ 15" "?i \<le> ?m" "?m < 2 ^ 15" "0 \<le> ?p" "?p \<le> ?m" "?p < 2 ^ 15"
    "0 \<le> lines w" "lines w < 2 ^ 15"
    using assms by (auto simp: scrollable_def)
  have h: "0 \<le> ?i * ?i div ?m" "?i * ?i div ?m \<le> ?i"
    using b div_share_le [of ?m ?i ?i] by (auto simp: pos_imp_zdiv_nonneg_iff)
  have v: "0 \<le> lines w * ?p div ?m" "lines w * ?p div ?m \<le> lines w"
    using b div_share_le [of ?m "lines w" ?p] by (auto simp: pos_imp_zdiv_nonneg_iff)
  have "checked [?i, ?i * ?i, lines w * ?p, lines w - 1] r = r" for r :: "c_error + (int \<times> int)"
    using b product_bound [of ?i ?i] product_bound [of "lines w" ?p] by (simp add: checked_def)
  moreover have "short (?i * ?i sdiv ?m) = ?i * ?i div ?m" and "short (lines w * ?p sdiv ?m) = lines w * ?p div ?m"
    using b h v by (simp_all add: sdiv_nonneg short_id)
  moreover have "short k = k" if "0 \<le> k" "k \<le> lines w" for k
    using b that by (intro short_id) auto
  ultimately show ?thesis
    using b h v by (auto simp: scroller_def Let_def)
qed

lemma scrollable_set: "scrollable w \<Longrightarrow> 0 \<le> p \<Longrightarrow> p \<le> y_max w - (lines w - 2) \<Longrightarrow> scrollable (w\<lparr>y_scroll := p\<rparr>)"
  by (simp add: scrollable_def)

text \<open>The position that lies within the pad and is nearest to \<open>p\<close>.\<close>

definition clamp :: "lmap_scrollwin \<Rightarrow> int \<Rightarrow> int" where
  "clamp w p = max 0 (min p (y_max w - (lines w - 2)))"

lemma scroll_to_ok:
  assumes "scrollable w" and "\<bar>delta\<bar> < 2 ^ 30"
  shows "scroll_to delta w = Inr (w\<lparr>y_scroll := clamp w (y_scroll w + delta)\<rparr>)"
  using assms by (auto simp: scroll_to_def scrollable_def checked_def clamp_def Let_def max_def min_def)

lemma lmap_drawscroller_ok:
  assumes "scrollable w"
  obtains cs where "lmap_drawscroller w tr = Inr (tr @ cs)" and "\<forall>h a b c d e f. Pnoutrefresh h a b c d e f \<notin> set cs"
  using scroller_ok [OF assms] by (auto simp: lmap_drawscroller_def Let_def intro: that)

lemma lmap_drawscroller_quiet:
  assumes "scrollable w"
  obtains cs where "lmap_drawscroller w tr = Inr (tr @ cs)" and "quiet cs"
  using scroller_ok [OF assms] by (auto simp: lmap_drawscroller_def Let_def intro: that)

lemma lmap_scroll_ok:
  assumes "scrollable w" and "\<bar>delta\<bar> < 2 ^ 30"
  obtains cs where "lmap_scroll w delta tr =
      Inr (w\<lparr>y_scroll := clamp w (y_scroll w + delta)\<rparr>, tr @ cs @ scroll_refresh (w\<lparr>y_scroll := clamp w (y_scroll w + delta)\<rparr>))"
    and "\<forall>h a b c d e f. Pnoutrefresh h a b c d e f \<notin> set cs"
    and "scrollable (w\<lparr>y_scroll := clamp w (y_scroll w + delta)\<rparr>)"
proof -
  let ?w = "w\<lparr>y_scroll := clamp w (y_scroll w + delta)\<rparr>"
  have s: "scrollable ?w" using assms(1) by (intro scrollable_set) (auto simp: clamp_def scrollable_def)
  obtain cs where cs: "lmap_drawscroller ?w tr = Inr (tr @ cs)" "\<forall>h a b c d e f. Pnoutrefresh h a b c d e f \<notin> set cs"
    using lmap_drawscroller_ok [OF s] .
  show ?thesis
    using cs s by (intro that [of cs]) (simp_all add: lmap_scroll_def scroll_to_ok [OF assms])
qed

text \<open>A sequence of scrolls, as the keys of the screen make them.\<close>

fun scrolls :: "int list \<Rightarrow> lmap_scrollwin \<Rightarrow> trace \<Rightarrow> c_error + (lmap_scrollwin \<times> trace)" where
  "scrolls [] w tr = Inr (w, tr)"
| "scrolls (d # ds) w tr = bindE (lmap_scroll w d tr) (\<lambda>(w, tr). scrolls ds w tr)"

text \<open>What a refresh of the pad may show.\<close>

fun within_pad :: "int \<Rightarrow> int \<Rightarrow> call \<Rightarrow> bool" where
  "within_pad n m (Pnoutrefresh h p _ y _ y' _) \<longleftrightarrow> 0 \<le> p \<and> y' - y = n - 1 \<and> p + n \<le> m"
| "within_pad n m _ = True"

lemma within_pad_other: "\<forall>h a b c d e f. Pnoutrefresh h a b c d e f \<notin> set cs \<Longrightarrow> list_all (within_pad n m) cs"
  unfolding list_all_iff by (metis within_pad.elims(3))

lemma foldl_clamp:
  assumes "scrollable w"
  shows "0 \<le> foldl (\<lambda>p d. clamp w (p + d)) (y_scroll w) ds"
    and "foldl (\<lambda>p d. clamp w (p + d)) (y_scroll w) ds \<le> y_max w - (lines w - 2)"
  using assms by (induction ds rule: rev_induct) (auto simp: scrollable_def clamp_def)

lemma scrolls_ok:
  assumes "scrollable w" and "\<forall>d \<in> set ds. \<bar>d\<bar> < 2 ^ 30"
  shows "\<exists>cs. scrolls ds w tr =
      Inr (w\<lparr>y_scroll := foldl (\<lambda>p d. clamp w (p + d)) (y_scroll w) ds\<rparr>, tr @ cs) \<and>
    list_all (within_pad (lines w - 2) (y_max w)) cs"
  using assms
proof (induction ds arbitrary: w tr)
  case (Cons d ds)
  let ?w = "w\<lparr>y_scroll := clamp w (y_scroll w + d)\<rparr>"
  from Cons.prems have "scrollable w" "\<bar>d\<bar> < 2 ^ 30" by simp_all
  then obtain cs where cs: "lmap_scroll w d tr = Inr (?w, tr @ cs @ scroll_refresh ?w)"
    "\<forall>h a b c d e f. Pnoutrefresh h a b c d e f \<notin> set cs" "scrollable ?w"
    using lmap_scroll_ok by blast
  obtain ds' where ds': "scrolls ds ?w (tr @ cs @ scroll_refresh ?w) =
      Inr (w\<lparr>y_scroll := foldl (\<lambda>p d. clamp w (p + d)) (clamp w (y_scroll w + d)) ds\<rparr>, tr @ cs @ scroll_refresh ?w @ ds')"
    "list_all (within_pad (lines w - 2) (y_max w)) ds'"
    using Cons.IH [of ?w "tr @ cs @ scroll_refresh ?w"] cs(3) Cons.prems(2) by (auto simp: clamp_def)
  have "list_all (within_pad (lines w - 2) (y_max w)) (scroll_refresh ?w)"
    using cs(3) by (simp add: scroll_refresh_def scrollable_def)
  then show ?case
    using cs(1) ds' within_pad_other [OF cs(2)] by (intro exI [of _ "cs @ scroll_refresh ?w @ ds'"]) simp
qed simp

lemma lmap_newscrollwin_ok:
  assumes "memory_left E" and "3 \<le> l" and "l - 2 \<le> m" and "l < 2 ^ 15" and "m < 2 ^ 15" and "\<bar>c\<bar> < 2 ^ 30"
  obtains w cs where "lmap_newscrollwin E l c y x t m tr = Inr (w, tr @ [Newpad (win w) m (c - 2), Newwin (out w) l c y x] @ cs)"
    and "scrollable w" and "y_scroll w = m - (l - 2)" and "lines w = l" and "y_max w = m"
    and "quiet cs"
proof -
  let ?pad = "new_handle E tr m (c - 2)"
  let ?border = "new_handle E (tr @ [Newpad ?pad m (c - 2)]) l c"
  let ?w = "\<lparr>win = ?pad, lines = l, cols = c, win_x = x, win_y = y, title = t,
    out = ?border, y_scroll = m - (l - 2), y_max = m\<rparr>"
  have s: "scrollable ?w" using assms by (simp add: scrollable_def)
  have c: "checked [c - 2, l - 2, m - (l - 2), m - l + 1] r = r" for r :: "c_error + (lmap_scrollwin \<times> trace)"
    using assms by (auto simp: checked_def abs_less_iff)
  obtain h v where hv: "scroller ?w = Inr (h, v)" using scroller_ok [OF s] by blast
  have "\<exists>cs. lmap_newscrollwin E l c y x t m tr = Inr (?w, tr @ [Newpad ?pad m (c - 2), Newwin ?border l c y x] @ cs) \<and> quiet cs"
    using assms(1) hv
    by (simp add: lmap_newscrollwin_def newpad_def newwin_def Let_def lmap_drawscroller_def put_title_def c add.commute [of 1])
  then obtain cs where "lmap_newscrollwin E l c y x t m tr = Inr (?w, tr @ [Newpad ?pad m (c - 2), Newwin ?border l c y x] @ cs)"
      "quiet cs" by blast
  with s show ?thesis by (intro that [of ?w cs]) simp_all
qed


definition small_console :: console where
  "small_console = \<lparr>LINES = 24, COLS = 80, has_colors = True, memory_left = True, new_handle = (\<lambda>tr _ _. Some (length tr))\<rparr>"


end
