(* ===== verification/Ui.thy ===== *)
theory Ui
  imports Formats
begin

text \<open>
  \<^verbatim>\<open>src/lmap_ui.c\<close>: the hooks of the user interface and the queue of messages. Any thread puts a
  message into the queue with \<^verbatim>\<open>ui_msg\<close> (the macro \<^verbatim>\<open>USER_MSG\<close>); the interface takes them out with
  \<^verbatim>\<open>ui_msg_flush\<close>.
\<close>

subsection \<open>Hooks\<close>

text \<open>The function pointers are values of a type \<open>'h\<close>; \<^term>\<open>None\<close> is \<^verbatim>\<open>NULL\<close>.\<close>

record 'h ui_env =
  init :: 'h
  start :: 'h
  cleanup :: 'h
  msg :: 'h

record 'h ui_ops =
  ui_init :: "'h option"
  ui_start :: "'h option"
  ui_cleanup :: "'h option"
  ui_msg_op :: "'h option"

definition ui_default :: "'h \<Rightarrow> 'h \<Rightarrow> 'h ui_env" where
  "ui_default do_nothing printf = \<lparr>init = do_nothing, start = do_nothing, cleanup = do_nothing, msg = printf\<rparr>"

definition hook :: "string \<Rightarrow> 'h option \<Rightarrow> c_error + 'h" where
  "hook name h = (case h of None \<Rightarrow> Inl (Exit_process name) | Some f \<Rightarrow> Inr f)"

definition ui_register :: "'h ui_ops \<Rightarrow> 'h ui_env \<Rightarrow> c_error + 'h ui_env" where
  "ui_register ops ui =
     bindE (hook ''BUG: ui_init is equal to NULL'' (ui_init ops)) (\<lambda>f.
     let ui = ui\<lparr>init := f\<rparr> in
     bindE (hook ''BUG: ui_cleanup is equal to NULL'' (ui_cleanup ops)) (\<lambda>f.
     let ui = ui\<lparr>cleanup := f\<rparr> in
     bindE (hook ''BUG: ui_start is equal to NULL'' (ui_start ops)) (\<lambda>f.
     let ui = ui\<lparr>start := f\<rparr> in
     bindE (hook ''BUG: ui_msg is equal to NULL'' (ui_msg_op ops)) (\<lambda>f.
     Inr (ui\<lparr>msg := f\<rparr>)))))"

lemma ui_register_ok:
  "ui_register \<lparr>ui_init = Some a, ui_start = Some b, ui_cleanup = Some c, ui_msg_op = Some d\<rparr> ui =
    Inr (ui\<lparr>init := a, start := b, cleanup := c, msg := d\<rparr>)"
  by (simp add: ui_register_def hook_def)

lemma ui_register_NULL:
  assumes "ui_init ops = None \<or> ui_start ops = None \<or> ui_cleanup ops = None \<or> ui_msg_op ops = None"
  shows "\<exists>m. ui_register ops ui = Inl (Exit_process m)"
  using assms by (auto simp: ui_register_def hook_def split: option.splits)

subsection \<open>The buffer of a message\<close>

text \<open>
  The C library's \<^verbatim>\<open>vsnprintf\<close> with a formatted text \<open>s\<close>: it stores the first \<open>size - 1\<close> characters
  and returns the length of \<open>s\<close>, or, in the old library, -1 when the text did not fit.
\<close>

datatype libc = Glibc_2_1 | Glibc_2_0

definition vsnprintf :: "libc \<Rightarrow> nat \<Rightarrow> string \<Rightarrow> string \<times> int" where
  "vsnprintf lib sz s =
     (take (sz - 1) s, if lib = Glibc_2_0 \<and> sz \<le> length s then -1 else int (length s))"

text \<open>
  The loop of \<^verbatim>\<open>ui_msg\<close>: \<^term>\<open>None\<close> if it does not end. It ends with the buffer's text and size.
\<close>

partial_function (option) ui_msg_loop :: "libc \<Rightarrow> string \<Rightarrow> nat \<Rightarrow> (string \<times> nat) option" where
  "ui_msg_loop lib s sz =
     (case vsnprintf lib sz s of (buf, n) \<Rightarrow>
        if n > -1 \<and> n < int sz then Some (buf, sz)
        else ui_msg_loop lib s (if n > -1 then nat n + 1 else 2 * sz))"

lemma ui_msg_loop_new:
  "ui_msg_loop Glibc_2_1 s sz = Some (s, if length s < sz then sz else length s + 1)"
  by (subst ui_msg_loop.simps, simp add: vsnprintf_def)
     (subst ui_msg_loop.simps, simp add: vsnprintf_def)

lemma ui_msg_loop_old:
  "0 < sz \<Longrightarrow> \<exists>k. length s < 2 ^ k * sz \<and> (\<forall>j < k. 2 ^ j * sz \<le> length s) \<and>
    ui_msg_loop Glibc_2_0 s sz = Some (s, 2 ^ k * sz)"
proof (induction "Suc (length s) - sz" arbitrary: sz rule: less_induct)
  case less
  show ?case
  proof (cases "length s < sz")
    case True
    then have "ui_msg_loop Glibc_2_0 s sz = Some (s, 2 ^ 0 * sz)"
      by (subst ui_msg_loop.simps) (simp add: vsnprintf_def)
    with True show ?thesis by (intro exI [of _ 0]) simp
  next
    case False
    then have "\<exists>k. length s < 2 ^ k * (2 * sz) \<and> (\<forall>j < k. 2 ^ j * (2 * sz) \<le> length s) \<and>
        ui_msg_loop Glibc_2_0 s (2 * sz) = Some (s, 2 ^ k * (2 * sz))"
      using less.prems by (intro less.hyps) auto
    then obtain k where k: "length s < 2 ^ k * (2 * sz)" "\<forall>j < k. 2 ^ j * (2 * sz) \<le> length s"
      "ui_msg_loop Glibc_2_0 s (2 * sz) = Some (s, 2 ^ k * (2 * sz))"
      by blast
    have "ui_msg_loop Glibc_2_0 s sz = ui_msg_loop Glibc_2_0 s (2 * sz)"
      using False by (subst ui_msg_loop.simps) (simp add: vsnprintf_def)
    moreover have "2 ^ j * sz \<le> length s" if "j < Suc k" for j
      using that False k(2) by (cases j) auto
    ultimately show ?thesis using k(1,3) by (intro exI [of _ "Suc k"]) (simp add: mult.assoc)
  qed
qed

subsection \<open>The queue\<close>

text \<open>The queue, and the messages the hook \<^verbatim>\<open>ui.msg\<close> has been given.\<close>

record ui_state =
  messages_queue :: "string list"
  shown :: "string list"

definition simpleq_insert_tail :: "'m list \<Rightarrow> 'm \<Rightarrow> 'm list" where
  "simpleq_insert_tail q m = q @ [m]"

definition simpleq_remove_head :: "'m list \<Rightarrow> 'm list" where
  "simpleq_remove_head q = tl q"

definition ui_msg :: "libc \<Rightarrow> string \<Rightarrow> ui_state \<Rightarrow> c_error + ui_state" where
  "ui_msg lib text s =
     (case ui_msg_loop lib text 50 of
        None \<Rightarrow> Inl Endless_loop
      | Some (buf, sz) \<Rightarrow>
          Inr (s\<lparr>messages_queue := simpleq_insert_tail (messages_queue s) buf\<rparr>))"

text \<open>The \<^verbatim>\<open>while\<close> loop of \<^verbatim>\<open>ui_msg_flush\<close>, with its counter \<open>i\<close>.\<close>

fun flush_loop :: "int \<Rightarrow> int \<Rightarrow> string list \<Rightarrow> string list \<Rightarrow> int \<times> string list \<times> string list" where
  "flush_loop mx i [] out = (i, [], out)"
| "flush_loop mx i (m # q) out =
     (if i + 1 = mx then (i + 1, simpleq_remove_head (m # q), out @ [m])
      else flush_loop mx (i + 1) q (out @ [m]))"

definition ui_msg_flush :: "int \<Rightarrow> ui_state \<Rightarrow> int \<times> ui_state" where
  "ui_msg_flush mx s =
     (if messages_queue s = [] then (0, s)
      else (case flush_loop mx 0 (messages_queue s) (shown s) of
              (i, q, out) \<Rightarrow> (i, s\<lparr>messages_queue := q, shown := out\<rparr>)))"

lemma flush_loop_all: "mx \<le> i \<Longrightarrow> flush_loop mx i q out = (i + int (length q), [], out @ q)"
  by (induction q arbitrary: i out) auto

lemma flush_loop_some:
  "i < mx \<Longrightarrow> flush_loop mx i q out =
    (i + int (min (nat (mx - i)) (length q)), drop (nat (mx - i)) q, out @ take (nat (mx - i)) q)"
proof (induction q arbitrary: i out)
  case (Cons m q)
  show ?case
  proof (cases "i + 1 = mx")
    case True
    then have "mx - i = 1" by simp
    with True show ?thesis by (simp add: simpleq_remove_head_def)
  next
    case False
    with Cons.prems have "i + 1 < mx" and "nat (mx - i) = Suc (nat (mx - (i + 1)))" by auto
    with False Cons.IH [of "i + 1"] show ?thesis by simp
  qed
qed simp

lemma ui_msg_eq:
  "ui_msg lib text s = Inr (s\<lparr>messages_queue := messages_queue s @ [text]\<rparr>)"
proof -
  have "\<exists>sz. ui_msg_loop lib text 50 = Some (text, sz)"
    using ui_msg_loop_new ui_msg_loop_old [of 50 "text"] by (cases lib) auto
  then show ?thesis by (auto simp: ui_msg_def simpleq_insert_tail_def)
qed

lemma ui_msg_flush_eq:
  "ui_msg_flush mx s =
    (let n = (if 0 < mx then min (nat mx) (length (messages_queue s)) else length (messages_queue s)) in
     (int n, s\<lparr>messages_queue := drop n (messages_queue s),
               shown := shown s @ take n (messages_queue s)\<rparr>))"
  by (auto simp: ui_msg_flush_def Let_def flush_loop_all flush_loop_some min_def)

subsection \<open>The interface of a message queue\<close>

text \<open>
  What the producers and the user interface rely on: nothing is lost, nothing is shown twice, and
  the messages come out in the order in which they were sent.
\<close>

locale message_queue =
  fixes send :: "'m \<Rightarrow> 's \<Rightarrow> 's"
    and flush :: "int \<Rightarrow> 's \<Rightarrow> int \<times> 's"
    and pending :: "'s \<Rightarrow> 'm list"
    and displayed :: "'s \<Rightarrow> 'm list"
  assumes pending_send: "pending (send m s) = pending s @ [m]"
    and output_send: "displayed (send m s) = displayed s"
    and flush_moves: "displayed (snd (flush n s)) @ pending (snd (flush n s)) = displayed s @ pending s"
    and flush_count: "int (length (displayed (snd (flush n s)))) = int (length (displayed s)) + fst (flush n s)"
    and flush_all: "n \<le> 0 \<Longrightarrow> pending (snd (flush n s)) = []"
    and flush_bound: "0 < n \<Longrightarrow> fst (flush n s) = min n (int (length (pending s)))"
begin

text \<open>A run: the events in the order in which the mutex lets them happen.\<close>

fun run :: "('m + int) list \<Rightarrow> 's \<Rightarrow> 's" where
  "run [] s = s"
| "run (Inl m # es) s = run es (send m s)"
| "run (Inr n # es) s = run es (snd (flush n s))"

fun sent :: "('m + int) list \<Rightarrow> 'm list" where
  "sent [] = []"
| "sent (Inl m # es) = m # sent es"
| "sent (Inr n # es) = sent es"

lemma run_order: "displayed (run es s) @ pending (run es s) = displayed s @ pending s @ sent es"
proof (induction es s rule: run.induct)
  case (2 m es s)
  then show ?case by (simp add: pending_send output_send)
next
  case (3 n es s)
  have "displayed (run es (snd (flush n s))) @ pending (run es (snd (flush n s))) =
      (displayed (snd (flush n s)) @ pending (snd (flush n s))) @ sent es"
    using 3 by simp
  then show ?case by (simp only: flush_moves) simp
qed simp

lemma run_append: "run (es @ fs) s = run fs (run es s)"
  by (induction es s rule: run.induct) auto

lemma run_final_flush:
  assumes "n \<le> 0"
  shows "displayed (run (es @ [Inr n]) s) = displayed s @ pending s @ sent es"
  using run_order [of "es @ [Inr n]" s] flush_all [OF assms, of "run es s"]
    run_order [of es s] flush_moves [of n "run es s"]
  by (simp add: run_append)

end

definition send_msg :: "libc \<Rightarrow> string \<Rightarrow> ui_state \<Rightarrow> ui_state" where
  "send_msg lib text s = (case ui_msg lib text s of Inl e \<Rightarrow> s | Inr s' \<Rightarrow> s')"

interpretation ui: message_queue "send_msg lib" ui_msg_flush messages_queue shown for lib
  by unfold_locales
     (auto simp: send_msg_def ui_msg_eq ui_msg_flush_eq Let_def min_def)

subsection \<open>Properties\<close>

text \<open>
  \<^verbatim>\<open>ui_msg\<close> puts every message into the queue whole, however long it is and whichever result the
  library's \<^verbatim>\<open>vsnprintf\<close> gives for a text that does not fit: the loop that enlarges the buffer ends,
  with a buffer that is longer than the text.
\<close>

theorem ui_msg_whole_message:
  "ui_msg lib text s = Inr (s\<lparr>messages_queue := messages_queue s @ [text]\<rparr>) \<and>
    (\<exists>sz. ui_msg_loop lib text 50 = Some (text, sz) \<and> length text < sz \<and> sz \<le> max 50 (2 * length text + 1))"
proof -
  have "\<exists>sz. ui_msg_loop lib text 50 = Some (text, sz) \<and> length text < sz \<and> sz \<le> max 50 (2 * length text + 1)"
  proof (cases lib)
    case Glibc_2_1
    then show ?thesis by (auto simp: ui_msg_loop_new)
  next
    case Glibc_2_0
    obtain k where k: "length text < 2 ^ k * 50" "\<forall>j < k. 2 ^ j * 50 \<le> length text"
      "ui_msg_loop Glibc_2_0 text 50 = Some (text, 2 ^ k * 50)"
      using ui_msg_loop_old [of 50 "text"] by auto
    have "2 ^ k * 50 \<le> max 50 (2 * length text + 1)"
      using k(2) by (cases k) auto
    with k Glibc_2_0 show ?thesis by blast
  qed
  then show ?thesis by (simp add: ui_msg_eq)
qed

text \<open>
  In every run of sends and flushes, what has been shown and what still waits are together
  exactly what was sent, in the order in which it was sent; and a last flush without a limit leaves
  nothing waiting.
\<close>

theorem ui_messages_in_order:
  "shown (ui.run lib es s) @ messages_queue (ui.run lib es s) =
      shown s @ messages_queue s @ ui.sent es \<and>
    shown (ui.run lib (es @ [Inr (- 1)]) s) = shown s @ messages_queue s @ ui.sent es"
  by (simp add: ui.run_order ui.run_final_flush)

text \<open>
  \<^verbatim>\<open>ui_msg_flush(max)\<close> shows the oldest messages, at most \<open>max\<close> of them, and returns how many; a
  \<open>max\<close> of 0 or below shows them all.
\<close>

theorem ui_msg_flush_bound:
  "\<exists>n. fst (ui_msg_flush mx s) = int n \<and>
    n = (if 0 < mx then min (nat mx) (length (messages_queue s)) else length (messages_queue s)) \<and>
    shown (snd (ui_msg_flush mx s)) = shown s @ take n (messages_queue s) \<and>
    messages_queue (snd (ui_msg_flush mx s)) = drop n (messages_queue s)"
  by (simp add: ui_msg_flush_eq Let_def)

end
