(* ===== verification/Stat.thy ===== *)
theory Stat
  imports Prelude
begin

text \<open>
  \<^verbatim>\<open>src/lmap_stat.c\<close>: the packet counters. The list \<^verbatim>\<open>stat_list_head\<close> holds one element per
  registered name; \<^verbatim>\<open>get_all_stats\<close> walks it with a static pointer that survives between calls.
\<close>

subsection \<open>State and operations\<close>

text \<open>
  An element has an identity (its address) because the pointer of \<^verbatim>\<open>get_all_stats\<close> can still point
  to an element that \<^verbatim>\<open>register_stat\<close> has replaced and freed. \<open>next_addr\<close> stands for the allocator:
  addresses are not used twice.
\<close>

record stat_elem =
  addr :: nat
  stat_type :: string
  num :: u_int32

datatype stat_cursor = Cursor_unset | Cursor_at "nat option"

record stats =
  stat_list :: "stat_elem list"
  stat_entries :: u_int32
  next_addr :: nat
  current :: stat_cursor

definition stats_start :: stats where
  "stats_start = \<lparr>stat_list = [], stat_entries = 0, next_addr = 0, current = Cursor_unset\<rparr>"

text \<open>\<^verbatim>\<open>LIST_REPLACE\<close> of the first element with this name; \<^term>\<open>None\<close> when there is none.\<close>

fun list_replace :: "string \<Rightarrow> stat_elem \<Rightarrow> stat_elem list \<Rightarrow> stat_elem list option" where
  "list_replace t e [] = None"
| "list_replace t e (c # cs) =
     (if stat_type c = t then Some (e # cs) else map_option (Cons c) (list_replace t e cs))"

definition register_stat :: "string \<Rightarrow> stats \<Rightarrow> stats" where
  "register_stat t s =
     (let e = \<lparr>addr = next_addr s, stat_type = t, num = 0\<rparr>; s = s\<lparr>next_addr := next_addr s + 1\<rparr> in
      case list_replace t e (stat_list s) of
        Some l \<Rightarrow> s\<lparr>stat_list := l\<rparr>
      | None \<Rightarrow> s\<lparr>stat_list := e # stat_list s, stat_entries := stat_entries s + 1\<rparr>)"

definition get_stat_count :: "stats \<Rightarrow> u_int32" where
  "get_stat_count s = stat_entries s"

fun update_elems :: "string \<Rightarrow> u_int32 \<Rightarrow> stat_elem list \<Rightarrow> stat_elem list" where
  "update_elems t n [] = []"
| "update_elems t n (c # cs) =
     (if stat_type c = t then c\<lparr>num := num c + n\<rparr> else c) # update_elems t n cs"

definition update_stat :: "string \<Rightarrow> u_int32 \<Rightarrow> stats \<Rightarrow> stats" where
  "update_stat t n s = s\<lparr>stat_list := update_elems t n (stat_list s)\<rparr>"

fun get_num :: "string \<Rightarrow> stat_elem list \<Rightarrow> u_int32" where
  "get_num t [] = 0"
| "get_num t (c # cs) = (if stat_type c = t then num c else get_num t cs)"

definition get_stat :: "stats \<Rightarrow> string \<Rightarrow> u_int32" where
  "get_stat s t = get_num t (stat_list s)"

text \<open>The element at an address and the one behind it; the address of a freed element is an error.\<close>

fun elem_at :: "nat \<Rightarrow> stat_elem list \<Rightarrow> c_error + (stat_elem \<times> nat option)" where
  "elem_at a [] = Inl Use_after_free"
| "elem_at a (c # cs) =
     (if addr c = a then Inr (c, case cs of [] \<Rightarrow> None | d # _ \<Rightarrow> Some (addr d)) else elem_at a cs)"

definition list_first :: "stats \<Rightarrow> nat option" where
  "list_first s = (case stat_list s of [] \<Rightarrow> None | c # _ \<Rightarrow> Some (addr c))"

definition take_current :: "nat option \<Rightarrow> stats \<Rightarrow> c_error + ((string \<times> u_int32) option \<times> stats)" where
  "take_current p s =
     (case p of
        None \<Rightarrow> Inl Null_pointer
      | Some a \<Rightarrow>
          bindE (elem_at a (stat_list s)) (\<lambda>(e, n).
            Inr (Some (stat_type e, num e), s\<lparr>current := Cursor_at n\<rparr>)))"

text \<open>One call: \<^term>\<open>Some\<close> for the result 1 with \<^verbatim>\<open>*type\<close> and \<^verbatim>\<open>*num\<close>, \<^term>\<open>None\<close> for the result 0.\<close>

definition get_all_stats :: "stats \<Rightarrow> c_error + ((string \<times> u_int32) option \<times> stats)" where
  "get_all_stats s =
     (case current s of
        Cursor_unset \<Rightarrow> take_current (list_first s) s
      | Cursor_at None \<Rightarrow> Inr (None, s\<lparr>current := Cursor_at (list_first s)\<rparr>)
      | Cursor_at (Some a) \<Rightarrow> take_current (Some a) s)"

text \<open>\<^verbatim>\<open>free_stats\<close> removes and frees the head until the list is empty; the count is not reset.\<close>

fun free_elems :: "stat_elem list \<Rightarrow> stat_elem list" where
  "free_elems [] = []"
| "free_elems (c # cs) = free_elems cs"

definition free_stats :: "stats \<Rightarrow> stats" where
  "free_stats s = s\<lparr>stat_list := free_elems (stat_list s)\<rparr>"

text \<open>
  The loop of its caller, \<^verbatim>\<open>while (get_all_stats(&type, &num))\<close> (\<^verbatim>\<open>refresh_statistics\<close>). Fuel bounds
  the iterations; running out of it is \<^term>\<open>Endless_loop\<close>.
\<close>

fun all_stats :: "nat \<Rightarrow> stats \<Rightarrow> c_error + ((string \<times> u_int32) list \<times> stats)" where
  "all_stats 0 s = Inl Endless_loop"
| "all_stats (Suc n) s =
     bindE (get_all_stats s) (\<lambda>(r, s').
       case r of
         None \<Rightarrow> Inr ([], s')
       | Some p \<Rightarrow> bindE (all_stats n s') (\<lambda>(ps, s''). Inr (p # ps, s'')))"

subsection \<open>The list is a map from names to counters\<close>

definition counters :: "stats \<Rightarrow> string \<rightharpoonup> u_int32" where
  "counters s = map_of (map (\<lambda>c. (stat_type c, num c)) (stat_list s))"

definition stats_invar :: "stats \<Rightarrow> bool" where
  "stats_invar s \<longleftrightarrow>
     distinct (map stat_type (stat_list s)) \<and> distinct (map addr (stat_list s)) \<and>
     (\<forall>c \<in> set (stat_list s). addr c < next_addr s) \<and>
     stat_entries s = of_nat (length (stat_list s))"

lemma counters_None_iff: "counters s t = None \<longleftrightarrow> t \<notin> stat_type ` set (stat_list s)"
  by (simp add: counters_def map_of_eq_None_iff image_image)

lemma list_replace_None: "list_replace t e l = None \<longleftrightarrow> t \<notin> stat_type ` set l"
  by (induction l) auto

lemma list_replace_split:
  "list_replace t e l = Some l' \<Longrightarrow>
    \<exists>xs c ys. l = xs @ c # ys \<and> stat_type c = t \<and> t \<notin> stat_type ` set xs \<and> l' = xs @ e # ys"
proof (induction l arbitrary: l')
  case (Cons d ds)
  show ?case
  proof (cases "stat_type d = t")
    case True
    with Cons.prems show ?thesis by (intro exI [of _ "[]"]) auto
  next
    case False
    with Cons.prems obtain l1 where l1: "list_replace t e ds = Some l1" "l' = d # l1" by auto
    from Cons.IH [OF l1(1)] obtain xs c ys where
      "ds = xs @ c # ys" "stat_type c = t" "t \<notin> stat_type ` set xs" "l1 = xs @ e # ys" by blast
    with False l1(2) show ?thesis by (intro exI [of _ "d # xs"]) auto
  qed
qed simp

lemma list_replace_Some:
  assumes "list_replace t e l = Some l'" and "stat_type e = t" and "distinct (map stat_type l)"
  shows "map stat_type l' = map stat_type l" and "set l' \<subseteq> insert e (set l)"
    and "map_of (map (\<lambda>c. (stat_type c, num c)) l') u =
      (if u = t then Some (num e) else map_of (map (\<lambda>c. (stat_type c, num c)) l) u)"
    and "addr e \<notin> addr ` set l \<Longrightarrow> distinct (map addr l) \<Longrightarrow> distinct (map addr l')"
proof -
  obtain xs c ys where l: "l = xs @ c # ys" "stat_type c = t" "t \<notin> stat_type ` set xs" "l' = xs @ e # ys"
    using list_replace_split [OF assms(1)] by blast
  then have "map_of (map (\<lambda>c. (stat_type c, num c)) xs) t = None"
    by (simp add: map_of_eq_None_iff image_image)
  with l assms(2) show "map_of (map (\<lambda>c. (stat_type c, num c)) l') u =
      (if u = t then Some (num e) else map_of (map (\<lambda>c. (stat_type c, num c)) l) u)"
    by (auto simp: map_add_def split: option.splits)
  show "map stat_type l' = map stat_type l" and "set l' \<subseteq> insert e (set l)"
    and "addr e \<notin> addr ` set l \<Longrightarrow> distinct (map addr l) \<Longrightarrow> distinct (map addr l')"
    using l assms(2,3) by auto
qed

lemma stats_invar_start: "stats_invar stats_start"
  by (simp add: stats_invar_def stats_start_def)

lemma stats_invar_register:
  assumes "stats_invar s"
  shows "stats_invar (register_stat t s)"
proof (cases "list_replace t \<lparr>addr = next_addr s, stat_type = t, num = 0\<rparr> (stat_list s)")
  case None
  then have "t \<notin> stat_type ` set (stat_list s)" by (simp add: list_replace_None)
  with assms None show ?thesis
    by (auto simp: register_stat_def Let_def stats_invar_def less_Suc_eq)
next
  case (Some l)
  have "next_addr s \<notin> addr ` set (stat_list s)" using assms by (auto simp: stats_invar_def)
  with list_replace_Some [OF Some] assms have "distinct (map stat_type l)" "distinct (map addr l)"
    "set l \<subseteq> insert \<lparr>addr = next_addr s, stat_type = t, num = 0\<rparr> (set (stat_list s))"
    "length l = length (stat_list s)"
    by (auto simp: stats_invar_def dest: map_eq_imp_length_eq)
  with Some assms show ?thesis
    by (auto simp: register_stat_def Let_def stats_invar_def less_Suc_eq)
qed

lemma counters_register:
  assumes "stats_invar s"
  shows "counters (register_stat t s) = (counters s)(t \<mapsto> 0)"
proof (rule ext)
  fix u
  show "counters (register_stat t s) u = ((counters s)(t \<mapsto> 0)) u"
    using assms list_replace_Some(3) [of t "\<lparr>addr = next_addr s, stat_type = t, num = 0\<rparr>" "stat_list s" _ u]
    by (cases "list_replace t \<lparr>addr = next_addr s, stat_type = t, num = 0\<rparr> (stat_list s)")
       (auto simp: register_stat_def Let_def counters_def stats_invar_def)
qed

lemma map_update_elems [simp]:
  "map stat_type (update_elems t n l) = map stat_type l"
  "map addr (update_elems t n l) = map addr l"
  "length (update_elems t n l) = length l"
  by (induction l) auto

lemma addr_update_elems: "(\<forall>c \<in> set (update_elems t n l). addr c < k) = (\<forall>c \<in> set l. addr c < k)"
  by (induction l) auto

lemma stats_invar_update: "stats_invar s \<Longrightarrow> stats_invar (update_stat t n s)"
  by (simp add: stats_invar_def update_stat_def addr_update_elems)

lemma counters_update:
  "counters (update_stat t n s) =
    (case counters s t of None \<Rightarrow> counters s | Some v \<Rightarrow> (counters s)(t \<mapsto> v + n))"
  if "stats_invar s"
proof -
  have "map_of (map (\<lambda>c. (stat_type c, num c)) (update_elems t n l)) u =
      (if u = t then map_option (\<lambda>v. v + n) (map_of (map (\<lambda>c. (stat_type c, num c)) l) t)
       else map_of (map (\<lambda>c. (stat_type c, num c)) l) u)" for l u
    by (induction l) auto
  then show ?thesis
    by (auto simp: counters_def update_stat_def fun_eq_iff split: option.splits)
qed

lemma get_stat_counters: "get_stat s t = (case counters s t of None \<Rightarrow> 0 | Some v \<Rightarrow> v)"
proof -
  have "get_num t l = (case map_of (map (\<lambda>c. (stat_type c, num c)) l) t of None \<Rightarrow> 0 | Some v \<Rightarrow> v)" for l
    by (induction l) auto
  then show ?thesis by (simp add: get_stat_def counters_def)
qed

subsection \<open>The interface of a set of counters\<close>

text \<open>
  What the decoders and the statistics window rely on: a counter, once registered, shows the sum of
  its updates.
\<close>

locale counter_set =
  fixes register :: "'k \<Rightarrow> 's \<Rightarrow> 's"
    and update :: "'k \<Rightarrow> 'n::comm_monoid_add \<Rightarrow> 's \<Rightarrow> 's"
    and get :: "'s \<Rightarrow> 'k \<Rightarrow> 'n"
    and known :: "'s \<Rightarrow> 'k set"
    and invar :: "'s \<Rightarrow> bool"
  assumes invar_register: "invar s \<Longrightarrow> invar (register k s)"
    and invar_update: "invar s \<Longrightarrow> invar (update k n s)"
    and known_register: "invar s \<Longrightarrow> known (register k s) = insert k (known s)"
    and known_update: "invar s \<Longrightarrow> known (update k n s) = known s"
    and get_register: "invar s \<Longrightarrow> get (register k s) j = (if j = k then 0 else get s j)"
    and get_update: "invar s \<Longrightarrow>
      get (update k n s) j = (if j = k \<and> k \<in> known s then get s j + n else get s j)"
begin

definition updates :: "('k \<times> 'n) list \<Rightarrow> 's \<Rightarrow> 's" where
  "updates us s = fold (\<lambda>(k, n). update k n) us s"

definition registers :: "'k list \<Rightarrow> 's \<Rightarrow> 's" where
  "registers ks s = fold register ks s"

lemma invar_registers: "invar s \<Longrightarrow> invar (registers ks s)"
  unfolding registers_def by (induction ks arbitrary: s) (auto simp: invar_register)

lemma known_registers: "invar s \<Longrightarrow> known (registers ks s) = set ks \<union> known s"
  unfolding registers_def by (induction ks arbitrary: s) (auto simp: invar_register known_register)

lemma get_registers: "invar s \<Longrightarrow> get (registers ks s) j = (if j \<in> set ks then 0 else get s j)"
  unfolding registers_def by (induction ks arbitrary: s) (auto simp: invar_register get_register)

lemma get_updates:
  "invar s \<Longrightarrow> j \<in> known s \<Longrightarrow>
    get (updates us s) j = get s j + sum_list (map snd (filter (\<lambda>(k, n). k = j) us))"
proof (induction us arbitrary: s)
  case (Cons u us)
  obtain k n where u: "u = (k, n)" by (cases u) auto
  have "get (updates us (update k n s)) j =
      get (update k n s) j + sum_list (map snd (filter (\<lambda>(k, n). k = j) us))"
    using Cons by (intro Cons.IH) (simp_all add: invar_update known_update)
  then show ?case using Cons.prems
    by (auto simp: u updates_def get_update add.assoc)
qed (simp add: updates_def)

lemma get_updates_unknown: "invar s \<Longrightarrow> j \<notin> known s \<Longrightarrow> get (updates us s) j = get s j"
  unfolding updates_def
  by (induction us arbitrary: s) (auto simp: invar_update known_update get_update)

end

interpretation stat: counter_set register_stat update_stat get_stat "\<lambda>s. dom (counters s)" stats_invar
  by unfold_locales
     (auto simp: stats_invar_register stats_invar_update counters_register counters_update
       get_stat_counters dom_def split: option.splits if_splits)

subsection \<open>Properties\<close>

text \<open>
  C29: The list refines a map from names to counters: registering a name sets its counter to 0
  (whether it was known or not), updating adds, modulo 2 ^ 32, to a counter that is known and does
  nothing otherwise, a lookup gives 0 for an unknown name; and the invariant of the list (names and
  addresses distinct, \<^verbatim>\<open>stat_entries\<close> the number of elements) is preserved.
\<close>

theorem stat_refines_map:
  assumes "stats_invar s"
  shows "stats_invar (register_stat t s) \<and> counters (register_stat t s) = (counters s)(t \<mapsto> 0) \<and>
    stats_invar (update_stat t n s) \<and>
    counters (update_stat t n s) =
      (case counters s t of None \<Rightarrow> counters s | Some v \<Rightarrow> (counters s)(t \<mapsto> v + n)) \<and>
    get_stat s t = (case counters s t of None \<Rightarrow> 0 | Some v \<Rightarrow> v) \<and>
    get_stat_count (register_stat t s) =
      (if t \<in> dom (counters s) then get_stat_count s else get_stat_count s + 1)"
proof (intro conjI)
  have "t \<in> dom (counters s) \<longleftrightarrow>
      list_replace t \<lparr>addr = next_addr s, stat_type = t, num = 0\<rparr> (stat_list s) \<noteq> None"
    unfolding domIff counters_None_iff list_replace_None ..
  then show "get_stat_count (register_stat t s) =
      (if t \<in> dom (counters s) then get_stat_count s else get_stat_count s + 1)"
    by (auto simp: get_stat_count_def register_stat_def Let_def)
qed (use assms in \<open>simp_all add: stats_invar_register counters_register stats_invar_update
      counters_update get_stat_counters\<close>)

lemma stat_refines_map_witness:
  "counters (register_stat ''IP'' stats_start) = [''IP'' \<mapsto> 0]"
  using stat_refines_map [OF stats_invar_start, of "''IP''"]
  by (simp add: counters_def stats_start_def)

lemma elem_at_split:
  "distinct (map addr (xs @ c # ys)) \<Longrightarrow>
    elem_at (addr c) (xs @ c # ys) = Inr (c, case ys of [] \<Rightarrow> None | d # _ \<Rightarrow> Some (addr d))"
  by (induction xs) auto

definition first_addr :: "stat_elem list \<Rightarrow> nat option" where
  "first_addr l = (case l of [] \<Rightarrow> None | c # _ \<Rightarrow> Some (addr c))"

lemma all_stats_from:
  assumes "distinct (map addr (xs @ ys))" and "stat_list s = xs @ ys"
    and "current s = Cursor_at (first_addr ys)" and "length ys < k"
  shows "all_stats k s = Inr (map (\<lambda>c. (stat_type c, num c)) ys, s\<lparr>current := Cursor_at (list_first s)\<rparr>)"
  using assms
proof (induction ys arbitrary: xs s k)
  case Nil
  then obtain k' where "k = Suc k'" by (cases k) auto
  with Nil show ?case by (simp add: get_all_stats_def first_addr_def)
next
  case (Cons c ys)
  then obtain k' where k: "k = Suc k'" by (cases k) auto
  let ?s = "s\<lparr>current := Cursor_at (first_addr ys)\<rparr>"
  have "get_all_stats s = Inr (Some (stat_type c, num c), ?s)"
    using Cons.prems elem_at_split [of xs c ys]
    by (simp add: get_all_stats_def take_current_def first_addr_def)
  moreover have "all_stats k' ?s =
      Inr (map (\<lambda>c. (stat_type c, num c)) ys, ?s\<lparr>current := Cursor_at (list_first ?s)\<rparr>)"
    using Cons.prems k by (intro Cons.IH [of "xs @ [c]"]) auto
  ultimately show ?case by (simp add: k list_first_def)
qed

lemma all_stats_cycle:
  assumes "stats_invar s" and "stat_list s \<noteq> []"
    and "current s = Cursor_unset \<or> current s = Cursor_at (list_first s)"
  shows "all_stats (length (stat_list s) + 1) s =
    Inr (map (\<lambda>c. (stat_type c, num c)) (stat_list s), s\<lparr>current := Cursor_at (list_first s)\<rparr>)"
proof -
  let ?s = "s\<lparr>current := Cursor_at (list_first s)\<rparr>"
  have "list_first s \<noteq> None" using assms(2) by (cases "stat_list s") (auto simp: list_first_def)
  then have "get_all_stats s = get_all_stats ?s"
    using assms(3) by (auto simp: get_all_stats_def take_current_def split: option.splits)
  then have "all_stats (length (stat_list s) + 1) s = all_stats (length (stat_list s) + 1) ?s"
    by simp
  also have "\<dots> = Inr (map (\<lambda>c. (stat_type c, num c)) (stat_list s), ?s\<lparr>current := Cursor_at (list_first ?s)\<rparr>)"
    using assms(1,2) by (intro all_stats_from [of "[]"]) (auto simp: stats_invar_def first_addr_def list_first_def)
  finally show ?thesis by (simp add: list_first_def)
qed

text \<open>
  A loop that calls \<^verbatim>\<open>get_all_stats\<close> until it returns 0 ends, having seen every counter once, in
  the order of the list, and leaves the static pointer at the first element, so the next loop sees
  them all again. It needs at least one counter and a pointer that was never used or is at the
  first element.
\<close>

theorem get_all_stats_cycle:
  assumes "stats_invar s" and "stat_list s \<noteq> []"
    and "current s = Cursor_unset \<or> current s = Cursor_at (list_first s)"
  shows "all_stats (length (stat_list s) + 1) s =
    Inr (map (\<lambda>c. (stat_type c, num c)) (stat_list s), s\<lparr>current := Cursor_at (list_first s)\<rparr>)"
  using all_stats_cycle [OF assms] .

lemma get_all_stats_cycle_witness:
  "\<exists>s'. all_stats 3 (register_stat ''TCP'' (register_stat ''IP'' stats_start)) =
    Inr ([(''TCP'', 0), (''IP'', 0)], s')"
  using get_all_stats_cycle [of "register_stat ''TCP'' (register_stat ''IP'' stats_start)"]
    stats_invar_register [OF stats_invar_register [OF stats_invar_start], of "''TCP''" "''IP''"]
  by (simp add: register_stat_def stats_start_def numeral_3_eq_3)

end
