(* ===== verification/Missing.thy ===== *)
theory Missing
  imports Formats
begin

text \<open>
  The replacements for C library functions under \<^verbatim>\<open>src/missing/\<close>: \<^verbatim>\<open>strlcpy.c\<close>, \<^verbatim>\<open>strlcat.c\<close>,
  \<^verbatim>\<open>memcmp.c\<close>, \<^verbatim>\<open>memmem.c\<close> and \<^verbatim>\<open>strsep.c\<close>. A destination is the buffer's list of characters
  with its NULs; a source string is the list of its characters without the NUL. A store or a load
  outside a buffer is \<^term>\<open>Out_of_bounds\<close>.
\<close>

subsection \<open>strlcpy\<close>

text \<open>The copying loop: \<open>n\<close> counts down to 1 and stays there while \<open>s\<close> runs to its end.\<close>

fun strlcpy_loop :: "string \<Rightarrow> nat \<Rightarrow> string" where
  "strlcpy_loop [] n = []"
| "strlcpy_loop (c # s) n =
     (if n \<noteq> 1 then c # strlcpy_loop s (n - 1) else strlcpy_loop s n)"

definition store :: "string \<Rightarrow> nat \<Rightarrow> string \<Rightarrow> c_error + string" where
  "store b i s = (if i + length s \<le> length b then Inr (overwrite b i s) else Inl Out_of_bounds)"

definition strlcpy :: "string \<Rightarrow> string \<Rightarrow> nat \<Rightarrow> c_error + (string \<times> nat)" where
  "strlcpy dst src siz =
     (if siz = 0 then Inr (dst, length src)
      else bindE (store dst 0 (strlcpy_loop src siz @ [NUL])) (\<lambda>dst'. Inr (dst', length src)))"

lemma strlcpy_loop_take: "0 < n \<Longrightarrow> strlcpy_loop s n = take (n - 1) s"
proof (induction s n rule: strlcpy_loop.induct)
  case (2 c s n)
  then show ?case by (cases n) (auto simp: take_Cons' Suc_diff_Suc)
qed simp

lemma strlcpy_eq:
  assumes "0 < siz" and "siz \<le> length dst"
  shows "strlcpy dst src siz = Inr (overwrite dst 0 (take (siz - 1) src @ [NUL]), length src)"
  using assms by (auto simp: strlcpy_def strlcpy_loop_take store_def min_def)

subsection \<open>strlcat\<close>

text \<open>
  \<^verbatim>\<open>while (*d != 0 && n-- != 0) d++\<close>: the byte is read before the count is tested. The result is
  the number of steps.
\<close>

fun strlcat_end :: "string \<Rightarrow> nat \<Rightarrow> c_error + nat" where
  "strlcat_end [] n = Inl Out_of_bounds"
| "strlcat_end (c # b) n =
     (if c = NUL \<or> n = 0 then Inr 0 else bindE (strlcat_end b (n - 1)) (\<lambda>k. Inr (Suc k)))"

definition strlcat :: "string \<Rightarrow> string \<Rightarrow> nat \<Rightarrow> c_error + (string \<times> nat)" where
  "strlcat dst src siz =
     bindE (strlcat_end dst siz) (\<lambda>dlen.
       let n = siz - dlen in
       if n = 0 then Inr (dst, dlen + length src)
       else bindE (store dst dlen (strlcpy_loop src n @ [NUL]))
              (\<lambda>dst'. Inr (dst', dlen + length src)))"

lemma strlcat_end_found:
  "NUL \<in> set b \<Longrightarrow> length (c_str b) \<le> n \<Longrightarrow> strlcat_end b n = Inr (length (c_str b))"
  by (induction b n rule: strlcat_end.induct) (auto simp: c_str_def)

lemma strlcat_end_full:
  "n < length b \<Longrightarrow> NUL \<notin> set (take n b) \<Longrightarrow> strlcat_end b n = Inr n"
proof (induction b n rule: strlcat_end.induct)
  case (2 c b n)
  then show ?case by (cases n) auto
qed simp

lemma strlcat_end_overrun:
  "length b \<le> n \<Longrightarrow> NUL \<notin> set b \<Longrightarrow> strlcat_end b n = Inl Out_of_bounds"
  by (induction b n rule: strlcat_end.induct) auto

lemma strlcat_eq:
  assumes "NUL \<in> set dst" and "length (c_str dst) < siz" and "siz \<le> length dst"
  shows "strlcat dst src siz =
    Inr (overwrite dst (length (c_str dst)) (take (siz - length (c_str dst) - 1) src @ [NUL]),
         length (c_str dst) + length src)"
proof -
  have "strlcat_end dst siz = Inr (length (c_str dst))"
    using assms by (intro strlcat_end_found) simp_all
  then show ?thesis
    using assms by (auto simp: strlcat_def Let_def strlcpy_loop_take store_def min_def)
qed

subsection \<open>memcmp\<close>

text \<open>The loop compares the bytes as \<^verbatim>\<open>unsigned char\<close> and returns the first difference.\<close>

fun memcmp_loop :: "bytes \<Rightarrow> bytes \<Rightarrow> nat \<Rightarrow> c_error + int" where
  "memcmp_loop s1 s2 0 = Inr 0"
| "memcmp_loop (a # s1) (b # s2) (Suc n) =
     (if a \<noteq> b then Inr (uint a - uint b) else memcmp_loop s1 s2 n)"
| "memcmp_loop _ _ (Suc n) = Inl Out_of_bounds"

definition memcmp :: "bytes \<Rightarrow> bytes \<Rightarrow> nat \<Rightarrow> c_error + int" where
  "memcmp s1 s2 n = (if n \<noteq> 0 then memcmp_loop s1 s2 n else Inr 0)"

lemma memcmp_zero_iff:
  "n \<le> length s1 \<Longrightarrow> n \<le> length s2 \<Longrightarrow> memcmp s1 s2 n = Inr 0 \<longleftrightarrow> take n s1 = take n s2"
  unfolding memcmp_def
  by (induction s1 s2 n rule: memcmp_loop.induct) (auto simp: word_uint_eq_iff [symmetric] split: if_splits)

lemma memcmp_returns:
  assumes "n \<le> length s1" and "n \<le> length s2"
  shows "\<exists>v. memcmp s1 s2 n = Inr v"
proof -
  have "\<exists>v. memcmp_loop s1 s2 n = Inr v"
    using assms by (induction s1 s2 n rule: memcmp_loop.induct) auto
  then show ?thesis by (simp add: memcmp_def)
qed

lemma memcmp_sign:
  assumes "n \<le> length s1" and "n \<le> length s2" and "memcmp s1 s2 n = Inr v" and "v \<noteq> 0"
  shows "\<exists>k < n. take k s1 = take k s2 \<and> s1 ! k \<noteq> s2 ! k \<and> v = uint (s1 ! k) - uint (s2 ! k)"
proof -
  have "memcmp_loop s1 s2 n = Inr v" using assms(3,4) by (simp add: memcmp_def split: if_splits)
  then show ?thesis using assms(1,2,4)
  proof (induction s1 s2 n rule: memcmp_loop.induct)
    case (2 a s1 b s2 n)
    show ?case
    proof (cases "a = b")
      case True
      with 2 obtain k where "k < n" "take k s1 = take k s2" "s1 ! k \<noteq> s2 ! k"
        "v = uint (s1 ! k) - uint (s2 ! k)" by auto
      with True show ?thesis by (intro exI [of _ "Suc k"]) simp
    next
      case False
      with 2 show ?thesis by (intro exI [of _ 0]) simp
    qed
  qed auto
qed

subsection \<open>memmem\<close>

text \<open>
  The loop of \<^verbatim>\<open>memmem\<close>: the offset \<open>i\<close> runs while \<open>i < hl\<close> and \<open>i + nl \<le> hl\<close>; the first byte is
  compared on its own, the rest with \<^verbatim>\<open>memcmp\<close>. The result is the offset of the match.
\<close>

function memmem_from :: "bytes \<Rightarrow> bytes \<Rightarrow> nat \<Rightarrow> nat option" where
  "memmem_from h n i =
     (if i < length h \<and> i + length n \<le> length h then
        (if h ! i = n ! 0 \<and> memcmp (drop (i + 1) h) (drop 1 n) (length n - 1) = Inr 0
         then Some i else memmem_from h n (i + 1))
      else None)"
  by pat_completeness auto
termination
  by (relation "measure (\<lambda>(h, n, i). length h - i)") auto

declare memmem_from.simps [simp del]

definition memmem :: "bytes \<Rightarrow> bytes \<Rightarrow> nat option" where
  "memmem h n = (if length n = 0 then Some 0 else memmem_from h n 0)"

definition occurs_at :: "bytes \<Rightarrow> bytes \<Rightarrow> nat \<Rightarrow> bool" where
  "occurs_at h n i \<longleftrightarrow> i + length n \<le> length h \<and> take (length n) (drop i h) = n"

lemma memmem_test:
  assumes "n \<noteq> []" and "i + length n \<le> length h"
  shows "h ! i = n ! 0 \<and> memcmp (drop (i + 1) h) (drop 1 n) (length n - 1) = Inr 0
    \<longleftrightarrow> occurs_at h n i"
proof -
  obtain a n' where n: "n = a # n'" using assms(1) by (cases n) auto
  have "i < length h" using assms n by simp
  then have "drop i h = h ! i # drop (i + 1) h" by (simp add: Cons_nth_drop_Suc)
  with assms n show ?thesis
    by (auto simp: occurs_at_def memcmp_zero_iff)
qed

lemma skip_first:
  fixes i k :: nat
  assumes "\<not> P i"
  shows "(i \<le> k \<and> P k \<and> (\<forall>j. i \<le> j \<and> j < k \<longrightarrow> \<not> P j)) =
    (i + 1 \<le> k \<and> P k \<and> (\<forall>j. i + 1 \<le> j \<and> j < k \<longrightarrow> \<not> P j))"
proof -
  have "i \<le> j \<longleftrightarrow> j = i \<or> i + 1 \<le> j" for j by auto
  with assms show ?thesis by auto
qed

lemma memmem_from_Some:
  assumes "n \<noteq> []"
  shows "memmem_from h n i = Some k \<longleftrightarrow>
    i \<le> k \<and> occurs_at h n k \<and> (\<forall>j. i \<le> j \<and> j < k \<longrightarrow> \<not> occurs_at h n j)"
  using assms
proof (induction h n i rule: memmem_from.induct)
  case (1 h n i)
  show ?case
  proof (cases "i + length n \<le> length h")
    case True
    with "1.prems" have lt: "i < length h" by (cases n) auto
    show ?thesis
    proof (cases "occurs_at h n i")
      case True
      then show ?thesis using lt \<open>i + length n \<le> length h\<close> memmem_test [OF "1.prems"]
        by (subst memmem_from.simps) (auto simp: not_le [symmetric])
    next
      case False
      then have "memmem_from h n i = memmem_from h n (i + 1)"
        using lt True memmem_test [OF "1.prems"] by (subst memmem_from.simps) auto
      moreover have "memmem_from h n (i + 1) = Some k \<longleftrightarrow>
          i + 1 \<le> k \<and> occurs_at h n k \<and> (\<forall>j. i + 1 \<le> j \<and> j < k \<longrightarrow> \<not> occurs_at h n j)"
        using "1.IH" lt True False memmem_test [OF "1.prems"] "1.prems" by auto
      moreover have "(i \<le> k \<and> occurs_at h n k \<and> (\<forall>j. i \<le> j \<and> j < k \<longrightarrow> \<not> occurs_at h n j)) =
          (i + 1 \<le> k \<and> occurs_at h n k \<and> (\<forall>j. i + 1 \<le> j \<and> j < k \<longrightarrow> \<not> occurs_at h n j))"
        by (rule skip_first) (rule False)
      ultimately show ?thesis by simp
    qed
  next
    case False
    then have "\<not> occurs_at h n k" if "i \<le> k" for k
      using that by (auto simp: occurs_at_def)
    with False show ?thesis by (subst memmem_from.simps) auto
  qed
qed

subsection \<open>strsep\<close>

text \<open>
  The delimiters are searched up to and including their NUL, so the end of the string ends the
  last token: then \<^verbatim>\<open>*stringp\<close> becomes \<^verbatim>\<open>NULL\<close> (here \<^term>\<open>None\<close>).
\<close>

fun strsep_scan :: "string \<Rightarrow> string \<Rightarrow> string \<times> string option" where
  "strsep_scan [] delim = ([], None)"
| "strsep_scan (c # s) delim =
     (if c \<in> set delim then ([], Some s)
      else (case strsep_scan s delim of (tok, r) \<Rightarrow> (c # tok, r)))"

fun strsep :: "string option \<Rightarrow> string \<Rightarrow> string option \<times> string option" where
  "strsep None delim = (None, None)"
| "strsep (Some s) delim = (case strsep_scan s delim of (tok, r) \<Rightarrow> (Some tok, r))"

lemma strsep_scan_eq:
  "strsep_scan s delim =
    (takeWhile (\<lambda>c. c \<notin> set delim) s,
     (case dropWhile (\<lambda>c. c \<notin> set delim) s of [] \<Rightarrow> None | c # r \<Rightarrow> Some r))"
  by (induction s delim rule: strsep_scan.induct) auto

lemma strsep_scan_shorter: "strsep_scan s delim = (tok, Some r) \<Longrightarrow> length r < length s"
  by (induction s delim arbitrary: tok rule: strsep_scan.induct)
     (auto split: if_splits prod.splits)

definition pending :: "string option \<Rightarrow> nat" where
  "pending p = (case p of None \<Rightarrow> 0 | Some s \<Rightarrow> Suc (length s))"

lemma strsep_shrinks: "strsep p delim = (Some tok, q) \<Longrightarrow> pending q < pending p"
  by (cases p; cases q) (auto simp: pending_def split: prod.splits dest: strsep_scan_shorter)

text \<open>Calling \<^verbatim>\<open>strsep\<close> until it returns \<^verbatim>\<open>NULL\<close>, as its callers do.\<close>

function strsep_all :: "string option \<Rightarrow> string \<Rightarrow> string list" where
  "strsep_all p delim =
     (case strsep p delim of (None, q) \<Rightarrow> [] | (Some tok, q) \<Rightarrow> tok # strsep_all q delim)"
  by pat_completeness auto
termination
  by (relation "measure (\<lambda>(p, d). pending p)") (simp, metis case_prodI strsep_shrinks in_measure case_prod_conv)

declare strsep_all.simps [simp del]

fun join_with :: "char \<Rightarrow> string list \<Rightarrow> string" where
  "join_with d [] = []"
| "join_with d [t] = t"
| "join_with d (t # ts) = t @ d # join_with d ts"

lemma strsep_all_None [simp]: "strsep_all None delim = []"
  by (simp add: strsep_all.simps [of None delim])

lemma strsep_all_Some:
  "strsep_all (Some s) delim =
    (case strsep_scan s delim of (tok, q) \<Rightarrow> tok # strsep_all q delim)"
  by (simp add: strsep_all.simps [of "Some s" delim] split: prod.splits)

lemma strsep_all_join: "join_with d (strsep_all (Some s) [d]) = s"
proof (induction s rule: length_induct)
  case (1 s)
  obtain tok q where t: "strsep_scan s [d] = (tok, q)" by (cases "strsep_scan s [d]") auto
  show ?case
  proof (cases q)
    case None
    with t have "dropWhile (\<lambda>c. c \<notin> set [d]) s = []" and "tok = takeWhile (\<lambda>c. c \<notin> set [d]) s"
      by (simp_all add: strsep_scan_eq split: list.splits)
    then have "s = tok" by (metis append_Nil2 takeWhile_dropWhile_id)
    with t None show ?thesis by (simp add: strsep_all_Some)
  next
    case (Some r)
    with t have "length r < length s" by (auto dest: strsep_scan_shorter)
    with 1 have IH: "join_with d (strsep_all (Some r) [d]) = r" by blast
    obtain c where c: "dropWhile (\<lambda>c. c \<notin> set [d]) s = c # r"
      using t Some by (auto simp: strsep_scan_eq split: list.splits)
    then have "c \<in> set [d]" using hd_dropWhile [of "\<lambda>c. c \<notin> set [d]" s] by simp
    with c have "dropWhile (\<lambda>c. c \<notin> set [d]) s = d # r" by simp
    moreover have "tok = takeWhile (\<lambda>c. c \<notin> set [d]) s"
      using t by (simp add: strsep_scan_eq)
    ultimately have "s = tok @ d # r" by (metis takeWhile_dropWhile_id)
    moreover obtain u us where "strsep_all (Some r) [d] = u # us"
      by (cases "strsep_scan r [d]") (simp add: strsep_all_Some)
    ultimately show ?thesis using t Some IH by (simp add: strsep_all_Some)
  qed
qed

lemma strsep_all_no_delim: "t \<in> set (strsep_all (Some s) delim) \<Longrightarrow> set t \<inter> set delim = {}"
proof (induction s arbitrary: t rule: length_induct)
  case (1 s)
  obtain tok q where p: "strsep_scan s delim = (tok, q)" by (cases "strsep_scan s delim") auto
  then have tok: "set tok \<inter> set delim = {}"
    by (auto simp: strsep_scan_eq dest: set_takeWhileD)
  show ?case
  proof (cases q)
    case None
    with 1 p tok show ?thesis by (simp add: strsep_all_Some)
  next
    case (Some r)
    with p have "length r < length s" by (auto dest: strsep_scan_shorter)
    with 1 p tok Some show ?thesis by (auto simp: strsep_all_Some)
  qed
qed

subsection \<open>What the functions promise\<close>

lemma c_str_overwrite:
  assumes "i + length s < length d" and "NUL \<notin> set (take i d)" and "NUL \<notin> set s"
  shows "c_str (overwrite d i (s @ [NUL])) = take i d @ s"
  using c_str_append_NUL [of "take i d @ s" "drop (i + length s + 1) d"] assms
  by (simp add: overwrite_def)

lemma c_str_overwritten: "NUL \<notin> set t \<Longrightarrow> c_str (overwrite b 0 (t @ [NUL])) = t"
  by (simp add: overwrite_def c_str_append_NUL)

lemma take_length_c_str: "take (length (c_str b)) b = c_str b"
  unfolding c_str_def by (metis takeWhile_eq_take)

text \<open>
  \<^verbatim>\<open>strlcpy\<close> with a size of at least 1 that the destination has leaves there the first
  \<open>siz - 1\<close> characters of the source with a NUL behind them, changes nothing at or behind
  \<open>siz\<close>, and returns the length of the source, so that \<open>result \<ge> siz\<close> is the test for truncation.
\<close>

theorem strlcpy_contract:
  assumes "0 < siz" and "siz \<le> length dst" and "NUL \<notin> set src"
  shows "\<exists>dst'. strlcpy dst src siz = Inr (dst', length src) \<and> length dst' = length dst \<and>
    c_str dst' = take (siz - 1) src \<and> drop siz dst' = drop siz dst \<and>
    (length src \<ge> siz \<longleftrightarrow> c_str dst' \<noteq> src)"
proof -
  let ?s = "take (siz - 1) src"
  have "c_str (overwrite dst 0 (?s @ [NUL])) = ?s"
    using assms set_take_subset [of "siz - 1" src]
    by (subst c_str_overwrite) auto
  moreover have "drop siz (overwrite dst 0 (?s @ [NUL])) = drop siz dst"
    using assms by (intro drop_overwrite) auto
  moreover have "length src \<ge> siz \<longleftrightarrow> ?s \<noteq> src"
    using assms(1) by (metis One_nat_def Suc_pred length_take min.absorb_iff1 not_less_eq_eq take_all_iff)
  ultimately show ?thesis using assms by (simp add: strlcpy_eq)
qed

lemma strlcpy_contract_witness:
  "\<exists>dst'. strlcpy ''xxxxxx'' ''abcd'' 4 = Inr (dst', 4) \<and> c_str dst' = ''abc''"
  using strlcpy_contract [of 4 "''xxxxxx''" "''abcd''"] by auto

text \<open>
  \<^verbatim>\<open>strlcat\<close> appends to the string the destination holds and keeps it within \<open>siz\<close>: the result
  is the concatenation cut to \<open>siz - 1\<close> characters, and the number returned is the length the whole
  concatenation would have had.
\<close>

theorem strlcat_contract:
  assumes "NUL \<in> set dst" and "length (c_str dst) < siz" and "siz \<le> length dst"
    and "NUL \<notin> set src"
  shows "\<exists>dst'. strlcat dst src siz = Inr (dst', length (c_str dst) + length src) \<and>
    length dst' = length dst \<and> c_str dst' = take (siz - 1) (c_str dst @ src) \<and>
    drop siz dst' = drop siz dst"
proof -
  let ?n = "length (c_str dst)" and ?s = "take (siz - length (c_str dst) - 1) src"
  have "c_str (overwrite dst ?n (?s @ [NUL])) = c_str dst @ ?s"
    using assms set_take_subset [of "siz - ?n - 1" src]
    by (subst c_str_overwrite) (auto simp: take_length_c_str)
  moreover have "drop siz (overwrite dst ?n (?s @ [NUL])) = drop siz dst"
    using assms by (intro drop_overwrite) auto
  moreover have "take (siz - 1) (c_str dst @ src) = c_str dst @ ?s"
    using assms by (simp add: diff_right_commute)
  ultimately show ?thesis using assms by (auto simp: strlcat_eq)
qed

lemma strlcat_contract_witness:
  "\<exists>dst'. strlcat [CHR ''a'', CHR ''b'', NUL, NUL, CHR ''x''] ''cde'' 4 = Inr (dst', 5) \<and>
    c_str dst' = ''abc''"
  using strlcat_contract [of "[CHR ''a'', CHR ''b'', NUL, NUL, CHR ''x'']" 4 "''cde''"]
  by (auto simp: c_str_def)

text \<open>
  \<^verbatim>\<open>memmem\<close> finds the first occurrence of the needle, and finds nothing only when the needle
  does not occur.
\<close>

theorem memmem_first_occurrence:
  "memmem h n = (if \<exists>k. occurs_at h n k then Some (LEAST k. occurs_at h n k) else None)"
proof (cases "n = []")
  case True
  then have "occurs_at h n 0" by (simp add: occurs_at_def)
  then have "(LEAST k. occurs_at h n k) = 0" by (intro Least_equality) simp_all
  with True \<open>occurs_at h n 0\<close> show ?thesis by (auto simp: memmem_def)
next
  case False
  have eq: "memmem h n = memmem_from h n 0" using False by (simp add: memmem_def)
  show ?thesis
  proof (cases "\<exists>k. occurs_at h n k")
    case True
    then have "memmem_from h n 0 = Some (LEAST k. occurs_at h n k)"
      by (subst memmem_from_Some [OF False]) (auto intro: LeastI dest: not_less_Least)
    with True eq show ?thesis by simp
  next
    case none: False
    then have "memmem_from h n 0 = None"
      using memmem_from_Some [OF False, of h 0] by (cases "memmem_from h n 0") auto
    with none eq show ?thesis by simp
  qed
qed

text \<open>
  Calling \<^verbatim>\<open>strsep\<close> with one delimiter until it returns \<^verbatim>\<open>NULL\<close> splits the string: the tokens,
  joined by the delimiter, are the string again, and no token holds the delimiter. Empty fields
  are tokens of their own.
\<close>

theorem strsep_splits:
  "join_with d (strsep_all (Some s) [d]) = s \<and> d \<notin> \<Union> (set ` set (strsep_all (Some s) [d]))"
  using strsep_all_join strsep_all_no_delim by fastforce

text \<open>
  \<^verbatim>\<open>memcmp\<close> returns for every two buffers of at least \<open>n\<close> bytes; its result is 0 exactly when
  the buffers agree, and otherwise the difference, as unsigned bytes, at the first place where they
  differ.
\<close>

theorem memcmp_first_difference:
  assumes "n \<le> length s1" and "n \<le> length s2"
  shows "\<exists>v. memcmp s1 s2 n = Inr v \<and> (v = 0 \<longleftrightarrow> take n s1 = take n s2) \<and>
    (v \<noteq> 0 \<longrightarrow> (\<exists>k < n. take k s1 = take k s2 \<and> s1 ! k \<noteq> s2 ! k \<and> v = uint (s1 ! k) - uint (s2 ! k)))"
proof -
  obtain v where v: "memcmp s1 s2 n = Inr v" using memcmp_returns [OF assms] by blast
  then have "v = 0 \<longleftrightarrow> take n s1 = take n s2"
    using memcmp_zero_iff [OF assms] by auto
  with v memcmp_sign [OF assms v] show ?thesis by blast
qed

lemma memcmp_first_difference_witness: "\<exists>v. memcmp [1, 0x80, 3] [1, 0x7f, 9] 3 = Inr v \<and> v \<noteq> 0"
proof -
  obtain v where v: "memcmp [1, 0x80, 3] [1, 0x7f, 9] 3 = Inr v"
    and z: "v = 0 \<longleftrightarrow> take 3 [1, 0x80, 3 :: u_int8] = take 3 [1, 0x7f, 9]"
    using memcmp_first_difference [of 3 "[1, 0x80, 3]" "[1, 0x7f, 9]"] by auto
  from z have "v \<noteq> 0" by simp
  with v show ?thesis by blast
qed

end
