(* ===== verification/Hash.thy ===== *)
theory Hash
  imports Formats
begin

text \<open>
  \<^verbatim>\<open>src/lmap_hash.c\<close>: the FNV-1 hashes. \<^verbatim>\<open>Fnv32_t\<close> is \<^verbatim>\<open>unsigned long\<close>, 32 or 64 bits wide
  depending on the host, so \<^verbatim>\<open>fnv_32\<close> is modelled at any width. Also here: the interface of the
  chained hash tables that \<^verbatim>\<open>lmap_manuf.c\<close> and \<^verbatim>\<open>lmap_fingerprint.c\<close> build on it.
\<close>

subsection \<open>The hash functions\<close>

fun fnv_loop :: "'a::len word \<Rightarrow> 'a word \<Rightarrow> bytes \<Rightarrow> 'a word" where
  "fnv_loop prime hval [] = hval"
| "fnv_loop prime hval (b # bp) = fnv_loop prime ((hval * prime) XOR ucast b) bp"

definition fnv_32 :: "bytes \<Rightarrow> 'a::len word" where
  "fnv_32 buf = fnv_loop 0x01000193 0x811c9dc5 buf"

definition fnv_64 :: "bytes \<Rightarrow> 64 word" where
  "fnv_64 buf = fnv_loop 0x100000001b3 0xcbf29ce484222325 buf"

text \<open>The bytes of the characters of a C string, as \<^verbatim>\<open>unsigned char\<close>.\<close>

definition byte_of :: "char \<Rightarrow> u_int8" where
  "byte_of c = of_nat (of_char c)"

definition str_bytes :: "string \<Rightarrow> bytes" where
  "str_bytes s = map byte_of s"

lemma length_str_bytes [simp]: "length (str_bytes s) = length s"
  by (simp add: str_bytes_def)

lemma unat_byte_of [simp]: "unat (byte_of c) = of_char c"
  by (simp add: byte_of_def unsigned_of_nat take_bit_nat_eq_self_iff)

lemma byte_of_inject [simp]: "byte_of c = byte_of d \<longleftrightarrow> c = d"
proof
  assume "byte_of c = byte_of d"
  then have "unat (byte_of c) = unat (byte_of d)" by simp
  then show "c = d" by (simp only: unat_byte_of of_char_eq_iff)
qed simp

lemma str_bytes_inject [simp]: "str_bytes s = str_bytes t \<longleftrightarrow> s = t"
proof -
  have "inj byte_of" by (rule injI) simp
  then show ?thesis by (simp add: str_bytes_def inj_map_eq_map)
qed

subsection \<open>The table index does not depend on the width of unsigned long\<close>

lemma ucast_down_mult:
  fixes a b :: "'a::len word"
  assumes "LENGTH('b) \<le> LENGTH('a)"
  shows "(ucast (a * b) :: 'b::len word) = ucast a * ucast b"
proof -
  have drop: "(word_of_int (x mod 2 ^ LENGTH('a)) :: 'b word) = word_of_int x" for x
    unfolding word_of_int_eq_iff take_bit_eq_mod
    by (rule mod_mod_cancel) (rule le_imp_power_dvd, rule assms)
  have "(ucast (a * b) :: 'b word) = word_of_int (uint a * uint b)"
    unfolding ucast_eq uint_word_ariths(3) by (rule drop)
  then show ?thesis by (simp only: ucast_eq of_int_mult)
qed

lemma ucast_down_xor_byte:
  fixes a :: "'a::len word" and b :: u_int8
  assumes "LENGTH('b) \<le> LENGTH('a)" and "8 \<le> LENGTH('b)"
  shows "(ucast (a XOR ucast b) :: 'b::len word) = ucast a XOR ucast b"
  using assms by (intro bit_word_eqI) (auto simp: bit_simps dest: bit_imp_le_length)

lemma ucast_fnv_loop:
  fixes p h :: "'a::len word"
  assumes "LENGTH('b) \<le> LENGTH('a)" and "8 \<le> LENGTH('b)"
  shows "(ucast (fnv_loop p h bs) :: 'b::len word) = fnv_loop (ucast p) (ucast h) bs"
  by (induction bs arbitrary: h)
     (simp_all add: ucast_down_mult ucast_down_xor_byte assms)

lemma fnv_32_narrow: "(ucast (fnv_32 bs :: 64 word) :: u_int32) = fnv_32 bs"
  by (simp add: fnv_32_def ucast_fnv_loop)

definition masked :: "nat \<Rightarrow> 'a::len word \<Rightarrow> nat" where
  "masked bits h = unat (h AND mask bits)"

lemma masked_less: "masked bits h < 2 ^ bits"
  unfolding masked_def
  by (simp add: take_bit_eq_mask [symmetric] unsigned_take_bit_eq take_bit_nat_less_exp)

lemma masked_ucast:
  fixes h :: "'a::len word"
  assumes "bits \<le> LENGTH('b)" and "LENGTH('b) \<le> LENGTH('a)"
  shows "masked bits (ucast h :: 'b::len word) = masked bits h"
proof -
  have "(ucast h :: 'b word) AND mask bits = ucast (h AND mask bits)"
    using assms by (intro bit_word_eqI) (auto simp: bit_simps dest: bit_imp_le_length)
  moreover have "unat (h AND mask bits) < 2 ^ LENGTH('b)"
    using masked_less [of bits h, unfolded masked_def] power_increasing [OF assms(1), of "2 :: nat"]
    by (rule less_le_trans) simp
  ultimately show ?thesis
    by (simp add: masked_def unsigned_ucast_eq take_bit_nat_eq_self_iff)
qed

lemma masked_fnv_32_width:
  assumes "bits \<le> 32"
  shows "masked bits (fnv_32 bs :: 64 word) = masked bits (fnv_32 bs :: u_int32)"
  using masked_ucast [where ?'b = 32, of bits "fnv_32 bs :: 64 word"] assms
  by (simp add: fnv_32_narrow)

subsection \<open>Chains\<close>

text \<open>
  A table is an array of singly linked lists (\<^verbatim>\<open>SLIST\<close> of \<^verbatim>\<open>include/missing/queue.h\<close>), head first.
\<close>

type_synonym 'e chains = "'e list list"

definition slist_insert_head :: "'e chains \<Rightarrow> nat \<Rightarrow> 'e \<Rightarrow> 'e chains" where
  "slist_insert_head tab i e = tab[i := e # tab ! i]"

fun slist_find :: "('e \<Rightarrow> bool) \<Rightarrow> 'e list \<Rightarrow> 'e option" where
  "slist_find P [] = None"
| "slist_find P (l # ls) = (if P l then Some l else slist_find P ls)"

text \<open>\<^verbatim>\<open>while (SLIST_FIRST(head) != NULL) SLIST_REMOVE_HEAD(head)\<close>, on every chain.\<close>

fun discard_chain :: "'e list \<Rightarrow> 'e list" where
  "discard_chain [] = []"
| "discard_chain (l # ls) = discard_chain ls"

definition discard_all :: "'e chains \<Rightarrow> 'e chains" where
  "discard_all tab = map discard_chain tab"

lemma discard_chain_Nil [simp]: "discard_chain ls = []"
  by (induction ls) simp_all

lemma nth_slist_insert_head:
  "i < length tab \<Longrightarrow> slist_insert_head tab i e ! j = (if j = i then e # tab ! i else tab ! j)"
  by (cases "j < length tab") (auto simp: slist_insert_head_def nth_list_update list_update_beyond)

lemma length_slist_insert_head [simp]: "length (slist_insert_head tab i e) = length tab"
  by (simp add: slist_insert_head_def)

subsection \<open>The interface of a fingerprint database\<close>

text \<open>
  What a client of a database relies on: a search finds the entry inserted last under the key.
  Loading a file is a sequence of insertions, so a search in the loaded database finds the last
  line with that key.
\<close>

locale key_database =
  fixes empty :: "'t"
    and insert :: "'k \<Rightarrow> 'v \<Rightarrow> 't \<Rightarrow> 't"
    and search :: "'t \<Rightarrow> 'k \<Rightarrow> 'v option"
    and discard :: "'t \<Rightarrow> 't"
    and invar :: "'t \<Rightarrow> bool"
    and key :: "'k \<Rightarrow> bool"
  assumes invar_empty: "invar empty"
    and search_empty: "key k \<Longrightarrow> search empty k = None"
    and invar_insert: "invar t \<Longrightarrow> key k \<Longrightarrow> invar (insert k v t)"
    and search_insert: "invar t \<Longrightarrow> key k \<Longrightarrow> key j \<Longrightarrow>
      search (insert k v t) j = (if j = k then Some v else search t j)"
    and invar_discard: "invar t \<Longrightarrow> invar (discard t)"
    and search_discard: "invar t \<Longrightarrow> key k \<Longrightarrow> search (discard t) k = None"
begin

definition load :: "('k \<times> 'v) list \<Rightarrow> 't \<Rightarrow> 't" where
  "load kvs t = fold (\<lambda>(k, v). insert k v) kvs t"

lemma load_simps [simp]:
  "load [] t = t"
  "load ((k, v) # kvs) t = load kvs (insert k v t)"
  by (simp_all add: load_def)

lemma invar_load: "invar t \<Longrightarrow> \<forall>k \<in> fst ` set kvs. key k \<Longrightarrow> invar (load kvs t)"
  by (induction kvs arbitrary: t) (auto simp: invar_insert)

lemma search_load:
  "invar t \<Longrightarrow> \<forall>k \<in> fst ` set kvs. key k \<Longrightarrow> key j \<Longrightarrow>
    search (load kvs t) j = (case map_of (rev kvs) j of None \<Rightarrow> search t j | Some v \<Rightarrow> Some v)"
  by (induction kvs arbitrary: t)
     (auto simp: invar_insert search_insert map_add_def split: option.splits)

lemma search_load_empty:
  "\<forall>k \<in> fst ` set kvs. key k \<Longrightarrow> key j \<Longrightarrow> search (load kvs empty) j = map_of (rev kvs) j"
  by (simp add: search_load invar_empty search_empty split: option.splits)

end

end
