(* ===== verification/Inet.thy ===== *)
theory Inet
  imports Missing Hash
begin

text \<open>
  \<^verbatim>\<open>src/lmap_inet.c\<close> and \<^verbatim>\<open>include/lmap_inet.h\<close>: the \<^verbatim>\<open>struct ip_addr\<close> that holds an IPv4 or an IPv6
  address, its comparison, and its conversion to text.
\<close>

subsection \<open>Addresses\<close>

abbreviation (input) IP_ADDR_LEN :: nat where "IP_ADDR_LEN \<equiv> 4"
abbreviation (input) IP6_ADDR_LEN :: nat where "IP6_ADDR_LEN \<equiv> 16"
abbreviation (input) MAX_ADDR_LEN :: nat where "MAX_ADDR_LEN \<equiv> 16"
abbreviation (input) IP_ASCII_ADDR_LEN :: nat where "IP_ASCII_ADDR_LEN \<equiv> 17"
abbreviation (input) IP6_ASCII_ADDR_LEN :: nat where "IP6_ASCII_ADDR_LEN \<equiv> 47"
abbreviation (input) IP6_DETAILS_SIZE :: nat where "IP6_DETAILS_SIZE \<equiv> 16"

text \<open>The values of the address families on Linux; 0 is the type of a zeroed structure.\<close>

abbreviation (input) AF_INET :: int where "AF_INET \<equiv> 2"
abbreviation (input) AF_INET6 :: int where "AF_INET6 \<equiv> 10"

text \<open>The codes of \<^verbatim>\<open>include/lmap_error.h\<close>.\<close>

abbreviation (input) ESUCCESS :: int where "ESUCCESS \<equiv> 0"
abbreviation (input) ENOTFOUND :: int where "ENOTFOUND \<equiv> 1"
abbreviation (input) ENOTHANDLED :: int where "ENOTHANDLED \<equiv> 2"
abbreviation (input) EINVALID :: int where "EINVALID \<equiv> 3"
abbreviation (input) ENOADDRESS :: int where "ENOADDRESS \<equiv> 4"

record ip_addr =
  ip_type :: int
  addr_size :: nat
  ip_bytes :: bytes

definition ip_addr_zero :: ip_addr where
  "ip_addr_zero = \<lparr>ip_type = 0, addr_size = 0, ip_bytes = replicate MAX_ADDR_LEN 0\<rparr>"

definition ip_addr_init :: "ip_addr \<Rightarrow> int \<Rightarrow> bytes \<Rightarrow> c_error + (int \<times> ip_addr)" where
  "ip_addr_init sa t a =
     (let sa = sa\<lparr>ip_type := t\<rparr>;
          copy = (\<lambda>n. bindE (rd_bytes a 0 n) (\<lambda>src.
            Inr (ESUCCESS, sa\<lparr>addr_size := n, ip_bytes := overwrite (ip_bytes sa) 0 src\<rparr>))) in
      if t = AF_INET then copy IP_ADDR_LEN
      else if t = AF_INET6 then copy IP6_ADDR_LEN
      else Inr (- EINVALID, sa))"

definition ip_addr_cmp :: "ip_addr \<Rightarrow> ip_addr \<Rightarrow> c_error + int" where
  "ip_addr_cmp sa sb =
     (if ip_type sa \<noteq> ip_type sb then Inr 0
      else bindE (memcmp (ip_bytes sa) (ip_bytes sb) (addr_size sa)) (\<lambda>r.
        Inr (if r = 0 then 1 else 0)))"

text \<open>The addresses that the program builds: sixteen bytes, the size given by the type.\<close>

definition ip_addr_wf :: "ip_addr \<Rightarrow> bool" where
  "ip_addr_wf sa \<longleftrightarrow> length (ip_bytes sa) = MAX_ADDR_LEN \<and>
     addr_size sa = (if ip_type sa = AF_INET then IP_ADDR_LEN else if ip_type sa = AF_INET6 then IP6_ADDR_LEN else 0)"

definition addr_value :: "ip_addr \<Rightarrow> int \<times> bytes" where
  "addr_value sa = (ip_type sa, take (addr_size sa) (ip_bytes sa))"

lemma ip_addr_wf_zero: "ip_addr_wf ip_addr_zero"
  by (simp add: ip_addr_wf_def ip_addr_zero_def)

lemma ip_addr_init_ok:
  assumes "ip_addr_wf sa" and "(t, n) \<in> {(AF_INET, IP_ADDR_LEN), (AF_INET6, IP6_ADDR_LEN)}"
    and "n \<le> length a"
  shows "\<exists>sa'. ip_addr_init sa t a = Inr (ESUCCESS, sa') \<and> ip_addr_wf sa' \<and> addr_value sa' = (t, take n a)"
  using assms
  by (auto simp: ip_addr_init_def ip_addr_wf_def addr_value_def rd_bytes_ok Let_def overwrite_def)

lemma ip_addr_init_invalid:
  "t \<noteq> AF_INET \<Longrightarrow> t \<noteq> AF_INET6 \<Longrightarrow> ip_addr_init sa t a = Inr (- EINVALID, sa\<lparr>ip_type := t\<rparr>)"
  by (simp add: ip_addr_init_def Let_def)

subsection \<open>IPv4 text\<close>

definition dotted :: "bytes \<Rightarrow> string" where
  "dotted b = decs (unat (b ! 0)) @ ''.'' @ decs (unat (b ! 1)) @ ''.'' @
     decs (unat (b ! 2)) @ ''.'' @ decs (unat (b ! 3))"

text \<open>\<^verbatim>\<open>sprintf\<close> into \<^verbatim>\<open>str\<close>, \<^verbatim>\<open>str[n] = 0\<close> and \<^verbatim>\<open>strlcpy(dst, str, size)\<close>.\<close>

definition inet_ntop4 :: "bytes \<Rightarrow> string \<Rightarrow> nat \<Rightarrow> c_error + string" where
  "inet_ntop4 src dst siz =
     (if length src < 4 then Inl Out_of_bounds
      else if length (dotted src) + 1 > IP_ASCII_ADDR_LEN then Inl Out_of_bounds
      else bindE (strlcpy dst (dotted src) siz) (\<lambda>(dst, _). Inr dst))"

lemma dotted_no_NUL: "NUL \<notin> set (dotted b)"
  by (simp add: dotted_def)

lemma length_decs_byte: "length (decs (unat (b :: u_int8))) \<le> 3"
  using unsigned_less [of b, where ?'a = nat] by (intro length_decs_le) simp_all

lemma length_dotted: "length (dotted b) \<le> 15"
  using length_decs_byte [of "b ! 0"] length_decs_byte [of "b ! 1"]
    length_decs_byte [of "b ! 2"] length_decs_byte [of "b ! 3"]
  by (simp add: dotted_def)

lemma inet_ntop4_eq:
  assumes "4 \<le> length src" and "0 < siz" and "siz \<le> length dst"
  shows "inet_ntop4 src dst siz = Inr (overwrite dst 0 (take (siz - 1) (dotted src) @ [NUL]))"
  using assms length_dotted [of src] by (simp add: inet_ntop4_def strlcpy_eq)

subsection \<open>IPv6 text\<close>

text \<open>The 16 bit words of an address, in network byte order.\<close>

fun words_of :: "bytes \<Rightarrow> u_int16 list" where
  "words_of (a # b # r) = join16 a b # words_of r"
| "words_of _ = []"

text \<open>The longest run of zero words: \<^verbatim>\<open>best\<close> and \<^verbatim>\<open>cur\<close>, where the base -1 means that there is none.\<close>

record run =
  base :: int
  run_len :: int

definition better :: "run \<Rightarrow> run \<Rightarrow> run" where
  "better best cur =
     (if base cur \<noteq> -1 \<and> (base best = -1 \<or> run_len cur > run_len best) then cur else best)"

fun scan_words :: "int \<Rightarrow> u_int16 list \<Rightarrow> run \<Rightarrow> run \<Rightarrow> run" where
  "scan_words i [] best cur = better best cur"
| "scan_words i (w # ws) best cur =
     (if w = 0 then
        scan_words (i + 1) ws best
          (if base cur = -1 then \<lparr>base = i, run_len = 1\<rparr> else cur\<lparr>run_len := run_len cur + 1\<rparr>)
      else scan_words (i + 1) ws (better best cur) (cur\<lparr>base := -1\<rparr>))"

definition best_run :: "u_int16 list \<Rightarrow> run" where
  "best_run ws =
     (let best = scan_words 0 ws \<lparr>base = -1, run_len = 0\<rparr> \<lparr>base = -1, run_len = 0\<rparr> in
      if base best \<noteq> -1 \<and> run_len best < 2 then best\<lparr>base := -1\<rparr> else best)"

definition hex_word :: "u_int16 \<Rightarrow> string" where
  "hex_word w = hexs False (unat w)"

text \<open>
  The formatting loop from word \<open>i\<close> on. \<^term>\<open>None\<close> is the early \<^verbatim>\<open>return NULL\<close>: the test on an
  encapsulated IPv4 address is \<^verbatim>\<open>inet_ntop4(...) != 0\<close>, and \<^verbatim>\<open>inet_ntop4\<close> never returns 0.
\<close>

fun fmt_words :: "run \<Rightarrow> u_int16 list \<Rightarrow> int \<Rightarrow> u_int16 list \<Rightarrow> string option" where
  "fmt_words best ws i [] = Some ''''"
| "fmt_words best ws i (w # r) =
     (if base best \<noteq> -1 \<and> base best \<le> i \<and> i < base best + run_len best then
        map_option (\<lambda>t. (if i = base best then '':'' else '''') @ t) (fmt_words best ws (i + 1) r)
      else if i = 6 \<and> base best = 0 \<and> (run_len best = 6 \<or> (run_len best = 5 \<and> ws ! 5 = 0xffff)) then None
      else map_option (\<lambda>t. (if i \<noteq> 0 then '':'' else '''') @ hex_word w @ t) (fmt_words best ws (i + 1) r))"

definition ntop6_text :: "u_int16 list \<Rightarrow> string option" where
  "ntop6_text ws =
     (let best = best_run ws in
      map_option (\<lambda>t. t @ (if base best \<noteq> -1 \<and> base best + run_len best = 8 then '':'' else ''''))
        (fmt_words best ws 0 ws))"

text \<open>The result is \<^term>\<open>None\<close> when the function returns \<^verbatim>\<open>NULL\<close>, and the destination.\<close>

definition inet_ntop6 :: "bytes \<Rightarrow> string \<Rightarrow> nat \<Rightarrow> c_error + (string option \<times> string)" where
  "inet_ntop6 src dst siz =
     (if length src < IP6_ADDR_LEN then Inl Out_of_bounds
      else case ntop6_text (words_of (take IP6_ADDR_LEN src)) of
        None \<Rightarrow> Inr (None, dst)
      | Some t \<Rightarrow>
          if length t + 1 > IP6_ASCII_ADDR_LEN then Inl Out_of_bounds
          else if length t + 1 > siz then Inr (None, dst)
          else bindE (strlcpy dst t siz) (\<lambda>(dst, _). Inr (Some dst, dst)))"

definition ip_addr_ntoa :: "ip_addr \<Rightarrow> string \<Rightarrow> c_error + (string option \<times> string)" where
  "ip_addr_ntoa sa dst =
     (if ip_type sa = AF_INET then
        bindE (inet_ntop4 (ip_bytes sa) dst IP_ASCII_ADDR_LEN) (\<lambda>dst. Inr (Some dst, dst))
      else if ip_type sa = AF_INET6 then
        bindE (inet_ntop6 (ip_bytes sa) dst IP6_ASCII_ADDR_LEN) (\<lambda>(_, dst). Inr (Some dst, dst))
      else Inr (None, dst))"

subsection \<open>IPv6 address classes\<close>

text \<open>The macros of \<^verbatim>\<open>netinet/in.h\<close> (RFC 3493), on the sixteen bytes.\<close>

definition zeros :: "nat \<Rightarrow> bytes \<Rightarrow> bool" where
  "zeros n a \<longleftrightarrow> list_all (\<lambda>b. b = 0) (take n a)"

definition IN6_IS_ADDR_UNSPECIFIED :: "bytes \<Rightarrow> bool" where
  "IN6_IS_ADDR_UNSPECIFIED a \<longleftrightarrow> zeros 16 a"

definition IN6_IS_ADDR_LOOPBACK :: "bytes \<Rightarrow> bool" where
  "IN6_IS_ADDR_LOOPBACK a \<longleftrightarrow> zeros 15 a \<and> a ! 15 = 1"

definition IN6_IS_ADDR_MULTICAST :: "bytes \<Rightarrow> bool" where
  "IN6_IS_ADDR_MULTICAST a \<longleftrightarrow> a ! 0 = 0xff"

definition IN6_IS_ADDR_LINKLOCAL :: "bytes \<Rightarrow> bool" where
  "IN6_IS_ADDR_LINKLOCAL a \<longleftrightarrow> a ! 0 = 0xfe \<and> a ! 1 AND 0xc0 = 0x80"

definition IN6_IS_ADDR_SITELOCAL :: "bytes \<Rightarrow> bool" where
  "IN6_IS_ADDR_SITELOCAL a \<longleftrightarrow> a ! 0 = 0xfe \<and> a ! 1 AND 0xc0 = 0xc0"

definition IN6_IS_ADDR_V4MAPPED :: "bytes \<Rightarrow> bool" where
  "IN6_IS_ADDR_V4MAPPED a \<longleftrightarrow> zeros 10 a \<and> a ! 10 = 0xff \<and> a ! 11 = 0xff"

definition IN6_IS_ADDR_V4COMPAT :: "bytes \<Rightarrow> bool" where
  "IN6_IS_ADDR_V4COMPAT a \<longleftrightarrow> zeros 12 a \<and> \<not> (zeros 15 a \<and> (a ! 15 = 0 \<or> a ! 15 = 1))"

definition mc_scope :: "bytes \<Rightarrow> u_int8" where
  "mc_scope a = a ! 1 AND 0x0f"

text \<open>
  One assignment \<^verbatim>\<open>n = strlcpy(tmp, "...", size)\<close> or \<^verbatim>\<open>n += strlcpy(tmp + n, "...", mcsiz)\<close>, made
  when its condition holds. \<^verbatim>\<open>tmp\<close> starts with arbitrary contents.
\<close>

definition set_label :: "bool \<Rightarrow> nat \<Rightarrow> string \<Rightarrow> string \<times> nat \<Rightarrow> c_error + (string \<times> nat)" where
  "set_label c siz s st =
     (if c then bindE (strlcpy (fst st) s siz) (\<lambda>(tmp, n). Inr (tmp, n)) else Inr st)"

definition add_label :: "bool \<Rightarrow> nat \<Rightarrow> string \<Rightarrow> string \<times> nat \<Rightarrow> c_error + (string \<times> nat)" where
  "add_label c siz s st =
     (if c then
        bindE (strlcpy (drop (snd st) (fst st)) s siz) (\<lambda>(r, n).
          Inr (take (snd st) (fst st) @ r, snd st + n))
      else Inr st)"

definition set_multic :: "bytes \<Rightarrow> nat \<Rightarrow> string \<times> nat \<Rightarrow> c_error + (string \<times> nat)" where
  "set_multic src siz st =
     (if IN6_IS_ADDR_MULTICAST src then
        bindE (store (fst st) 0 (strncpy_bytes ''multic '' siz)) (\<lambda>tmp.
        let mcsiz = siz - 8 in
        bindE (add_label (mc_scope src = 1) mcsiz ''nodeloc'' (tmp, snd st)) (\<lambda>st.
        bindE (add_label (mc_scope src = 2) mcsiz ''linkloc'' st) (\<lambda>st.
        bindE (add_label (mc_scope src = 5) mcsiz ''siteloc'' st) (\<lambda>st.
        bindE (add_label (mc_scope src = 8) mcsiz ''orgloc'' st) (\<lambda>st.
        add_label (mc_scope src = 14) mcsiz ''global'' st)))))
      else Inr st)"

definition inet_details6 :: "string \<Rightarrow> bytes \<Rightarrow> string \<Rightarrow> nat \<Rightarrow> c_error + string" where
  "inet_details6 tmp0 src dst siz =
     bindE (set_label (IN6_IS_ADDR_UNSPECIFIED src) siz ''unspec'' (tmp0, 0)) (\<lambda>st.
     bindE (set_label (IN6_IS_ADDR_LOOPBACK src) siz ''loopback'' st) (\<lambda>st.
     bindE (set_multic src siz st) (\<lambda>st.
     bindE (set_label (IN6_IS_ADDR_LINKLOCAL src) siz ''linkloc'' st) (\<lambda>st.
     bindE (set_label (IN6_IS_ADDR_SITELOCAL src) siz ''siteloc'' st) (\<lambda>st.
     bindE (set_label (IN6_IS_ADDR_V4MAPPED src) siz ''v4mapped'' st) (\<lambda>st.
     bindE (set_label (IN6_IS_ADDR_V4COMPAT src) siz ''v4compat'' st) (\<lambda>(tmp, n).
     bindE (store tmp n [NUL]) (\<lambda>tmp.
     bindE (strlcpy dst (c_str tmp) siz) (\<lambda>(dst, _). Inr dst)))))))))"

definition ip_addr_details :: "string \<Rightarrow> ip_addr \<Rightarrow> string \<Rightarrow> c_error + string" where
  "ip_addr_details tmp0 sa dst =
     (if ip_type sa = AF_INET then store dst 0 [NUL]
      else if ip_type sa = AF_INET6 then inet_details6 tmp0 (ip_bytes sa) dst IP6_DETAILS_SIZE
      else Inr dst)"

subsection \<open>The longest run of zero words\<close>

definition zero_run :: "u_int16 list \<Rightarrow> nat \<Rightarrow> nat \<Rightarrow> bool" where
  "zero_run ws b l \<longleftrightarrow> 0 < l \<and> b + l \<le> length ws \<and> (\<forall>j < l. ws ! (b + j) = 0)"

text \<open>\<open>r\<close> is the leftmost of the longest runs, or there is no run.\<close>

definition longest_run :: "u_int16 list \<Rightarrow> run \<Rightarrow> bool" where
  "longest_run ws r \<longleftrightarrow>
     (if base r = -1 then \<forall>b l. \<not> zero_run ws b l
      else \<exists>b l. base r = int b \<and> run_len r = int l \<and> zero_run ws b l \<and>
        (\<forall>b' l'. zero_run ws b' l' \<longrightarrow> l' < l \<or> l' = l \<and> b \<le> b'))"

lemma longest_run_cong: "zero_run ws = zero_run ws' \<Longrightarrow> longest_run ws r = longest_run ws' r"
  by (simp add: longest_run_def)

lemma zero_run_append_zeros:
  assumes "p = [] \<or> last p \<noteq> 0"
  shows "zero_run (p @ replicate k 0) b l \<longleftrightarrow>
    zero_run p b l \<or> 0 < l \<and> length p \<le> b \<and> b + l \<le> length p + k"
proof
  assume run: "zero_run (p @ replicate k 0) b l"
  show "zero_run p b l \<or> 0 < l \<and> length p \<le> b \<and> b + l \<le> length p + k"
  proof (cases "length p \<le> b \<or> b + l \<le> length p")
    case True
    then show ?thesis using run by (force simp: zero_run_def nth_append split: if_splits)
  next
    case False
    then have "length p - 1 - b < l" and "p \<noteq> []" and "b \<le> length p - 1" by auto
    with run have "(p @ replicate k 0) ! (b + (length p - 1 - b)) = 0"
      unfolding zero_run_def by blast
    moreover have "b + (length p - 1 - b) = length p - 1" using \<open>b \<le> length p - 1\<close> by simp
    ultimately have "last p = 0" using \<open>p \<noteq> []\<close> by (simp add: nth_append last_conv_nth)
    with assms \<open>p \<noteq> []\<close> show ?thesis by simp
  qed
next
  assume "zero_run p b l \<or> 0 < l \<and> length p \<le> b \<and> b + l \<le> length p + k"
  then show "zero_run (p @ replicate k 0) b l"
    by (auto simp: zero_run_def nth_append)
qed

lemma zero_run_snoc: "w \<noteq> 0 \<Longrightarrow> zero_run (p @ [w]) b l \<longleftrightarrow> zero_run p b l"
proof
  assume w: "w \<noteq> 0" and run: "zero_run (p @ [w]) b l"
  have "b + l \<le> length p"
  proof (rule ccontr)
    assume "\<not> b + l \<le> length p"
    with run have "length p - b < l" and "b + (length p - b) = length p"
      by (auto simp: zero_run_def)
    with run have "(p @ [w]) ! length p = 0" unfolding zero_run_def by metis
    with w show False by simp
  qed
  then show "zero_run p b l" using run by (force simp: zero_run_def nth_append)
qed (auto simp: zero_run_def nth_append)

text \<open>The state of the scan behind \<open>p @ replicate k 0\<close>, where \<open>p\<close> does not end in a zero.\<close>

definition scan_state :: "u_int16 list \<Rightarrow> nat \<Rightarrow> run \<Rightarrow> run \<Rightarrow> bool" where
  "scan_state p k best cur \<longleftrightarrow>
     (p = [] \<or> last p \<noteq> 0) \<and> longest_run p best \<and>
     (if k = 0 then base cur = -1 else base cur = int (length p) \<and> run_len cur = int k)"

lemma longest_run_better:
  assumes "scan_state p k best cur"
  shows "longest_run (p @ replicate k 0) (better best cur)"
proof -
  note runs = zero_run_append_zeros [of p k]
  have p: "p = [] \<or> last p \<noteq> 0" and best: "longest_run p best"
    using assms by (auto simp: scan_state_def)
  show ?thesis
  proof (cases "k = 0")
    case True
    with assms best show ?thesis by (simp add: scan_state_def better_def)
  next
    case False
    with assms have cur: "base cur = int (length p)" "run_len cur = int k"
      by (auto simp: scan_state_def)
    show ?thesis
    proof (cases "base best = -1")
      case True
      with best have "\<forall>b l. \<not> zero_run p b l" by (simp add: longest_run_def)
      with True cur False p show ?thesis
        by (auto simp: better_def longest_run_def runs intro!: exI [of _ "length p"] exI [of _ k])
    next
      case base: False
      with best obtain b l where b: "base best = int b" "run_len best = int l" "zero_run p b l"
        "\<forall>b' l'. zero_run p b' l' \<longrightarrow> l' < l \<or> l' = l \<and> b \<le> b'"
        by (auto simp: longest_run_def)
      then have le: "b + l \<le> length p" by (simp add: zero_run_def)
      show ?thesis
      proof (cases "l < k")
        case True
        with b(4) have "zero_run p b' l' \<Longrightarrow> l' < k" for b' l' by fastforce
        with True b cur False p show ?thesis
          by (auto simp: better_def longest_run_def runs intro!: exI [of _ "length p"] exI [of _ k])
      next
        case lk: False
        then have "better best cur = best" using b cur by (simp add: better_def)
        moreover have "zero_run (p @ replicate k 0) b' l' \<Longrightarrow> l' < l \<or> l' = l \<and> b \<le> b'" for b' l'
          using b(4) runs [OF p] lk le by fastforce
        ultimately show ?thesis using b base runs [OF p] by (auto simp: longest_run_def)
      qed
    qed
  qed
qed

lemma scan_words_longest:
  assumes "scan_state p k best cur" and "i = int (length p + k)"
  shows "longest_run (p @ replicate k 0 @ ws) (scan_words i ws best cur)"
  using assms
proof (induction ws arbitrary: i p k best cur)
  case Nil
  then show ?case using longest_run_better by simp
next
  case (Cons w ws)
  show ?case
  proof (cases "w = 0")
    case True
    let ?cur = "if base cur = -1 then \<lparr>base = i, run_len = 1\<rparr> else cur\<lparr>run_len := run_len cur + 1\<rparr>"
    have "scan_state p (Suc k) best ?cur"
      using Cons.prems by (auto simp: scan_state_def split: if_splits)
    moreover have "i + 1 = int (length p + Suc k)" using Cons.prems(2) by simp
    ultimately have "longest_run (p @ replicate (Suc k) 0 @ ws) (scan_words (i + 1) ws best ?cur)"
      by (rule Cons.IH)
    then show ?thesis using True by (simp add: replicate_app_Cons_same)
  next
    case False
    let ?p = "p @ replicate k 0 @ [w]"
    have "longest_run (p @ replicate k 0) (better best cur)"
      using Cons.prems(1) by (rule longest_run_better)
    moreover have "zero_run ?p = zero_run (p @ replicate k 0)"
      using zero_run_snoc [OF False, of "p @ replicate k 0"] by (intro ext) simp
    ultimately have "longest_run ?p (better best cur)"
      using longest_run_cong by blast
    with False have "scan_state ?p 0 (better best cur) (cur\<lparr>base := -1\<rparr>)"
      by (simp add: scan_state_def)
    moreover have "i + 1 = int (length ?p + 0)" using Cons.prems(2) by simp
    ultimately have "longest_run (?p @ replicate 0 0 @ ws)
        (scan_words (i + 1) ws (better best cur) (cur\<lparr>base := -1\<rparr>))"
      by (rule Cons.IH)
    then show ?thesis using False by simp
  qed
qed

lemma best_run_spec:
  "if base (best_run ws) = -1 then \<forall>b l. zero_run ws b l \<longrightarrow> l < 2
   else longest_run ws (best_run ws) \<and> 2 \<le> run_len (best_run ws)"
proof -
  let ?none = "\<lparr>base = -1, run_len = 0\<rparr>" and ?r = "scan_words 0 ws \<lparr>base = -1, run_len = 0\<rparr> \<lparr>base = -1, run_len = 0\<rparr>"
  have "scan_state [] 0 ?none ?none" by (auto simp: scan_state_def longest_run_def zero_run_def)
  from scan_words_longest [OF this, of 0 ws] have r: "longest_run ws ?r" by simp
  show ?thesis
  proof (cases "base ?r \<noteq> -1 \<and> run_len ?r < 2")
    case True
    then obtain b l where "run_len ?r = int l"
      "\<forall>b' l'. zero_run ws b' l' \<longrightarrow> l' < l \<or> l' = l \<and> b \<le> b'"
      using r by (auto simp: longest_run_def)
    with True have "\<forall>b l. zero_run ws b l \<longrightarrow> l < 2" by fastforce
    with True show ?thesis by (simp add: best_run_def Let_def)
  next
    case False
    then show ?thesis using r by (auto simp: best_run_def Let_def longest_run_def)
  qed
qed

subsection \<open>The text of an IPv6 address\<close>

text \<open>
  The tokens of the text, between its colons: an empty token stands for the run of zeros, and one
  more empty token at either end when the run is there.
\<close>

definition run_tokens :: "run \<Rightarrow> u_int16 list \<Rightarrow> string list" where
  "run_tokens r ws =
     (if base r = -1 then map hex_word ws
      else (if base r = 0 then [''''] else map hex_word (take (nat (base r)) ws)) @ [''''] @
        (if base r + run_len r = int (length ws) then ['''']
         else map hex_word (drop (nat (base r + run_len r)) ws)))"

definition encapsulated_v4 :: "run \<Rightarrow> u_int16 list \<Rightarrow> bool" where
  "encapsulated_v4 r ws \<longleftrightarrow> base r = 0 \<and> (run_len r = 6 \<or> run_len r = 5 \<and> ws ! 5 = 0xffff)"

definition colon_words :: "u_int16 list \<Rightarrow> string" where
  "colon_words ws = concat (map (\<lambda>w. CHR '':'' # hex_word w) ws)"

lemma map_option_append_Nil [simp]: "map_option ((@) []) x = x"
  by (cases x) simp_all

lemma fmt_words_step_outside:
  assumes "base r = -1 \<or> i < base r \<or> base r + run_len r \<le> i"
    and "0 < i" and "\<not> encapsulated_v4 r ws"
  shows "fmt_words r ws i (x # ys) =
    map_option (\<lambda>t. (CHR '':'' # hex_word x) @ t) (fmt_words r ws (i + 1) ys)"
  using assms by (auto simp: encapsulated_v4_def)

lemma fmt_words_outside:
  assumes "base r = -1 \<or> i + int (length xs) \<le> base r \<or> base r + run_len r \<le> i"
    and "0 < i" and "\<not> encapsulated_v4 r ws"
  shows "fmt_words r ws i (xs @ ys) =
    map_option (\<lambda>t. colon_words xs @ t) (fmt_words r ws (i + int (length xs)) ys)"
  using assms(1,2)
proof (induction xs arbitrary: i)
  case (Cons x xs)
  have "fmt_words r ws (i + 1) (xs @ ys) =
      map_option (\<lambda>t. colon_words xs @ t) (fmt_words r ws (i + 1 + int (length xs)) ys)"
    using Cons.prems by (intro Cons.IH) auto
  moreover have "fmt_words r ws i (x # xs @ ys) =
      map_option (\<lambda>t. (CHR '':'' # hex_word x) @ t) (fmt_words r ws (i + 1) (xs @ ys))"
    using Cons.prems assms(3) by (intro fmt_words_step_outside) auto
  ultimately show ?case
    by (simp add: colon_words_def option.map_comp o_def add.assoc del: fmt_words.simps)
qed (simp add: colon_words_def)

lemma fmt_words_inside:
  assumes "base r \<noteq> -1" and "base r < i" and "i + int (length xs) \<le> base r + run_len r"
  shows "fmt_words r ws i (xs @ ys) = fmt_words r ws (i + int (length xs)) ys"
  using assms(2,3)
proof (induction xs arbitrary: i)
  case (Cons x xs)
  have "fmt_words r ws (i + 1) (xs @ ys) = fmt_words r ws (i + 1 + int (length xs)) ys"
    using Cons.prems by (intro Cons.IH) auto
  then show ?case using Cons.prems assms(1) by (simp add: add.assoc)
qed simp

lemma colon_words_join:
  "ws \<noteq> [] \<Longrightarrow> colon_words ws = CHR '':'' # join_with CHR '':'' (map hex_word ws)"
proof (induction ws)
  case (Cons w ws)
  then show ?case by (cases ws) (auto simp: colon_words_def)
qed simp

lemma join_with_Cons: "ts \<noteq> [] \<Longrightarrow> join_with d (t # ts) = t @ d # join_with d ts"
  by (cases ts) auto

lemma join_with_append:
  "ss \<noteq> [] \<Longrightarrow> ts \<noteq> [] \<Longrightarrow> join_with d (ss @ ts) = join_with d ss @ d # join_with d ts"
proof (induction ss)
  case (Cons s ss)
  then show ?case by (cases ss; cases ts) auto
qed simp

lemma join_colon_words:
  "colon_words ws @ t = (if ws = [] then t else CHR '':'' # join_with CHR '':'' (map hex_word ws) @ t)"
  by (simp add: colon_words_join) (simp add: colon_words_def)

lemma fmt_words_first:
  assumes "0 < base r \<or> base r = -1" and "ws \<noteq> []"
  shows "fmt_words r vs 0 (hd ws # ys) = map_option (\<lambda>t. hex_word (hd ws) @ t) (fmt_words r vs 1 ys)"
  using assms by auto

lemma fmt_words_prefix:
  assumes "base r = -1 \<or> int (length xs) \<le> base r" and "xs \<noteq> []" and "\<not> encapsulated_v4 r ws"
  shows "fmt_words r ws 0 (xs @ ys) =
    map_option (\<lambda>t. join_with CHR '':'' (map hex_word xs) @ t) (fmt_words r ws (int (length xs)) ys)"
proof -
  obtain x zs where xs: "xs = x # zs" using assms(2) by (cases xs) auto
  have "fmt_words r ws 1 (zs @ ys) =
      map_option (\<lambda>t. colon_words zs @ t) (fmt_words r ws (1 + int (length zs)) ys)"
    using assms by (intro fmt_words_outside) (auto simp: xs)
  moreover have "fmt_words r ws 0 (x # zs @ ys) = map_option (\<lambda>t. hex_word x @ t) (fmt_words r ws 1 (zs @ ys))"
    using assms(1) by (auto simp: xs)
  moreover have "hex_word x @ colon_words zs = join_with CHR '':'' (map hex_word (x # zs))"
    by (cases zs) (simp_all add: colon_words_join, simp add: colon_words_def)
  ultimately show ?thesis
    by (simp add: xs option.map_comp o_def add.commute del: fmt_words.simps flip: append_assoc)
qed

lemma append_singleton_fun [simp]: "(@) [c] = (#) c"
  by (rule ext) simp

lemma fmt_words_run:
  assumes "base r = int b" and "run_len r = int l" and "0 < l" and "length xs = l"
  shows "fmt_words r ws (int b) (xs @ ys) = map_option ((#) CHR '':'') (fmt_words r ws (int (b + l)) ys)"
proof -
  obtain x zs where xs: "xs = x # zs" using assms(3,4) by (cases xs) auto
  have "fmt_words r ws (int b + 1) (zs @ ys) = fmt_words r ws (int b + 1 + int (length zs)) ys"
    using assms by (intro fmt_words_inside) (auto simp: xs)
  moreover have "int (b + l) = int b + 1 + int (length zs)" using assms(4) by (simp add: xs)
  ultimately show ?thesis using assms by (simp add: xs add.assoc)
qed

lemma best_run_cases:
  obtains (none) "base (best_run ws) = -1" | (run) b l where "base (best_run ws) = int b"
    "run_len (best_run ws) = int l" "2 \<le> l" "b + l \<le> length ws"
  using best_run_spec [of ws] by (auto simp: longest_run_def zero_run_def split: if_splits)

lemma ntop6_text_v4:
  assumes "length ws = 8" and "encapsulated_v4 (best_run ws) ws"
  shows "ntop6_text ws = None"
proof -
  let ?r = "best_run ws"
  obtain l where l: "base ?r = 0" "run_len ?r = int l" "l = 6 \<or> l = 5 \<and> ws ! 5 = 0xffff"
    using assms(2) by (auto simp: encapsulated_v4_def intro: that [of "nat (run_len ?r)"])
  have "fmt_words ?r ws 0 (take l ws @ drop l ws) =
      map_option ((#) CHR '':'') (fmt_words ?r ws (int (0 + l)) (drop l ws))"
    using l assms(1) fmt_words_run [of ?r 0 l "take l ws" ws "drop l ws"] by auto
  moreover have "fmt_words ?r ws (int l) (drop l ws) = None"
  proof (cases "l = 6")
    case True
    then have "drop l ws = ws ! 6 # drop 7 ws"
      using assms(1) Cons_nth_drop_Suc [of 6 ws] by simp
    with True l show ?thesis by simp
  next
    case False
    with l have "l = 5" "ws ! 5 = 0xffff" by auto
    moreover have "drop 5 ws = ws ! 5 # ws ! 6 # drop 7 ws"
      using assms(1) Cons_nth_drop_Suc [of 5 ws] Cons_nth_drop_Suc [of 6 ws] by simp
    ultimately show ?thesis using l by simp
  qed
  ultimately show ?thesis by (simp add: ntop6_text_def Let_def)
qed

lemma ntop6_text_tokens:
  assumes "length ws = 8" and v4: "\<not> encapsulated_v4 (best_run ws) ws"
  shows "ntop6_text ws = Some (join_with CHR '':'' (run_tokens (best_run ws) ws))"
proof (cases ws rule: best_run_cases)
  case none
  have "fmt_words (best_run ws) ws 0 (ws @ []) =
      map_option (\<lambda>t. join_with CHR '':'' (map hex_word ws) @ t) (fmt_words (best_run ws) ws (int (length ws)) [])"
    using none v4 assms(1) by (intro fmt_words_prefix) auto
  with none show ?thesis by (simp add: ntop6_text_def Let_def run_tokens_def)
next
  case (run b l)
  let ?r = "best_run ws" and ?p = "take b ws" and ?z = "take l (drop b ws)" and ?q = "drop (b + l) ws"
  have ws: "ws = ?p @ ?z @ ?q" by (metis add.commute append_take_drop_id drop_drop)
  have tail: "fmt_words ?r ws (int (b + l)) (?q @ []) = Some (colon_words ?q)"
    using run v4 by (subst fmt_words_outside) auto
  have "fmt_words ?r ws (int b) (?z @ ?q) = map_option ((#) CHR '':'') (fmt_words ?r ws (int (b + l)) ?q)"
    using run by (intro fmt_words_run) auto
  with tail have rest: "fmt_words ?r ws (int b) (?z @ ?q) = Some (CHR '':'' # colon_words ?q)" by simp
  have all: "fmt_words ?r ws 0 ws =
      Some ((if b = 0 then '''' else join_with CHR '':'' (map hex_word ?p)) @ CHR '':'' # colon_words ?q)"
  proof (cases "b = 0")
    case True
    then show ?thesis using rest ws by simp
  next
    case False
    then have "fmt_words ?r ws 0 (?p @ ?z @ ?q) = map_option (\<lambda>t. join_with CHR '':'' (map hex_word ?p) @ t)
        (fmt_words ?r ws (int (length ?p)) (?z @ ?q))"
      using run v4 assms(1) by (intro fmt_words_prefix) auto
    then show ?thesis using rest ws False run by (simp del: fmt_words.simps)
  qed
  have "ws \<noteq> []" using assms(1) by auto
  show ?thesis
  proof (cases "b + l = 8")
    case True
    then have "base ?r + run_len ?r = 8" using run by linarith
    with all True run assms(1) \<open>ws \<noteq> []\<close> show ?thesis
      by (auto simp: ntop6_text_def Let_def run_tokens_def colon_words_def join_with_append)
  next
    case False
    then have "base ?r + run_len ?r \<noteq> 8" and "?q \<noteq> []" and "nat (base ?r + run_len ?r) = b + l"
      using run assms(1) by auto
    with all run assms(1) \<open>ws \<noteq> []\<close> show ?thesis
      by (auto simp: ntop6_text_def Let_def run_tokens_def colon_words_join join_with_append join_with_Cons)
  qed
qed


subsection \<open>Reading the text back\<close>

definition unhex :: "string \<Rightarrow> u_int16" where
  "unhex s = of_nat (hex_prefix 0 s)"

text \<open>
  RFC 4291: the groups in front of the first empty token, zeros, the groups behind the last one.
\<close>

definition read6 :: "string \<Rightarrow> u_int16 list" where
  "read6 t =
     (let toks = strsep_all (Some t) '':'';
          pre = takeWhile (\<lambda>s. s \<noteq> []) toks;
          post = rev (takeWhile (\<lambda>s. s \<noteq> []) (rev toks)) in
      if length pre = length toks then map unhex toks
      else map unhex pre @ replicate (8 - length pre - length post) 0 @ map unhex post)"

lemma hex_prefix_snoc:
  "\<forall>c \<in> set s. hex_value c \<noteq> None \<Longrightarrow> hex_value c = Some v \<Longrightarrow>
    hex_prefix a (s @ [c]) = 16 * hex_prefix a s + v"
  by (induction s arbitrary: a) auto

lemma hex_prefix_hexs: "hex_prefix 0 (hexs u n) = n"
proof (induction u n rule: hexs.induct)
  case (1 u n)
  show ?case
  proof (cases "n < 16")
    case True
    then show ?thesis by (simp add: hexs.simps [of u n])
  next
    case False
    have "\<forall>c \<in> set (hexs u (n div 16)). hex_value c \<noteq> None"
      using hexs_digits by fastforce
    then have "hex_prefix 0 (hexs u n) = 16 * hex_prefix 0 (hexs u (n div 16)) + n mod 16"
      using False by (subst hexs.simps) (simp add: hex_prefix_snoc)
    with 1 False show ?thesis by simp
  qed
qed

lemma unhex_hex_word [simp]: "unhex (hex_word w) = w"
  by (simp add: unhex_def hex_word_def hex_prefix_hexs)

lemma hex_word_chars: "CHR '':'' \<notin> set (hex_word w)"
proof
  assume "CHR '':'' \<in> set (hex_word w)"
  then obtain k where "k < 16" and "hex_digit False k = CHR '':''"
    using hexs_digits by (metis hex_word_def)
  then have "hex_value (CHR '':'') = Some k" by (metis hex_value_digit)
  then show False by (simp add: hex_value_def)
qed

lemma hex_word_nonempty [simp]: "hex_word w \<noteq> []"
  by (simp add: hex_word_def)

lemma length_hex_word: "length (hex_word w) \<le> 4"
  unfolding hex_word_def
  using unsigned_less [of w, where ?'a = nat] by (intro length_hexs_le) simp_all

lemma strsep_all_join_with:
  assumes "ts \<noteq> []" and "\<forall>t \<in> set ts. d \<notin> set t"
  shows "strsep_all (Some (join_with d ts)) [d] = ts"
  using assms
proof (induction ts)
  case (Cons t ts)
  have scan: "strsep_scan t [d] = (t, None)" if "d \<notin> set t" for t
    using that by (induction t) auto
  have scan2: "strsep_scan (t @ d # r) [d] = (t, Some r)" if "d \<notin> set t" for t r
    using that by (induction t) auto
  show ?case
  proof (cases "ts = []")
    case True
    with Cons scan show ?thesis by (simp add: strsep_all_Some)
  next
    case False
    with Cons scan2 show ?thesis by (simp add: strsep_all_Some join_with_Cons)
  qed
qed simp


lemma run_tokens_ok: "run_tokens r ws = [] \<longleftrightarrow> base r = -1 \<and> ws = []" 
  "\<forall>t \<in> set (run_tokens r ws). CHR '':'' \<notin> set t"
  by (auto simp: run_tokens_def hex_word_chars)

lemma takeWhile_hex_words [simp]:
  "takeWhile (\<lambda>s. s \<noteq> []) (map hex_word ws @ [] # r) = map hex_word ws"
  "takeWhile (\<lambda>s. s \<noteq> []) (map hex_word ws) = map hex_word ws"
  by (induction ws) auto

lemma read6_tokens:
  assumes "length ws = 8"
  shows "read6 (join_with CHR '':'' (run_tokens (best_run ws) ws)) = ws"
proof -
  let ?toks = "run_tokens (best_run ws) ws"
  have "ws \<noteq> []" using assms by auto
  then have toks: "strsep_all (Some (join_with CHR '':'' ?toks)) '':'' = ?toks"
    using run_tokens_ok by (intro strsep_all_join_with) auto
  show ?thesis
  proof (cases ws rule: best_run_cases)
    case none
    then show ?thesis using toks by (simp add: read6_def run_tokens_def o_def)
  next
    case (run b l)
    have "longest_run ws (best_run ws)" using best_run_spec [of ws] run by auto
    with run have zeros: "\<forall>j < l. ws ! (b + j) = 0"
      by (auto simp: longest_run_def zero_run_def)
    have "take l (drop b ws) = replicate l 0"
      using zeros run by (intro nth_equalityI) auto
    then have ws: "take b ws @ replicate l 0 @ drop (b + l) ws = ws"
      by (metis add.commute append_take_drop_id drop_drop)
    have pre: "takeWhile (\<lambda>s. s \<noteq> []) ?toks = map hex_word (take b ws)"
      using run by (auto simp: run_tokens_def)
    have eq: "base (best_run ws) + run_len (best_run ws) = int (length ws) \<longleftrightarrow> b + l = 8"
      "nat (base (best_run ws) + run_len (best_run ws)) = b + l"
      using run assms by linarith+
    have "rev ?toks = (if b + l = 8 then [''''] else map hex_word (rev (drop (b + l) ws))) @ [''''] @
        rev (if b = 0 then [''''] else map hex_word (take b ws))"
      using run eq by (auto simp: run_tokens_def rev_map)
    then have post: "rev (takeWhile (\<lambda>s. s \<noteq> []) (rev ?toks)) = map hex_word (drop (b + l) ws)"
      using assms by (auto simp: rev_map)
    have "length (take b ws) \<noteq> length ?toks" using run by (auto simp: run_tokens_def)
    then have "read6 (join_with CHR '':'' ?toks) =
        take b ws @ replicate (8 - b - (8 - (b + l))) 0 @ drop (b + l) ws"
      using toks pre post run assms by (simp add: read6_def o_def min_def)
    also have "8 - b - (8 - (b + l)) = l" using run assms by simp
    finally show ?thesis using ws by simp
  qed
qed


lemma length_join_with:
  "\<forall>t \<in> set ts. length t \<le> k \<Longrightarrow> length (join_with d ts) \<le> (k + 1) * length ts - 1"
proof (induction ts)
  case (Cons t ts)
  then show ?case by (cases ts) (auto simp: join_with_Cons)
qed simp

lemma length_run_tokens:
  assumes "length ws = 8"
  shows "length (run_tokens (best_run ws) ws) \<le> 8"
proof (cases ws rule: best_run_cases)
  case none
  then show ?thesis using assms by (simp add: run_tokens_def)
next
  case (run b l)
  then show ?thesis using assms by (auto simp: run_tokens_def min_def)
qed

lemma length_ntop6_text:
  assumes "length ws = 8" and "ntop6_text ws = Some t"
  shows "length t \<le> 39"
proof -
  have t: "t = join_with CHR '':'' (run_tokens (best_run ws) ws)"
    using assms ntop6_text_tokens [OF assms(1)] ntop6_text_v4 [OF assms(1)]
    by (cases "encapsulated_v4 (best_run ws) ws") auto
  have "\<forall>s \<in> set (run_tokens (best_run ws) ws). length s \<le> 4"
    by (auto simp: run_tokens_def length_hex_word)
  then have "length t \<le> 5 * length (run_tokens (best_run ws) ws) - 1"
    unfolding t using length_join_with [of _ 4 "CHR '':''"] by fastforce
  then show ?thesis using length_run_tokens [OF assms(1)] by linarith
qed

lemma length_words_of: "length (words_of b) = length b div 2"
  by (induction b rule: words_of.induct) auto

text \<open>
  C25: The text \<^verbatim>\<open>inet_ntop6\<close> writes for an IPv6 address is a notation of RFC 4291 for this address:
  reading it back gives the address. It needs at most 40 bytes, so neither the local array nor a
  destination of \<^verbatim>\<open>IP6_ASCII_ADDR_LEN\<close> bytes overflows. The exception are the addresses that hold
  an IPv4 address (\<^verbatim>\<open>::a.b.c.d\<close> and \<^verbatim>\<open>::ffff:a.b.c.d\<close>): for them the function returns \<^verbatim>\<open>NULL\<close> and
  leaves the destination as it was.
\<close>

theorem inet_ntop6_reads_back:
  assumes "16 \<le> length src" and "IP6_ASCII_ADDR_LEN \<le> length dst"
  shows "if encapsulated_v4 (best_run (words_of (take 16 src))) (words_of (take 16 src))
    then inet_ntop6 src dst IP6_ASCII_ADDR_LEN = Inr (None, dst)
    else \<exists>t. inet_ntop6 src dst IP6_ASCII_ADDR_LEN =
        Inr (Some (overwrite dst 0 (t @ [NUL])), overwrite dst 0 (t @ [NUL])) \<and>
      length t \<le> 39 \<and> read6 t = words_of (take 16 src)"
proof -
  let ?ws = "words_of (take 16 src)"
  have len: "length ?ws = 8" using assms(1) by (simp add: length_words_of)
  show ?thesis
  proof (cases "encapsulated_v4 (best_run ?ws) ?ws")
    case True
    then show ?thesis using ntop6_text_v4 [OF len True] assms(1) by (simp add: inet_ntop6_def)
  next
    case False
    note eq = ntop6_text_tokens [OF len False]
    let ?t = "join_with CHR '':'' (run_tokens (best_run ?ws) ?ws)"
    have "length ?t \<le> 39" using length_ntop6_text [OF len eq] .
    then have "inet_ntop6 src dst IP6_ASCII_ADDR_LEN =
        Inr (Some (overwrite dst 0 (?t @ [NUL])), overwrite dst 0 (?t @ [NUL]))"
      using eq assms by (simp add: inet_ntop6_def strlcpy_eq)
    with False \<open>length ?t \<le> 39\<close> read6_tokens [OF len] show ?thesis
      by (auto intro!: exI [of _ ?t])
  qed
qed

lemma inet_ntop6_reads_back_witness:
  "\<exists>t. inet_ntop6 [0xfe, 0x80, 0, 0, 0, 0, 0, 0, 2, 0x0c, 0x29, 0xff, 0xfe, 1, 2, 3] (replicate 50 NUL) 47 =
      Inr (Some (overwrite (replicate 50 NUL) 0 (t @ [NUL])), overwrite (replicate 50 NUL) 0 (t @ [NUL])) \<and>
    read6 t = [0xfe80, 0, 0, 0, 0x020c, 0x29ff, 0xfe01, 0x0203]"
proof -
  let ?a = "[0xfe, 0x80, 0, 0, 0, 0, 0, 0, 2, 0x0c, 0x29, 0xff, 0xfe, 1, 2, 3] :: bytes"
  have ws: "words_of (take 16 ?a) = [0xfe80, 0, 0, 0, 0x020c, 0x29ff, 0xfe01, 0x0203]"
    by (simp add: join16_def push_bit_eq_mult)
  have "\<not> encapsulated_v4 (best_run (words_of (take 16 ?a))) (words_of (take 16 ?a))"
    unfolding ws by (simp add: encapsulated_v4_def best_run_def better_def)
  with inet_ntop6_reads_back [of ?a "replicate 50 NUL"] show ?thesis
    unfolding ws by auto
qed

text \<open>
  The run of zero words that becomes \<open>::\<close> is the first of the longest ones, and only a run of at
  least two words is abbreviated.
\<close>

theorem best_run_is_longest:
  "if base (best_run ws) = -1 then \<forall>b l. zero_run ws b l \<longrightarrow> l < 2
   else \<exists>b l. best_run ws = \<lparr>base = int b, run_len = int l\<rparr> \<and> 2 \<le> l \<and> zero_run ws b l \<and>
     (\<forall>b' l'. zero_run ws b' l' \<longrightarrow> l' < l \<or> l' = l \<and> b \<le> b')"
proof (cases "base (best_run ws) = -1")
  case True
  then show ?thesis using best_run_spec [of ws] by simp
next
  case False
  then have "longest_run ws (best_run ws)" and ge: "2 \<le> run_len (best_run ws)"
    using best_run_spec [of ws] by auto
  then obtain b l where "base (best_run ws) = int b" "run_len (best_run ws) = int l" "zero_run ws b l"
      "\<forall>b' l'. zero_run ws b' l' \<longrightarrow> l' < l \<or> l' = l \<and> b \<le> b'"
    using False by (auto simp: longest_run_def)
  moreover from this ge have "best_run ws = \<lparr>base = int b, run_len = int l\<rparr>" and "2 \<le> l"
    by (auto intro: run.equality)
  ultimately show ?thesis using False by auto
qed

lemma best_run_is_longest_witness:
  "\<exists>b l. best_run [1, 0, 0, 0, 2, 0] = \<lparr>base = int b, run_len = int l\<rparr> \<and> zero_run [1, 0, 0, 0, 2, 0] b l \<and> 3 \<le> l"
proof -
  have b: "base (best_run [1, 0, 0, 0, 2, 0]) = 1"
    by (simp add: best_run_def better_def)
  have "zero_run [1, 0, 0, 0, 2, 0] 1 3"
    by (simp add: zero_run_def nth_Cons' less_Suc_eq numeral_eq_Suc)
  then show ?thesis
    using best_run_is_longest [of "[1, 0, 0, 0, 2, 0]"] b by force
qed

subsection \<open>Comparison and classes\<close>

text \<open>
  On addresses that \<^verbatim>\<open>ip_addr_init\<close> has filled in, \<^verbatim>\<open>ip_addr_cmp\<close> is equality: it gives 1 exactly
  when both have the same type and the same 4 or 16 bytes, whatever the rest of the array holds.
\<close>

theorem ip_addr_cmp_equality:
  assumes "ip_addr_wf sa" and "ip_addr_wf sb"
  shows "ip_addr_cmp sa sb = Inr (if addr_value sa = addr_value sb then 1 else 0)"
proof (cases "ip_type sa = ip_type sb")
  case True
  with assms have same: "addr_size sa = addr_size sb" and le: "addr_size sa \<le> length (ip_bytes sa)"
      "addr_size sa \<le> length (ip_bytes sb)"
    by (auto simp: ip_addr_wf_def split: if_splits)
  obtain v where v: "memcmp (ip_bytes sa) (ip_bytes sb) (addr_size sa) = Inr v"
    using memcmp_returns [OF le] by blast
  with memcmp_zero_iff [OF le] have "v = 0 \<longleftrightarrow> take (addr_size sa) (ip_bytes sa) = take (addr_size sa) (ip_bytes sb)"
    by auto
  with v True same show ?thesis by (simp add: ip_addr_cmp_def addr_value_def)
qed (simp add: ip_addr_cmp_def addr_value_def)

lemma ip_addr_cmp_equality_witness:
  "ip_addr_cmp \<lparr>ip_type = AF_INET, addr_size = 4, ip_bytes = [10, 0, 0, 1] @ replicate 12 0\<rparr>
     \<lparr>ip_type = AF_INET, addr_size = 4, ip_bytes = [10, 0, 0, 1] @ replicate 12 7\<rparr> = Inr 1"
  using ip_addr_cmp_equality [of "\<lparr>ip_type = AF_INET, addr_size = 4, ip_bytes = [10, 0, 0, 1] @ replicate 12 0\<rparr>"
      "\<lparr>ip_type = AF_INET, addr_size = 4, ip_bytes = [10, 0, 0, 1] @ replicate 12 7\<rparr>"]
  by (simp add: ip_addr_wf_def addr_value_def)

text \<open>The class of an address: at most one of the tests of \<^verbatim>\<open>inet_details6\<close> holds.\<close>

datatype in6_class = Unspec | Loopback | Multicast | Linklocal | Sitelocal | V4mapped | V4compat | Plain

definition class_of :: "bytes \<Rightarrow> in6_class" where
  "class_of a =
     (if IN6_IS_ADDR_UNSPECIFIED a then Unspec
      else if IN6_IS_ADDR_LOOPBACK a then Loopback
      else if IN6_IS_ADDR_MULTICAST a then Multicast
      else if IN6_IS_ADDR_LINKLOCAL a then Linklocal
      else if IN6_IS_ADDR_SITELOCAL a then Sitelocal
      else if IN6_IS_ADDR_V4MAPPED a then V4mapped
      else if IN6_IS_ADDR_V4COMPAT a then V4compat
      else Plain)"

definition scope_label :: "u_int8 \<Rightarrow> string" where
  "scope_label s =
     (if s = 1 then ''nodeloc'' else if s = 2 then ''linkloc'' else if s = 5 then ''siteloc''
      else if s = 8 then ''orgloc'' else if s = 14 then ''global'' else '''')"

definition details_label :: "bytes \<Rightarrow> string" where
  "details_label a =
     (case class_of a of Unspec \<Rightarrow> ''unspec'' | Loopback \<Rightarrow> ''loopback''
      | Multicast \<Rightarrow> scope_label (mc_scope a) | Linklocal \<Rightarrow> ''linkloc'' | Sitelocal \<Rightarrow> ''siteloc''
      | V4mapped \<Rightarrow> ''v4mapped'' | V4compat \<Rightarrow> ''v4compat'' | Plain \<Rightarrow> '''')"

lemma zeros_nth: "zeros n a \<Longrightarrow> k < n \<Longrightarrow> k < length a \<Longrightarrow> a ! k = 0"
  by (auto simp: zeros_def list_all_length)

lemma zeros_less: "zeros n a \<Longrightarrow> m \<le> n \<Longrightarrow> zeros m a"
  by (auto simp: zeros_def list_all_length)

lemma zeros_16: "length a = 16 \<Longrightarrow> zeros 16 a \<longleftrightarrow> zeros 15 a \<and> a ! 15 = 0"
proof -
  assume "length a = 16"
  then have "take 16 a = take 15 a @ [a ! 15]" using take_Suc_conv_app_nth [of 15 a] by simp
  then show "zeros 16 a \<longleftrightarrow> zeros 15 a \<and> a ! 15 = 0" unfolding zeros_def by simp
qed

lemma class_iff:
  assumes "length a = 16"
  shows "IN6_IS_ADDR_UNSPECIFIED a \<longleftrightarrow> class_of a = Unspec"
    and "IN6_IS_ADDR_LOOPBACK a \<longleftrightarrow> class_of a = Loopback"
    and "IN6_IS_ADDR_MULTICAST a \<longleftrightarrow> class_of a = Multicast"
    and "IN6_IS_ADDR_LINKLOCAL a \<longleftrightarrow> class_of a = Linklocal"
    and "IN6_IS_ADDR_SITELOCAL a \<longleftrightarrow> class_of a = Sitelocal"
    and "IN6_IS_ADDR_V4MAPPED a \<longleftrightarrow> class_of a = V4mapped"
    and "IN6_IS_ADDR_V4COMPAT a \<longleftrightarrow> class_of a = V4compat"
proof -
  note classes = IN6_IS_ADDR_UNSPECIFIED_def IN6_IS_ADDR_LOOPBACK_def IN6_IS_ADDR_MULTICAST_def
    IN6_IS_ADDR_LINKLOCAL_def IN6_IS_ADDR_SITELOCAL_def IN6_IS_ADDR_V4MAPPED_def
    IN6_IS_ADDR_V4COMPAT_def zeros_16 [OF assms]
  have z: "zeros n a \<Longrightarrow> 0 < n \<Longrightarrow> a ! 0 = 0" and z10: "zeros 12 a \<Longrightarrow> a ! 10 = 0"
    and z15: "zeros 15 a \<Longrightarrow> a ! 10 = 0" for n
    using zeros_nth [of _ a] assms by simp_all
  show "IN6_IS_ADDR_UNSPECIFIED a \<longleftrightarrow> class_of a = Unspec"
    by (simp add: class_of_def)
  show "IN6_IS_ADDR_LOOPBACK a \<longleftrightarrow> class_of a = Loopback"
    by (auto simp: class_of_def classes)
  show "IN6_IS_ADDR_MULTICAST a \<longleftrightarrow> class_of a = Multicast"
    using z [of 15] by (auto simp: class_of_def classes)
  show "IN6_IS_ADDR_LINKLOCAL a \<longleftrightarrow> class_of a = Linklocal"
    using z [of 15] by (auto simp: class_of_def classes)
  show "IN6_IS_ADDR_SITELOCAL a \<longleftrightarrow> class_of a = Sitelocal"
    using z [of 15] by (auto simp: class_of_def classes)
  show "IN6_IS_ADDR_V4MAPPED a \<longleftrightarrow> class_of a = V4mapped"
    using z [of 10] z15 by (auto simp: class_of_def classes)
  show "IN6_IS_ADDR_V4COMPAT a \<longleftrightarrow> class_of a = V4compat"
    using z [of 12] z10 by (auto simp: class_of_def classes)
qed

lemma set_label_eq:
  assumes "length (fst st) = 16" and "length s < 16"
  shows "set_label c 16 s st = Inr (if c then (overwrite (fst st) 0 (s @ [NUL]), length s) else st)"
  using assms by (simp add: set_label_def strlcpy_eq)

lemma add_label_eq:
  assumes "length (fst st) = 16" and "length s < 8" and "snd st = 0"
  shows "add_label c 8 s st = Inr (if c then (overwrite (fst st) 0 (s @ [NUL]), length s) else st)"
  using assms by (simp add: add_label_def strlcpy_eq)

lemma no_label [simp]: "set_label False k s st = Inr st" "add_label False k s st = Inr st"
  by (simp_all add: set_label_def add_label_def)

lemma set_multic_eq:
  assumes "length tmp = 16"
  shows "\<exists>t0. length t0 = 16 \<and> set_multic src 16 (tmp, 0) =
    Inr (if IN6_IS_ADDR_MULTICAST src then
        (let s = scope_label (mc_scope src) in
          (if s = '''' then t0 else overwrite t0 0 (s @ [NUL]), length s))
      else (tmp, 0))"
proof -
  let ?t = "overwrite tmp 0 (strncpy_bytes ''multic '' 16)"
  have "length ?t = 16" using assms by simp
  moreover have "store tmp 0 (strncpy_bytes ''multic '' 16) = Inr ?t"
    using assms by (simp add: store_def)
  ultimately show ?thesis
    by (intro exI [of _ ?t]) (auto simp: set_multic_def add_label_eq Let_def scope_label_def)
qed

definition details_end :: "string \<Rightarrow> string \<times> nat \<Rightarrow> c_error + string" where
  "details_end dst st =
     bindE (store (fst st) (snd st) [NUL]) (\<lambda>tmp. bindE (strlcpy dst (c_str tmp) 16) (\<lambda>(dst, _). Inr dst))"

lemma details_end_eq:
  assumes "length t0 = 16" and "16 \<le> length dst" and "length s < 15" and "NUL \<notin> set s"
    and "tmp = overwrite t0 0 (s @ [NUL]) \<or> s = '''' \<and> tmp = t0"
  shows "details_end dst (tmp, length s) = Inr (overwrite dst 0 (s @ [NUL]))"
proof -
  have "store tmp (length s) [NUL] = Inr (s @ NUL # drop (length s + 1) t0)"
    using assms by (auto simp: store_def overwrite_def)
  then show ?thesis
    using assms by (simp add: details_end_def c_str_append_NUL strlcpy_eq)
qed

lemma inet_details6_steps:
  "inet_details6 tmp0 src dst 16 =
     bindE (set_label (IN6_IS_ADDR_UNSPECIFIED src) 16 ''unspec'' (tmp0, 0)) (\<lambda>st.
     bindE (set_label (IN6_IS_ADDR_LOOPBACK src) 16 ''loopback'' st) (\<lambda>st.
     bindE (set_multic src 16 st) (\<lambda>st.
     bindE (set_label (IN6_IS_ADDR_LINKLOCAL src) 16 ''linkloc'' st) (\<lambda>st.
     bindE (set_label (IN6_IS_ADDR_SITELOCAL src) 16 ''siteloc'' st) (\<lambda>st.
     bindE (set_label (IN6_IS_ADDR_V4MAPPED src) 16 ''v4mapped'' st) (\<lambda>st.
     bindE (set_label (IN6_IS_ADDR_V4COMPAT src) 16 ''v4compat'' st) (\<lambda>st.
     details_end dst st)))))))"
  by (simp add: inet_details6_def details_end_def split_def)

lemma inet_details6_eq:
  assumes "length src = 16" and "length tmp0 = 16" and "16 \<le> length dst"
  shows "inet_details6 tmp0 src dst IP6_DETAILS_SIZE = Inr (overwrite dst 0 (details_label src @ [NUL]))"
proof -
  note iff = class_iff [OF assms(1)]
  have label: "length (details_label src) < 15" "NUL \<notin> set (details_label src)"
    by (auto simp: details_label_def scope_label_def split: in6_class.splits)
  have "\<exists>t0 tmp. length t0 = 16 \<and>
      (tmp = overwrite t0 0 (details_label src @ [NUL]) \<or> details_label src = '''' \<and> tmp = t0) \<and>
      inet_details6 tmp0 src dst 16 = details_end dst (tmp, length (details_label src))"
  proof (cases "class_of src = Multicast")
    case True
    obtain t0 where "length t0 = 16" and "set_multic src 16 (tmp0, 0) =
        Inr (if details_label src = '''' then t0 else overwrite t0 0 (details_label src @ [NUL]),
             length (details_label src))"
      using set_multic_eq [OF assms(2), of src] True
      by (auto simp: details_label_def scope_label_def Let_def iff)
    with True show ?thesis by (simp add: inet_details6_steps iff) blast
  next
    case False
    have "set_multic src 16 st = Inr st" for st using False by (simp add: set_multic_def iff)
    then show ?thesis using assms(2) False
      by (cases "class_of src")
        (simp_all add: inet_details6_steps iff set_label_eq details_label_def, blast+)
  qed
  then show ?thesis using details_end_eq [OF _ assms(3) label] by auto
qed

text \<open>
  \<^verbatim>\<open>ip_addr_details\<close> gives an IPv4 address the empty label and an IPv6 address one that names its
  class. The label fits into the 16 bytes of the caller and of the
  local array, and does not depend on what the local array held. A multicast address only gets the
  name of its scope: the prefix \<open>multic\<close> that is stored first is overwritten.
\<close>

theorem ip_addr_details_label:
  assumes "ip_addr_wf a" and "ip_type a = AF_INET \<or> ip_type a = AF_INET6"
    and "length junk = 16" and "16 \<le> length dst"
  shows "ip_addr_details junk a dst =
    Inr (overwrite dst 0 ((if ip_type a = AF_INET then '''' else details_label (ip_bytes a)) @ [NUL]))"
  using assms
  by (auto simp: ip_addr_details_def ip_addr_wf_def store_def inet_details6_eq)

lemma ip_addr_details_label_witness:
  "ip_addr_details (replicate 16 CHR ''x'')
     \<lparr>ip_type = AF_INET6, addr_size = 16, ip_bytes = 0xff # 0x02 # replicate 13 0 @ [1]\<rparr> (replicate 50 NUL) =
    Inr (overwrite (replicate 50 NUL) 0 (''linkloc'' @ [NUL]))"
proof -
  let ?a = "0xff # 0x02 # replicate 13 0 @ [1] :: bytes"
  have "details_label ?a = ''linkloc''"
    by (simp add: details_label_def class_of_def IN6_IS_ADDR_UNSPECIFIED_def IN6_IS_ADDR_LOOPBACK_def
        IN6_IS_ADDR_MULTICAST_def zeros_def scope_label_def mc_scope_def)
  then show ?thesis
    using ip_addr_details_label [of "\<lparr>ip_type = AF_INET6, addr_size = 16, ip_bytes = ?a\<rparr>"
        "replicate 16 CHR ''x''" "replicate 50 NUL"]
    by (simp add: ip_addr_wf_def)
qed

end
