(* ===== verification/Data_Files.thy ===== *)
theory Data_Files
  imports Formats
begin

text \<open>
  \<^verbatim>\<open>src/lmap_data.c\<close>: finding and opening a file of the share directory; and \<^verbatim>\<open>fgets\<close>, with which
  the database loaders read it. The file system is a parameter: a map from path names to contents.
\<close>

subsection \<open>Path names\<close>

text \<open>
  \<^verbatim>\<open>sprintf\<close> into a buffer of \<open>sz\<close> zeroed bytes: the text and its NUL must fit. The result is the
  buffer.
\<close>

definition sprintf_into :: "nat \<Rightarrow> string \<Rightarrow> c_error + string" where
  "sprintf_into sz s =
     (if length s + 1 \<le> sz then Inr (overwrite (replicate sz NUL) 0 (s @ [NUL]))
      else Inl Out_of_bounds)"

definition get_full_path :: "string \<Rightarrow> string \<Rightarrow> string \<Rightarrow> c_error + string" where
  "get_full_path prefix program file =
     sprintf_into (length prefix + length program + length file + 3)
       (prefix @ ''/'' @ program @ ''/'' @ file)"

definition get_local_path :: "string \<Rightarrow> c_error + string" where
  "get_local_path file = sprintf_into (length ''../share/'' + length file + 1) (''../share/'' @ file)"

lemma c_str_sprintf_into:
  "NUL \<notin> set s \<Longrightarrow> length s + 1 \<le> sz \<Longrightarrow>
    \<exists>b. sprintf_into sz s = Inr b \<and> length b = sz \<and> c_str b = s"
  by (auto simp: sprintf_into_def overwrite_def c_str_append_NUL)

subsection \<open>Opening a data file\<close>

type_synonym file_system = "string \<Rightarrow> string option"

definition open_data :: "file_system \<Rightarrow> string \<Rightarrow> string \<Rightarrow> string \<Rightarrow> c_error + string" where
  "open_data fs prefix program file =
     bindE (get_full_path prefix program file) (\<lambda>filename.
       case fs (c_str filename) of
         Some content \<Rightarrow> Inr content
       | None \<Rightarrow>
           bindE (get_local_path file) (\<lambda>filename.
             case fs (c_str filename) of
               Some content \<Rightarrow> Inr content
             | None \<Rightarrow> Inl (Exit_process (''can't find '' @ c_str filename))))"

lemma full_path_ok:
  assumes "NUL \<notin> set prefix" and "NUL \<notin> set program" and "NUL \<notin> set file"
  shows "\<exists>b. get_full_path prefix program file = Inr b \<and>
    length b = length prefix + length program + length file + 3 \<and>
    c_str b = prefix @ ''/'' @ program @ ''/'' @ file"
  unfolding get_full_path_def
  by (rule c_str_sprintf_into) (use assms in auto)

lemma local_path_ok:
  assumes "NUL \<notin> set file"
  shows "\<exists>b. get_local_path file = Inr b \<and> length b = length file + 10 \<and>
    c_str b = ''../share/'' @ file"
  using c_str_sprintf_into [of "''../share/'' @ file" "length ''../share/'' + length file + 1"] assms
  by (auto simp: get_local_path_def)

subsection \<open>fgets\<close>

text \<open>
  \<^verbatim>\<open>fgets(line, sz, f)\<close> stores up to \<open>sz - 1\<close> characters, up to and including the first newline;
  \<^verbatim>\<open>NULL\<close> (here \<^term>\<open>None\<close>) at the end of the file.
\<close>

fun fgets_chars :: "nat \<Rightarrow> string \<Rightarrow> string" where
  "fgets_chars 0 s = []"
| "fgets_chars (Suc n) [] = []"
| "fgets_chars (Suc n) (c # s) = (if c = CHR 0x0A then [c] else c # fgets_chars n s)"

definition fgets :: "nat \<Rightarrow> string \<Rightarrow> (string \<times> string) option" where
  "fgets sz s =
     (let l = fgets_chars (sz - 1) s in if l = [] then None else Some (l, drop (length l) s))"

lemma fgets_chars_prefix: "take (length (fgets_chars n s)) s = fgets_chars n s"
  by (induction n s rule: fgets_chars.induct) auto

lemma length_fgets_chars: "length (fgets_chars n s) \<le> n"
  by (induction n s rule: fgets_chars.induct) auto

lemma length_fgets_chars_le: "length (fgets_chars n s) \<le> length s"
  by (induction n s rule: fgets_chars.induct) auto

lemma fgets_shrinks:
  assumes "fgets sz s = Some (l, r)"
  shows "length r < length s"
proof -
  from assms have "r = drop (length l) s" and "l \<noteq> []" and "length l \<le> length s"
    by (auto simp: fgets_def Let_def length_fgets_chars_le split: if_splits)
  then show ?thesis by (cases l) auto
qed

text \<open>The lines a loop \<^verbatim>\<open>while (fgets(line, sz, f) != 0)\<close> sees.\<close>

function file_lines :: "nat \<Rightarrow> string \<Rightarrow> string list" where
  "file_lines sz s = (case fgets sz s of None \<Rightarrow> [] | Some (l, r) \<Rightarrow> l # file_lines sz r)"
  by pat_completeness auto
termination
  by (relation "measure (\<lambda>(sz, s). length s)") (auto dest: fgets_shrinks [OF sym] fgets_shrinks)

declare file_lines.simps [simp del]

lemma file_lines_length: "l \<in> set (file_lines sz s) \<Longrightarrow> l \<noteq> [] \<and> length l < sz"
proof (induction sz s rule: file_lines.induct)
  case (1 sz s)
  show ?case
  proof (cases "fgets sz s")
    case None
    with "1.prems" show ?thesis by (simp add: file_lines.simps [of sz s])
  next
    case (Some p)
    obtain l' r where p: "p = (l', r)" by (cases p) auto
    with Some have l': "l' = fgets_chars (sz - 1) s" "l' \<noteq> []"
      by (auto simp: fgets_def Let_def split: if_splits)
    then have "length l' < sz"
      using length_fgets_chars [of "sz - 1" s] by (cases sz) auto
    with "1.prems" "1.IH" [OF Some p [symmetric]] Some p l'(2) show ?thesis
      by (auto simp: file_lines.simps [of sz s])
  qed
qed

lemma file_lines_concat: "1 < sz \<Longrightarrow> concat (file_lines sz s) = s"
proof (induction sz s rule: file_lines.induct)
  case (1 sz s)
  show ?case
  proof (cases "fgets sz s")
    case None
    then have "fgets_chars (sz - 1) s = []" by (simp add: fgets_def Let_def split: if_splits)
    with "1.prems" have "s = []" by (cases s; cases "sz - 1") (auto split: if_splits)
    with None show ?thesis by (subst file_lines.simps) simp
  next
    case (Some p)
    obtain l r where p: "p = (l, r)" by (cases p) auto
    with Some have "l = fgets_chars (sz - 1) s" and "r = drop (length l) s"
      by (auto simp: fgets_def Let_def split: if_splits)
    then have "l @ r = s"
      by (metis append_take_drop_id fgets_chars_prefix)
    with "1.IH" [OF Some p [symmetric]] "1.prems" Some p show ?thesis
      by (simp add: file_lines.simps [of sz s])
  qed
qed

end
