(* ===== verification/Iface.thy ===== *)
theory Iface
  imports Inet Data_Files
begin

text \<open>
  \<^verbatim>\<open>src/lmap_if.c\<close>: the addresses of a network interface. The kernel is a parameter: \<^verbatim>\<open>ioctl\<close> is a
  function on its state; sockets are counted, so that a path that forgets \<^verbatim>\<open>close\<close> shows.
\<close>

subsection \<open>Link layer addresses\<close>

definition mac_text :: "bytes \<Rightarrow> string" where
  "mac_text a =
     fmt_X True 2 (uint (a ! 0)) @ '':'' @ fmt_X True 2 (uint (a ! 1)) @ '':'' @
     fmt_X True 2 (uint (a ! 2)) @ '':'' @ fmt_X True 2 (uint (a ! 3)) @ '':'' @
     fmt_X True 2 (uint (a ! 4)) @ '':'' @ fmt_X True 2 (uint (a ! 5))"

definition eth_addr_ntoa :: "bytes \<Rightarrow> string \<Rightarrow> c_error + (int \<times> string)" where
  "eth_addr_ntoa ll_addr ascii =
     (if length ll_addr < 6 then Inl Out_of_bounds
      else bindE (store ascii 0 (mac_text ll_addr @ [NUL])) (\<lambda>ascii. Inr (ESUCCESS, ascii)))"

lemma mac_text_no_NUL: "NUL \<notin> set (mac_text a)"
  by (simp add: mac_text_def)

lemma length_mac_text [fmt_len]: "length (mac_text a) = 17"
  by (simp add: mac_text_def fmt_len)

lemma eth_addr_ntoa_ok:
  "6 \<le> length a \<Longrightarrow> 18 \<le> length ascii \<Longrightarrow>
    eth_addr_ntoa a ascii = Inr (ESUCCESS, overwrite ascii 0 (mac_text a @ [NUL]))"
  by (simp add: eth_addr_ntoa_def store_def length_mac_text)

subsection \<open>Requests to the kernel\<close>

datatype request =
    SIOCGIFINDEX | SIOCGIFADDR | SIOCSIFADDR | SIOCGIFNETMASK | SIOCSIFNETMASK
  | SIOCGIFHWADDR | SIOCSIFHWADDR

text \<open>\<^verbatim>\<open>struct ifreq\<close>: the name (16 bytes), the family and the 14 bytes of \<^verbatim>\<open>sa_data\<close>, the index.\<close>

record ifreq =
  ifr_name :: string
  sa_family :: int
  sa_data :: bytes
  ifr_ifindex :: int

record 'k system =
  kernel :: 'k
  open_sockets :: nat

type_synonym 'k ioctl = "request \<Rightarrow> ifreq \<Rightarrow> 'k \<Rightarrow> int \<times> ifreq \<times> 'k"

text \<open>\<^verbatim>\<open>memset(&ifr, 0, sizeof(ifr)); strncpy(ifr.ifr_name, iface, sizeof(ifr.ifr_name))\<close>\<close>

definition new_ifreq :: "string \<Rightarrow> ifreq" where
  "new_ifreq iface =
     \<lparr>ifr_name = strncpy_bytes iface 16, sa_family = 0, sa_data = replicate 14 0, ifr_ifindex = 0\<rparr>"

definition open_socket :: "'k system \<Rightarrow> 'k system" where
  "open_socket s = s\<lparr>open_sockets := open_sockets s + 1\<rparr>"

definition close_socket :: "'k system \<Rightarrow> 'k system" where
  "close_socket s = s\<lparr>open_sockets := open_sockets s - 1\<rparr>"

definition do_ioctl :: "'k ioctl \<Rightarrow> request \<Rightarrow> ifreq \<Rightarrow> 'k system \<Rightarrow> int \<times> ifreq \<times> 'k system" where
  "do_ioctl ioctl r ifr s =
     (case ioctl r ifr (kernel s) of (rc, ifr', k') \<Rightarrow> (rc, ifr', s\<lparr>kernel := k'\<rparr>))"

definition get_iface_idx :: "'k ioctl \<Rightarrow> string \<Rightarrow> 'k system \<Rightarrow> c_error + (int \<times> 'k system)" where
  "get_iface_idx ioctl iface s =
     (case do_ioctl ioctl SIOCGIFINDEX (new_ifreq iface) (open_socket s) of (rc, ifr, s) \<Rightarrow>
        if rc < 0 then Inl (Exit_process ''ioctl(SIOCGIFINDEX)'') else Inr (ifr_ifindex ifr, s))"

definition get_iface_ip ::
  "'k ioctl \<Rightarrow> string \<Rightarrow> ip_addr option \<Rightarrow> int \<Rightarrow> 'k system \<Rightarrow> c_error + (int \<times> ip_addr option \<times> 'k system)" where
  "get_iface_ip ioctl iface ipa t s =
     (case ipa of
        None \<Rightarrow> Inr (- EINVALID, None, s)
      | Some ip \<Rightarrow>
          if t = AF_INET then
            (case do_ioctl ioctl SIOCGIFADDR (new_ifreq iface) (open_socket s) of (rc, ifr, s) \<Rightarrow>
               if rc < 0 then Inr (- ENOADDRESS, Some ip, close_socket s)
               else bindE (ip_addr_init ip AF_INET (drop 2 (sa_data ifr))) (\<lambda>(_, ip).
                 Inr (ESUCCESS, Some ip, close_socket s)))
          else if t = AF_INET6 then Inr (ESUCCESS, Some ip, s)
          else Inl (Exit_process ''invalid address type''))"

text \<open>\<^verbatim>\<open>strncpy(sa_data + 2, &ipa->addr, IP_ADDR_LEN)\<close>: the copy ends at the first zero byte.\<close>

definition strncpy4 :: "bytes \<Rightarrow> bytes" where
  "strncpy4 a = (let t = takeWhile (\<lambda>b. b \<noteq> 0) (take 4 a) in t @ replicate (4 - length t) 0)"

definition set_iface_ip ::
  "'k ioctl \<Rightarrow> string \<Rightarrow> ip_addr option \<Rightarrow> int \<Rightarrow> 'k system \<Rightarrow> int \<times> 'k system" where
  "set_iface_ip ioctl iface ipa t s =
     (case ipa of
        None \<Rightarrow> (- EINVALID, s)
      | Some ip \<Rightarrow>
          if t = AF_INET then
            (let ifr = (new_ifreq iface)\<lparr>sa_family := AF_INET,
                   sa_data := overwrite (replicate 14 0) 2 (strncpy4 (ip_bytes ip))\<rparr> in
             case do_ioctl ioctl SIOCSIFADDR ifr (open_socket s) of (rc, _, s) \<Rightarrow>
               if rc < 0 then (- ENOADDRESS, close_socket s) else (ESUCCESS, close_socket s))
          else if t = AF_INET6 then (- ENOADDRESS, s)
          else (ESUCCESS, s))"

text \<open>A netmask is the four bytes of a \<^verbatim>\<open>u_int32\<close>.\<close>

definition get_iface_mask ::
  "'k ioctl \<Rightarrow> string \<Rightarrow> bytes option \<Rightarrow> 'k system \<Rightarrow> int \<times> bytes option \<times> 'k system" where
  "get_iface_mask ioctl iface netmask s =
     (case netmask of
        None \<Rightarrow> (- EINVALID, None, s)
      | Some m \<Rightarrow>
          (case do_ioctl ioctl SIOCGIFNETMASK (new_ifreq iface) (open_socket s) of (rc, ifr, s) \<Rightarrow>
             if rc < 0 then (- ENOADDRESS, Some m, close_socket s)
             else (ESUCCESS, Some (take 4 (drop 2 (sa_data ifr))), close_socket s)))"

definition set_iface_mask ::
  "'k ioctl \<Rightarrow> string \<Rightarrow> bytes option \<Rightarrow> 'k system \<Rightarrow> int \<times> 'k system" where
  "set_iface_mask ioctl iface netmask s =
     (case netmask of
        None \<Rightarrow> (- EINVALID, s)
      | Some m \<Rightarrow>
          (let ifr = (new_ifreq iface)\<lparr>sa_family := AF_INET,
                 sa_data := overwrite (replicate 14 0) 2 (take 4 m)\<rparr> in
           case do_ioctl ioctl SIOCSIFNETMASK ifr (open_socket s) of (rc, _, s) \<Rightarrow>
             if rc < 0 then (- ENOADDRESS, close_socket s) else (ESUCCESS, s)))"

text \<open>The Linux branches of \<^verbatim>\<open>get_iface_ll\<close> and \<^verbatim>\<open>set_iface_ll\<close>.\<close>

definition get_iface_ll ::
  "'k ioctl \<Rightarrow> string \<Rightarrow> bytes option \<Rightarrow> 'k system \<Rightarrow> c_error + (int \<times> bytes option \<times> 'k system)" where
  "get_iface_ll ioctl iface ll_addr s =
     (case ll_addr of
        None \<Rightarrow> Inr (- EINVALID, None, s)
      | Some ll \<Rightarrow>
          (case do_ioctl ioctl SIOCGIFHWADDR (new_ifreq iface) (open_socket s) of (rc, ifr, s) \<Rightarrow>
             if rc < 0 then Inl (Exit_process ''ioctl(SIOCGIFHWADDR)'')
             else Inr (ESUCCESS, Some (overwrite ll 0 (take 6 (sa_data ifr))), close_socket s)))"

definition set_iface_ll ::
  "'k ioctl \<Rightarrow> string \<Rightarrow> bytes option \<Rightarrow> 'k system \<Rightarrow> c_error + (int \<times> 'k system)" where
  "set_iface_ll ioctl iface ll_addr s =
     (case ll_addr of
        None \<Rightarrow> Inr (- EINVALID, s)
      | Some ll \<Rightarrow>
          (let ifr = (new_ifreq iface)\<lparr>sa_data := overwrite (replicate 14 0) 0 (take 6 ll)\<rparr> in
           case do_ioctl ioctl SIOCSIFHWADDR ifr (open_socket s) of (rc, _, s) \<Rightarrow>
             if rc < 0 then Inl (Exit_process ''ioctl(SIOCSIFHWADDR'') else Inr (ESUCCESS, s)))"

subsection \<open>The default gateway\<close>

text \<open>
  The conversion \<^verbatim>\<open>%x\<close>: white space, a sign, \<^verbatim>\<open>0x\<close>, digits. The value is reduced to the width of the
  variable; the kernel writes at most eight digits, so it never exceeds that width.
\<close>

definition scan_hex :: "string \<Rightarrow> (int \<times> string) option" where
  "scan_hex s =
     (let t = dropWhile is_space s;
          neg = (t \<noteq> [] \<and> hd t = CHR ''-'');
          u = drop_0x (if t \<noteq> [] \<and> (hd t = CHR ''-'' \<or> hd t = CHR ''+'') then tl t else t);
          d = takeWhile (\<lambda>c. hex_value c \<noteq> None) u in
      if d = [] then None
      else Some ((if neg then - 1 else 1) * int (hex_prefix 0 d), drop (length d) u))"

abbreviation (input) RTF_GATEWAY :: u_int16 where
  "RTF_GATEWAY \<equiv> 2"

text \<open>
  \<^verbatim>\<open>sscanf(line + 8, "%x %x %hx", &dest, gw_addr, &flags)\<close>: the new \<^verbatim>\<open>*gw_addr\<close>, which is stored even
  when the third conversion fails, and \<^verbatim>\<open>dest\<close> and \<^verbatim>\<open>flags\<close> when all three succeed.
\<close>

definition scan_route :: "string \<Rightarrow> u_int32 \<Rightarrow> (u_int32 \<times> u_int16) option \<times> u_int32" where
  "scan_route s gw =
     (case scan_hex s of
        None \<Rightarrow> (None, gw)
      | Some (dest, s) \<Rightarrow>
          (case scan_hex s of
             None \<Rightarrow> (None, gw)
           | Some (g, s) \<Rightarrow>
               (case scan_hex s of
                  None \<Rightarrow> (None, word_of_int g)
                | Some (flags, s) \<Rightarrow> (Some (word_of_int dest, word_of_int flags), word_of_int g))))"

text \<open>
  The loop over the lines behind the first. \<open>buf\<close> is the array \<^verbatim>\<open>line\<close>: behind a short line it still
  holds what was there before.
\<close>

fun gw_loop :: "string list \<Rightarrow> string \<Rightarrow> u_int32 \<Rightarrow> int \<times> u_int32" where
  "gw_loop [] buf gw = (ENOTFOUND, gw)"
| "gw_loop (l # ls) buf gw =
     (let buf = overwrite buf 0 (l @ [NUL]) in
      case scan_route (c_str (drop 8 buf)) gw of
        (None, gw) \<Rightarrow> gw_loop ls buf gw
      | (Some (dest, flags), gw) \<Rightarrow>
          if flags AND RTF_GATEWAY \<noteq> 0 \<and> dest = 0 then (ESUCCESS, gw) else gw_loop ls buf gw)"

definition get_default_gw :: "file_system \<Rightarrow> string \<Rightarrow> u_int32 \<Rightarrow> int \<times> u_int32" where
  "get_default_gw fs junk gw =
     (case fs ''/proc/net/route'' of
        None \<Rightarrow> (EINVALID, gw)
      | Some content \<Rightarrow>
          (case file_lines 1023 content of
             [] \<Rightarrow> gw_loop [] junk gw
           | l # ls \<Rightarrow> gw_loop ls (overwrite junk 0 (l @ [NUL])) gw))"

subsection \<open>The name server\<close>

text \<open>\<^verbatim>\<open>strtok\<close> with one separator: the token and the rest; \<^term>\<open>None\<close> is \<^verbatim>\<open>NULL\<close>.\<close>

definition strtok :: "char \<Rightarrow> string \<Rightarrow> (string \<times> string) option" where
  "strtok c s =
     (let t = dropWhile (\<lambda>d. d = c) s; w = takeWhile (\<lambda>d. d \<noteq> c) t in
      if w = [] then None else Some (w, drop (length w + 1) t))"

text \<open>\<^verbatim>\<open>inet_pton(AF_INET, p, &ina)\<close>: four decimal numbers up to 255 without leading zeros.\<close>

definition dec_value :: "char \<Rightarrow> nat option" where
  "dec_value c = (let n = of_char c :: nat in if 48 \<le> n \<and> n \<le> 57 then Some (n - 48) else None)"

definition pton_octet :: "string \<Rightarrow> u_int8 option" where
  "pton_octet s =
     (if s \<noteq> [] \<and> (\<forall>c \<in> set s. dec_value c \<noteq> None) \<and> (length s = 1 \<or> hd s \<noteq> CHR ''0'') \<and>
         foldl (\<lambda>n c. 10 * n + the (dec_value c)) 0 s \<le> 255
      then Some (word_of_nat (foldl (\<lambda>n c. 10 * n + the (dec_value c)) 0 s)) else None)"

fun split_dots :: "string \<Rightarrow> string list" where
  "split_dots [] = [[]]"
| "split_dots (c # s) =
     (if c = CHR ''.'' then [] # split_dots s
      else (case split_dots s of [] \<Rightarrow> [[c]] | w # ws \<Rightarrow> (c # w) # ws))"

definition inet_pton4 :: "string \<Rightarrow> bytes option" where
  "inet_pton4 s =
     (case map pton_octet (split_dots s) of
        [Some a, Some b, Some c, Some d] \<Rightarrow> Some [a, b, c, d]
      | _ \<Rightarrow> None)"

text \<open>
  The result is the return value, \<^verbatim>\<open>*dns_addr\<close> and the number of files left open. The result of
  \<^verbatim>\<open>inet_pton\<close> is not looked at: \<open>ina\<close> is what the local variable holds when it fails.
\<close>

fun dns_loop :: "bytes \<Rightarrow> string list \<Rightarrow> bytes \<Rightarrow> c_error + (int \<times> bytes \<times> nat)" where
  "dns_loop ina [] dns = Inr (ENOTFOUND, dns, 0)"
| "dns_loop ina (l # ls) dns =
     (case strtok CHR '' '' (c_str l) of
        None \<Rightarrow> Inl Null_pointer
      | Some (w, rest) \<Rightarrow>
          if w = ''nameserver'' then
            (case strtok CHR 0x0A rest of
               None \<Rightarrow> Inl Null_pointer
             | Some (p, _) \<Rightarrow>
                 Inr (ESUCCESS, (case inet_pton4 p of Some a \<Rightarrow> a | None \<Rightarrow> ina), 1))
          else dns_loop ina ls dns)"

definition get_default_dns :: "file_system \<Rightarrow> bytes \<Rightarrow> bytes \<Rightarrow> c_error + (int \<times> bytes \<times> nat)" where
  "get_default_dns fs ina dns =
     (case fs ''/etc/resolv.conf'' of
        None \<Rightarrow> Inr (EINVALID, dns, 0)
      | Some content \<Rightarrow> dns_loop ina (file_lines 1023 content) dns)"

subsection \<open>Lemmas\<close>

text \<open>The fields of \<^verbatim>\<open>/proc/net/route\<close>: numbers in upper case with a fixed number of digits, between tabs.\<close>

abbreviation (input) TAB :: char where
  "TAB \<equiv> CHR 0x09"

definition route_line :: "string \<Rightarrow> u_int32 \<Rightarrow> u_int32 \<Rightarrow> u_int16 \<Rightarrow> string \<Rightarrow> string" where
  "route_line iface dest gw flags rest =
     iface @ TAB # fmt_X True 8 (uint dest) @ TAB # fmt_X True 8 (uint gw) @ TAB #
     fmt_X True 4 (uint flags) @ TAB # rest"

definition all_hex :: "string \<Rightarrow> bool" where
  "all_hex d \<longleftrightarrow> (\<forall>c \<in> set d. hex_value c \<noteq> None)"

lemma hex_not_special:
  "hex_value c \<noteq> None \<Longrightarrow> \<not> is_space c \<and> c \<noteq> CHR ''-'' \<and> c \<noteq> CHR ''+'' \<and> c \<noteq> CHR ''x'' \<and> c \<noteq> CHR ''X'' \<and> c \<noteq> NUL"
  by (auto simp: hex_value_def is_space_def Let_def split: if_splits)

lemma drop_0x_hex: "all_hex d \<Longrightarrow> d \<noteq> [] \<Longrightarrow> hex_value c = None \<Longrightarrow> c \<noteq> CHR ''x'' \<Longrightarrow> c \<noteq> CHR ''X'' \<Longrightarrow>
    drop_0x (d @ c # r) = d @ c # r"
  using hex_not_special by (cases d; cases "tl d") (auto simp: all_hex_def drop_0x_def split: list.splits)

lemma hex_prefix_all: "all_hex d \<Longrightarrow> hex_value c = None \<Longrightarrow> hex_prefix n (d @ c # r) = hex_prefix n d"
  by (induction d arbitrary: n) (auto simp: all_hex_def split: option.splits)

lemma scan_hex_field:
  assumes "all_hex d" and "d \<noteq> []"
  shows "scan_hex (TAB # d @ TAB # r) = Some (int (hex_prefix 0 d), TAB # r)"
    and "scan_hex (d @ TAB # r) = Some (int (hex_prefix 0 d), TAB # r)"
proof -
  obtain c d' where d: "d = c # d'" using assms(2) by (cases d) auto
  then have c: "\<not> is_space c" "c \<noteq> CHR ''-''" "c \<noteq> CHR ''+''"
    using assms(1) hex_not_special [of c] by (auto simp: all_hex_def)
  have tab: "hex_value TAB = None" by (simp add: hex_value_def)
  have "takeWhile (\<lambda>c. hex_value c \<noteq> None) (d @ TAB # r) = d"
    using assms(1) tab by (auto simp: all_hex_def takeWhile_append)
  moreover have "drop_0x (d @ TAB # r) = d @ TAB # r"
    using assms tab by (intro drop_0x_hex) auto
  ultimately show "scan_hex (d @ TAB # r) = Some (int (hex_prefix 0 d), TAB # r)"
    using c assms(2) by (simp add: scan_hex_def Let_def d)
  moreover have "dropWhile is_space (TAB # d @ TAB # r) = dropWhile is_space (d @ TAB # r)"
    by (simp add: is_space_def)
  ultimately show "scan_hex (TAB # d @ TAB # r) = Some (int (hex_prefix 0 d), TAB # r)"
    by (simp add: scan_hex_def)
qed

lemma all_hex_fmt_X: "all_hex (fmt_X u w v)"
proof -
  have "hex_value c \<noteq> None" if "c \<in> set (hexs u n)" for c n
    using hexs_digits [OF that] by auto
  then show ?thesis by (auto simp: all_hex_def fmt_X_def pad0_def hex_value_def)
qed

lemma hex_prefix_zeros: "hex_prefix 0 (replicate k CHR ''0'' @ s) = hex_prefix 0 s"
  by (induction k) (simp_all add: hex_value_def)

lemma hex_prefix_fmt_X:
  assumes "0 \<le> v" and "v < 2 ^ 32"
  shows "hex_prefix 0 (fmt_X u w v) = nat v"
  using assms by (simp add: fmt_X_def pad0_def hex_prefix_zeros hex_prefix_hexs)

lemma fmt_X_nonempty: "fmt_X u w v \<noteq> []"
  by (simp add: fmt_X_def pad0_def)

lemma c_str_drop:
  assumes "NUL \<notin> set l" and "n \<le> length l"
  shows "c_str (drop n (overwrite buf 0 (l @ [NUL]))) = drop n l"
proof -
  have "drop n (overwrite buf 0 (l @ [NUL])) = drop n l @ NUL # drop (length l + 1) buf"
    using assms(2) by (simp add: overwrite_def)
  moreover have "NUL \<notin> set (drop n l)" using assms(1) by (meson in_set_dropD)
  ultimately show ?thesis by (simp add: c_str_append_NUL)
qed

lemma fmt_X_zero8: "fmt_X True 8 0 = replicate 8 CHR ''0''"
  by (simp add: fmt_X_def pad0_def hexs.simps [of True 0] hex_digit_def numeral_eq_Suc)

lemma drop_name:
  assumes "length iface \<le> 8"
  shows "drop 8 (route_line iface 0 gw flags rest) =
    (if length iface = 8 then [TAB] else []) @ replicate (min 8 (1 + length iface)) CHR ''0'' @
    TAB # fmt_X True 8 (uint gw) @ TAB # fmt_X True 4 (uint flags) @ TAB # rest"
proof -
  have "drop (8 - length iface) (TAB # replicate 8 CHR ''0'' @ r) =
      (if length iface = 8 then [TAB] else []) @ replicate (min 8 (1 + length iface)) CHR ''0'' @ r" for r
  proof (cases "8 - length iface")
    case (Suc n)
    then have "8 - n = Suc (length iface)" and "length iface < 8" by simp_all
    with Suc show ?thesis by simp
  qed (use assms in simp)
  then show ?thesis using assms by (simp add: route_line_def fmt_X_zero8)
qed

lemma scan_route_default:
  assumes "length iface \<le> 8"
  shows "scan_route (drop 8 (route_line iface 0 gw flags rest)) g0 = (Some (0, flags), gw)"
proof -
  define z where "z = replicate (min 8 (1 + length iface)) CHR ''0''"
  have z: "all_hex z" "z \<noteq> []" "hex_prefix 0 z = 0"
    using hex_prefix_zeros [of _ "[]"] by (auto simp: z_def all_hex_def hex_value_def)
  have "uint gw < 2 ^ 32" and "uint flags < 2 ^ 32"
    using unsigned_less [of gw, where ?'a = int] unsigned_less [of flags, where ?'a = int] by simp_all
  then show ?thesis
    using scan_hex_field [OF z(1,2)] scan_hex_field [OF all_hex_fmt_X fmt_X_nonempty] z(3)
    unfolding drop_name [OF assms] z_def [symmetric]
    by (cases "length iface = 8") (simp_all add: scan_route_def hex_prefix_fmt_X)
qed

text \<open>
  A default route with a gateway in the second line of \<^verbatim>\<open>/proc/net/route\<close> is found, and
  \<^verbatim>\<open>get_default_gw\<close> stores its gateway, when the name of its interface has at most eight characters
  (the scan starts at the fixed offset 8 of the line).
\<close>

theorem default_gw_found:
  assumes "fs ''/proc/net/route'' = Some content"
    and "file_lines 1023 content = header # route_line iface 0 gw flags rest # ls"
    and "length iface \<le> 8" and "NUL \<notin> set (iface @ rest)" and "flags AND RTF_GATEWAY \<noteq> 0"
  shows "get_default_gw fs junk g0 = (ESUCCESS, gw)"
proof -
  let ?l = "route_line iface 0 gw flags rest"
  have "NUL \<notin> set ?l" and "8 \<le> length ?l"
    using assms(4) by (auto simp: route_line_def fmt_X_zero8)
  then have "scan_route (c_str (drop 8 (overwrite buf 0 (?l @ [NUL])))) g0 = (Some (0, flags), gw)" for buf
    using scan_route_default [OF assms(3)] by (simp add: c_str_drop)
  then show ?thesis using assms(1,2,5) by (simp add: get_default_gw_def Let_def)
qed

lemma fgets_chars_no_newline: "CHR 0x0A \<notin> set s \<Longrightarrow> length s \<le> n \<Longrightarrow> fgets_chars n s = s"
  by (induction n s rule: fgets_chars.induct) auto

lemma file_lines_last:
  "CHR 0x0A \<notin> set s \<Longrightarrow> s \<noteq> [] \<Longrightarrow> length s < sz \<Longrightarrow> file_lines sz s = [s]"
  by (simp add: file_lines.simps [of sz s] file_lines.simps [of sz "[]"] fgets_def fgets_chars_no_newline)

lemma file_lines_newline: "file_lines (Suc (Suc n)) (CHR 0x0A # s) = [CHR 0x0A] # file_lines (Suc (Suc n)) s"
  by (simp add: file_lines.simps [of _ "CHR 0x0A # s"] fgets_def)

lemma fmt_X_no_newline: "CHR 0x0A \<notin> set (fmt_X u w v)"
  using all_hex_fmt_X [of u w v] by (auto simp: all_hex_def hex_value_def)

definition sample_route :: string where
  "sample_route = route_line ''eth0'' 0 0x0101A8C0 3 []"

lemma sample_route_lines: "file_lines 1023 (CHR 0x0A # sample_route) = [[CHR 0x0A], sample_route]"
proof -
  have "CHR 0x0A \<notin> set sample_route" and "length sample_route < 1023" and "sample_route \<noteq> []"
    by (auto simp: sample_route_def route_line_def fmt_X_no_newline length_fmt_X)
  then show ?thesis
    using file_lines_newline [of 1021 sample_route] file_lines_last [of sample_route 1023] by (simp add: numeral_eq_Suc)
qed

lemma default_gw_found_witness:
  "get_default_gw [''/proc/net/route'' \<mapsto> CHR 0x0A # sample_route] (replicate 1024 NUL) 7 = (ESUCCESS, 0x0101A8C0)"
  using default_gw_found [of "[''/proc/net/route'' \<mapsto> CHR 0x0A # sample_route]" "CHR 0x0A # sample_route"
      "[CHR 0x0A]" "''eth0''" "0x0101A8C0" 3 "[]" "[]" "replicate 1024 NUL" 7] sample_route_lines
  by (simp add: sample_route_def)

subsection \<open>Setting an address\<close>

text \<open>The address in the request of \<^verbatim>\<open>set_iface_ip\<close>.\<close>

definition set_ip_request :: "string \<Rightarrow> ip_addr \<Rightarrow> ifreq" where
  "set_ip_request iface ip = (new_ifreq iface)\<lparr>sa_family := AF_INET,
     sa_data := overwrite (replicate 14 0) 2 (strncpy4 (ip_bytes ip))\<rparr>"

definition sent_ip :: "ifreq \<Rightarrow> bytes" where
  "sent_ip ifr = take 4 (drop 2 (sa_data ifr))"

lemma length_strncpy4: "length (strncpy4 a) = 4"
  using length_takeWhile_le [of "\<lambda>b. b \<noteq> 0" "take 4 a"] by (simp add: strncpy4_def Let_def)

lemma sent_ip_eq: "sent_ip (set_ip_request iface ip) = strncpy4 (ip_bytes ip)"
  by (simp add: sent_ip_def set_ip_request_def overwrite_def length_strncpy4)

lemma strncpy4_eq:
  "strncpy4 (a # b # c # d # r) =
    (if a = 0 then [0, 0, 0, 0] else if b = 0 then [a, 0, 0, 0]
     else if c = 0 then [a, b, 0, 0] else [a, b, c, d])"
  by (simp add: strncpy4_def Let_def numeral_eq_Suc)

lemma set_iface_ip_eq:
  "set_iface_ip ioctl iface (Some ip) AF_INET s =
    (let (rc, _, k) = ioctl SIOCSIFADDR (set_ip_request iface ip) (kernel s) in
     (if rc < 0 then - ENOADDRESS else ESUCCESS, s\<lparr>kernel := k\<rparr>))"
  by (simp add: set_iface_ip_def set_ip_request_def do_ioctl_def open_socket_def close_socket_def Let_def
      split: prod.splits)

text \<open>
  \<^verbatim>\<open>set_iface_ip\<close> asks the kernel for the address up to its first zero byte, filled up with zeros
  (\<^verbatim>\<open>strncpy\<close>), so the request is the address itself just when nothing but zeros follows a zero byte:
  10.0.0.1 becomes 10.0.0.0.
\<close>

theorem set_iface_ip_truncates:
  assumes "ip_bytes ip = a # b # c # d # rest"
  shows "(\<exists>rc ifr k. ioctl SIOCSIFADDR (set_ip_request iface ip) (kernel s) = (rc, ifr, k) \<and>
      set_iface_ip ioctl iface (Some ip) AF_INET s =
        (if rc < 0 then - ENOADDRESS else ESUCCESS, s\<lparr>kernel := k\<rparr>)) \<and>
    (sent_ip (set_ip_request iface ip) = [a, b, c, d] \<longleftrightarrow>
       (if a = 0 then [b, c, d] = [0, 0, 0] else if b = 0 then [c, d] = [0, 0] else c = 0 \<longrightarrow> d = 0))"
  using assms by (auto simp: sent_ip_eq strncpy4_eq set_iface_ip_eq Let_def split: prod.splits)

lemma set_iface_ip_truncates_witness:
  "sent_ip (set_ip_request ''eth0'' \<lparr>ip_type = AF_INET, addr_size = 4, ip_bytes = [10, 0, 0, 1] @ replicate 12 0\<rparr>) \<noteq> [10, 0, 0, 1]"
  using set_iface_ip_truncates [of "\<lparr>ip_type = AF_INET, addr_size = 4, ip_bytes = [10, 0, 0, 1] @ replicate 12 0\<rparr>" 10 0 0 1
      "replicate 12 0" "\<lambda>r i k. (0, i, k)" "''eth0''" "\<lparr>kernel = (), open_sockets = 0\<rparr>"] by simp

subsection \<open>Sockets\<close>

text \<open>
  Every successful query of an interface's index and every successful change of its mask or MAC
  address leaves a socket open; the queries of its IP address, mask and MAC address close theirs.
\<close>

theorem interface_sockets:
  assumes "\<And>r i k. 0 \<le> fst (ioctl r i k)"
  shows "(\<exists>n s'. get_iface_idx ioctl iface s = Inr (n, s') \<and> open_sockets s' = open_sockets s + 1) \<and>
    open_sockets (snd (set_iface_mask ioctl iface (Some m) s)) = open_sockets s + 1 \<and>
    (\<exists>s'. set_iface_ll ioctl iface (Some ll) s = Inr (ESUCCESS, s') \<and> open_sockets s' = open_sockets s + 1) \<and>
    open_sockets (snd (snd (get_iface_mask ioctl iface (Some m) s))) = open_sockets s \<and>
    (\<exists>r s'. get_iface_ll ioctl iface (Some ll) s = Inr (ESUCCESS, r, s') \<and> open_sockets s' = open_sockets s) \<and>
    open_sockets (snd (set_iface_ip ioctl iface (Some ip) AF_INET s)) = open_sockets s"
proof -
  have ok: "\<exists>rc i' k'. ioctl r i k = (rc, i', k') \<and> \<not> rc < 0" for r i k
    using assms [of r i k] by (cases "ioctl r i k") auto
  note defs = do_ioctl_def open_socket_def close_socket_def Let_def
  have "\<exists>n s'. get_iface_idx ioctl iface s = Inr (n, s') \<and> open_sockets s' = open_sockets s + 1"
    using ok [of SIOCGIFINDEX "new_ifreq iface" "kernel s"] by (auto simp: get_iface_idx_def defs)
  moreover have "open_sockets (snd (set_iface_mask ioctl iface (Some m) s)) = open_sockets s + 1"
    using ok [of SIOCSIFNETMASK _ "kernel s"] by (auto simp: set_iface_mask_def defs split: prod.splits) (metis Pair_inject)
  moreover have "\<exists>s'. set_iface_ll ioctl iface (Some ll) s = Inr (ESUCCESS, s') \<and> open_sockets s' = open_sockets s + 1"
    using ok [of SIOCSIFHWADDR _ "kernel s"] by (auto simp: set_iface_ll_def defs split: prod.splits) (metis Pair_inject)
  moreover have "open_sockets (snd (snd (get_iface_mask ioctl iface (Some m) s))) = open_sockets s"
    by (auto simp: get_iface_mask_def defs split: prod.splits)
  moreover have "\<exists>r s'. get_iface_ll ioctl iface (Some ll) s = Inr (ESUCCESS, r, s') \<and> open_sockets s' = open_sockets s"
    using ok [of SIOCGIFHWADDR "new_ifreq iface" "kernel s"] by (auto simp: get_iface_ll_def defs)
  moreover have "open_sockets (snd (set_iface_ip ioctl iface (Some ip) AF_INET s)) = open_sockets s"
    by (auto simp: set_iface_ip_eq Let_def split: prod.splits)
  ultimately show ?thesis by blast
qed

lemma interface_sockets_witness:
  "\<exists>n s'. get_iface_idx (\<lambda>r i k. (0, i, k)) ''eth0'' \<lparr>kernel = (), open_sockets = 2\<rparr> = Inr (n, s') \<and> open_sockets s' = 3"
  using interface_sockets [of "\<lambda>r i k. (0, i, k)" "''eth0''" "\<lparr>kernel = (), open_sockets = 2\<rparr>"] by simp

end
