(* ===== verification/Manuf.thy ===== *)
theory Manuf
  imports Hash Data_Files
begin

text \<open>
  \<^verbatim>\<open>src/lmap_manuf.c\<close>: the table of network card vendors, keyed by the first three bytes of a MAC
  address. \<^verbatim>\<open>manuf_init\<close> loads the file \<^verbatim>\<open>mac-fingerprints\<close>, \<^verbatim>\<open>manuf_search\<close> looks a MAC up.
\<close>

subsection \<open>Parsing a line\<close>

text \<open>
  \<^verbatim>\<open>%02X\<close>: white space, then at most two characters that form a number in base 16, possibly with a
  sign. The two characters \<^verbatim>\<open>0x\<close> only begin a number, which is a matching failure.
\<close>

definition scan_X2 :: "string \<Rightarrow> (int \<times> string) option" where
  "scan_X2 s =
     (case dropWhile is_space s of
        [] \<Rightarrow> None
      | c # r \<Rightarrow>
          if c = CHR ''-'' \<or> c = CHR ''+'' then
            (case r of
               [] \<Rightarrow> None
             | d # r' \<Rightarrow>
                 (case hex_value d of
                    None \<Rightarrow> None
                  | Some v \<Rightarrow> Some (if c = CHR ''-'' then - int v else int v, r')))
          else
            (case hex_value c of
               None \<Rightarrow> None
             | Some v \<Rightarrow>
                 (case r of
                    [] \<Rightarrow> Some (int v, [])
                  | d # r' \<Rightarrow>
                      if c = CHR ''0'' \<and> (d = CHR ''x'' \<or> d = CHR ''X'') then None
                      else (case hex_value d of
                              None \<Rightarrow> Some (int v, r)
                            | Some w \<Rightarrow> Some (int (16 * v + w), r')))))"

definition scan_char :: "char \<Rightarrow> string \<Rightarrow> string option" where
  "scan_char c s = (case s of [] \<Rightarrow> None | d # r \<Rightarrow> if d = c then Some r else None)"

definition scan_set :: "nat \<Rightarrow> string \<Rightarrow> (string \<times> string) option" where
  "scan_set w s =
     (let t = take w (takeWhile (\<lambda>c. c \<noteq> CHR '','' \<and> c \<noteq> CHR 0x0A) s) in
      if t = [] then None else Some (t, drop (length t) s))"

text \<open>
  \<^verbatim>\<open>sscanf(line, "%02X:%02X:%02X %80[^,\n],\n", &m1, &m2, &m3, name) == 4\<close>: the four conversions,
  or \<^term>\<open>None\<close> when one of them fails. What follows the last one cannot change the count.
\<close>

definition scan_line :: "string \<Rightarrow> (int \<times> int \<times> int \<times> string) option" where
  "scan_line s =
     Option.bind (scan_X2 s) (\<lambda>(m1, s).
     Option.bind (scan_char CHR '':'' s) (\<lambda>s.
     Option.bind (scan_X2 s) (\<lambda>(m2, s).
     Option.bind (scan_char CHR '':'' s) (\<lambda>s.
     Option.bind (scan_X2 s) (\<lambda>(m3, s).
     Option.bind (scan_set 80 (dropWhile is_space s)) (\<lambda>(name, s).
     Some (m1, m2, m3, name)))))))"

lemma length_dropWhile_space: "length (dropWhile is_space s) \<le> length s"
  by (rule length_dropWhile_le)

lemma scan_X2_shorter: "scan_X2 s = Some (v, r) \<Longrightarrow> length r < length s"
  using length_dropWhile_le [of is_space s]
  by (auto simp: scan_X2_def split: list.splits if_splits option.splits)

lemma scan_char_shorter: "scan_char c s = Some r \<Longrightarrow> length s = Suc (length r)"
  by (auto simp: scan_char_def split: list.splits if_splits)

lemma scan_set_shorter: "scan_set w s = Some (t, r) \<Longrightarrow> length t \<le> length s"
  using length_takeWhile_le [of "\<lambda>c. c \<noteq> CHR '','' \<and> c \<noteq> CHR 0x0A" s]
  by (auto simp: scan_set_def Let_def split: if_splits)

lemma scan_line_name_length:
  assumes "scan_line s = Some (m1, m2, m3, name)"
  shows "length name + 5 \<le> length s"
proof -
  from assms obtain s1 s2 s3 s4 s5 r where
    "scan_X2 s = Some (m1, s1)" "scan_char CHR '':'' s1 = Some s2"
    "scan_X2 s2 = Some (m2, s3)" "scan_char CHR '':'' s3 = Some s4"
    "scan_X2 s4 = Some (m3, s5)" "scan_set 80 (dropWhile is_space s5) = Some (name, r)"
    by (auto simp: scan_line_def Option.bind_eq_Some_conv)
  then show ?thesis
    using length_dropWhile_space [of s5]
    by (auto dest!: scan_X2_shorter scan_char_shorter scan_set_shorter)
qed

subsection \<open>The table\<close>

record mac_entry =
  mac :: u_int32
  vendor :: string

abbreviation (input) MAC_TABBIT :: nat where
  "MAC_TABBIT \<equiv> 10"

abbreviation (input) MAC_TABSIZE :: nat where
  "MAC_TABSIZE \<equiv> 2 ^ MAC_TABBIT"

text \<open>The four bytes of the array \<^verbatim>\<open>mac\<close> read as an \<^verbatim>\<open>int\<close> in the byte order of the host.\<close>

definition join32 :: "u_int16 \<Rightarrow> u_int16 \<Rightarrow> u_int32" where
  "join32 h l = push_bit 16 (ucast h) OR ucast l"

fun of_mem32 :: "endian \<Rightarrow> u_int8 \<Rightarrow> u_int8 \<Rightarrow> u_int8 \<Rightarrow> u_int8 \<Rightarrow> u_int32" where
  "of_mem32 Little a b c d = join32 (join16 d c) (join16 b a)"
| "of_mem32 Big a b c d = join32 (join16 a b) (join16 c d)"

type_synonym oui = "u_int8 \<times> u_int8 \<times> u_int8"

definition mac_int :: "endian \<Rightarrow> oui \<Rightarrow> u_int32" where
  "mac_int en k = (case k of (a, b, c) \<Rightarrow> of_mem32 en a b c 0)"

definition mac_index :: "oui \<Rightarrow> nat" where
  "mac_index k = (case k of (a, b, c) \<Rightarrow> masked MAC_TABBIT (fnv_32 [a, b, c, 0] :: u_int32))"

lemma join32_inject: "join32 h l = join32 h' l' \<longleftrightarrow> h = h' \<and> l = l'"
proof
  have lo: "(ucast (join32 h l) :: u_int16) = l" for h l
    unfolding join32_def by (rule bit_word_eqI) (auto simp: bit_simps dest: bit_imp_le_length)
  have hi: "(ucast (drop_bit 16 (join32 h l)) :: u_int16) = h" for h l
    unfolding join32_def by (rule bit_word_eqI) (auto simp: bit_simps dest: bit_imp_le_length)
  show "join32 h l = join32 h' l' \<Longrightarrow> h = h' \<and> l = l'"
    using lo hi by metis
qed simp

lemma join16_inject: "join16 h l = join16 h' l' \<longleftrightarrow> h = h' \<and> l = l'"
  by (metis hi8_join16 lo8_join16)

lemma mac_int_inject: "mac_int en k = mac_int en k' \<longleftrightarrow> k = k'"
  by (cases en; cases k; cases k') (auto simp: mac_int_def join32_inject join16_inject)

lemma mac_index_less: "mac_index k < MAC_TABSIZE"
  using masked_less [of MAC_TABBIT] by (auto simp: mac_index_def split: prod.splits)

definition manuf_empty :: "mac_entry chains" where
  "manuf_empty = replicate MAC_TABSIZE []"

text \<open>\<^verbatim>\<open>LOAD_ENTRY\<close> and \<^verbatim>\<open>SLIST_INSERT_HEAD\<close>.\<close>

definition manuf_insert :: "endian \<Rightarrow> oui \<Rightarrow> string \<Rightarrow> mac_entry chains \<Rightarrow> mac_entry chains" where
  "manuf_insert en k name tab =
     slist_insert_head tab (mac_index k) \<lparr>mac = mac_int en k, vendor = name\<rparr>"

definition manuf_lookup :: "endian \<Rightarrow> mac_entry chains \<Rightarrow> oui \<Rightarrow> string option" where
  "manuf_lookup en tab k =
     map_option vendor (slist_find (\<lambda>l. mac l = mac_int en k) (tab ! mac_index k))"

definition manuf_search :: "endian \<Rightarrow> mac_entry chains \<Rightarrow> bytes \<Rightarrow> c_error + string option" where
  "manuf_search en tab m =
     bindE (rd8 m 0) (\<lambda>a. bindE (rd8 m 1) (\<lambda>b. bindE (rd8 m 2) (\<lambda>c.
       Inr (manuf_lookup en tab (a, b, c)))))"

definition discard_macdb :: "mac_entry chains \<Rightarrow> mac_entry chains" where
  "discard_macdb tab = discard_all tab"

text \<open>The loop over the lines of the file; \<^verbatim>\<open>name\<close> has 80 bytes.\<close>

fun manuf_load :: "endian \<Rightarrow> string list \<Rightarrow> mac_entry chains \<times> nat \<Rightarrow> c_error + (mac_entry chains \<times> nat)" where
  "manuf_load en [] (tab, i) = Inr (tab, i)"
| "manuf_load en (line # lines) (tab, i) =
     (case scan_line (c_str line) of
        None \<Rightarrow> manuf_load en lines (tab, i)
      | Some (m1, m2, m3, name) \<Rightarrow>
          if length name + 1 \<le> 80 then
            manuf_load en lines
              (manuf_insert en (word_of_int m1, word_of_int m2, word_of_int m3) name tab, i + 1)
          else Inl Out_of_bounds)"

definition manuf_init ::
  "endian \<Rightarrow> file_system \<Rightarrow> string \<Rightarrow> string \<Rightarrow> c_error + (mac_entry chains \<times> nat)" where
  "manuf_init en fs prefix program =
     bindE (open_data fs prefix program ''mac-fingerprints'') (\<lambda>content.
       manuf_load en (file_lines 80 content) (manuf_empty, 0))"

subsection \<open>The table is a key database\<close>

interpretation manuf: key_database manuf_empty "manuf_insert en" "manuf_lookup en" discard_macdb
    "\<lambda>t. length t = MAC_TABSIZE" "\<lambda>_. True" for en
proof unfold_locales
  fix t :: "mac_entry chains" and k j :: oui and v :: string
  assume "length t = MAC_TABSIZE"
  then show "manuf_lookup en (manuf_insert en k v t) j = (if j = k then Some v else manuf_lookup en t j)"
    using mac_index_less [of k]
    by (auto simp: manuf_lookup_def manuf_insert_def nth_slist_insert_head mac_int_inject)
qed (use mac_index_less in \<open>auto simp: manuf_empty_def manuf_lookup_def manuf_insert_def
       discard_macdb_def discard_all_def\<close>)

text \<open>The pairs a file's lines define, in the order of the file.\<close>

definition line_entry :: "string \<Rightarrow> (oui \<times> string) option" where
  "line_entry line =
     map_option (\<lambda>(m1, m2, m3, name). ((word_of_int m1, word_of_int m2, word_of_int m3), name))
       (scan_line (c_str line))"

lemma length_c_str: "length (c_str b) \<le> length b"
  unfolding c_str_def by (rule length_takeWhile_le)

lemma manuf_load_eq:
  assumes "\<forall>l \<in> set lines. length l < 80"
  shows "manuf_load en lines (tab, i) =
    Inr (manuf.load en (List.map_filter line_entry lines) tab,
         i + length (List.map_filter line_entry lines))"
  using assms
proof (induction en lines "(tab, i)" arbitrary: tab i rule: manuf_load.induct)
  case (2 en line lines tab i)
  show ?case
  proof (cases "scan_line (c_str line)")
    case None
    with 2 show ?thesis by (simp add: line_entry_def map_filter_simps)
  next
    case (Some p)
    obtain m1 m2 m3 name where p: "p = (m1, m2, m3, name)" by (cases p) auto
    have "length name + 5 \<le> length (c_str line)"
      using Some p scan_line_name_length by blast
    with "2.prems" length_c_str [of line] have "length name + 1 \<le> 80" by simp
    with 2 Some p show ?thesis by (simp add: line_entry_def map_filter_simps)
  qed
qed (simp add: map_filter_simps)

text \<open>
  C23: After \<^verbatim>\<open>manuf_init\<close> has loaded a file, \<^verbatim>\<open>manuf_search\<close> of a MAC address gives the vendor of the
  last line of the file whose prefix is that of the address, and \<^verbatim>\<open>NULL\<close> when there is none; the
  number returned is the number of lines that were recognised. It holds in both byte orders.
\<close>

theorem manuf_search_after_init:
  assumes "open_data fs prefix program ''mac-fingerprints'' = Inr content"
  shows "\<exists>tab. manuf_init en fs prefix program =
      Inr (tab, length (List.map_filter line_entry (file_lines 80 content))) \<and>
    (\<forall>a b c rest. manuf_search en tab (a # b # c # rest) =
       Inr (map_of (rev (List.map_filter line_entry (file_lines 80 content))) (a, b, c)))"
proof -
  let ?kvs = "List.map_filter line_entry (file_lines 80 content)"
  have "\<forall>l \<in> set (file_lines 80 content). length l < 80"
    using file_lines_length by blast
  then have "manuf_init en fs prefix program = Inr (manuf.load en ?kvs manuf_empty, length ?kvs)"
    using assms by (simp add: manuf_init_def manuf_load_eq)
  moreover have "manuf_search en (manuf.load en ?kvs manuf_empty) (a # b # c # rest) =
      Inr (map_of (rev ?kvs) (a, b, c))" for a b c rest
    using manuf.search_load_empty [where kvs = ?kvs and j = "(a, b, c)" and en = en]
    by (simp add: manuf_search_def rd8_def)
  ultimately show ?thesis by blast
qed

definition manuf_sample_fs :: file_system where
  "manuf_sample_fs = [''../share/mac-fingerprints'' \<mapsto> ''00:00:0C Cisco,'']"

lemma manuf_sample_open:
  "open_data manuf_sample_fs ''/usr/share'' ''lmap'' ''mac-fingerprints'' = Inr ''00:00:0C Cisco,''"
  by (simp add: open_data_def get_full_path_def get_local_path_def sprintf_into_def overwrite_def
      c_str_def manuf_sample_fs_def)

lemma manuf_sample_entries:
  "List.map_filter line_entry (file_lines 80 ''00:00:0C Cisco,'') = [((0, 0, 0x0c), ''Cisco'')]"
  by (simp add: file_lines.simps fgets_def numeral_eq_Suc map_filter_simps line_entry_def c_str_def
      scan_line_def scan_X2_def scan_char_def scan_set_def is_space_def hex_value_def)

lemma manuf_search_after_init_witness:
  "\<exists>tab. manuf_init Little manuf_sample_fs ''/usr/share'' ''lmap'' = Inr (tab, 1) \<and>
    manuf_search Little tab [0, 0, 0x0c, 1, 2, 3] = Inr (Some ''Cisco'')"
  using manuf_search_after_init [OF manuf_sample_open, of Little]
  by (auto simp: manuf_sample_entries)

end
