(* ===== verification/Screen.thy ===== *)
theory Screen
  imports Curses Ui Stat Iface Manuf
begin

text \<open>
  \<^verbatim>\<open>src/lmap_ncurses_menu.c\<close>, \<^verbatim>\<open>src/lmap_ncurses_info.c\<close>, \<^verbatim>\<open>src/lmap_ncurses_topology.c\<close> and \<^verbatim>\<open>ncurses_start\<close>
  of \<^verbatim>\<open>src/lmap_ncurses.c\<close>: the menu with the packet counter and the statistics window, the two screens
  with their key loops, and the loop that displays one screen after the other. They use the windows of
  \<^verbatim>\<open>Curses\<close>, the counters of \<^verbatim>\<open>Stat\<close>, the message queue of \<^verbatim>\<open>Ui\<close> and the queries of \<^verbatim>\<open>Iface\<close>.
\<close>

subsection \<open>State\<close>

text \<open>
  The environment of the screens: the console, and what the queries of the interface settings depend on.
  The \<open>junk\<close> fields are the contents of uninitialised local variables.
\<close>

record 'k terminal = console +
  lib :: libc
  iface :: string
  ioctl :: "'k ioctl"
  files :: file_system
  byte_order :: endian
  junk_ip :: ip_addr
  junk_text :: "nat \<Rightarrow> string"
  junk_bytes :: "nat \<Rightarrow> bytes"

text \<open>
  The static variables \<^verbatim>\<open>w_sys\<close>, \<^verbatim>\<open>w_stat\<close> and \<^verbatim>\<open>stats\<close> (here \<open>last_total\<close>: it is compared as an
  unsigned number), the counters, the message queue, the kernel and the files that were never closed.
\<close>

record 'k screen =
  calls :: trace
  w_sys :: "lmap_scrollwin option"
  w_stat :: handle
  last_total :: u_int32
  counts :: stats
  mqueue :: ui_state
  host :: "'k system"
  open_files :: nat

definition emit :: "trace \<Rightarrow> 'k screen \<Rightarrow> 'k screen" where
  "emit cs s = s\<lparr>calls := calls s @ cs\<rparr>"

subsection \<open>Messages\<close>

text \<open>
  The text that \<^verbatim>\<open>wprintw\<close> prints for a format without arguments: a conversion other than \<^verbatim>\<open>%%\<close> reads an
  argument that is not there.
\<close>

fun c_format :: "string \<Rightarrow> c_error + string" where
  "c_format [] = Inr []"
| "c_format (c # s) =
     (if c = CHR ''%'' then
        (case s of
           d # s' \<Rightarrow> if d = CHR ''%'' then bindE (c_format s') (\<lambda>t. Inr (CHR ''%'' # t)) else Inl Out_of_bounds
         | [] \<Rightarrow> Inl Out_of_bounds)
      else bindE (c_format s) (\<lambda>t. Inr (c # t)))"

definition ncurses_msg :: "string \<Rightarrow> 'k screen \<Rightarrow> c_error + 'k screen" where
  "ncurses_msg m s =
     (case w_sys s of
        None \<Rightarrow> Inr s
      | Some w \<Rightarrow> bindE (c_format m) (\<lambda>t.
          Inr (emit ([Wprintw (win w) [CHR 0x0A], Wprintw (win w) t] @ scroll_refresh w) s)))"

text \<open>\<^verbatim>\<open>ui_msg_flush(-1)\<close> with \<^verbatim>\<open>ncurses_msg\<close> as the hook: it is called for the messages in turn.\<close>

fun show_messages :: "string list \<Rightarrow> 'k screen \<Rightarrow> c_error + 'k screen" where
  "show_messages [] s = Inr s"
| "show_messages (m # ms) s = bindE (ncurses_msg m s) (show_messages ms)"

definition flush_messages :: "'k screen \<Rightarrow> c_error + 'k screen" where
  "flush_messages s =
     (case ui_msg_flush (- 1) (mqueue s) of (n, q) \<Rightarrow>
        show_messages (drop (length (shown (mqueue s))) (shown q)) (s\<lparr>mqueue := q\<rparr>))"

definition USER_MSG :: "'k terminal \<Rightarrow> string \<Rightarrow> 'k screen \<Rightarrow> c_error + 'k screen" where
  "USER_MSG E text s = bindE (ui_msg (lib E) text (mqueue s)) (\<lambda>q. Inr (s\<lparr>mqueue := q\<rparr>))"

subsection \<open>The menu\<close>

definition pad_left :: "nat \<Rightarrow> string \<Rightarrow> string" where
  "pad_left n s = replicate (n - length s) CHR '' '' @ s"

text \<open>\<^verbatim>\<open>"Packets: %8d "\<close> and \<^verbatim>\<open>"%5s  : %8d"\<close>; the argument of \<^verbatim>\<open>%d\<close> is read as a signed number.\<close>

definition packets_text :: "u_int32 \<Rightarrow> string" where
  "packets_text n = ''Packets: '' @ pad_left 8 (fmt_d (sint n)) @ '' ''"

definition counter_text :: "string \<Rightarrow> u_int32 \<Rightarrow> string" where
  "counter_text t n = pad_left 5 t @ ''  : '' @ pad_left 8 (fmt_d (sint n))"

definition menu_item :: "handle \<Rightarrow> int \<Rightarrow> string \<Rightarrow> int \<Rightarrow> string \<Rightarrow> trace" where
  "menu_item h x key x' name =
     [Wattron h A_REVERSE, Mvwprintw h 0 x key, Wattroff h A_REVERSE, Mvwprintw h 0 x' name]"

definition menu_create :: "'k terminal \<Rightarrow> 'k screen \<Rightarrow> handle \<times> 'k screen" where
  "menu_create E s =
     (case newwin E 1 (COLS E) 0 0 (calls s) of (h, tr) \<Rightarrow>
        (h, emit ([Wattrset h (COLOR_PAIR C_MENU), Whline h Blank (COLS E), Keypad h True, Nodelay h True] @
              menu_item h 0 ''<F1>'' 5 ''Info'' @ menu_item h 10 ''<F2>'' 15 ''Topology'' @
              menu_item h (COLS E - 26) ''<F12>'' (COLS E - 20) (packets_text (get_stat (counts s) ''TOTAL'')) @
              [Wrefresh h]) (s\<lparr>calls := tr\<rparr>)))"

text \<open>The loop \<^verbatim>\<open>while (get_all_stats(&type, &num))\<close> of \<^verbatim>\<open>refresh_statistics\<close> prints one line per counter.\<close>

fun stat_lines :: "handle \<Rightarrow> int \<Rightarrow> (string \<times> u_int32) list \<Rightarrow> trace" where
  "stat_lines h i [] = []"
| "stat_lines h i ((t, n) # ps) = Mvwprintw h i 2 (counter_text t n) # stat_lines h (i + 1) ps"

definition refresh_statistics :: "'k screen \<Rightarrow> c_error + 'k screen" where
  "refresh_statistics s =
     (if w_stat s = None then Inr s
      else bindE (all_stats (length (stat_list (counts s)) + 1) (counts s)) (\<lambda>(ps, st).
        Inr (emit (stat_lines (w_stat s) 1 ps @ [Wrefresh (w_stat s)]) (s\<lparr>counts := st\<rparr>))))"

definition menu_refresh :: "'k terminal \<Rightarrow> handle \<Rightarrow> 'k screen \<Rightarrow> c_error + 'k screen" where
  "menu_refresh E h s =
     (let n = get_stat (counts s) ''TOTAL'' in
      if last_total s = n then Inr s
      else refresh_statistics (emit [Wattroff h A_REVERSE, Mvwprintw h 0 (COLS E - 20) (packets_text n), Wrefresh h]
             (s\<lparr>last_total := n\<rparr>)))"

text \<open>The pointers \<^verbatim>\<open>*w_menu\<close> and \<^verbatim>\<open>w_stat\<close> are \<^verbatim>\<open>NULL\<close> afterwards.\<close>

definition menu_destroy :: "handle \<Rightarrow> 'k screen \<Rightarrow> 'k screen" where
  "menu_destroy h s =
     emit [Werase h, Werase (w_stat s), Wrefresh h, Wrefresh (w_stat s), Delwin h, Delwin (w_stat s)]
       (s\<lparr>w_stat := None\<rparr>)"

definition show_statistics :: "'k terminal \<Rightarrow> 'k screen \<Rightarrow> c_error + 'k screen" where
  "show_statistics E s =
     (if w_stat s \<noteq> None then
        Inr (emit [Werase (w_stat s), Wrefresh (w_stat s), Delwin (w_stat s)] (s\<lparr>w_stat := None\<rparr>))
      else (case newwin E (sint (get_stat_count (counts s) + 2)) 20 1 (COLS E - 20) (calls s) of
        (h, tr) \<Rightarrow>
          refresh_statistics (emit [Wattron h (COLOR_PAIR C_TITLE), Wborder h border_glyphs,
              Wattroff h (COLOR_PAIR C_TITLE)] (s\<lparr>calls := tr, w_stat := h\<rparr>))))"

text \<open>The key codes of the header \<^verbatim>\<open>curses.h\<close> and those of \<^verbatim>\<open>lmap_ncurses.h\<close>.\<close>

abbreviation (input) KEY_F :: "int \<Rightarrow> int" where "KEY_F n \<equiv> 264 + n"
abbreviation (input) KEY_DOWN :: int where "KEY_DOWN \<equiv> 258"
abbreviation (input) KEY_UP :: int where "KEY_UP \<equiv> 259"
abbreviation (input) KEY_NPAGE :: int where "KEY_NPAGE \<equiv> 338"
abbreviation (input) KEY_PPAGE :: int where "KEY_PPAGE \<equiv> 339"
abbreviation (input) KEY_TAB :: int where "KEY_TAB \<equiv> 9"

text \<open>\<^verbatim>\<open>menu_event\<close> gives its result, the key and the state.\<close>

definition menu_event :: "'k terminal \<Rightarrow> int \<Rightarrow> 'k screen \<Rightarrow> c_error + (int \<times> int \<times> 'k screen)" where
  "menu_event E key s =
     (if key = KEY_F 1 then Inr (ESUCCESS, 1, s)
      else if key = KEY_F 2 then Inr (ESUCCESS, 2, s)
      else if key = KEY_F 12 then bindE (show_statistics E s) (\<lambda>s. Inr (ESUCCESS, key, s))
      else if key = of_char CHR ''q'' then
        bindE (USER_MSG E ''Use capital Q to exit...'' s) (\<lambda>s. Inr (ESUCCESS, key, s))
      else if key = of_char CHR ''Q'' then Inr (ESUCCESS, 0, s)
      else Inr (- ENOTHANDLED, key, s))"

subsection \<open>The interface settings\<close>

text \<open>A label and a value at a position of the window.\<close>

definition field :: "handle \<Rightarrow> int \<Rightarrow> int \<Rightarrow> string \<Rightarrow> string \<Rightarrow> trace" where
  "field h y x label v =
     [Wmove h y x, Wattron h (COLOR_PAIR C_TITLE), Waddstr h label, Wattroff h (COLOR_PAIR C_TITLE),
      Wattron h A_BOLD, Waddstr h v, Wattroff h A_BOLD]"

definition settings :: "handle \<Rightarrow> string \<Rightarrow> string \<Rightarrow> string \<Rightarrow> string \<Rightarrow> string \<Rightarrow> string \<Rightarrow> trace" where
  "settings h name ll ip nm gw dns =
     field h 2 2 ''Name : '' name @ field h 2 25 ''HWaddr  : '' ll @ field h 3 2 ''inet : '' ip @
     field h 3 25 ''netmask : '' nm @ field h 4 2 ''GW   : '' gw @ field h 4 25 ''DNS     : '' dns"

text \<open>The bytes of a \<^verbatim>\<open>u_int32\<close> in memory, as \<^verbatim>\<open>(char *)&tmp\<close> reads them, and back.\<close>

definition mem32 :: "endian \<Rightarrow> u_int32 \<Rightarrow> bytes" where
  "mem32 en w =
     (let bs = map (\<lambda>i. ucast (drop_bit (8 * i) w)) [0, 1, 2, 3] in
      case en of Little \<Rightarrow> bs | Big \<Rightarrow> rev bs)"

definition word32 :: "endian \<Rightarrow> bytes \<Rightarrow> u_int32" where
  "word32 en b = of_mem32 en (b ! 0) (b ! 1) (b ! 2) (b ! 3)"

text \<open>
  The text buffer after \<^verbatim>\<open>if (rc == ESUCCESS) ip_addr_ntoa(ip, buf); else sprintf(buf, "(none)");\<close>. The
  address is \<^verbatim>\<open>ipa\<close> itself, or a variable that \<^verbatim>\<open>ip_addr_init\<close> has set from the bytes of \<^verbatim>\<open>tmp\<close>.
\<close>

definition ascii_ip :: "'k terminal \<Rightarrow> nat \<Rightarrow> int \<Rightarrow> ip_addr option \<Rightarrow> c_error + string" where
  "ascii_ip E n rc ip =
     (if rc = ESUCCESS then
        (case ip of None \<Rightarrow> Inl Null_pointer
         | Some a \<Rightarrow> bindE (ip_addr_ntoa a (junk_text E n)) (\<lambda>(_, buf). Inr buf))
      else Inr (overwrite (junk_text E n) 0 (''(none)'' @ [NUL])))"

definition ascii_bytes :: "'k terminal \<Rightarrow> int \<Rightarrow> bytes \<Rightarrow> c_error + string" where
  "ascii_bytes E rc tmp =
     (if rc = ESUCCESS then
        bindE (ip_addr_init (junk_ip E) AF_INET tmp) (\<lambda>(_, a).
        bindE (ip_addr_ntoa a (junk_text E IP_ASCII_ADDR_LEN)) (\<lambda>(_, buf). Inr buf))
      else Inr (overwrite (junk_text E IP_ASCII_ADDR_LEN) 0 (''(none)'' @ [NUL])))"

definition print_ifaceconfig :: "'k terminal \<Rightarrow> lmap_win \<Rightarrow> 'k screen \<Rightarrow> c_error + 'k screen" where
  "print_ifaceconfig E w s =
     bindE (get_iface_ip (ioctl E) (iface E) (Some (junk_ip E)) AF_INET (host s)) (\<lambda>(rc, ipa, k).
     bindE (ascii_ip E IP_ASCII_ADDR_LEN rc ipa) (\<lambda>ip_ascii.
     bindE (get_iface_ip (ioctl E) (iface E) (Some (junk_ip E)) AF_INET6 k) (\<lambda>(rc, ipa6, k).
     bindE (ascii_ip E IP6_ASCII_ADDR_LEN rc ipa6) (\<lambda>ip6_ascii.
     case get_iface_mask (ioctl E) (iface E) (Some (junk_bytes E 4)) k of (rc, tmp, k) \<Rightarrow>
     let tmp = (case tmp of Some b \<Rightarrow> b | None \<Rightarrow> junk_bytes E 4) in
     bindE (ascii_bytes E rc tmp) (\<lambda>net_ascii.
     case get_default_gw (files E) (junk_text E 1024) (word32 (byte_order E) tmp) of (rc, gw) \<Rightarrow>
     bindE (ascii_bytes E rc (mem32 (byte_order E) gw)) (\<lambda>gw_ascii.
     bindE (get_default_dns (files E) (junk_bytes E 4) (mem32 (byte_order E) gw)) (\<lambda>(rc, dns, opened).
     bindE (ascii_bytes E rc dns) (\<lambda>dns_ascii.
     bindE (get_iface_ll (ioctl E) (iface E) (Some (junk_bytes E 6)) k) (\<lambda>(_, ll, k).
     bindE (eth_addr_ntoa (the ll) (junk_text E 18)) (\<lambda>(_, ll_ascii).
     Inr (emit (settings (win w) (iface E) (c_str ll_ascii) (c_str ip_ascii) (c_str net_ascii)
                  (c_str gw_ascii) (c_str dns_ascii))
            (s\<lparr>host := k, open_files := open_files s + opened\<rparr>))))))))))))"

definition print_suggconfig :: "'k terminal \<Rightarrow> lmap_win \<Rightarrow> 'k screen \<Rightarrow> 'k screen" where
  "print_suggconfig E w s =
     emit (settings (win w) (iface E) ''(none)'' ''(none)'' ''(none)'' ''(none)'' ''(none)'') s"

subsection \<open>The screens\<close>

text \<open>
  What happens while a screen is displayed, in the order in which the mutexes let it happen: another
  thread counts packets or sends a message, or the loop polls the keyboard, with or without a key.
\<close>

datatype event = Counted string u_int32 | Sent string | Polled "int option"

text \<open>
  One iteration of the loop of a screen whose \<^verbatim>\<open>switch\<close> on the key is \<open>sw\<close>: \<^verbatim>\<open>POLL_WGETCH\<close>,
  \<^verbatim>\<open>menu_refresh\<close>, \<^verbatim>\<open>menu_event\<close>, the \<^verbatim>\<open>switch\<close> and \<^verbatim>\<open>ui_msg_flush(-1)\<close>. The result has the last key.
\<close>

definition iteration ::
  "'k terminal \<Rightarrow> (int \<Rightarrow> 'k screen \<Rightarrow> c_error + 'k screen) \<Rightarrow> handle \<Rightarrow> int option \<Rightarrow> 'k screen \<Rightarrow>
    c_error + (int \<times> 'k screen)" where
  "iteration E sw h k s =
     (let key = (case k of None \<Rightarrow> 255 | Some c \<Rightarrow> c) in
      bindE (menu_refresh E h s) (\<lambda>s.
      bindE (menu_event E key s) (\<lambda>(_, key, s).
      bindE (sw key s) (\<lambda>s.
      bindE (flush_messages s) (\<lambda>s.
      Inr (key, s))))))"

text \<open>The loop; \<^term>\<open>None\<close> when the events end while the screen is still displayed.\<close>

fun screen_loop ::
  "'k terminal \<Rightarrow> (int \<Rightarrow> 'k screen \<Rightarrow> c_error + 'k screen) \<Rightarrow> handle \<Rightarrow> event list \<Rightarrow> 'k screen \<Rightarrow>
    c_error + (int option \<times> event list \<times> 'k screen)" where
  "screen_loop E sw h [] s = Inr (None, [], s)"
| "screen_loop E sw h (Counted t n # es) s = screen_loop E sw h es (s\<lparr>counts := update_stat t n (counts s)\<rparr>)"
| "screen_loop E sw h (Sent m # es) s = bindE (USER_MSG E m s) (screen_loop E sw h es)"
| "screen_loop E sw h (Polled k # es) s =
     bindE (iteration E sw h k s) (\<lambda>(key, s).
       if key > 12 then screen_loop E sw h es s else Inr (Some key, es, s))"

definition SYS_LINES :: int where
  "SYS_LINES = 10"

definition scroll_sys :: "int \<Rightarrow> 'k screen \<Rightarrow> c_error + 'k screen" where
  "scroll_sys delta s =
     (case w_sys s of
        None \<Rightarrow> Inl Null_pointer
      | Some w \<Rightarrow> bindE (lmap_scroll w delta (calls s)) (\<lambda>(w, tr). Inr (s\<lparr>w_sys := Some w, calls := tr\<rparr>)))"

definition info_switch :: "'k terminal \<Rightarrow> int \<Rightarrow> 'k screen \<Rightarrow> c_error + 'k screen" where
  "info_switch E key s =
     (if key = KEY_DOWN then scroll_sys 1 s
      else if key = KEY_UP then scroll_sys (- 1) s
      else if key = KEY_NPAGE then scroll_sys SYS_LINES s
      else if key = KEY_PPAGE then scroll_sys (- SYS_LINES) s
      else if key = KEY_TAB then
        (case w_sys s of
           None \<Rightarrow> Inl Null_pointer
         | Some w \<Rightarrow> bindE (lmap_redrawscrollwin w True (calls s)) (\<lambda>tr.
             USER_MSG E ''TAB: redrawing window'' (s\<lparr>calls := tr\<rparr>)))
      else Inr s)"

text \<open>The window of the system messages is made only once.\<close>

definition create_sys :: "'k terminal \<Rightarrow> 'k screen \<Rightarrow> c_error + 'k screen" where
  "create_sys E s =
     (if w_sys s = None then
        bindE (lmap_newscrollwin E SYS_LINES (COLS E) (LINES E - SYS_LINES) 0 ''System messages'' 150 (calls s))
          (\<lambda>(w, tr). Inr (emit (scroll_refresh w) (s\<lparr>w_sys := Some w, calls := tr\<rparr>)))
      else Inr s)"

text \<open>The menu and the two windows of settings.\<close>

definition info_windows where
  "info_windows E s =
     (case menu_create E s of (h, s) \<Rightarrow>
      let s = emit [Wrefresh h] s in
      bindE (lmap_newwin E 6 55 2 0 ''ACTUAL Network Interface Settings'' (calls s)) (\<lambda>(w_info, tr).
      bindE (print_ifaceconfig E w_info (s\<lparr>calls := tr\<rparr>)) (\<lambda>s.
      let s = emit [Wrefresh (win w_info)] s in
      bindE (lmap_newwin E 6 55 8 0 ''SUGGESTED Network Interface Settings'' (calls s)) (\<lambda>(w_sugg, tr).
      Inr (h, w_info, w_sugg, emit [Wrefresh (win w_sugg)] (print_suggconfig E w_sugg (s\<lparr>calls := tr\<rparr>)))))))"

text \<open>A screen gives the code of the next one, with the events that are left.\<close>

definition scr_info ::
  "'k terminal \<Rightarrow> event list \<Rightarrow> 'k screen \<Rightarrow> c_error + (int option \<times> event list \<times> 'k screen)" where
  "scr_info E es s =
     bindE (info_windows E s) (\<lambda>(h, w_info, w_sugg, s).
     bindE (create_sys E s) (\<lambda>s.
     bindE (screen_loop E (info_switch E) h es s) (\<lambda>(r, es, s).
     case r of
       None \<Rightarrow> Inr (None, es, s)
     | Some key \<Rightarrow>
         bindE (lmap_delwin (Some w_info) (calls s)) (\<lambda>(_, tr).
         bindE (lmap_delwin (Some w_sugg) tr) (\<lambda>(_, tr).
         Inr (Some key, es, menu_destroy h (s\<lparr>calls := tr\<rparr>)))))))"

definition scr_topology ::
  "'k terminal \<Rightarrow> event list \<Rightarrow> 'k screen \<Rightarrow> c_error + (int option \<times> event list \<times> 'k screen)" where
  "scr_topology E es s =
     (case menu_create E s of (h, s) \<Rightarrow>
      let s = emit [Wrefresh h] s in
      bindE (screen_loop E (\<lambda>_ s. Inr s) h es s) (\<lambda>(r, es, s).
      case r of
        None \<Rightarrow> Inr (None, es, s)
      | Some key \<Rightarrow> Inr (Some key, es, menu_destroy h s)))"

text \<open>
  The main loop. The screen that is displayed again when the code is neither 1 nor 2 is the same one.
  Every screen takes at least one event, so \<open>length es + 1\<close> is fuel enough; \<^term>\<open>False\<close> means that the
  interface is still running when the events end.
\<close>

datatype display = Scr_info | Scr_topology

fun display_screen ::
  "'k terminal \<Rightarrow> display \<Rightarrow> event list \<Rightarrow> 'k screen \<Rightarrow> c_error + (int option \<times> event list \<times> 'k screen)" where
  "display_screen E Scr_info es s = scr_info E es s"
| "display_screen E Scr_topology es s = scr_topology E es s"

fun start_loop ::
  "nat \<Rightarrow> 'k terminal \<Rightarrow> display \<Rightarrow> event list \<Rightarrow> 'k screen \<Rightarrow> c_error + (bool \<times> event list \<times> 'k screen)" where
  "start_loop 0 E d es s = Inl Endless_loop"
| "start_loop (Suc n) E d es s =
     bindE (display_screen E d es s) (\<lambda>(r, es, s).
       case r of
         None \<Rightarrow> Inr (False, es, s)
       | Some next \<Rightarrow>
           if next = 0 then Inr (True, es, s)
           else start_loop n E (if next = 1 then Scr_info else if next = 2 then Scr_topology else d) es s)"

definition ncurses_start ::
  "'k terminal \<Rightarrow> event list \<Rightarrow> 'k screen \<Rightarrow> c_error + (bool \<times> event list \<times> 'k screen)" where
  "ncurses_start E es s = start_loop (length es + 1) E Scr_info es s"

subsection \<open>The invariant of the screens\<close>

lemma quiet_screen [simp]:
  "quiet (field h y x l v)" "quiet (settings h a b c d e g)" "quiet (menu_item h x k x' n)" "quiet (stat_lines h i ps)"
  by (simp_all add: field_def settings_def menu_item_def)
     (induction h i ps rule: stat_lines.induct, simp_all)

definition plain :: "string \<Rightarrow> bool" where
  "plain m \<longleftrightarrow> CHR ''%'' \<notin> set m"

lemma c_format_plain: "plain m \<Longrightarrow> c_format m = Inr m"
  by (induction m rule: c_format.induct) (auto simp: plain_def)

definition counters_ok :: "stats \<Rightarrow> bool" where
  "counters_ok st \<longleftrightarrow> stats_invar st \<and> stat_list st \<noteq> [] \<and> (current st = Cursor_unset \<or> current st = Cursor_at (list_first st))"

definition screen_ok :: "'k screen \<Rightarrow> bool" where
  "screen_ok s \<longleftrightarrow> counters_ok (counts s) \<and> list_all plain (messages_queue (mqueue s)) \<and>
     (\<forall>w. w_sys s = Some w \<longrightarrow> scrollable w)"

text \<open>The calls for messages that \<^verbatim>\<open>ncurses_msg\<close> displays.\<close>

definition spaced :: "string list \<Rightarrow> string list" where
  "spaced ms = concat (map (\<lambda>m. [[CHR 0x0A], m]) ms)"

lemma spaced_simps [simp]: "spaced [] = []" "spaced (m # ms) = [CHR 0x0A] # m # spaced ms" "spaced (ms @ ns) = spaced ms @ spaced ns"
  by (simp_all add: spaced_def)

text \<open>
  \<open>moves ms s s'\<close>: from \<open>s\<close> the program got to \<open>s'\<close>, with the messages \<open>ms\<close> sent meanwhile. Every window it
  has created is deleted, up to the statistics window; what it has displayed are the oldest messages, in
  the window of the system messages.
\<close>

definition moves :: "string list \<Rightarrow> 'k screen \<Rightarrow> 'k screen \<Rightarrow> bool" where
  "moves ms s s' \<longleftrightarrow> screen_ok s' \<and>
     (\<exists>cs ds w w'. calls s' = calls s @ cs \<and> created cs + hs (w_stat s) = deleted cs + hs (w_stat s') \<and>
        w_sys s = Some w \<and> w_sys s' = Some w' \<and> win w' = win w \<and> out w' = out w \<and>
        shown (mqueue s') = shown (mqueue s) @ ds \<and> printed (win w) cs = spaced ds \<and>
        messages_queue (mqueue s) @ ms = ds @ messages_queue (mqueue s'))"

lemma moves_refl: "screen_ok s \<Longrightarrow> w_sys s = Some w \<Longrightarrow> moves [] s s"
  by (auto simp: moves_def trace_simps intro: exI [of _ "[]"])

lemma moves_trans:
  assumes "moves ms s s'" and "moves ns s' s''"
  shows "moves (ms @ ns) s s''"
proof -
  obtain cs ds w w' where a: "calls s' = calls s @ cs" "created cs + hs (w_stat s) = deleted cs + hs (w_stat s')"
    "w_sys s = Some w" "w_sys s' = Some w'" "win w' = win w" "out w' = out w"
    "shown (mqueue s') = shown (mqueue s) @ ds" "printed (win w) cs = spaced ds"
    "messages_queue (mqueue s) @ ms = ds @ messages_queue (mqueue s')"
    using assms(1) by (auto simp: moves_def)
  obtain cs' ds' w'' where b: "screen_ok s''" "calls s'' = calls s' @ cs'"
    "created cs' + hs (w_stat s') = deleted cs' + hs (w_stat s'')"
    "w_sys s'' = Some w''" "win w'' = win w'" "out w'' = out w'"
    "shown (mqueue s'') = shown (mqueue s') @ ds'" "printed (win w') cs' = spaced ds'"
    "messages_queue (mqueue s') @ ns = ds' @ messages_queue (mqueue s'')"
    using assms(2) a(4) by (auto simp: moves_def)
  have "created (cs @ cs') + hs (w_stat s) = created cs' + (created cs + hs (w_stat s))"
    by (simp add: trace_simps ac_simps)
  also have "\<dots> = deleted cs + (created cs' + hs (w_stat s'))" by (simp only: a(2) ac_simps)
  also have "\<dots> = deleted (cs @ cs') + hs (w_stat s'')" by (simp only: b(3) trace_simps ac_simps)
  finally have w: "created (cs @ cs') + hs (w_stat s) = deleted (cs @ cs') + hs (w_stat s'')" .
  have "messages_queue (mqueue s) @ ms @ ns = (ds @ ds') @ messages_queue (mqueue s'')"
    using a(9) b(9) by (metis append.assoc)
  with a b w show ?thesis unfolding moves_def
    by (intro conjI exI [of _ "cs @ cs'"] exI [of _ "ds @ ds'"] exI [of _ w] exI [of _ w'']) (simp_all add: trace_simps)
qed

end
