(* ===== verification/Session.thy ===== *)
theory Session
  imports Screen
begin

text \<open>
  What a run of the user interface does: the invariant of its state, the effect of every operation of
  \<open>Screen\<close> on it, and the properties of \<^verbatim>\<open>scr_info\<close>, \<^verbatim>\<open>scr_topology\<close> and \<^verbatim>\<open>ncurses_start\<close> for every sequence
  of keys, counted packets and messages.
\<close>

lemma moves_quiet:
  assumes "screen_ok s'" and "calls s' = calls s @ cs" and "quiet cs" and "w_stat s' = w_stat s"
    and "w_sys s = Some w" and "w_sys s' = Some w'" and "win w' = win w" and "out w' = out w"
    and "mqueue s' = mqueue s"
  shows "moves [] s s'"
  unfolding moves_def using assms
  by (intro conjI exI [of _ cs] exI [of _ "[]"] exI [of _ w] exI [of _ w']) (simp_all add: trace_simps)

lemma emit_fields [simp]:
  "calls (emit cs s) = calls s @ cs" "w_sys (emit cs s) = w_sys s" "w_stat (emit cs s) = w_stat s"
  "counts (emit cs s) = counts s" "mqueue (emit cs s) = mqueue s" "last_total (emit cs s) = last_total s"
  "host (emit cs s) = host s" "open_files (emit cs s) = open_files s"
  by (simp_all add: emit_def)

lemma screen_ok_emit [simp]: "screen_ok (emit cs s) = screen_ok s"
  by (simp add: screen_ok_def)

lemma moves_emit: "screen_ok s \<Longrightarrow> w_sys s = Some w \<Longrightarrow> quiet cs \<Longrightarrow> moves [] s (emit cs s)"
  by (rule moves_quiet [of _ _ cs w w]) simp_all

subsection \<open>The operations keep the invariant\<close>

lemma counters_ok_update: "counters_ok st \<Longrightarrow> counters_ok (update_stat t n st)"
  using stats_invar_update [of st t n]
  by (cases "stat_list st") (auto simp: counters_ok_def list_first_def update_stat_def)

lemma moves_Counted:
  "screen_ok s \<Longrightarrow> w_sys s = Some w \<Longrightarrow> moves [] s (s\<lparr>counts := update_stat t n (counts s)\<rparr>)"
  by (rule moves_quiet [of _ _ "[]" w w]) (simp_all add: screen_ok_def counters_ok_update)

lemma USER_MSG_eq: "USER_MSG E m s = Inr (s\<lparr>mqueue := (mqueue s)\<lparr>messages_queue := messages_queue (mqueue s) @ [m]\<rparr>\<rparr>)"
  by (simp add: USER_MSG_def ui_msg_eq)

lemma USER_MSG_ok:
  assumes "screen_ok s" and "w_sys s = Some w" and "plain m"
  shows "\<exists>s'. USER_MSG E m s = Inr s' \<and> moves [m] s s'"
proof -
  let ?s = "s\<lparr>mqueue := (mqueue s)\<lparr>messages_queue := messages_queue (mqueue s) @ [m]\<rparr>\<rparr>"
  have "moves [m] s ?s"
    unfolding moves_def using assms
    by (intro conjI exI [of _ "[]"] exI [of _ w]) (simp_all add: trace_simps screen_ok_def)
  then show ?thesis by (simp add: USER_MSG_eq)
qed

text \<open>The counters as \<^verbatim>\<open>refresh_statistics\<close> prints them.\<close>

definition counter_list :: "stats \<Rightarrow> (string \<times> u_int32) list" where
  "counter_list st = map (\<lambda>c. (stat_type c, num c)) (stat_list st)"

lemma refresh_statistics_eq:
  assumes "counters_ok (counts s)"
  shows "refresh_statistics s = Inr (if w_stat s = None then s
    else emit (stat_lines (w_stat s) 1 (counter_list (counts s)) @ [Wrefresh (w_stat s)])
      (s\<lparr>counts := (counts s)\<lparr>current := Cursor_at (list_first (counts s))\<rparr>\<rparr>))"
  using assms all_stats_cycle [of "counts s"]
  by (auto simp: refresh_statistics_def counters_ok_def counter_list_def)

lemma counters_ok_cursor: "counters_ok st \<Longrightarrow> counters_ok (st\<lparr>current := Cursor_at (list_first st)\<rparr>)"
  by (simp add: counters_ok_def stats_invar_def list_first_def)

lemma refresh_statistics_ok:
  assumes "screen_ok s" and "w_sys s = Some w"
  shows "\<exists>s'. refresh_statistics s = Inr s' \<and> moves [] s s'"
proof -
  have "counters_ok (counts s)" using assms(1) by (simp add: screen_ok_def)
  then show ?thesis
    using assms moves_refl [OF assms] unfolding refresh_statistics_eq [OF \<open>counters_ok (counts s)\<close>]
    by (auto intro!: moves_quiet [of _ _ "stat_lines (w_stat s) 1 (counter_list (counts s)) @ [Wrefresh (w_stat s)]" w w]
        simp: screen_ok_def counters_ok_cursor)
qed

lemma moves_ready: "moves ms s s' \<Longrightarrow> screen_ok s' \<and> (\<exists>w. w_sys s' = Some w)"
  by (auto simp: moves_def)

lemma menu_refresh_ok:
  assumes "screen_ok s" and "w_sys s = Some w"
  shows "\<exists>s'. menu_refresh E h s = Inr s' \<and> moves [] s s'"
proof -
  let ?n = "get_stat (counts s) ''TOTAL''"
  let ?s = "emit [Wattroff h A_REVERSE, Mvwprintw h 0 (COLS E - 20) (packets_text ?n), Wrefresh h] (s\<lparr>last_total := ?n\<rparr>)"
  have m: "moves [] s ?s"
    using assms by (intro moves_quiet [of _ _ "[Wattroff h A_REVERSE, Mvwprintw h 0 (COLS E - 20) (packets_text ?n), Wrefresh h]" w w])
      (simp_all add: screen_ok_def)
  then obtain s' where "refresh_statistics ?s = Inr s'" "moves [] ?s s'"
    using refresh_statistics_ok moves_ready by blast
  with m moves_trans [OF m, of "[]"] moves_refl [OF assms] show ?thesis
    by (auto simp: menu_refresh_def Let_def)
qed

lemma show_statistics_ok:
  assumes "screen_ok s" and "w_sys s = Some w"
  shows "\<exists>s'. show_statistics E s = Inr s' \<and> moves [] s s'"
proof (cases "w_stat s")
  case (Some h)
  let ?cs = "[Werase (w_stat s), Wrefresh (w_stat s), Delwin (w_stat s)]"
  have "moves [] s (emit ?cs (s\<lparr>w_stat := None\<rparr>))"
    unfolding moves_def using assms Some
    by (intro conjI exI [of _ ?cs] exI [of _ "[]"] exI [of _ w]) (simp_all add: trace_simps screen_ok_def)
  then show ?thesis using Some by (auto simp: show_statistics_def)
next
  case None
  let ?h = "new_handle E (calls s) (sint (get_stat_count (counts s) + 2)) 20"
  let ?n = "Newwin ?h (sint (get_stat_count (counts s) + 2)) 20 1 (COLS E - 20)"
  let ?cs = "[?n, Wattron ?h (COLOR_PAIR C_TITLE), Wborder ?h border_glyphs, Wattroff ?h (COLOR_PAIR C_TITLE)]"
  let ?s = "emit (tl ?cs) (s\<lparr>calls := calls s @ [?n], w_stat := ?h\<rparr>)"
  have m: "moves [] s ?s"
    unfolding moves_def using assms None
    by (intro conjI exI [of _ ?cs] exI [of _ "[]"] exI [of _ w]) (simp_all add: trace_simps screen_ok_def)
  then obtain s' where "refresh_statistics ?s = Inr s'" "moves [] ?s s'"
    using refresh_statistics_ok moves_ready by blast
  with m moves_trans [OF m, of "[]"] None show ?thesis
    by (auto simp: show_statistics_def newwin_def Let_def)
qed

lemma show_messages_ok:
  assumes "screen_ok s" and "w_sys s = Some w" and "list_all plain ms"
  shows "\<exists>cs. show_messages ms s = Inr (emit cs s) \<and> created cs = {#} \<and> deleted cs = {#} \<and> printed (win w) cs = spaced ms"
  using assms
proof (induction ms arbitrary: s)
  case Nil
  then show ?case by (intro exI [of _ "[]"]) (simp add: emit_def trace_simps)
next
  case (Cons m ms)
  let ?c = "[Wprintw (win w) [CHR 0x0A], Wprintw (win w) m] @ scroll_refresh w"
  obtain cs where "show_messages ms (emit ?c s) = Inr (emit cs (emit ?c s))" "created cs = {#}" "deleted cs = {#}"
    "printed (win w) cs = spaced ms"
    using Cons.IH [of "emit ?c s"] Cons.prems by auto
  moreover have "quiet (scroll_refresh w)" by simp
  ultimately show ?case
    using Cons.prems by (intro exI [of _ "?c @ cs"]) (simp add: ncurses_msg_def c_format_plain trace_simps emit_def)
qed

lemma flush_messages_ok:
  assumes "screen_ok s" and "w_sys s = Some w"
  shows "\<exists>s'. flush_messages s = Inr s' \<and> moves [] s s' \<and> messages_queue (mqueue s') = []"
proof -
  let ?q = "(mqueue s)\<lparr>messages_queue := [], shown := shown (mqueue s) @ messages_queue (mqueue s)\<rparr>"
  let ?s = "s\<lparr>mqueue := ?q\<rparr>"
  have ok: "screen_ok ?s" "w_sys ?s = Some w" "list_all plain (messages_queue (mqueue s))"
    using assms by (simp_all add: screen_ok_def)
  obtain cs where cs: "show_messages (messages_queue (mqueue s)) ?s = Inr (emit cs ?s)" "created cs = {#}"
    "deleted cs = {#}" "printed (win w) cs = spaced (messages_queue (mqueue s))"
    using show_messages_ok [OF ok] by blast
  have "moves [] s (emit cs ?s)"
    unfolding moves_def using assms(2) ok(1) cs
    by (intro conjI exI [of _ cs] exI [of _ "messages_queue (mqueue s)"] exI [of _ w]) simp_all
  with cs(1) show ?thesis
    by (auto simp: flush_messages_def ui_msg_flush_eq Let_def)
qed

subsection \<open>Keys and screens\<close>

text \<open>The key that the loop condition sees, and the message that \<^verbatim>\<open>menu_event\<close> sends.\<close>

definition key_code :: "int option \<Rightarrow> int" where
  "key_code k = (case k of None \<Rightarrow> 255 | Some c \<Rightarrow>
     if c = KEY_F 1 then 1 else if c = KEY_F 2 then 2 else if c = 81 then 0 else c)"

definition menu_said :: "int option \<Rightarrow> string list" where
  "menu_said k = (if k = Some 113 then [''Use capital Q to exit...''] else [])"

lemma menu_event_ok:
  assumes "screen_ok s" and "w_sys s = Some w"
  shows "\<exists>rc s'. menu_event E (case k of None \<Rightarrow> 255 | Some c \<Rightarrow> c) s = Inr (rc, key_code k, s') \<and> moves (menu_said k) s s'"
proof -
  have q: "plain ''Use capital Q to exit...''" by (simp add: plain_def)
  show ?thesis
    using USER_MSG_ok [OF assms q, of E] show_statistics_ok [OF assms, of E] moves_refl [OF assms]
    by (cases k) (auto simp: menu_event_def key_code_def menu_said_def)
qed

text \<open>The events up to and including the key that leaves the screen: the code of the key and what is left.\<close>

fun exit_of :: "event list \<Rightarrow> int option \<times> event list" where
  "exit_of [] = (None, [])"
| "exit_of (Polled k # es) = (if key_code k > 12 then exit_of es else (Some (key_code k), es))"
| "exit_of (Counted t n # es) = exit_of es"
| "exit_of (Sent m # es) = exit_of es"

text \<open>The messages sent until then, when the \<^verbatim>\<open>switch\<close> of the screen sends \<open>said\<close> for a key.\<close>

fun messages_of :: "(int \<Rightarrow> string list) \<Rightarrow> event list \<Rightarrow> string list" where
  "messages_of said [] = []"
| "messages_of said (Polled k # es) =
     menu_said k @ said (key_code k) @ (if key_code k > 12 then messages_of said es else [])"
| "messages_of said (Counted t n # es) = messages_of said es"
| "messages_of said (Sent m # es) = m # messages_of said es"

text \<open>
  What the loop of a screen relies on in its \<^verbatim>\<open>switch\<close>: it returns, sends the messages \<open>said\<close> for a key,
  and keeps the invariant.
\<close>

locale key_switch =
  fixes sw :: "int \<Rightarrow> 'k screen \<Rightarrow> c_error + 'k screen"
    and said :: "int \<Rightarrow> string list"
  assumes sw_ok: "screen_ok s \<Longrightarrow> w_sys s = Some w \<Longrightarrow> \<exists>s'. sw key s = Inr s' \<and> moves (said key) s s'"
begin

lemma iteration_ok:
  assumes "screen_ok s" and "w_sys s = Some w"
  shows "\<exists>s'. iteration E sw h k s = Inr (key_code k, s') \<and> moves (menu_said k @ said (key_code k)) s s' \<and>
    messages_queue (mqueue s') = []"
proof -
  obtain s1 where s1: "menu_refresh E h s = Inr s1" "moves [] s s1"
    using menu_refresh_ok [OF assms] by blast
  obtain rc s2 where s2: "menu_event E (case k of None \<Rightarrow> 255 | Some c \<Rightarrow> c) s1 = Inr (rc, key_code k, s2)"
    "moves (menu_said k) s1 s2"
    using menu_event_ok moves_ready [OF s1(2)] by blast
  obtain s3 where s3: "sw (key_code k) s2 = Inr s3" "moves (said (key_code k)) s2 s3"
    using sw_ok moves_ready [OF s2(2)] by blast
  obtain s4 where s4: "flush_messages s3 = Inr s4" "moves [] s3 s4" "messages_queue (mqueue s4) = []"
    using flush_messages_ok moves_ready [OF s3(2)] by blast
  have "moves ([] @ menu_said k @ said (key_code k) @ []) s s4"
    using s1(2) s2(2) s3(2) s4(2) by (blast intro: moves_trans)
  with s1(1) s2(1) s3(1) s4(1,3) show ?thesis by (simp add: iteration_def Let_def)
qed

lemma screen_loop_ok:
  assumes "screen_ok s" and "w_sys s = Some w" and "\<forall>m. Sent m \<in> set es \<longrightarrow> plain m"
  shows "\<exists>s'. screen_loop E sw h es s = Inr (fst (exit_of es), snd (exit_of es), s') \<and> moves (messages_of said es) s s' \<and>
    (fst (exit_of es) \<noteq> None \<longrightarrow> messages_queue (mqueue s') = [])"
  using assms
proof (induction es arbitrary: s w)
  case Nil
  then show ?case using moves_refl by auto
next
  case (Cons e es)
  have IH: "moves ms s s1 \<Longrightarrow> \<exists>s'. screen_loop E sw h es s1 = Inr (fst (exit_of es), snd (exit_of es), s') \<and>
      moves (ms @ messages_of said es) s s' \<and> (fst (exit_of es) \<noteq> None \<longrightarrow> messages_queue (mqueue s') = [])" for ms s1
    using Cons.IH [of s1] Cons.prems(3) moves_ready [of ms s s1] moves_trans [of ms s s1 "messages_of said es"] by auto
  show ?case
  proof (cases e)
    case (Counted t n)
    then show ?thesis using IH [OF moves_Counted [OF Cons.prems(1,2)], of t n] by simp
  next
    case (Sent m)
    with Cons.prems obtain s1 where "USER_MSG E m s = Inr s1" "moves [m] s s1"
      using USER_MSG_ok by (metis list.set_intros(1))
    with Sent IH [of "[m]" s1] show ?thesis by simp
  next
    case (Polled k)
    obtain s1 where s1: "iteration E sw h k s = Inr (key_code k, s1)"
      "moves (menu_said k @ said (key_code k)) s s1" "messages_queue (mqueue s1) = []"
      using iteration_ok [OF Cons.prems(1,2)] by blast
    with Polled IH [OF s1(2)] show ?thesis by auto
  qed
qed

end

lemma scroll_sys_ok:
  assumes "screen_ok s" and "w_sys s = Some w" and "\<bar>d\<bar> < 2 ^ 30"
  shows "\<exists>s'. scroll_sys d s = Inr s' \<and> moves [] s s'"
proof -
  let ?w = "w\<lparr>y_scroll := clamp w (y_scroll w + d)\<rparr>"
  have "scrollable w" using assms(1,2) by (simp add: screen_ok_def)
  moreover from this have "scrollable ?w"
    by (intro scrollable_set) (auto simp: clamp_def scrollable_def)
  moreover from this obtain cs where "lmap_drawscroller ?w (calls s) = Inr (calls s @ cs)" "quiet cs"
    by (rule lmap_drawscroller_quiet)
  ultimately have "scroll_sys d s = Inr (s\<lparr>w_sys := Some ?w, calls := calls s @ cs @ scroll_refresh ?w\<rparr>)"
    and "moves [] s (s\<lparr>w_sys := Some ?w, calls := calls s @ cs @ scroll_refresh ?w\<rparr>)"
    using assms
    by (auto intro!: moves_quiet [of _ _ "cs @ scroll_refresh ?w" w ?w]
        simp: screen_ok_def scroll_sys_def lmap_scroll_def scroll_to_ok)
  then show ?thesis by blast
qed

definition info_said :: "int \<Rightarrow> string list" where
  "info_said key = (if key = KEY_TAB then [''TAB: redrawing window''] else [])"

lemma redraw_ok:
  assumes "screen_ok s" and "w_sys s = Some w"
  shows "\<exists>tr. lmap_redrawscrollwin w True (calls s) = Inr tr \<and> moves [] s (s\<lparr>calls := tr\<rparr>)"
proof -
  have "scrollable w" using assms by (simp add: screen_ok_def)
  then have "\<exists>cs. lmap_redrawscrollwin w True (calls s) = Inr (calls s @ cs) \<and> quiet cs"
    using scroller_ok [of w] by (auto simp: lmap_redrawscrollwin_def lmap_drawscroller_def Let_def)
  then obtain cs where "lmap_redrawscrollwin w True (calls s) = Inr (calls s @ cs)" "quiet cs" by blast
  with assms show ?thesis
    by (auto intro!: moves_quiet [of _ _ cs w w] simp: screen_ok_def)
qed

interpretation info: key_switch "info_switch E" info_said for E :: "'k terminal"
proof unfold_locales
  fix s :: "'k screen" and w and key
  assume a: "screen_ok s" "w_sys s = Some w"
  show "\<exists>s'. info_switch E key s = Inr s' \<and> moves (info_said key) s s'"
  proof (cases "key = KEY_TAB")
    case True
    obtain tr where tr: "lmap_redrawscrollwin w True (calls s) = Inr tr" "moves [] s (s\<lparr>calls := tr\<rparr>)"
      using redraw_ok [OF a] by blast
    have "plain ''TAB: redrawing window''" by (simp add: plain_def)
    then obtain s' where "USER_MSG E ''TAB: redrawing window'' (s\<lparr>calls := tr\<rparr>) = Inr s'"
      "moves [''TAB: redrawing window''] (s\<lparr>calls := tr\<rparr>) s'"
      using USER_MSG_ok [of "s\<lparr>calls := tr\<rparr>" w] moves_ready [OF tr(2)] a(2) by auto
    with True tr a(2) moves_trans [OF tr(2)] show ?thesis
      by (fastforce simp: info_switch_def info_said_def)
  next
    case False
    then show ?thesis
      using scroll_sys_ok [OF a] moves_refl [OF a]
      by (auto simp: info_switch_def info_said_def SYS_LINES_def)
  qed
qed

interpretation topology: key_switch "\<lambda>_ s. Inr s" "\<lambda>_. []"
  by unfold_locales (auto intro: moves_refl)

subsection \<open>The settings window\<close>

text \<open>The sizes of the local buffers.\<close>

definition buffers_ok :: "'k terminal \<Rightarrow> bool" where
  "buffers_ok E \<longleftrightarrow> (\<forall>n. length (junk_text E n) = n) \<and> (\<forall>n. length (junk_bytes E n) = n) \<and> length (ip_bytes (junk_ip E)) = 16"

lemma c_str_dotted: "c_str (overwrite b 0 (dotted a @ [NUL])) = dotted a"
  by (simp add: c_str_overwritten dotted_no_NUL)

lemma ip_addr_ntoa_4:
  assumes "ip_type a = AF_INET" and "4 \<le> length (ip_bytes a)" and "17 \<le> length buf"
  shows "ip_addr_ntoa a buf = Inr (Some (overwrite buf 0 (dotted (ip_bytes a) @ [NUL])), overwrite buf 0 (dotted (ip_bytes a) @ [NUL]))"
  using assms length_dotted [of "ip_bytes a"] by (simp add: ip_addr_ntoa_def inet_ntop4_eq)

lemma ip_addr_ntoa_returns:
  assumes "length (ip_bytes a) = 16" and "47 \<le> length buf"
  shows "\<exists>r. ip_addr_ntoa a buf = Inr r"
proof (cases "ip_type a = AF_INET6")
  case True
  have "length (words_of (ip_bytes a)) = 8" using assms by (simp add: length_words_of)
  then have "ntop6_text (words_of (ip_bytes a)) = Some t \<Longrightarrow> length t \<le> 46" for t
    using length_ntop6_text by fastforce
  with True assms show ?thesis
    by (fastforce simp: ip_addr_ntoa_def inet_ntop6_def strlcpy_eq split: option.splits)
next
  case False
  then show ?thesis
    using assms ip_addr_ntoa_4 [of a buf] by (cases "ip_type a = AF_INET") (auto simp: ip_addr_ntoa_def)
qed

lemma dotted_overwrite: "4 \<le> length b \<Longrightarrow> length c = 16 \<Longrightarrow> dotted (overwrite c 0 (take 4 b)) = dotted b"
  by (simp add: dotted_def overwrite_def nth_append min_def)

definition ip_text :: "bool \<Rightarrow> bytes \<Rightarrow> string" where
  "ip_text known b = (if known then dotted b else ''(none)'')"

lemma ascii_bytes_ok:
  assumes "buffers_ok E" and "4 \<le> length b"
  shows "\<exists>buf. ascii_bytes E rc b = Inr buf \<and> c_str buf = ip_text (rc = ESUCCESS) b"
proof (cases "rc = ESUCCESS")
  case True
  let ?a = "(junk_ip E)\<lparr>ip_type := AF_INET, addr_size := 4, ip_bytes := overwrite (ip_bytes (junk_ip E)) 0 (take 4 b)\<rparr>"
  have "ip_addr_init (junk_ip E) AF_INET b = Inr (ESUCCESS, ?a)"
    using assms by (simp add: ip_addr_init_def rd_bytes_ok)
  moreover have "ip_addr_ntoa ?a (junk_text E 17) = Inr (Some (overwrite (junk_text E 17) 0 (dotted b @ [NUL])), overwrite (junk_text E 17) 0 (dotted b @ [NUL]))"
    using assms by (subst ip_addr_ntoa_4) (simp_all add: buffers_ok_def dotted_overwrite)
  ultimately show ?thesis using True by (simp add: ascii_bytes_def ip_text_def c_str_dotted)
next
  case False
  then show ?thesis
    using c_str_overwritten [of "''(none)''" "junk_text E 17"] by (simp add: ascii_bytes_def ip_text_def)
qed

lemma ascii_ip_none: "rc \<noteq> ESUCCESS \<Longrightarrow> \<exists>buf. ascii_ip E n rc ip = Inr buf \<and> c_str buf = ''(none)''"
  using c_str_overwritten [of "''(none)''" "junk_text E n"] by (simp add: ascii_ip_def)

lemma length_mem32 [simp]: "length (mem32 en w) = 4"
  by (cases en) (simp_all add: mem32_def)

lemma get_iface_ip_6: "get_iface_ip io i (Some a) AF_INET6 k = Inr (ESUCCESS, Some a, k)"
  by (simp add: get_iface_ip_def)

text \<open>\<^verbatim>\<open>sa_data\<close> has 14 bytes; the address is behind the port.\<close>

lemma ip_query_ok:
  assumes "buffers_ok E" and "length (sa_data a) = 14" and "ioctl E SIOCGIFADDR (new_ifreq (iface E)) (kernel k) = (rc, a, k')"
  shows "\<exists>r ip buf. get_iface_ip (ioctl E) (iface E) (Some (junk_ip E)) AF_INET k = Inr (r, ip, k\<lparr>kernel := k'\<rparr>) \<and>
    ascii_ip E IP_ASCII_ADDR_LEN r ip = Inr buf \<and> c_str buf = ip_text (0 \<le> rc) (drop 2 (sa_data a))"
proof (cases "rc < 0")
  case True
  with assms(3) ascii_ip_none [of "- ENOADDRESS" E 17 "Some (junk_ip E)"] show ?thesis
    by (auto simp: get_iface_ip_def do_ioctl_def open_socket_def close_socket_def ip_text_def)
next
  case False
  let ?b = "drop 2 (sa_data a)"
  let ?a = "(junk_ip E)\<lparr>ip_type := AF_INET, addr_size := 4, ip_bytes := overwrite (ip_bytes (junk_ip E)) 0 (take 4 ?b)\<rparr>"
  have "ip_addr_init (junk_ip E) AF_INET ?b = Inr (ESUCCESS, ?a)"
    using assms(2) by (simp add: ip_addr_init_def rd_bytes_ok)
  moreover have "ip_addr_ntoa ?a (junk_text E 17) = Inr (Some (overwrite (junk_text E 17) 0 (dotted ?b @ [NUL])), overwrite (junk_text E 17) 0 (dotted ?b @ [NUL]))"
    using assms(1,2) by (subst ip_addr_ntoa_4) (simp_all add: buffers_ok_def dotted_overwrite)
  ultimately show ?thesis using assms(3) False
    by (auto simp: get_iface_ip_def do_ioctl_def open_socket_def close_socket_def ip_text_def ascii_ip_def c_str_dotted)
qed

lemma mask_query_ok:
  assumes "length (sa_data a) = 14" and "ioctl E SIOCGIFNETMASK (new_ifreq (iface E)) (kernel k) = (rc, a, k')"
  shows "\<exists>r. get_iface_mask (ioctl E) (iface E) (Some m) k =
      (r, Some (if rc < 0 then m else take 4 (drop 2 (sa_data a))), k\<lparr>kernel := k'\<rparr>) \<and> (r = ESUCCESS \<longleftrightarrow> 0 \<le> rc)"
  using assms by (simp add: get_iface_mask_def do_ioctl_def open_socket_def close_socket_def)

lemma ll_query_ok:
  assumes "0 \<le> rc" and "length (sa_data a) = 14" and "length ll = 6"
    and "ioctl E SIOCGIFHWADDR (new_ifreq (iface E)) (kernel k) = (rc, a, k')"
  shows "get_iface_ll (ioctl E) (iface E) (Some ll) k = Inr (ESUCCESS, Some (take 6 (sa_data a)), k\<lparr>kernel := k'\<rparr>)"
  using assms by (simp add: get_iface_ll_def do_ioctl_def open_socket_def close_socket_def overwrite_def)

lemma print_ifaceconfig_eq:
  assumes "buffers_ok E"
    and "ioctl E SIOCGIFADDR (new_ifreq (iface E)) (kernel (host s)) = (r1, a1, k1)" and "length (sa_data a1) = 14"
    and "ioctl E SIOCGIFNETMASK (new_ifreq (iface E)) k1 = (r2, a2, k2)" and "length (sa_data a2) = 14"
    and "ioctl E SIOCGIFHWADDR (new_ifreq (iface E)) k2 = (r3, a3, k3)" and "length (sa_data a3) = 14" and "0 \<le> r3"
    and "get_default_gw (files E) (junk_text E 1024)
      (word32 (byte_order E) (if r2 < 0 then junk_bytes E 4 else take 4 (drop 2 (sa_data a2)))) = (r4, gw)"
    and "get_default_dns (files E) (junk_bytes E 4) (mem32 (byte_order E) gw) = Inr (r5, dns, n)" and "4 \<le> length dns"
  shows "print_ifaceconfig E w s =
    Inr (emit (settings (win w) (iface E) (mac_text (take 6 (sa_data a3)))
        (ip_text (0 \<le> r1) (drop 2 (sa_data a1))) (ip_text (0 \<le> r2) (take 4 (drop 2 (sa_data a2))))
        (ip_text (r4 = ESUCCESS) (mem32 (byte_order E) gw)) (ip_text (r5 = ESUCCESS) dns))
      (s\<lparr>host := (host s)\<lparr>kernel := k3\<rparr>, open_files := open_files s + n\<rparr>))"
proof -
  obtain rc1 ip buf1 where q1: "get_iface_ip (ioctl E) (iface E) (Some (junk_ip E)) AF_INET (host s) = Inr (rc1, ip, (host s)\<lparr>kernel := k1\<rparr>)"
    "ascii_ip E IP_ASCII_ADDR_LEN rc1 ip = Inr buf1" "c_str buf1 = ip_text (0 \<le> r1) (drop 2 (sa_data a1))"
    using ip_query_ok [OF assms(1,3,2)] by blast
  obtain buf6 where q6: "ascii_ip E IP6_ASCII_ADDR_LEN ESUCCESS (Some (junk_ip E)) = Inr buf6"
    using ip_addr_ntoa_returns [of "junk_ip E" "junk_text E 47"] assms(1) by (auto simp: ascii_ip_def buffers_ok_def)
  define tmp where "tmp = (if r2 < 0 then junk_bytes E 4 else take 4 (drop 2 (sa_data a2)))"
  obtain rc2 where q2: "get_iface_mask (ioctl E) (iface E) (Some (junk_bytes E 4)) ((host s)\<lparr>kernel := k1\<rparr>) =
      (rc2, Some tmp, (host s)\<lparr>kernel := k2\<rparr>)" "rc2 = ESUCCESS \<longleftrightarrow> 0 \<le> r2"
    using mask_query_ok [OF assms(5), of E "(host s)\<lparr>kernel := k1\<rparr>" r2 k2 "junk_bytes E 4"] assms(4) by (auto simp: tmp_def)
  have tmp: "4 \<le> length tmp" using assms(1,5) by (auto simp: tmp_def buffers_ok_def)
  obtain buf2 where b2: "ascii_bytes E rc2 tmp = Inr buf2" "c_str buf2 = ip_text (rc2 = ESUCCESS) tmp"
    using ascii_bytes_ok [OF assms(1) tmp] by blast
  obtain buf4 where b4: "ascii_bytes E r4 (mem32 (byte_order E) gw) = Inr buf4"
    "c_str buf4 = ip_text (r4 = ESUCCESS) (mem32 (byte_order E) gw)"
    using ascii_bytes_ok [OF assms(1), of "mem32 (byte_order E) gw"] by auto
  obtain buf5 where b5: "ascii_bytes E r5 dns = Inr buf5" "c_str buf5 = ip_text (r5 = ESUCCESS) dns"
    using ascii_bytes_ok [OF assms(1,11)] by blast
  have q3: "get_iface_ll (ioctl E) (iface E) (Some (junk_bytes E 6)) ((host s)\<lparr>kernel := k2\<rparr>) =
      Inr (ESUCCESS, Some (take 6 (sa_data a3)), (host s)\<lparr>kernel := k3\<rparr>)"
    using ll_query_ok [OF assms(8,7), of "junk_bytes E 6" E "(host s)\<lparr>kernel := k2\<rparr>" k3] assms(1,6) by (simp add: buffers_ok_def)
  have m: "ip_text (rc2 = ESUCCESS) tmp = ip_text (0 \<le> r2) (take 4 (drop 2 (sa_data a2)))"
    using q2(2) by (auto simp: tmp_def ip_text_def)
  have ll: "eth_addr_ntoa (take 6 (sa_data a3)) (junk_text E 18) =
      Inr (ESUCCESS, overwrite (junk_text E 18) 0 (mac_text (take 6 (sa_data a3)) @ [NUL]))"
    using assms(1,7) by (intro eth_addr_ntoa_ok) (simp_all add: buffers_ok_def)
  show ?thesis
    using assms(9,10) q1 q6 q2(1) b2 b4 b5 q3 ll m
    by (simp add: print_ifaceconfig_def get_iface_ip_6 tmp_def [symmetric] c_str_overwritten mac_text_no_NUL)
qed

subsection \<open>A screen from its menu to its last key\<close>

text \<open>
  What the screens need of their environment: memory, a terminal that is not absurdly wide, a kernel that
  fills the requests and knows the address of the interface, and a well formed \<^verbatim>\<open>/etc/resolv.conf\<close>.
\<close>

definition console_ok :: "'k terminal \<Rightarrow> bool" where
  "console_ok E \<longleftrightarrow> memory_left E \<and> \<bar>COLS E\<bar> < 2 ^ 30 \<and> buffers_ok E \<and>
     (\<forall>r ifr k. length (sa_data (fst (snd (ioctl E r ifr k)))) = 14 \<and> (r = SIOCGIFHWADDR \<longrightarrow> 0 \<le> fst (ioctl E r ifr k))) \<and>
     (\<forall>d. length d = 4 \<longrightarrow> (\<exists>rc dns n. get_default_dns (files E) (junk_bytes E 4) d = Inr (rc, dns, n) \<and> 4 \<le> length dns))"

text \<open>The set-up of a screen creates the windows \<open>ws\<close>.\<close>

definition begun :: "nat multiset \<Rightarrow> 'k screen \<Rightarrow> 'k screen \<Rightarrow> bool" where
  "begun ws s s' \<longleftrightarrow> w_stat s' = w_stat s \<and> mqueue s' = mqueue s \<and> counts s' = counts s \<and>
     (\<exists>cs. calls s' = calls s @ cs \<and> created cs = ws \<and> deleted cs = {#} \<and> (\<forall>h. printed h cs = []))"

lemma begun_emit: "quiet cs \<Longrightarrow> begun {#} s (emit cs s)"
  by (auto simp: begun_def trace_simps)

lemma begun_trans:
  assumes "begun ws s s'" and "begun vs s' s''"
  shows "begun (ws + vs) s s''"
proof -
  obtain cs where cs: "calls s' = calls s @ cs" "created cs = ws" "deleted cs = {#}" "\<forall>h. printed h cs = []"
    using assms(1) by (auto simp: begun_def)
  obtain ds where ds: "calls s'' = calls s' @ ds" "created ds = vs" "deleted ds = {#}" "\<forall>h. printed h ds = []"
    using assms(2) by (auto simp: begun_def)
  show ?thesis
    using assms cs ds unfolding begun_def by (intro conjI exI [of _ "cs @ ds"]) (simp_all add: trace_simps)
qed

lemma menu_create_begun:
  "\<exists>h s'. menu_create E s = (h, s') \<and> begun (hs h) s s' \<and> w_sys s' = w_sys s"
proof -
  let ?h = "new_handle E (calls s) 1 (COLS E)"
  let ?cs = "[Wattrset ?h (COLOR_PAIR C_MENU), Whline ?h Blank (COLS E), Keypad ?h True, Nodelay ?h True] @
              menu_item ?h 0 ''<F1>'' 5 ''Info'' @ menu_item ?h 10 ''<F2>'' 15 ''Topology'' @
              menu_item ?h (COLS E - 26) ''<F12>'' (COLS E - 20) (packets_text (get_stat (counts s) ''TOTAL'')) @
              [Wrefresh ?h]"
  have "quiet ?cs" by simp
  then show ?thesis
    by (auto simp: menu_create_def newwin_def Let_def begun_def trace_simps
        intro!: exI [of _ "Newwin ?h 1 (COLS E) 0 0 # ?cs"])
qed

lemma lmap_newwin_begun:
  assumes "memory_left E"
  shows "\<exists>w cs. lmap_newwin E l c y x t (calls s) = Inr (w, calls s @ cs) \<and> begun (hs (win w)) s (s\<lparr>calls := calls s @ cs\<rparr>)"
proof -
  let ?h = "new_handle E (calls s) l c"
  let ?cs = "[Wborder ?h border_glyphs, Wmove ?h 0 2, Wattrset ?h (COLOR_PAIR C_TITLE)] @
             put_title ?h t @ [Wattroff ?h (COLOR_PAIR C_TITLE), Scrollok ?h True]"
  have "quiet ?cs" by simp
  with assms show ?thesis
    by (auto simp: lmap_newwin_def newwin_def Let_def begun_def trace_simps
        intro!: exI [of _ "Newwin ?h l c y x # ?cs"])
qed

lemma print_ifaceconfig_begun:
  assumes "console_ok E"
  shows "\<exists>s'. print_ifaceconfig E w s = Inr s' \<and> begun {#} s s' \<and> w_sys s' = w_sys s"
proof -
  let ?q = "\<lambda>r k. ioctl E r (new_ifreq (iface E)) k"
  obtain r1 a1 k1 where q1: "?q SIOCGIFADDR (kernel (host s)) = (r1, a1, k1)" by (cases "?q SIOCGIFADDR (kernel (host s))") auto
  obtain r2 a2 k2 where q2: "?q SIOCGIFNETMASK k1 = (r2, a2, k2)" by (cases "?q SIOCGIFNETMASK k1") auto
  obtain r3 a3 k3 where q3: "?q SIOCGIFHWADDR k2 = (r3, a3, k3)" by (cases "?q SIOCGIFHWADDR k2") auto
  obtain r4 gw where q4: "get_default_gw (files E) (junk_text E 1024)
      (word32 (byte_order E) (if r2 < 0 then junk_bytes E 4 else take 4 (drop 2 (sa_data a2)))) = (r4, gw)" by force
  have k: "length (sa_data (fst (snd (ioctl E r ifr k)))) = 14" "r = SIOCGIFHWADDR \<Longrightarrow> 0 \<le> fst (ioctl E r ifr k)"
    "buffers_ok E" for r ifr k using assms by (simp_all add: console_ok_def)
  obtain r5 dns n where q5: "get_default_dns (files E) (junk_bytes E 4) (mem32 (byte_order E) gw) = Inr (r5, dns, n)" "4 \<le> length dns"
    using assms length_mem32 unfolding console_ok_def by blast
  have "length (sa_data a1) = 14" "length (sa_data a2) = 14" "length (sa_data a3) = 14" "0 \<le> r3"
    using k(1) [of SIOCGIFADDR "new_ifreq (iface E)" "kernel (host s)"] k(1) [of SIOCGIFNETMASK "new_ifreq (iface E)" k1]
      k(1,2) [of SIOCGIFHWADDR "new_ifreq (iface E)" k2] q1 q2 q3 by simp_all
  from print_ifaceconfig_eq [OF k(3) q1 this(1) q2 this(2) q3 this(3,4) q4 q5, of w]
  show ?thesis by (auto simp: begun_def trace_simps)
qed

lemma create_sys_ok:
  assumes "memory_left E" and "\<bar>COLS E\<bar> < 2 ^ 30" and "\<forall>w. w_sys s = Some w \<longrightarrow> scrollable w"
  shows "\<exists>s' w. create_sys E s = Inr s' \<and> w_sys s' = Some w \<and> scrollable w \<and>
    (case w_sys s of None \<Rightarrow> begun (hs (win w) + hs (out w)) s s' | Some v \<Rightarrow> v = w \<and> begun {#} s s')"
proof (cases "w_sys s")
  case (Some w)
  then show ?thesis using assms(3) begun_emit [of "[]" s] by (simp add: create_sys_def emit_def)
next
  case None
  obtain w cs where w: "lmap_newscrollwin E SYS_LINES (COLS E) (LINES E - SYS_LINES) 0 ''System messages'' 150 (calls s) =
      Inr (w, calls s @ [Newpad (win w) 150 (COLS E - 2), Newwin (out w) SYS_LINES (COLS E) (LINES E - SYS_LINES) 0] @ cs)"
    "scrollable w" "quiet cs"
    by (rule lmap_newscrollwin_ok [of E SYS_LINES 150 "COLS E" "LINES E - SYS_LINES" 0 "''System messages''" "calls s"])
       (use assms(1,2) in \<open>simp_all add: SYS_LINES_def\<close>)
  have "quiet (cs @ scroll_refresh w)" using w(3) by simp
  with w None show ?thesis
    by (auto simp: create_sys_def begun_def trace_simps intro!: exI)
qed

text \<open>
  \<open>session ms s s'\<close>: the program went from \<open>s\<close>, where no statistics window is open, through whole screens
  to \<open>s'\<close>, with the messages \<open>ms\<close> sent meanwhile. All messages have been displayed, and of the windows it
  created only the two of the system messages are left, if they are new.
\<close>

definition session :: "string list \<Rightarrow> 'k screen \<Rightarrow> 'k screen \<Rightarrow> bool" where
  "session ms s s' \<longleftrightarrow> screen_ok s' \<and> w_stat s' = None \<and> messages_queue (mqueue s') = [] \<and>
     shown (mqueue s') = shown (mqueue s) @ messages_queue (mqueue s) @ ms \<and>
     (\<exists>cs w. calls s' = calls s @ cs \<and> w_sys s' = Some w \<and>
        created cs = deleted cs + (if w_sys s = None then hs (win w) + hs (out w) else {#}) \<and>
        (\<forall>v. w_sys s = Some v \<longrightarrow> win w = win v \<and> out w = out v) \<and>
        printed (win w) cs = spaced (messages_queue (mqueue s) @ ms))"

lemma session_trans:
  assumes "session ms s s'" and "session ns s' s''"
  shows "session (ms @ ns) s s''"
proof -
  obtain cs w where a: "calls s' = calls s @ cs" "w_sys s' = Some w"
    "created cs = deleted cs + (if w_sys s = None then hs (win w) + hs (out w) else {#})"
    "\<forall>v. w_sys s = Some v \<longrightarrow> win w = win v \<and> out w = out v"
    "printed (win w) cs = spaced (messages_queue (mqueue s) @ ms)"
    using assms(1) by (auto simp: session_def)
  obtain cs' w' where b: "calls s'' = calls s' @ cs'" "w_sys s'' = Some w'" "created cs' = deleted cs'"
    "win w' = win w" "out w' = out w" "printed (win w') cs' = spaced (messages_queue (mqueue s') @ ns)"
    using assms(2) a(2) by (auto simp: session_def)
  show ?thesis
    using assms a b unfolding session_def
    by (intro conjI exI [of _ "cs @ cs'"] exI [of _ w']) (auto simp: trace_simps ac_simps)
qed

text \<open>A set-up, a loop and a clean-up that deletes the windows of the set-up are a session.\<close>

lemma session_intro:
  assumes "begun (ws + (if w_sys s = None then hs (win w) + hs (out w) else {#})) s s1" and "w_stat s = None"
    and "w_sys s1 = Some w" and "\<forall>v. w_sys s = Some v \<longrightarrow> win w = win v \<and> out w = out v"
    and "moves ms s1 s2" and "messages_queue (mqueue s2) = []"
    and "calls s3 = calls s2 @ cs" and "created cs = {#}" and "\<forall>h. printed h cs = []"
    and "deleted cs = ws + hs (w_stat s2)" and "screen_ok s3" and "w_stat s3 = None" and "w_sys s3 = w_sys s2"
    and "mqueue s3 = mqueue s2"
  shows "session ms s s3"
proof -
  obtain bs where b: "calls s1 = calls s @ bs" "created bs = ws + (if w_sys s = None then hs (win w) + hs (out w) else {#})"
    "deleted bs = {#}" "\<forall>h. printed h bs = []" "w_stat s1 = w_stat s" "mqueue s1 = mqueue s"
    using assms(1) by (auto simp: begun_def)
  define ds where "ds = messages_queue (mqueue s1) @ ms"
  obtain ls w' where l: "calls s2 = calls s1 @ ls" "created ls + hs (w_stat s1) = deleted ls + hs (w_stat s2)"
    "w_sys s2 = Some w'" "win w' = win w" "out w' = out w" "shown (mqueue s2) = shown (mqueue s1) @ ds"
    "printed (win w) ls = spaced ds"
    using assms(3,5,6) by (auto simp: moves_def ds_def)
  have "calls s3 = calls s @ bs @ ls @ cs" using b(1) l(1) assms(7) by simp
  moreover have "created (bs @ ls @ cs) = deleted (bs @ ls @ cs) + (if w_sys s = None then hs (win w') + hs (out w') else {#})"
    using b(2,3,5) l(2,4,5) assms(2,8,10) by (simp add: trace_simps ac_simps)
  moreover have "printed (win w') (bs @ ls @ cs) = spaced (messages_queue (mqueue s) @ ms)"
    using b(4,6) l(4,7) assms(9) by (simp add: trace_simps ds_def)
  moreover have "shown (mqueue s3) = shown (mqueue s) @ messages_queue (mqueue s) @ ms"
    using b(6) l(6) assms(14) by (simp add: ds_def)
  ultimately show ?thesis
    unfolding session_def using assms(4,6,11-14) l(3-5)
    by (intro conjI exI [of _ "bs @ ls @ cs"] exI [of _ w']) simp_all
qed

lemma begun_then_emit: "begun ws s s' \<Longrightarrow> quiet cs \<Longrightarrow> begun ws s (emit cs s')"
  using begun_trans [of ws s s' "{#}"] begun_emit [of cs s'] by simp

lemma screen_ok_begun: "screen_ok s \<Longrightarrow> begun ws s s' \<Longrightarrow> \<forall>w. w_sys s' = Some w \<longrightarrow> scrollable w \<Longrightarrow> screen_ok s'"
  by (simp add: screen_ok_def begun_def)

lemma menu_destroy_fields [simp]:
  "calls (menu_destroy h s) = calls s @ [Werase h, Werase (w_stat s), Wrefresh h, Wrefresh (w_stat s), Delwin h, Delwin (w_stat s)]"
  "w_stat (menu_destroy h s) = None" "w_sys (menu_destroy h s) = w_sys s" "mqueue (menu_destroy h s) = mqueue s"
  "counts (menu_destroy h s) = counts s"
  by (simp_all add: menu_destroy_def)

lemma scr_topology_ok:
  assumes "screen_ok s" and "w_sys s = Some w" and "w_stat s = None" and "\<forall>m. Sent m \<in> set es \<longrightarrow> plain m"
  shows "\<exists>s'. scr_topology E es s = Inr (fst (exit_of es), snd (exit_of es), s') \<and>
    (fst (exit_of es) \<noteq> None \<longrightarrow> session (messages_of (\<lambda>_. []) es) s s')"
proof -
  obtain h s0 where m: "menu_create E s = (h, s0)" "begun (hs h) s s0" "w_sys s0 = w_sys s"
    using menu_create_begun by blast
  let ?s1 = "emit [Wrefresh h] s0"
  have b: "begun (hs h) s ?s1" using begun_trans [OF m(2) begun_emit [of "[Wrefresh h]"]] by simp
  have w: "w_sys ?s1 = Some w" using m(3) assms(2) by simp
  have "screen_ok ?s1" using screen_ok_begun [OF assms(1) b] w assms(1,2) by (auto simp: screen_ok_def)
  from topology.screen_loop_ok [OF this w assms(4), of E h]
  obtain s2 where s2: "screen_loop E (\<lambda>_ s. Inr s) h es ?s1 = Inr (fst (exit_of es), snd (exit_of es), s2)"
    "moves (messages_of (\<lambda>_. []) es) ?s1 s2" "fst (exit_of es) \<noteq> None \<longrightarrow> messages_queue (mqueue s2) = []"
    by blast
  have "session (messages_of (\<lambda>_. []) es) s (menu_destroy h s2)" if "fst (exit_of es) \<noteq> None"
    by (rule session_intro [of "hs h" s w ?s1 _ s2 _ "[Werase h, Werase (w_stat s2), Wrefresh h, Wrefresh (w_stat s2), Delwin h, Delwin (w_stat s2)]"])
       (use b w s2 that assms(2,3) in \<open>simp_all add: trace_simps screen_ok_def moves_def\<close>)
  then show ?thesis
    using m(1) s2(1) by (auto simp: scr_topology_def Let_def split: option.splits)
qed

lemma info_windows_begun:
  assumes "console_ok E"
  obtains h w1 w2 s4 where "info_windows E s = Inr (h, w1, w2, s4)"
    and "begun (hs h + hs (win w1) + hs (win w2)) s s4" and "w_sys s4 = w_sys s"
proof -
  have E: "memory_left E" using assms by (simp add: console_ok_def)
  obtain h s0 where m: "menu_create E s = (h, s0)" "begun (hs h) s s0" "w_sys s0 = w_sys s"
    using menu_create_begun by blast
  let ?s0 = "emit [Wrefresh h] s0"
  obtain w1 c1 where i: "lmap_newwin E 6 55 2 0 ''ACTUAL Network Interface Settings'' (calls ?s0) = Inr (w1, calls ?s0 @ c1)"
    "begun (hs (win w1)) ?s0 (?s0\<lparr>calls := calls ?s0 @ c1\<rparr>)"
    using lmap_newwin_begun [OF E] by blast
  let ?s1 = "?s0\<lparr>calls := calls ?s0 @ c1\<rparr>"
  obtain s2 where p: "print_ifaceconfig E w1 ?s1 = Inr s2" "begun {#} ?s1 s2" "w_sys s2 = w_sys ?s1"
    using print_ifaceconfig_begun [OF assms] by blast
  let ?s2 = "emit [Wrefresh (win w1)] s2"
  obtain w2 c2 where g: "lmap_newwin E 6 55 8 0 ''SUGGESTED Network Interface Settings'' (calls ?s2) = Inr (w2, calls ?s2 @ c2)"
    "begun (hs (win w2)) ?s2 (?s2\<lparr>calls := calls ?s2 @ c2\<rparr>)"
    using lmap_newwin_begun [OF E] by blast
  let ?s3 = "?s2\<lparr>calls := calls ?s2 @ c2\<rparr>"
  let ?s4 = "emit [Wrefresh (win w2)] (print_suggconfig E w2 ?s3)"
  have "begun {#} ?s3 (print_suggconfig E w2 ?s3)"
    unfolding print_suggconfig_def by (rule begun_emit) simp
  then have sugg: "begun {#} ?s3 ?s4" by (rule begun_then_emit) simp
  have "begun (hs h) s ?s0" by (rule begun_then_emit [OF m(2)]) simp
  then have "begun (hs h + hs (win w1)) s ?s1" by (rule begun_trans [OF _ i(2)])
  then have "begun (hs h + hs (win w1) + {#}) s s2" by (rule begun_trans [OF _ p(2)])
  then have "begun (hs h + hs (win w1)) s ?s2" by (intro begun_then_emit) simp_all
  then have "begun (hs h + hs (win w1) + hs (win w2)) s ?s3" by (rule begun_trans [OF _ g(2)])
  then have b: "begun (hs h + hs (win w1) + hs (win w2) + {#}) s ?s4" by (rule begun_trans [OF _ sugg])
  show thesis
    by (rule that [of h w1 w2 ?s4])
      (use m i(1) p(1,3) g(1) b in \<open>simp_all add: info_windows_def print_suggconfig_def\<close>)
qed

lemma scr_info_ok:
  assumes "console_ok E" and "screen_ok s" and "w_stat s = None" and "\<forall>m. Sent m \<in> set es \<longrightarrow> plain m"
  shows "\<exists>s'. scr_info E es s = Inr (fst (exit_of es), snd (exit_of es), s') \<and>
    (fst (exit_of es) \<noteq> None \<longrightarrow> session (messages_of info_said es) s s')"
proof -
  have E: "memory_left E" "\<bar>COLS E\<bar> < 2 ^ 30" using assms(1) by (simp_all add: console_ok_def)
  obtain h w1 w2 s4 where i: "info_windows E s = Inr (h, w1, w2, s4)"
    and b: "begun (hs h + hs (win w1) + hs (win w2)) s s4" and w: "w_sys s4 = w_sys s"
    by (rule info_windows_begun [OF assms(1)])
  obtain s5 v where c: "create_sys E s4 = Inr s5" "w_sys s5 = Some v" "scrollable v"
    "case w_sys s of None \<Rightarrow> begun (hs (win v) + hs (out v)) s4 s5 | Some u \<Rightarrow> u = v \<and> begun {#} s4 s5"
    using create_sys_ok [OF E, of s4] assms(2) w by (auto simp: screen_ok_def)
  have b5: "begun (hs h + hs (win w1) + hs (win w2) + (if w_sys s = None then hs (win v) + hs (out v) else {#})) s s5"
    using c(4) by (auto split: option.splits dest: begun_trans [OF b])
  have "screen_ok s5" using screen_ok_begun [OF assms(2) b5] c(2,3) by simp
  from info.screen_loop_ok [OF this c(2) assms(4), of E E h]
  obtain s6 where l: "screen_loop E (info_switch E) h es s5 = Inr (fst (exit_of es), snd (exit_of es), s6)"
    "moves (messages_of info_said es) s5 s6" "fst (exit_of es) \<noteq> None \<longrightarrow> messages_queue (mqueue s6) = []"
    by blast
  let ?d1 = "[Werase (win w1), Wrefresh (win w1), Delwin (win w1)]"
  let ?d2 = "[Werase (win w2), Wrefresh (win w2), Delwin (win w2)]"
  let ?d3 = "[Werase h, Werase (w_stat s6), Wrefresh h, Wrefresh (w_stat s6), Delwin h, Delwin (w_stat s6)]"
  let ?s7 = "menu_destroy h (s6\<lparr>calls := calls s6 @ ?d1 @ ?d2\<rparr>)"
  have "session (messages_of info_said es) s ?s7" if x: "fst (exit_of es) \<noteq> None"
  proof (rule session_intro [OF b5 assms(3) c(2) _ l(2)])
    show "messages_queue (mqueue s6) = []" using l(3) x by simp
    show "calls ?s7 = calls s6 @ (?d1 @ ?d2 @ ?d3)" by simp
    show "\<forall>u. w_sys s = Some u \<longrightarrow> win v = win u \<and> out v = out u" using c(4) by auto
    show "screen_ok ?s7" using moves_ready [OF l(2)] by (simp add: screen_ok_def)
    show "deleted (?d1 @ ?d2 @ ?d3) = hs h + hs (win w1) + hs (win w2) + hs (w_stat s6)" by (simp add: trace_simps)
  qed (simp_all add: trace_simps)
  then show ?thesis
    using i c(1) l(1) by (auto simp: scr_info_def Let_def lmap_delwin_def split: option.splits)
qed

subsection \<open>The main loop of the interface\<close>

text \<open>
  Whether the events end the interface, and those that are left: only a key with the code 0 (a capital Q,
  or the character 0) does.
\<close>

fun quits :: "event list \<Rightarrow> bool \<times> event list" where
  "quits [] = (False, [])"
| "quits (Polled k # es) = (if key_code k = 0 then (True, es) else quits es)"
| "quits (Counted t n # es) = quits es"
| "quits (Sent m # es) = quits es"

text \<open>
  The messages sent until then, with those of the interface itself: \<open>d\<close> is the screen that is displayed,
  and the key codes 1 and 2 choose another one.
\<close>

definition next_display :: "int \<Rightarrow> display \<Rightarrow> display" where
  "next_display c d = (if c = 1 then Scr_info else if c = 2 then Scr_topology else d)"

fun ui_messages :: "display \<Rightarrow> event list \<Rightarrow> string list" where
  "ui_messages d [] = []"
| "ui_messages d (Polled k # es) =
     menu_said k @ (if d = Scr_info then info_said (key_code k) else []) @
     (if key_code k = 0 then [] else ui_messages (next_display (key_code k) d) es)"
| "ui_messages d (Counted t n # es) = ui_messages d es"
| "ui_messages d (Sent m # es) = m # ui_messages d es"

definition screen_said :: "display \<Rightarrow> int \<Rightarrow> string list" where
  "screen_said d key = (if d = Scr_info then info_said key else [])"

lemma screen_said_simps: "screen_said Scr_info = info_said" "screen_said Scr_topology = (\<lambda>_. [])"
  by (auto simp: screen_said_def)

lemma quits_exit:
  "quits es = (case exit_of es of (None, r) \<Rightarrow> (False, r) | (Some c, r) \<Rightarrow> if c = 0 then (True, r) else quits r)"
  by (induction es rule: quits.induct) (auto split: option.splits prod.splits)

lemma ui_messages_exit:
  "ui_messages d es = messages_of (screen_said d) es @
    (case exit_of es of (None, r) \<Rightarrow> [] | (Some c, r) \<Rightarrow> if c = 0 then [] else ui_messages (next_display c d) r)"
  by (induction d es rule: ui_messages.induct)
     (auto simp: screen_said_def next_display_def split: option.splits prod.splits)

lemma exit_of_shorter: "exit_of es = (Some c, r) \<Longrightarrow> length r < length es \<and> set r \<subseteq> set es"
  by (induction es rule: exit_of.induct) (auto split: if_splits)

lemma display_screen_ok:
  assumes "console_ok E" and "screen_ok s" and "w_stat s = None" and "\<forall>m. Sent m \<in> set es \<longrightarrow> plain m"
    and "d = Scr_topology \<longrightarrow> w_sys s \<noteq> None"
  shows "\<exists>s'. display_screen E d es s = Inr (fst (exit_of es), snd (exit_of es), s') \<and>
    (fst (exit_of es) \<noteq> None \<longrightarrow> session (messages_of (screen_said d) es) s s')"
  using scr_info_ok [OF assms(1-4)] scr_topology_ok [OF assms(2) _ assms(3,4)] assms(5)
  by (cases d) (auto simp: screen_said_simps)

lemma start_loop_ok:
  assumes "console_ok E" and "screen_ok s" and "w_stat s = None" and "\<forall>m. Sent m \<in> set es \<longrightarrow> plain m"
    and "d = Scr_topology \<longrightarrow> w_sys s \<noteq> None" and "length es < n"
  shows "\<exists>s'. start_loop n E d es s = Inr (fst (quits es), snd (quits es), s') \<and>
    (fst (quits es) \<longrightarrow> session (ui_messages d es) s s')"
  using assms(2-)
proof (induction n arbitrary: es s d)
  case (Suc n)
  obtain s1 where s1: "display_screen E d es s = Inr (fst (exit_of es), snd (exit_of es), s1)"
    "fst (exit_of es) \<noteq> None \<longrightarrow> session (messages_of (screen_said d) es) s s1"
    using display_screen_ok [OF assms(1) Suc.prems(1-4)] by blast
  obtain c r where cr: "exit_of es = (c, r)" by (cases "exit_of es")
  show ?case
  proof (cases c)
    case None
    with s1 cr show ?thesis by (simp add: quits_exit [of es])
  next
    case (Some k)
    note x = s1(2) [unfolded cr Some, simplified]
    show ?thesis
    proof (cases "k = 0")
      case True
      with s1(1) cr Some x show ?thesis by (simp add: quits_exit [of es] ui_messages_exit [of d es])
    next
      case False
      let ?d = "next_display k d"
      have "screen_ok s1" "w_stat s1 = None" "w_sys s1 \<noteq> None" using x by (auto simp: session_def)
      moreover have "length r < n" "\<forall>m. Sent m \<in> set r \<longrightarrow> plain m"
        using exit_of_shorter [of es k r] cr Some Suc.prems(3,5) by auto
      ultimately obtain s2 where s2: "start_loop n E ?d r s1 = Inr (fst (quits r), snd (quits r), s2)"
        "fst (quits r) \<longrightarrow> session (ui_messages ?d r) s1 s2"
        using Suc.IH [of s1 r ?d] by blast
      have "start_loop (Suc n) E d es s = Inr (fst (quits r), snd (quits r), s2)"
        using s1(1) s2(1) cr Some False by (auto simp: next_display_def split: if_splits)
      moreover have "quits es = quits r" using cr Some False by (simp add: quits_exit [of es])
      moreover have "ui_messages d es = messages_of (screen_said d) es @ ui_messages ?d r"
        using cr Some False by (simp add: ui_messages_exit [of d es])
      ultimately show ?thesis using s2(2) session_trans [OF x] by auto
    qed
  qed
qed simp

lemma ncurses_start_ok:
  assumes "console_ok E" and "screen_ok s" and "w_stat s = None" and "\<forall>m. Sent m \<in> set es \<longrightarrow> plain m"
  shows "\<exists>s'. ncurses_start E es s = Inr (fst (quits es), snd (quits es), s') \<and>
    (fst (quits es) \<longrightarrow> session (ui_messages Scr_info es) s s')"
  unfolding ncurses_start_def using assms by (intro start_loop_ok) simp_all

subsection \<open>Properties\<close>

text \<open>A capital Q, or the character 0.\<close>

definition quit_key :: "int option \<Rightarrow> bool" where
  "quit_key k \<longleftrightarrow> k = Some (of_char CHR ''Q'') \<or> k = Some 0"

lemma quit_key_iff: "key_code k = 0 \<longleftrightarrow> quit_key k"
  by (auto simp: quit_key_def key_code_def split: option.splits)

lemma quits_True:
  "fst (quits es) \<Longrightarrow> \<exists>before k. es = before @ Polled k # snd (quits es) \<and> quit_key k \<and> (\<forall>j. Polled j \<in> set before \<longrightarrow> \<not> quit_key j)"
proof (induction es rule: quits.induct)
  case (2 k es)
  show ?case
  proof (cases "quit_key k")
    case True
    with 2 show ?thesis by (auto simp: quit_key_iff intro: exI [of _ "[]"])
  next
    case False
    with 2 obtain before j where "es = before @ Polled j # snd (quits es)" "quit_key j" "\<forall>j. Polled j \<in> set before \<longrightarrow> \<not> quit_key j"
      by (auto simp: quit_key_iff)
    with False show ?thesis by (intro exI [of _ "Polled k # before"]) (auto simp: quit_key_iff)
  qed
next
  case (3 t n es)
  then obtain before j where "es = before @ Polled j # snd (quits es)" "quit_key j" "\<forall>j. Polled j \<in> set before \<longrightarrow> \<not> quit_key j"
    by auto
  then show ?case by (intro exI [of _ "Counted t n # before"]) auto
next
  case (4 m es)
  then obtain before j where "es = before @ Polled j # snd (quits es)" "quit_key j" "\<forall>j. Polled j \<in> set before \<longrightarrow> \<not> quit_key j"
    by auto
  then show ?case by (intro exI [of _ "Sent m # before"]) auto
qed simp

lemma quits_False: "\<not> fst (quits es) \<Longrightarrow> snd (quits es) = [] \<and> (\<forall>k. Polled k \<in> set es \<longrightarrow> \<not> quit_key k)"
  by (induction es rule: quits.induct) (auto simp: quit_key_iff split: if_splits)

text \<open>
  C16: Whatever keys are pressed, packets counted and messages sent (without conversions in their text),
  on whatever screen, the interface neither fails nor hangs: it returns at the first capital Q (or
  character 0) that is typed, and only then; without one it is still displaying a screen.
\<close>

theorem ncurses_start_quits:
  assumes "console_ok E" and "screen_ok s" and "w_stat s = None" and "\<forall>m. Sent m \<in> set es \<longrightarrow> plain m"
  shows "(\<exists>s' before k rest. es = before @ Polled k # rest \<and> quit_key k \<and>
        (\<forall>j. Polled j \<in> set before \<longrightarrow> \<not> quit_key j) \<and> ncurses_start E es s = Inr (True, rest, s')) \<or>
    (\<exists>s'. (\<forall>k. Polled k \<in> set es \<longrightarrow> \<not> quit_key k) \<and> ncurses_start E es s = Inr (False, [], s'))"
proof (cases "fst (quits es)")
  case True
  with ncurses_start_ok [OF assms] quits_True [OF True] show ?thesis by metis
next
  case False
  with ncurses_start_ok [OF assms] quits_False [OF False] show ?thesis by metis
qed

text \<open>
  C17: When the interface returns, every message that was waiting, that another thread sent, or that the
  interface itself sent about a key, has been printed in the window of the system messages exactly once,
  on a line of its own, in the order in which they were sent.
\<close>

theorem system_window_shows_messages:
  assumes "console_ok E" and "screen_ok s" and "w_stat s = None" and "\<forall>m. Sent m \<in> set es \<longrightarrow> plain m"
    and "ncurses_start E es s = Inr (True, rest, s')"
  shows "\<exists>cs w. calls s' = calls s @ cs \<and> w_sys s' = Some w \<and>
    printed (win w) cs = concat (map (\<lambda>m. [[CHR 0x0A], m]) (messages_queue (mqueue s) @ ui_messages Scr_info es)) \<and>
    messages_queue (mqueue s') = []"
  using ncurses_start_ok [OF assms(1-4)] assms(5) unfolding session_def spaced_def by auto

text \<open>
  C18: When the interface returns, it has deleted every window that it created on the way, the windows of
  the menu, of the settings and of the statistics; only the two windows of the system messages are left,
  and they are created once.
\<close>

theorem interface_deletes_windows:
  assumes "console_ok E" and "screen_ok s" and "w_stat s = None" and "\<forall>m. Sent m \<in> set es \<longrightarrow> plain m"
    and "ncurses_start E es s = Inr (True, rest, s')"
  shows "\<exists>cs w. calls s' = calls s @ cs \<and> w_sys s' = Some w \<and> w_stat s' = None \<and>
    created cs = deleted cs + (if w_sys s = None then hs (win w) + hs (out w) else {#})"
  using ncurses_start_ok [OF assms(1-4)] assms(5) unfolding session_def by auto

text \<open>A terminal whose kernel answers every request, and the state in which the interface starts.\<close>

definition sample_terminal :: "unit terminal" where
  "sample_terminal = \<lparr>LINES = 24, COLS = 80, has_colors = True, memory_left = True,
     new_handle = (\<lambda>tr _ _. Some (length tr)), lib = Glibc_2_1, iface = ''eth0'',
     ioctl = (\<lambda>r ifr k. (0, ifr\<lparr>sa_data := [0, 0, 10, 0, 0, 1, 0, 0, 0, 0, 0, 0, 0, 0]\<rparr>, ())),
     files = Map.empty, byte_order = Little, junk_ip = ip_addr_zero,
     junk_text = (\<lambda>n. replicate n NUL), junk_bytes = (\<lambda>n. replicate n 0)\<rparr>"

definition sample_screen :: "unit screen" where
  "sample_screen = \<lparr>calls = [], w_sys = None, w_stat = None, last_total = - 1,
     counts = register_stat ''TOTAL'' stats_start, mqueue = \<lparr>messages_queue = [''start''], shown = []\<rparr>,
     host = \<lparr>kernel = (), open_sockets = 0\<rparr>, open_files = 0\<rparr>"

lemma console_ok_sample: "console_ok sample_terminal"
  by (auto simp: console_ok_def sample_terminal_def buffers_ok_def get_default_dns_def ip_addr_zero_def)

lemma screen_ok_sample: "screen_ok sample_screen" "w_stat sample_screen = None"
  using stats_invar_register [OF stats_invar_start, of "''TOTAL''"]
  by (simp_all add: sample_screen_def screen_ok_def counters_ok_def plain_def register_stat_def stats_start_def)

text \<open>Somebody looks at the statistics, types a small q, changes the screen and leaves.\<close>

definition sample_keys :: "event list" where
  "sample_keys = [Sent ''one'', Polled (Some 276), Counted ''TOTAL'' 1, Polled None, Polled (Some 113),
     Polled (Some 266), Sent ''two'', Polled (Some 9), Polled (Some 81), Sent ''three'']"

lemma sample_keys_plain: "\<forall>m. Sent m \<in> set sample_keys \<longrightarrow> plain m"
  by (auto simp: sample_keys_def plain_def)

lemmas sample_run = console_ok_sample screen_ok_sample sample_keys_plain

lemma sample_quits: "quits sample_keys = (True, [Sent ''three''])"
  by (simp add: sample_keys_def key_code_def)

lemma ncurses_start_quits_witness:
  "\<exists>rest s'. ncurses_start sample_terminal sample_keys sample_screen = Inr (True, rest, s')"
proof -
  have "Polled (Some 81) \<in> set sample_keys" "quit_key (Some 81)" by (simp_all add: sample_keys_def quit_key_def)
  then show ?thesis using ncurses_start_quits [OF sample_run] by blast
qed

lemma sample_ends: "\<exists>s'. ncurses_start sample_terminal sample_keys sample_screen = Inr (True, [Sent ''three''], s')"
  using ncurses_start_ok [OF sample_run] by (auto simp: sample_quits)

lemma sample_messages:
  "messages_queue (mqueue sample_screen) @ ui_messages Scr_info sample_keys =
    [''start'', ''one'', ''Use capital Q to exit...'', ''two'']"
  by (simp add: sample_keys_def sample_screen_def key_code_def menu_said_def info_said_def next_display_def)

lemma system_window_shows_messages_witness:
  "\<exists>s' w. ncurses_start sample_terminal sample_keys sample_screen = Inr (True, [Sent ''three''], s') \<and>
    w_sys s' = Some w \<and>
    printed (win w) (calls s') = concat (map (\<lambda>m. [[CHR 0x0A], m]) [''start'', ''one'', ''Use capital Q to exit...'', ''two''])"
proof -
  obtain s' where s': "ncurses_start sample_terminal sample_keys sample_screen = Inr (True, [Sent ''three''], s')"
    using sample_ends by blast
  from system_window_shows_messages [OF sample_run s'] s' show ?thesis
    unfolding sample_messages by (auto simp: sample_screen_def)
qed

lemma interface_deletes_windows_witness:
  "\<exists>s' w. ncurses_start sample_terminal sample_keys sample_screen = Inr (True, [Sent ''three''], s') \<and>
    w_sys s' = Some w \<and> created (calls s') = deleted (calls s') + hs (win w) + hs (out w)"
proof -
  obtain s' where s': "ncurses_start sample_terminal sample_keys sample_screen = Inr (True, [Sent ''three''], s')"
    using sample_ends by blast
  from interface_deletes_windows [OF sample_run s'] s' show ?thesis
    by (auto simp: sample_screen_def)
qed


definition sample_win :: lmap_win where
  "sample_win = \<lparr>win = Some 1, lines = 6, cols = 55, win_x = 0, win_y = 2, title = ''Settings''\<rparr>"


text \<open>
  A message goes to \<^verbatim>\<open>wprintw\<close> as its format, so one with a conversion makes the flush read an argument
  that nobody has passed.
\<close>

lemma c_format_conversion: "plain p \<Longrightarrow> d \<noteq> CHR ''%'' \<Longrightarrow> c_format (p @ CHR ''%'' # d # r) = Inl Out_of_bounds"
  by (induction p) (auto simp: plain_def)

lemma flush_conversion:
  fixes s :: "'k screen"
  assumes "w_sys s = Some w" and "messages_queue (mqueue s) = ms @ (p @ CHR ''%'' # d # r) # ns"
    and "list_all plain ms" and "plain p" and "d \<noteq> CHR ''%''"
  shows "flush_messages s = Inl Out_of_bounds"
proof -
  have "show_messages (ms @ (p @ CHR ''%'' # d # r) # ns) t = Inl Out_of_bounds" if "w_sys t = Some w" for t :: "'k screen"
    using that assms(3)
    by (induction ms arbitrary: t)
       (simp_all add: ncurses_msg_def c_format_conversion [OF assms(4,5)] c_format_plain)
  with assms(1,2) show ?thesis by (simp add: flush_messages_def ui_msg_flush_eq Let_def)
qed

end
