(* ===== verification/Getopt.thy ===== *)
theory Getopt
  imports Formats
begin

text \<open>
  \<^verbatim>\<open>src/missing/getopt.c\<close> and \<^verbatim>\<open>getopt_long.c\<close>: the scanner of command lines that the program uses
  where the C library has none. The static variables and the argument vector are the state; a
  pointer into an argument is the text behind it, \<^term>\<open>None\<close> is \<^verbatim>\<open>NULL\<close>. The parts under \<^verbatim>\<open>#ifdef _LIBC\<close>
  are not compiled in this program.
\<close>

subsection \<open>State\<close>

datatype ordering = REQUIRE_ORDER | PERMUTE | RETURN_IN_ORDER

record long_option =
  opt_name :: string
  has_arg :: int
  opt_flag :: "nat option"
  opt_val :: int

text \<open>
  \<open>longind\<close> is the variable that the parameter of this name points to, or \<^verbatim>\<open>NULL\<close>; \<open>flag_vars\<close> are the
  variables that the options' flags point to; \<open>posix_env\<close> says whether \<^verbatim>\<open>POSIXLY_CORRECT\<close> is in the
  environment.
\<close>

record getopt_state =
  argv :: "string list"
  optind :: nat
  optarg :: "string option"
  optopt :: int
  opterr :: bool
  getopt_initialized :: bool
  nextchar :: "string option"
  first_nonopt :: nat
  last_nonopt :: nat
  order :: ordering
  posixly_correct :: bool
  posix_env :: bool
  longind :: "int option"
  flag_vars :: "nat \<Rightarrow> int"
  stderr :: "string list"

abbreviation (input) argc :: "getopt_state \<Rightarrow> nat" where
  "argc s \<equiv> length (argv s)"

definition code :: "char \<Rightarrow> int" where
  "code c = of_char c"

text \<open>\<^verbatim>\<open>argv[i]\<close>, read as a string: behind the last argument there is \<^verbatim>\<open>NULL\<close>.\<close>

definition arg :: "getopt_state \<Rightarrow> nat \<Rightarrow> c_error + string" where
  "arg s i = (if i < argc s then Inr (argv s ! i) else if i = argc s then Inl Null_pointer else Inl Out_of_bounds)"

text \<open>\<^verbatim>\<open>a[i]\<close>, the terminating NUL included.\<close>

definition char_at :: "string \<Rightarrow> nat \<Rightarrow> char" where
  "char_at a i = (if i < length a then a ! i else NUL)"

definition say :: "bool \<Rightarrow> string \<Rightarrow> getopt_state \<Rightarrow> getopt_state" where
  "say print_errors m s = (if print_errors then s\<lparr>stderr := stderr s @ [hd (argv s) @ '': '' @ m @ [CHR 0x0A]]\<rparr> else s)"

definition quoted :: "string \<Rightarrow> string" where
  "quoted t = [CHR 0x60] @ t @ [CHR 0x27]"

text \<open>\<^verbatim>\<open>my_index\<close>: the text of \<^verbatim>\<open>str\<close> from the first \<^verbatim>\<open>chr\<close> on.\<close>

fun my_index :: "string \<Rightarrow> char \<Rightarrow> string option" where
  "my_index [] chr = None"
| "my_index (c # str) chr = (if c = chr then Some (c # str) else my_index str chr)"

subsection \<open>exchange\<close>

text \<open>\<^verbatim>\<open>for (i = 0; i < len; i++)\<close> swap \<^verbatim>\<open>argv[a + i]\<close> and \<^verbatim>\<open>argv[b + i]\<close>.\<close>

fun swap_block :: "nat \<Rightarrow> nat \<Rightarrow> nat \<Rightarrow> 'a list \<Rightarrow> 'a list" where
  "swap_block 0 a b xs = xs"
| "swap_block (Suc len) a b xs = swap_block len (a + 1) (b + 1) (xs[a := xs ! b, b := xs ! a])"

function exchange_loop :: "nat \<Rightarrow> nat \<Rightarrow> nat \<Rightarrow> 'a list \<Rightarrow> 'a list" where
  "exchange_loop bottom middle up xs =
     (if middle < up \<and> bottom < middle then
        if up - middle > middle - bottom then
          (let len = middle - bottom in
           exchange_loop bottom middle (up - len) (swap_block len bottom (up - (middle - bottom)) xs))
        else
          (let len = up - middle in
           exchange_loop (bottom + len) middle up (swap_block len bottom middle xs))
      else xs)"
  by pat_completeness auto
termination
  by (relation "measure (\<lambda>(bottom, middle, up, xs). up - bottom)") auto

declare exchange_loop.simps [simp del]

definition exchange :: "getopt_state \<Rightarrow> c_error + getopt_state" where
  "exchange s =
     (if optind s \<le> argc s then
        Inr (s\<lparr>argv := exchange_loop (first_nonopt s) (last_nonopt s) (optind s) (argv s),
               first_nonopt := first_nonopt s + (optind s - last_nonopt s),
               last_nonopt := optind s\<rparr>)
      else Inl Out_of_bounds)"

subsection \<open>Initialisation\<close>

definition getopt_initialize :: "string \<Rightarrow> getopt_state \<Rightarrow> getopt_state \<times> string" where
  "getopt_initialize optstring s =
     (let s = s\<lparr>first_nonopt := optind s, last_nonopt := optind s, nextchar := None,
                posixly_correct := posix_env s\<rparr> in
      if optstring \<noteq> [] \<and> hd optstring = CHR ''-'' then (s\<lparr>order := RETURN_IN_ORDER\<rparr>, tl optstring)
      else if optstring \<noteq> [] \<and> hd optstring = CHR ''+'' then (s\<lparr>order := REQUIRE_ORDER\<rparr>, tl optstring)
      else if posixly_correct s then (s\<lparr>order := REQUIRE_ORDER\<rparr>, optstring)
      else (s\<lparr>order := PERMUTE\<rparr>, optstring))"

subsection \<open>The next element\<close>

text \<open>\<^verbatim>\<open>NONOPTION_P\<close>\<close>

definition nonoption :: "string \<Rightarrow> bool" where
  "nonoption a \<longleftrightarrow> a = [] \<or> hd a \<noteq> CHR ''-'' \<or> tl a = []"

text \<open>
  The first part of \<^verbatim>\<open>_getopt_internal\<close>, when the last element is used up: \<^term>\<open>Some\<close> result when the
  function returns here.
\<close>

definition clip_nonopts :: "getopt_state \<Rightarrow> getopt_state" where
  "clip_nonopts s =
     (let s = (if last_nonopt s > optind s then s\<lparr>last_nonopt := optind s\<rparr> else s) in
      if first_nonopt s > optind s then s\<lparr>first_nonopt := optind s\<rparr> else s)"

definition permute :: "getopt_state \<Rightarrow> c_error + getopt_state" where
  "permute s =
     (if order s = PERMUTE then
        bindE
          (if first_nonopt s \<noteq> last_nonopt s \<and> last_nonopt s \<noteq> optind s then exchange s
           else if last_nonopt s \<noteq> optind s then Inr (s\<lparr>first_nonopt := optind s\<rparr>)
           else Inr s) (\<lambda>s.
        let i = optind s + length (takeWhile nonoption (drop (optind s) (argv s))) in
        Inr (s\<lparr>optind := i, last_nonopt := i\<rparr>))
      else Inr s)"

definition double_dash :: "getopt_state \<Rightarrow> c_error + getopt_state" where
  "double_dash s =
     (if optind s = argc s then Inr s
      else
        bindE (arg s (optind s)) (\<lambda>a.
        if a \<noteq> ''--'' then Inr s
        else
          let s = s\<lparr>optind := optind s + 1\<rparr> in
          bindE
            (if first_nonopt s \<noteq> last_nonopt s \<and> last_nonopt s \<noteq> optind s then exchange s
             else if first_nonopt s = last_nonopt s then Inr (s\<lparr>first_nonopt := optind s\<rparr>)
             else Inr s) (\<lambda>s.
          Inr (s\<lparr>last_nonopt := argc s, optind := argc s\<rparr>))))"

definition next_element :: "bool \<Rightarrow> getopt_state \<Rightarrow> c_error + (int option \<times> getopt_state)" where
  "next_element long s =
     (if nextchar s \<noteq> None \<and> nextchar s \<noteq> Some [] then Inr (None, s)
      else
        bindE (permute (clip_nonopts s)) (\<lambda>s.
        bindE (double_dash s) (\<lambda>s.
        if optind s = argc s then
          Inr (Some (- 1),
               if first_nonopt s \<noteq> last_nonopt s then s\<lparr>optind := first_nonopt s\<rparr> else s)
        else
          bindE (arg s (optind s)) (\<lambda>a.
          if nonoption a then
            if order s = REQUIRE_ORDER then Inr (Some (- 1), s)
            else Inr (Some 1, s\<lparr>optarg := Some a, optind := optind s + 1\<rparr>)
          else
            Inr (None, s\<lparr>nextchar := Some (drop (if long \<and> char_at a 1 = CHR ''-'' then 2 else 1) a)\<rparr>)))))"

subsection \<open>Long options\<close>

text \<open>
  The loop over the table: the option found with its index, whether the match is exact, whether it
  is ambiguous. \<open>clash p q\<close> says whether a second inexact match \<open>q\<close> after \<open>p\<close> makes it ambiguous.
\<close>

fun match_long ::
  "(long_option \<Rightarrow> long_option \<Rightarrow> bool) \<Rightarrow> string \<Rightarrow> long_option list \<Rightarrow> nat \<Rightarrow> (long_option \<times> nat) option \<Rightarrow> bool
    \<Rightarrow> (long_option \<times> nat) option \<times> bool \<times> bool" where
  "match_long clash name [] i pfound ambig = (pfound, False, ambig)"
| "match_long clash name (p # ps) i pfound ambig =
     (if take (length name) (opt_name p) = name then
        if length name = length (opt_name p) then (Some (p, i), True, ambig)
        else
          (case pfound of
             None \<Rightarrow> match_long clash name ps (i + 1) (Some (p, i)) ambig
           | Some (q, _) \<Rightarrow> match_long clash name ps (i + 1) pfound (ambig \<or> clash q p))
      else match_long clash name ps (i + 1) pfound ambig)"

definition differs :: "bool \<Rightarrow> long_option \<Rightarrow> long_option \<Rightarrow> bool" where
  "differs long_only q p \<longleftrightarrow>
     long_only \<or> has_arg q \<noteq> has_arg p \<or> opt_flag q \<noteq> opt_flag p \<or> opt_val q \<noteq> opt_val p"

text \<open>\<^verbatim>\<open>nextchar += strlen (nextchar)\<close>\<close>

definition skip_text :: "getopt_state \<Rightarrow> getopt_state" where
  "skip_text s = s\<lparr>nextchar := Some []\<rparr>"

text \<open>What happens at the end of a long option: \<^verbatim>\<open>*longind\<close>, \<^verbatim>\<open>*flag\<close> and the result.\<close>

definition long_result :: "long_option \<Rightarrow> nat \<Rightarrow> getopt_state \<Rightarrow> int \<times> getopt_state" where
  "long_result p i s =
     (let s = skip_text s;
          s = (if longind s \<noteq> None then s\<lparr>longind := Some (int i)\<rparr> else s) in
      case opt_flag p of
        Some v \<Rightarrow> (0, s\<lparr>flag_vars := (flag_vars s)(v := opt_val p)\<rparr>)
      | None \<Rightarrow> (opt_val p, s))"

text \<open>\<^verbatim>\<open>optstring[0] == ':' ? ':' : '?'\<close>\<close>

definition missing_code :: "string \<Rightarrow> int" where
  "missing_code optstring = (if optstring \<noteq> [] \<and> hd optstring = CHR '':'' then code CHR '':'' else code CHR ''?'')"

definition found_long ::
  "string \<Rightarrow> bool \<Rightarrow> string \<Rightarrow> string \<Rightarrow> long_option \<Rightarrow> nat \<Rightarrow> getopt_state \<Rightarrow> c_error + (int \<times> getopt_state)" where
  "found_long optstring print_errors a rest p i s =
     (let s = s\<lparr>optind := optind s + 1\<rparr> in
      if rest \<noteq> [] then
        if has_arg p \<noteq> 0 then Inr (long_result p i (s\<lparr>optarg := Some (tl rest)\<rparr>))
        else
          Inr (code CHR ''?'',
            (skip_text (say print_errors
               (if char_at a 1 = CHR ''-'' then ''option '' @ quoted (''--'' @ opt_name p) @ '' doesn'' @ [CHR 0x27] @ ''t allow an argument''
                else ''option '' @ quoted (hd a # opt_name p) @ '' doesn'' @ [CHR 0x27] @ ''t allow an argument'') s))
            \<lparr>optopt := opt_val p\<rparr>)
      else if has_arg p = 1 then
        if optind s < argc s then
          bindE (arg s (optind s)) (\<lambda>v.
          Inr (long_result p i (s\<lparr>optarg := Some v, optind := optind s + 1\<rparr>)))
        else
          Inr (missing_code optstring,
            (skip_text (say print_errors (''option '' @ quoted a @ '' requires an argument'') s))\<lparr>optopt := opt_val p\<rparr>)
      else Inr (long_result p i s))"

text \<open>\<^term>\<open>None\<close>: not a long option, go on with the short ones.\<close>

definition try_long ::
  "string \<Rightarrow> bool \<Rightarrow> long_option list option \<Rightarrow> bool \<Rightarrow> getopt_state \<Rightarrow> c_error + (int option \<times> getopt_state)" where
  "try_long optstring print_errors longopts long_only s =
     (case longopts of
        None \<Rightarrow> Inr (None, s)
      | Some ps \<Rightarrow>
          bindE (arg s (optind s)) (\<lambda>a.
          if \<not> (char_at a 1 = CHR ''-'' \<or> (long_only \<and> (char_at a 2 \<noteq> NUL \<or> my_index optstring (char_at a 1) = None))) then Inr (None, s)
          else
            case nextchar s of
              None \<Rightarrow> Inl Null_pointer
            | Some text \<Rightarrow>
                let name = takeWhile (\<lambda>c. c \<noteq> CHR ''='') text;
                    rest = drop (length name) text in
                (case match_long (differs long_only) name ps 0 None False of (pfound, exact, ambig) \<Rightarrow>
                   if ambig \<and> \<not> exact then
                     (let s = skip_text (say print_errors (''option '' @ quoted a @ '' is ambiguous'') s) in
                      Inr (Some (code CHR ''?''), s\<lparr>optind := optind s + 1, optopt := 0\<rparr>))
                   else
                     (case pfound of
                        Some (p, i) \<Rightarrow>
                          bindE (found_long optstring print_errors a rest p i s) (\<lambda>(r, s). Inr (Some r, s))
                      | None \<Rightarrow>
                          if \<not> long_only \<or> char_at a 1 = CHR ''-'' \<or> text = [] \<or> my_index optstring (hd text) = None then
                            (let s = say print_errors
                                  (''unrecognized option '' @
                                   quoted (if char_at a 1 = CHR ''-'' then ''--'' @ text else hd a # text)) s in
                             Inr (Some (code CHR ''?''), s\<lparr>nextchar := Some [], optind := optind s + 1, optopt := 0\<rparr>))
                          else Inr (None, s)))))"

subsection \<open>Short options\<close>

text \<open>The option \<^verbatim>\<open>-W foo\<close>, which stands for \<^verbatim>\<open>--foo\<close> when \<open>optstring\<close> has \<^verbatim>\<open>W;\<close>.\<close>

definition w_argument ::
  "string \<Rightarrow> bool \<Rightarrow> char \<Rightarrow> string \<Rightarrow> getopt_state \<Rightarrow> c_error + (int option \<times> string \<times> getopt_state)" where
  "w_argument optstring print_errors c text s =
     (if text \<noteq> [] then Inr (None, text, s\<lparr>optarg := Some text, optind := optind s + 1\<rparr>)
      else if optind s = argc s then
        Inr (Some (missing_code optstring), [],
          (say print_errors (''option requires an argument -- '' @ [c]) s)\<lparr>optopt := code c\<rparr>)
      else
        bindE (arg s (optind s)) (\<lambda>v.
        Inr (None, v, s\<lparr>optarg := Some v, optind := optind s + 1\<rparr>)))"

definition found_w ::
  "string \<Rightarrow> bool \<Rightarrow> string \<Rightarrow> long_option \<Rightarrow> nat \<Rightarrow> getopt_state \<Rightarrow> c_error + (int \<times> getopt_state)" where
  "found_w optstring print_errors rest p i s =
     (if rest \<noteq> [] then
        if has_arg p \<noteq> 0 then Inr (long_result p i (s\<lparr>optarg := Some (tl rest)\<rparr>))
        else
          Inr (code CHR ''?'', skip_text (say print_errors
            (''option '' @ quoted (''-W '' @ opt_name p) @ '' doesn'' @ [CHR 0x27] @ ''t allow an argument'') s))
      else if has_arg p = 1 then
        if optind s < argc s then
          bindE (arg s (optind s)) (\<lambda>v.
          Inr (long_result p i (s\<lparr>optarg := Some v, optind := optind s + 1\<rparr>)))
        else
          bindE (arg s (optind s - 1)) (\<lambda>a.
          Inr (missing_code optstring, skip_text (say print_errors (''option '' @ quoted a @ '' requires an argument'') s)))
      else Inr (long_result p i s))"

definition w_option ::
  "string \<Rightarrow> bool \<Rightarrow> long_option list option \<Rightarrow> char \<Rightarrow> string \<Rightarrow> getopt_state \<Rightarrow> c_error + (int \<times> getopt_state)" where
  "w_option optstring print_errors longopts c text s =
     bindE (w_argument optstring print_errors c text s) (\<lambda>(r, v, s).
       case r of
         Some r \<Rightarrow> Inr (r, s)
       | None \<Rightarrow>
           (case longopts of
              None \<Rightarrow> Inl Null_pointer
            | Some ps \<Rightarrow>
                let name = takeWhile (\<lambda>c. c \<noteq> CHR ''='') v; rest = drop (length name) v;
                    s = s\<lparr>nextchar := Some v\<rparr> in
                (case match_long (\<lambda>_ _. True) name ps 0 None False of (pfound, exact, ambig) \<Rightarrow>
                   if ambig \<and> \<not> exact then
                     (let shown = (if optind s < argc s then argv s ! optind s else ''(null)'');
                          s = skip_text (say print_errors (''option '' @ quoted (''-W '' @ shown) @ '' is ambiguous'') s) in
                      Inr (code CHR ''?'', s\<lparr>optind := optind s + 1\<rparr>))
                   else
                     (case pfound of
                        Some (p, i) \<Rightarrow> found_w optstring print_errors rest p i s
                      | None \<Rightarrow> Inr (code CHR ''W'', s\<lparr>nextchar := None\<rparr>)))))"

definition short_argument ::
  "string \<Rightarrow> bool \<Rightarrow> char \<Rightarrow> string \<Rightarrow> string \<Rightarrow> getopt_state \<Rightarrow> c_error + (int \<times> getopt_state)" where
  "short_argument optstring print_errors c spec text s =
     (if char_at spec 1 \<noteq> CHR '':'' then Inr (code c, s)
      else if char_at spec 2 = CHR '':'' then
        if text \<noteq> [] then Inr (code c, s\<lparr>optarg := Some text, optind := optind s + 1, nextchar := None\<rparr>)
        else Inr (code c, s\<lparr>optarg := None, nextchar := None\<rparr>)
      else if text \<noteq> [] then
        Inr (code c, s\<lparr>optarg := Some text, optind := optind s + 1, nextchar := None\<rparr>)
      else if optind s = argc s then
        Inr (missing_code optstring,
          (say print_errors (''option requires an argument -- '' @ [c]) s)\<lparr>optopt := code c, nextchar := None\<rparr>)
      else
        bindE (arg s (optind s)) (\<lambda>v.
        Inr (code c, s\<lparr>optarg := Some v, optind := optind s + 1, nextchar := None\<rparr>)))"

definition short_option ::
  "string \<Rightarrow> bool \<Rightarrow> long_option list option \<Rightarrow> getopt_state \<Rightarrow> c_error + (int \<times> getopt_state)" where
  "short_option optstring print_errors longopts s =
     (case nextchar s of
        None \<Rightarrow> Inl Null_pointer
      | Some [] \<Rightarrow> Inl Out_of_bounds
      | Some (c # text) \<Rightarrow>
          let s = s\<lparr>nextchar := Some text\<rparr>;
              s = (if text = [] then s\<lparr>optind := optind s + 1\<rparr> else s) in
          (case my_index optstring c of
             Some spec \<Rightarrow>
               if c = CHR '':'' then
                 Inr (code CHR ''?'',
                   (say print_errors ((if posixly_correct s then ''illegal option -- '' else ''invalid option -- '') @ [c]) s)
                   \<lparr>optopt := code c\<rparr>)
               else if c = CHR ''W'' \<and> char_at spec 1 = CHR '';'' then w_option optstring print_errors longopts c text s
               else short_argument optstring print_errors c spec text s
           | None \<Rightarrow>
               Inr (code CHR ''?'',
                 (say print_errors ((if posixly_correct s then ''illegal option -- '' else ''invalid option -- '') @ [c]) s)
                 \<lparr>optopt := code c\<rparr>)))"

subsection \<open>The entry points\<close>

definition getopt_internal ::
  "string \<Rightarrow> long_option list option \<Rightarrow> bool \<Rightarrow> getopt_state \<Rightarrow> c_error + (int \<times> getopt_state)" where
  "getopt_internal optstring longopts long_only s =
     (let print_errors = (opterr s \<and> \<not> (optstring \<noteq> [] \<and> hd optstring = CHR '':'')) in
      if argc s < 1 then Inr (- 1, s)
      else
        let s = s\<lparr>optarg := None\<rparr> in
        case (if optind s = 0 \<or> \<not> getopt_initialized s then
                (case getopt_initialize optstring (if optind s = 0 then s\<lparr>optind := 1\<rparr> else s) of
                   (s, optstring) \<Rightarrow> (s\<lparr>getopt_initialized := True\<rparr>, optstring))
              else (s, optstring)) of (s, optstring) \<Rightarrow>
          bindE (next_element (longopts \<noteq> None) s) (\<lambda>(r, s).
            case r of
              Some r \<Rightarrow> Inr (r, s)
            | None \<Rightarrow>
                bindE (try_long optstring print_errors longopts long_only s) (\<lambda>(r, s).
                  case r of
                    Some r \<Rightarrow> Inr (r, s)
                  | None \<Rightarrow> short_option optstring print_errors longopts s)))"

definition getopt :: "string \<Rightarrow> getopt_state \<Rightarrow> c_error + (int \<times> getopt_state)" where
  "getopt optstring s = getopt_internal optstring None False s"

definition getopt_long :: "string \<Rightarrow> long_option list \<Rightarrow> getopt_state \<Rightarrow> c_error + (int \<times> getopt_state)" where
  "getopt_long options long_options s = getopt_internal options (Some long_options) False s"

definition getopt_long_only :: "string \<Rightarrow> long_option list \<Rightarrow> getopt_state \<Rightarrow> c_error + (int \<times> getopt_state)" where
  "getopt_long_only options long_options s = getopt_internal options (Some long_options) True s"

subsection \<open>exchange is a rotation\<close>

lemma swap_block_blocks:
  "length U = length V \<Longrightarrow> length U = len \<Longrightarrow> length P = a \<Longrightarrow> length P + length U + length M = b \<Longrightarrow>
    swap_block len a b (P @ U @ M @ V @ S) = P @ V @ M @ U @ S"
proof (induction U V arbitrary: len P a b M rule: list_induct2)
  case (Cons u U v V)
  then obtain n where n: "len = Suc n" "n = length U" by simp
  have "swap_block n (a + 1) (b + 1) ((P @ [v]) @ U @ (M @ [u]) @ V @ S) = (P @ [v]) @ V @ (M @ [u]) @ U @ S"
    using Cons.prems n by (intro Cons.IH) auto
  moreover have "(P @ (u # U) @ M @ (v # V) @ S)[a := (P @ (u # U) @ M @ (v # V) @ S) ! b,
      b := (P @ (u # U) @ M @ (v # V) @ S) ! a] = (P @ [v]) @ U @ (M @ [u]) @ V @ S"
    using Cons.prems by (auto simp: nth_append list_update_append)
  ultimately show ?case using n by simp
qed simp

lemma exchange_loop_rotates:
  "length P = bottom \<Longrightarrow> bottom + length X = middle \<Longrightarrow> middle + length Y = up \<Longrightarrow>
    exchange_loop bottom middle up (P @ X @ Y @ S) = P @ Y @ X @ S"
proof (induction "length X + length Y" arbitrary: P X Y S bottom middle up rule: less_induct)
  case less
  show ?case
  proof (cases "X = [] \<or> Y = []")
    case True
    then show ?thesis using less.prems by (subst exchange_loop.simps) auto
  next
    case False
    then have run: "middle < up" "bottom < middle" "middle - bottom = length X" "up - middle = length Y"
      using less.prems by auto
    show ?thesis
    proof (cases "length Y > length X")
      case True
      define Y1 where "Y1 = take (length Y - length X) Y"
      define Y2 where "Y2 = drop (length Y - length X) Y"
      have Y: "Y = Y1 @ Y2" "length Y2 = length X" and len: "length Y1 = length Y - length X" "length X \<le> length Y"
        using True by (simp_all add: Y1_def Y2_def)
      have "swap_block (length X) bottom (up - length X) (P @ X @ Y1 @ Y2 @ S) = P @ Y2 @ Y1 @ X @ S"
        using less.prems Y(2) len by (intro swap_block_blocks) simp_all
      moreover have "exchange_loop bottom middle (up - length X) (P @ Y2 @ Y1 @ (X @ S)) = P @ Y1 @ Y2 @ X @ S"
        using less.prems Y(2) len False by (intro less.hyps) auto
      moreover have "exchange_loop bottom middle up Z =
          exchange_loop bottom middle (up - length X) (swap_block (length X) bottom (up - length X) Z)" for Z :: "'a list"
        using run True by (subst exchange_loop.simps) (simp add: Let_def)
      ultimately show ?thesis using Y(1) by simp
    next
      case short: False
      define X1 where "X1 = take (length Y) X"
      define X2 where "X2 = drop (length Y) X"
      have X: "X = X1 @ X2" "length X1 = length Y" and len: "length X2 = length X - length Y" "length Y \<le> length X"
        using short by (simp_all add: X1_def X2_def)
      have "swap_block (length Y) bottom middle (P @ X1 @ X2 @ Y @ S) = P @ Y @ X2 @ X1 @ S"
        using less.prems X(2) len by (intro swap_block_blocks) simp_all
      moreover have "exchange_loop (bottom + length Y) middle up ((P @ Y) @ X2 @ X1 @ S) = (P @ Y) @ X1 @ X2 @ S"
        using less.prems X(2) len False by (intro less.hyps) auto
      moreover have "exchange_loop bottom middle up Z =
          exchange_loop (bottom + length Y) middle up (swap_block (length Y) bottom middle Z)" for Z :: "'a list"
        using run short by (subst exchange_loop.simps) (simp add: Let_def)
      ultimately show ?thesis using X(1) by simp
    qed
  qed
qed

text \<open>
  \<^verbatim>\<open>exchange\<close> moves the skipped arguments behind the options scanned since: the two adjacent blocks
  of the argument vector change places, the order inside of both is kept and nothing else moves.
\<close>

theorem exchange_rotates:
  assumes "argv s = A @ N @ Q @ R" and "first_nonopt s = length A" and "last_nonopt s = length A + length N"
    and "optind s = length A + length N + length Q"
  shows "exchange s = Inr (s\<lparr>argv := A @ Q @ N @ R, first_nonopt := length A + length Q,
    last_nonopt := length A + length N + length Q\<rparr>)"
  using assms by (simp add: exchange_def exchange_loop_rotates)

lemma exchange_rotates_witness:
  "exchange_loop 1 3 4 [''lmap'', ''x'', ''y'', ''-w'', ''z''] = [''lmap'', ''-w'', ''x'', ''y'', ''z'']"
proof -
  let ?s = "\<lparr>argv = [''lmap'', ''x'', ''y'', ''-w'', ''z''], optind = 4, optarg = None, optopt = 63, opterr = True,
     getopt_initialized = True, nextchar = None, first_nonopt = 1, last_nonopt = 3, order = PERMUTE,
     posixly_correct = False, posix_env = False, longind = None, flag_vars = (\<lambda>_. 0), stderr = []\<rparr>"
  show ?thesis
    using exchange_rotates [of ?s "[''lmap'']" "[''x'', ''y'']" "[''-w'']" "[''z'']"]
    by (simp add: exchange_def)
qed

end
