(* ===== verification/Options.thy ===== *)
theory Options
  imports Getopt
begin

text \<open>
  \<^verbatim>\<open>src/lmap_parser.c\<close>: the options of the command line, read with \<^verbatim>\<open>getopt_long\<close>.
\<close>

subsection \<open>Parsing\<close>

record lmap_options =
  opt_dump :: bool
  opt_read :: bool
  opt_raw :: bool
  opt_iface :: "string option"
  opt_dumpfile :: "string option"

definition long_options :: "long_option list" where
  "long_options =
     [\<lparr>opt_name = ''help'', has_arg = 0, opt_flag = None, opt_val = code CHR ''h''\<rparr>,
      \<lparr>opt_name = ''version'', has_arg = 0, opt_flag = None, opt_val = code CHR ''v''\<rparr>,
      \<lparr>opt_name = ''raw'', has_arg = 0, opt_flag = None, opt_val = code CHR ''w''\<rparr>,
      \<lparr>opt_name = ''iface'', has_arg = 1, opt_flag = None, opt_val = code CHR ''i''\<rparr>,
      \<lparr>opt_name = ''dump'', has_arg = 1, opt_flag = None, opt_val = code CHR ''d''\<rparr>,
      \<lparr>opt_name = ''read'', has_arg = 1, opt_flag = None, opt_val = code CHR ''r''\<rparr>]"

definition lmap_usage :: "string \<Rightarrow> string" where
  "lmap_usage program =
     nl @ ''Usage: '' @ program @ '' [OPTIONS] '' @ nl @
     nl @ ''General options:'' @ nl @
     ''  -i, --iface <iface>          use this interface'' @ nl @
     ''  -d, --dump <file>            dump sniffed data to <file>'' @ nl @
     ''  -r, --read <file>            load data from <file>'' @ nl @ nl @
     ''  -w, --raw                    execute the raw decoder if the link'' @ nl @
     ''                               layer is not recognized'' @ nl @ nl @
     ''  -v, --version                prints the version and exit'' @ nl @
     ''  -h, --help                   this help screen'' @ nl @ nl @ nl"

definition version_text :: "string \<Rightarrow> string \<Rightarrow> string" where
  "version_text program version = program @ '' (LAN mapper tool) '' @ version @ nl"

definition try_help :: "string \<Rightarrow> string" where
  "try_help program = nl @ ''Try '' @ [CHR 0x60] @ program @ '' --help'' @ [CHR 0x27] @ '' for more options.'' @ nl @ nl"

text \<open>
  The \<^verbatim>\<open>switch\<close>: \<^verbatim>\<open>optarg\<close> is copied with \<^verbatim>\<open>strdup\<close>, which reads through the pointer; a result of the
  scanner that has no case changes nothing.
\<close>

definition strdup :: "string option \<Rightarrow> c_error + string option" where
  "strdup p = (case p of None \<Rightarrow> Inl Null_pointer | Some t \<Rightarrow> Inr (Some t))"

definition parse_case ::
  "string \<Rightarrow> string \<Rightarrow> int \<Rightarrow> string option \<Rightarrow> lmap_options \<Rightarrow> c_error + lmap_options" where
  "parse_case program version c val opts =
     (if c = code CHR ''i'' then bindE (strdup val) (\<lambda>p. Inr (opts\<lparr>opt_iface := p\<rparr>))
      else if c = code CHR ''r'' then bindE (strdup val) (\<lambda>p. Inr (opts\<lparr>opt_read := True, opt_dumpfile := p\<rparr>))
      else if c = code CHR ''d'' then bindE (strdup val) (\<lambda>p. Inr (opts\<lparr>opt_dump := True, opt_dumpfile := p\<rparr>))
      else if c = code CHR ''w'' then Inr (opts\<lparr>opt_raw := True\<rparr>)
      else if c = code CHR ''h'' then Inl (Exit_process (lmap_usage program))
      else if c = code CHR ''v'' then Inl (Exit_process (version_text program version))
      else if c = code CHR '':'' then Inl (Exit_process (try_help program))
      else if c = code CHR ''?'' then Inl (Exit_process (try_help program))
      else Inr opts)"

partial_function (option) parse_loop ::
  "string \<Rightarrow> string \<Rightarrow> getopt_state \<Rightarrow> lmap_options \<Rightarrow> (c_error + (lmap_options \<times> getopt_state)) option" where
  "parse_loop program version s opts =
     (case getopt_long ''hvi:r:d:w'' long_options s of
        Inl e \<Rightarrow> Some (Inl e)
      | Inr (c, s) \<Rightarrow>
          if c = - 1 then Some (Inr (opts, s))
          else
            (case parse_case program version c (optarg s) opts of
               Inl e \<Rightarrow> Some (Inl e)
             | Inr opts \<Rightarrow> parse_loop program version s opts))"

text \<open>The result also has the state of the scanner, with the reordered arguments.\<close>

definition parse_options ::
  "string \<Rightarrow> string \<Rightarrow> getopt_state \<Rightarrow> lmap_options \<Rightarrow> (c_error + (lmap_options \<times> getopt_state)) option" where
  "parse_options program version s opts =
     map_option
       (\<lambda>r. bindE r (\<lambda>(opts, s).
          if opt_dump opts \<and> opt_read opts
          then Inl (Exit_process ''You cannote dump and read at the same time...'')
          else Inr (opts, s)))
       (parse_loop program version (s\<lparr>optind := 0\<rparr>) opts)"

subsection \<open>A reference parser\<close>

text \<open>
  What the documentation of the program and of \<^verbatim>\<open>getopt\<close> says, by recursion over the arguments: options
  and other arguments may be mixed, \<^verbatim>\<open>--\<close> ends the options, short options can be joined, an
  argument of an option follows it in the same or in the next element, a long option can be
  abbreviated as long as the name is unique. The result has the option elements and the other
  arguments, in order.
\<close>

type_synonym parsed = "c_error + (lmap_options \<times> string list \<times> string list)"

definition exacts :: "string \<Rightarrow> long_option list \<Rightarrow> long_option list" where
  "exacts name ps = filter (\<lambda>p. opt_name p = name) ps"

definition prefixed :: "string \<Rightarrow> long_option list \<Rightarrow> long_option list" where
  "prefixed name ps = filter (\<lambda>p. take (length name) (opt_name p) = name) ps"

definition candidates :: "string \<Rightarrow> long_option list" where
  "candidates name =
     (case exacts name long_options of p # _ \<Rightarrow> [p] | [] \<Rightarrow> prefixed name long_options)"

definition takes_arg :: "char \<Rightarrow> bool option" where
  "takes_arg c =
     (if c = CHR ''h'' \<or> c = CHR ''v'' \<or> c = CHR ''w'' then Some False
      else if c = CHR ''i'' \<or> c = CHR ''r'' \<or> c = CHR ''d'' then Some True else None)"

text \<open>The short options of one element, up to one with an argument or the end: the changed options and the text left for an argument.\<close>

fun cluster ::
  "string \<Rightarrow> string \<Rightarrow> string \<Rightarrow> lmap_options \<Rightarrow> c_error + (lmap_options \<times> (char \<times> string) option)" where
  "cluster program version [] opts = Inr (opts, None)"
| "cluster program version (c # t) opts =
     (case takes_arg c of
        None \<Rightarrow> Inl (Exit_process (try_help program))
      | Some False \<Rightarrow> bindE (parse_case program version (code c) None opts) (cluster program version t)
      | Some True \<Rightarrow> Inr (opts, Some (c, t)))"

text \<open>An option element: the option that still needs an argument from the next element, if any.\<close>

definition element ::
  "string \<Rightarrow> string \<Rightarrow> string \<Rightarrow> lmap_options \<Rightarrow> c_error + (lmap_options \<times> int option)" where
  "element program version a opts =
     (if take 2 a = ''--'' then
        (let name = takeWhile (\<lambda>c. c \<noteq> CHR ''='') (drop 2 a); rest = drop (length name) (drop 2 a) in
         case candidates name of
           [p] \<Rightarrow>
             if rest \<noteq> [] then
               if has_arg p = 0 then Inl (Exit_process (try_help program))
               else bindE (parse_case program version (opt_val p) (Some (tl rest)) opts) (\<lambda>opts. Inr (opts, None))
             else if has_arg p = 0 then
               bindE (parse_case program version (opt_val p) None opts) (\<lambda>opts. Inr (opts, None))
             else Inr (opts, Some (opt_val p))
         | _ \<Rightarrow> Inl (Exit_process (try_help program)))
      else
        bindE (cluster program version (tl a) opts) (\<lambda>(opts, r).
        case r of
          None \<Rightarrow> Inr (opts, None)
        | Some (c, []) \<Rightarrow> Inr (opts, Some (code c))
        | Some (c, t) \<Rightarrow> bindE (parse_case program version (code c) (Some t) opts) (\<lambda>opts. Inr (opts, None))))"

fun reference ::
  "string \<Rightarrow> string \<Rightarrow> string list \<Rightarrow> lmap_options \<Rightarrow> string list \<Rightarrow> string list \<Rightarrow> parsed" where
  "reference program version [] opts seen others = Inr (opts, seen, others)"
| "reference program version (a # rest) opts seen others =
     (if a = ''--'' then Inr (opts, seen @ [a], others @ rest)
      else if nonoption a then reference program version rest opts seen (others @ [a])
      else
        bindE (element program version a opts) (\<lambda>(opts, need).
        case need of
          None \<Rightarrow> reference program version rest opts (seen @ [a]) others
        | Some c \<Rightarrow>
            (case rest of
               [] \<Rightarrow> Inl (Exit_process (try_help program))
             | v # rest' \<Rightarrow>
                 bindE (parse_case program version c (Some v) opts) (\<lambda>opts.
                 reference program version rest' opts (seen @ [a, v]) others))))"

subsection \<open>States of the scanner\<close>

text \<open>
  The arguments are option elements \<open>A\<close>, skipped arguments \<open>N\<close>, option elements \<open>Q\<close> scanned since, and
  the rest \<open>R\<close>.
\<close>

definition scan_at ::
  "getopt_state \<Rightarrow> string list \<Rightarrow> string list \<Rightarrow> string list \<Rightarrow> string list \<Rightarrow> string option \<Rightarrow> getopt_state" where
  "scan_at b A N Q R nc = b\<lparr>argv := A @ N @ Q @ R, optind := length A + length N + length Q,
     first_nonopt := length A, last_nonopt := length A + length N, nextchar := nc,
     getopt_initialized := True, order := PERMUTE\<rparr>"

lemma scan_at_simps [simp]:
  "argv (scan_at b A N Q R nc) = A @ N @ Q @ R"
  "optind (scan_at b A N Q R nc) = length A + length N + length Q"
  "first_nonopt (scan_at b A N Q R nc) = length A"
  "last_nonopt (scan_at b A N Q R nc) = length A + length N"
  "nextchar (scan_at b A N Q R nc) = nc"
  "getopt_initialized (scan_at b A N Q R nc) = True"
  "order (scan_at b A N Q R nc) = PERMUTE"
  "optarg (scan_at b A N Q R nc) = optarg b"
  "longind (scan_at b A N Q R nc) = longind b"
  "posixly_correct (scan_at b A N Q R nc) = posixly_correct b"
  by (simp_all add: scan_at_def)

lemma scan_at_optarg [simp]: "(scan_at b A N Q R nc)\<lparr>optarg := v\<rparr> = scan_at (b\<lparr>optarg := v\<rparr>) A N Q R nc"
  by (simp add: scan_at_def)

lemma scan_at_nextchar [simp]: "(scan_at b A N Q R nc)\<lparr>nextchar := v\<rparr> = scan_at b A N Q R v"
  by (simp add: scan_at_def)

lemma scan_at_advance [simp]:
  "(scan_at b A N Q (a # R) nc)\<lparr>optind := Suc (length A + length N + length Q)\<rparr> = scan_at b A N (Q @ [a]) R nc"
  by (simp add: scan_at_def)

lemma scan_at_advance0 [simp]:
  "(scan_at b A N [] (a # R) nc)\<lparr>optind := Suc (length A + length N)\<rparr> = scan_at b A N [a] R nc"
  by (simp add: scan_at_def)

lemma clip_scan_at [simp]: "clip_nonopts (scan_at b A N Q R nc) = scan_at b A N Q R nc"
  by (simp add: clip_nonopts_def Let_def)

lemma exchange_scan_at:
  "exchange (scan_at b A N Q R nc) = Inr (scan_at b (A @ Q) N [] R nc)"
  by (simp add: exchange_def exchange_loop_rotates) (simp add: scan_at_def)

lemma permute_scan_at:
  "permute (scan_at b A N Q R nc) =
    Inr (scan_at b (A @ Q) (N @ takeWhile nonoption R) [] (dropWhile nonoption R) nc)"
  by (cases "N = []"; cases "Q = []"; simp add: permute_def exchange_scan_at Let_def)
     (simp_all add: scan_at_def add_ac)

text \<open>An option element is neither \<^verbatim>\<open>--\<close> nor an argument of its own.\<close>

definition option_text :: "string \<Rightarrow> string" where
  "option_text a = (if char_at a 1 = CHR ''-'' then drop 2 a else drop 1 a)"

lemma next_element_scan_at:
  assumes "nc = None \<or> nc = Some []"
  shows "dropWhile nonoption R = a # T \<Longrightarrow> a \<noteq> ''--'' \<Longrightarrow>
      next_element True (scan_at b A N Q R nc) =
        Inr (None, scan_at b (A @ Q) (N @ takeWhile nonoption R) [] (a # T) (Some (option_text a)))"
    and "dropWhile nonoption R = [] \<Longrightarrow>
      \<exists>s'. next_element True (scan_at b A N Q R nc) = Inr (Some (- 1), s') \<and>
        argv s' = (A @ Q) @ N @ takeWhile nonoption R \<and> optind s' = length (A @ Q)"
    and "dropWhile nonoption R = ''--'' # T \<Longrightarrow>
      \<exists>s'. next_element True (scan_at b A N Q R nc) = Inr (Some (- 1), s') \<and>
        argv s' = (A @ Q @ [''--'']) @ N @ takeWhile nonoption R @ T \<and> optind s' = length (A @ Q @ [''--''])"
proof -
  let ?N = "N @ takeWhile nonoption R"
  have start: "next_element True (scan_at b A N Q R nc) =
      bindE (double_dash (scan_at b (A @ Q) ?N [] (dropWhile nonoption R) nc)) (\<lambda>s.
        if optind s = argc s then
          Inr (Some (- 1),
               if first_nonopt s \<noteq> last_nonopt s then s\<lparr>optind := first_nonopt s\<rparr> else s)
        else
          bindE (arg s (optind s)) (\<lambda>a.
          if nonoption a then
            if order s = REQUIRE_ORDER then Inr (Some (- 1), s)
            else Inr (Some 1, s\<lparr>optarg := Some a, optind := optind s + 1\<rparr>)
          else
            Inr (None, s\<lparr>nextchar := Some (drop (if True \<and> char_at a 1 = CHR ''-'' then 2 else 1) a)\<rparr>)))"
    using assms unfolding next_element_def by (auto simp: permute_scan_at)
  show "next_element True (scan_at b A N Q R nc) =
        Inr (None, scan_at b (A @ Q) ?N [] (a # T) (Some (option_text a)))"
    if R: "dropWhile nonoption R = a # T" and a: "a \<noteq> ''--''"
  proof -
    have "\<not> nonoption a" using R by (simp add: dropWhile_eq_Cons_conv)
    then show ?thesis unfolding start R
      using a by (simp add: double_dash_def arg_def nth_append option_text_def)
  qed
  show "\<exists>s'. next_element True (scan_at b A N Q R nc) = Inr (Some (- 1), s') \<and>
        argv s' = (A @ Q) @ ?N \<and> optind s' = length (A @ Q)" if "dropWhile nonoption R = []"
    unfolding start that by (simp add: double_dash_def)
  show "\<exists>s'. next_element True (scan_at b A N Q R nc) = Inr (Some (- 1), s') \<and>
        argv s' = (A @ Q @ [''--'']) @ N @ takeWhile nonoption R @ T \<and> optind s' = length (A @ Q @ [''--''])"
    if R: "dropWhile nonoption R = ''--'' # T"
  proof (cases "?N = []")
    case True
    then show ?thesis unfolding start R
      by (auto simp: double_dash_def arg_def nth_append)
  next
    case False
    have dd: "double_dash (scan_at b A' N' [] (''--'' # T) nc) =
        Inr ((scan_at b (A' @ [''--'']) N' [] T nc)\<lparr>last_nonopt := length A' + length N' + length T + 1,
          optind := length A' + length N' + length T + 1\<rparr>)" if "N' \<noteq> []" for A' N' :: "string list"
      using that by (simp add: double_dash_def arg_def nth_append exchange_scan_at)
    show ?thesis unfolding start R dd [OF False] using False by auto
  qed
qed

subsection \<open>One call of the scanner\<close>

abbreviation (input) short_options :: string where
  "short_options \<equiv> ''hvi:r:d:w''"

definition decode_element :: "bool \<Rightarrow> getopt_state \<Rightarrow> c_error + (int \<times> getopt_state)" where
  "decode_element pe s =
     bindE (try_long short_options pe (Some long_options) False s) (\<lambda>(r, s).
       case r of
         Some r \<Rightarrow> Inr (r, s)
       | None \<Rightarrow> short_option short_options pe (Some long_options) s)"

lemma getopt_long_scan_at:
  assumes "A \<noteq> []"
  shows "getopt_long short_options long_options (scan_at b A N Q R nc) =
    bindE (next_element True (scan_at (b\<lparr>optarg := None\<rparr>) A N Q R nc)) (\<lambda>(r, s).
      case r of Some r \<Rightarrow> Inr (r, s) | None \<Rightarrow> decode_element (opterr b) s)"
proof -
  have "\<not> length (A @ N @ Q @ R) < 1" and "length A + length N + length Q \<noteq> 0" using assms by auto
  moreover have "opterr (scan_at b A N Q R nc) = opterr b" by (simp add: scan_at_def)
  ultimately show ?thesis
    unfolding decode_element_def using assms by (simp add: getopt_long_def getopt_internal_def Let_def)
qed

lemma getopt_long_element:
  assumes "A \<noteq> []" and "nc = None \<or> nc = Some []" and "dropWhile nonoption R = a # T" and "a \<noteq> ''--''"
  shows "getopt_long short_options long_options (scan_at b A N Q R nc) =
    decode_element (opterr b) (scan_at (b\<lparr>optarg := None\<rparr>) (A @ Q) (N @ takeWhile nonoption R) [] (a # T) (Some (option_text a)))"
  using assms by (simp add: getopt_long_scan_at next_element_scan_at(1))

lemma getopt_long_inside:
  assumes "A \<noteq> []" and "t \<noteq> []"
  shows "getopt_long short_options long_options (scan_at b A N [] (a # T) (Some t)) =
    decode_element (opterr b) (scan_at (b\<lparr>optarg := None\<rparr>) A N [] (a # T) (Some t))"
  using assms by (simp add: getopt_long_scan_at next_element_def)

text \<open>Short options.\<close>

lemma my_index_short:
  "my_index short_options c =
    (if c = CHR ''h'' then Some short_options else if c = CHR ''v'' then Some ''vi:r:d:w''
     else if c = CHR ''i'' then Some ''i:r:d:w'' else if c = CHR '':'' then Some '':r:d:w''
     else if c = CHR ''r'' then Some ''r:d:w'' else if c = CHR ''d'' then Some ''d:w''
     else if c = CHR ''w'' then Some ''w'' else None)"
  by auto

lemma takes_arg_char:
  "takes_arg c = Some False \<Longrightarrow> c = CHR ''h'' \<or> c = CHR ''v'' \<or> c = CHR ''w''"
  "takes_arg c = Some True \<Longrightarrow> c = CHR ''i'' \<or> c = CHR ''r'' \<or> c = CHR ''d''"
  by (auto simp: takes_arg_def split: if_splits)

lemma short_spec:
  "takes_arg c = Some e \<Longrightarrow> \<exists>spec. my_index short_options c = Some spec \<and> c \<noteq> CHR '':'' \<and> c \<noteq> CHR ''W'' \<and>
    (char_at spec 1 = CHR '':'' \<longleftrightarrow> e) \<and> (e \<longrightarrow> char_at spec 2 \<noteq> CHR '':'')"
  by (auto simp: takes_arg_def my_index_short char_at_def split: if_splits)

lemma decode_element_short:
  assumes "char_at a 1 \<noteq> CHR ''-''"
  shows "decode_element pe (scan_at b A N [] (a # T) nc) =
    short_option short_options pe (Some long_options) (scan_at b A N [] (a # T) nc)"
  using assms by (simp add: decode_element_def try_long_def arg_def nth_append)

lemma decode_short:
  assumes "char_at a 1 \<noteq> CHR ''-''" and "takes_arg c = Some e"
  shows "\<exists>spec. decode_element pe (scan_at b A N [] (a # T) (Some (c # t))) =
    short_argument short_options pe c spec t
      (if t = [] then scan_at b A N [a] T (Some []) else scan_at b A N [] (a # T) (Some t)) \<and>
    (char_at spec 1 = CHR '':'' \<longleftrightarrow> e) \<and> (e \<longrightarrow> char_at spec 2 \<noteq> CHR '':'')"
  using short_spec [OF assms(2)] assms(1)
  by (auto simp: decode_element_short short_option_def Let_def simp del: my_index.simps)

lemma decode_short_unknown:
  assumes "char_at a 1 \<noteq> CHR ''-''" and "takes_arg c = None"
  shows "\<exists>s'. decode_element pe (scan_at b A N [] (a # T) (Some (c # t))) = Inr (code CHR ''?'', s')"
proof (cases "my_index short_options c")
  case None
  then show ?thesis using assms(1)
    by (auto simp: decode_element_short short_option_def Let_def simp del: my_index.simps)
next
  case (Some spec)
  then have "c = CHR '':''" using assms(2) by (auto simp: my_index_short takes_arg_def simp del: my_index.simps split: if_splits)
  with Some show ?thesis using assms(1)
    by (auto simp: decode_element_short short_option_def Let_def simp del: my_index.simps)
qed

lemma decode_short_flag:
  assumes "char_at a 1 \<noteq> CHR ''-''" and "takes_arg c = Some False"
  shows "decode_element pe (scan_at b A N [] (a # T) (Some (c # t))) =
    Inr (code c, if t = [] then scan_at b A N [a] T (Some []) else scan_at b A N [] (a # T) (Some t))"
  using decode_short [OF assms, of pe b A N T t] by (auto simp: short_argument_def)

lemma decode_short_attached:
  assumes "char_at a 1 \<noteq> CHR ''-''" and "takes_arg c = Some True" and "t \<noteq> []"
  shows "decode_element pe (scan_at b A N [] (a # T) (Some (c # t))) =
    Inr (code c, scan_at (b\<lparr>optarg := Some t\<rparr>) A N [a] T None)"
  using decode_short [OF assms(1,2), of pe b A N T t] assms(3) by (auto simp: short_argument_def)

lemma decode_short_separate:
  assumes "char_at a 1 \<noteq> CHR ''-''" and "takes_arg c = Some True"
  shows "decode_element pe (scan_at b A N [] (a # v # T) (Some [c])) =
    Inr (code c, scan_at (b\<lparr>optarg := Some v\<rparr>) A N [a, v] T None)"
proof -
  have "(scan_at b A N [a] (v # T) nc)\<lparr>optind := Suc (Suc (length A + length N)), nextchar := nc'\<rparr> =
      scan_at b A N [a, v] T nc'" for b nc nc'
    by (simp add: scan_at_def)
  then show ?thesis
    using decode_short [OF assms, of pe b A N "v # T" "[]"] by (auto simp: short_argument_def arg_def nth_append)
qed

lemma decode_short_missing:
  assumes "char_at a 1 \<noteq> CHR ''-''" and "takes_arg c = Some True"
  shows "\<exists>s'. decode_element pe (scan_at b A N [] [a] (Some [c])) = Inr (code CHR ''?'', s')"
  using decode_short [OF assms, of pe b A N "[]" "[]"] by (auto simp: short_argument_def missing_code_def)

text \<open>Long options.\<close>

lemma match_long_after:
  assumes "match_long clash name ps i (Some (q, j)) ambig = (found, exact, ambig')"
    and "\<forall>p \<in> set ps. clash q p"
  shows "if \<exists>p \<in> set ps. opt_name p = name
    then exact \<and> map_option fst found = Some (hd (filter (\<lambda>p. opt_name p = name) ps))
    else \<not> exact \<and> found = Some (q, j) \<and>
      (ambig' \<longleftrightarrow> ambig \<or> (\<exists>p \<in> set ps. take (length name) (opt_name p) = name))"
  using assms
proof (induction ps arbitrary: i ambig)
  case (Cons p ps)
  consider "opt_name p = name" | "opt_name p \<noteq> name" "take (length name) (opt_name p) = name"
    "length name \<noteq> length (opt_name p)" | "take (length name) (opt_name p) \<noteq> name" "opt_name p \<noteq> name"
    by (metis take_all_iff order_refl)
  then show ?case
  proof cases
    case 2
    then show ?thesis using Cons.IH [of "i + 1" True] Cons.prems by simp
  next
    case 3
    then show ?thesis using Cons.IH [of "i + 1" ambig] Cons.prems by simp
  qed (use Cons.prems in auto)
qed simp

lemma match_long_first:
  assumes "match_long clash name ps i None ambig = (found, exact, ambig')" and "sorted_wrt clash ps"
  shows "if \<exists>p \<in> set ps. opt_name p = name
    then exact \<and> map_option fst found = Some (hd (filter (\<lambda>p. opt_name p = name) ps))
    else \<not> exact \<and>
      (case filter (\<lambda>p. take (length name) (opt_name p) = name) ps of
         [] \<Rightarrow> found = None
       | [p] \<Rightarrow> map_option fst found = Some p \<and> ambig' = ambig
       | _ \<Rightarrow> ambig')"
  using assms
proof (induction ps arbitrary: i)
  case (Cons p ps)
  consider "opt_name p = name" | "opt_name p \<noteq> name" "take (length name) (opt_name p) = name"
    "length name \<noteq> length (opt_name p)" | "take (length name) (opt_name p) \<noteq> name" "opt_name p \<noteq> name"
    by (metis take_all_iff order_refl)
  then show ?case
  proof cases
    case 2
    then have run: "match_long clash name ps (i + 1) (Some (p, i)) ambig = (found, exact, ambig')"
      using Cons.prems by simp
    have "filter (\<lambda>p. take (length name) (opt_name p) = name) ps = [] \<longleftrightarrow>
        \<not> (\<exists>p \<in> set ps. take (length name) (opt_name p) = name)" by (auto simp: filter_empty_conv)
    then show ?thesis using match_long_after [OF run] 2 Cons.prems(2)
      by (auto split: list.splits if_splits)
  next
    case 3
    then show ?thesis using Cons.IH [of "i + 1"] Cons.prems by simp
  qed (use Cons.prems in auto)
qed simp

lemma long_options_sorted: "sorted_wrt (differs False) long_options"
  by (simp add: long_options_def differs_def code_def)

lemma long_options_flags: "p \<in> set long_options \<Longrightarrow> opt_flag p = None \<and> (has_arg p = 0 \<or> has_arg p = 1)"
  by (auto simp: long_options_def)

lemma match_long_table:
  assumes "match_long clash name ps i None ambig = (found, exact, ambig')" and "sorted_wrt clash ps"
  shows "case exacts name ps of
      p # _ \<Rightarrow> exact \<and> map_option fst found = Some p
    | [] \<Rightarrow> \<not> exact \<and>
        (case prefixed name ps of
           [] \<Rightarrow> found = None
         | [p] \<Rightarrow> map_option fst found = Some p \<and> ambig' = ambig
         | _ \<Rightarrow> ambig')"
proof -
  have ex: "(\<exists>p \<in> set ps. opt_name p = name) \<longleftrightarrow> exacts name ps \<noteq> []"
    unfolding exacts_def filter_empty_conv by blast
  show ?thesis
    using match_long_first [OF assms] unfolding ex exacts_def [symmetric] prefixed_def [symmetric]
    by (cases "exacts name ps") simp_all
qed

lemma candidates_in:
  assumes "candidates name = [p]"
  shows "p \<in> set long_options"
proof -
  have "set (candidates name) \<subseteq> set long_options"
  proof (cases "exacts name long_options")
    case Nil
    then show ?thesis unfolding candidates_def Nil by (simp add: prefixed_def)
  next
    case (Cons q qs)
    then have "q \<in> set (exacts name long_options)" by simp
    then have "q \<in> set long_options" unfolding exacts_def by simp
    then show ?thesis unfolding candidates_def Cons by simp
  qed
  with assms show ?thesis by simp
qed

lemma match_long_options:
  assumes "match_long (differs False) name long_options 0 None False = (found, exact, ambig)"
  shows "candidates name = [p] \<Longrightarrow> \<not> (ambig \<and> \<not> exact) \<and> map_option fst found = Some p"
    and "\<nexists>p. candidates name = [p] \<Longrightarrow> \<not> exact \<and> (ambig \<or> found = None)"
  using match_long_table [OF assms long_options_sorted] unfolding candidates_def
  by (auto split: list.splits)

lemma decode_long_eq:
  assumes "char_at a 1 = CHR ''-''"
    and text_def: "text = drop 2 a" and name_def: "name = takeWhile (\<lambda>c. c \<noteq> CHR ''='') (drop 2 a)"
    and s_def: "s = scan_at b A N [] (a # T) (Some text)"
  shows "candidates name = [p] \<Longrightarrow> \<exists>i. decode_element pe s = found_long short_options pe a (drop (length name) text) p i s"
    and "\<nexists>p. candidates name = [p] \<Longrightarrow> \<exists>s'. decode_element pe s = Inr (code CHR ''?'', s')"
proof -
  obtain found exact ambig where m: "match_long (differs False) name long_options 0 None False = (found, exact, ambig)"
    using prod_cases3 by blast
  have arg: "arg s (optind s) = Inr a" and nxt: "nextchar s = Some text"
    by (simp_all add: s_def arg_def nth_append)
  have name: "name = takeWhile (\<lambda>c. c \<noteq> CHR ''='') text" by (simp add: name_def text_def)
  have long: "try_long short_options pe (Some long_options) False s =
    (if ambig \<and> \<not> exact then
       (let s = skip_text (say pe (''option '' @ quoted a @ '' is ambiguous'') s) in
        Inr (Some (code CHR ''?''), s\<lparr>optind := optind s + 1, optopt := 0\<rparr>))
     else
       (case found of
          Some (p, i) \<Rightarrow> bindE (found_long short_options pe a (drop (length name) text) p i s) (\<lambda>(r, s). Inr (Some r, s))
        | None \<Rightarrow>
            (let s = say pe (''unrecognized option '' @ quoted (''--'' @ text)) s in
             Inr (Some (code CHR ''?''), s\<lparr>nextchar := Some [], optind := optind s + 1, optopt := 0\<rparr>))))"
    unfolding try_long_def using m assms(1) by (simp add: arg nxt name [symmetric] Let_def)
  show "\<exists>i. decode_element pe s = found_long short_options pe a (drop (length name) text) p i s"
    if c: "candidates name = [p]"
  proof -
    obtain i where f: "found = Some (p, i)" and "\<not> (ambig \<and> \<not> exact)"
      using match_long_options(1) [OF m c] by auto
    then show ?thesis unfolding decode_element_def long
      by (intro exI [of _ i]) (cases "found_long short_options pe a (drop (length name) text) p i s"; auto)
  qed
  show "\<exists>s'. decode_element pe s = Inr (code CHR ''?'', s')" if "\<nexists>p. candidates name = [p]"
    using match_long_options(2) [OF m that] unfolding decode_element_def long by (auto simp: Let_def)
qed

lemma found_long_scan_at:
  assumes "longind b = None" and "p \<in> set long_options"
    and s_def: "s = scan_at b A N [] (a # T) nc"
  shows "rest \<noteq> [] \<Longrightarrow> has_arg p = 0 \<Longrightarrow> \<exists>s'. found_long short_options pe a rest p i s = Inr (code CHR ''?'', s')"
    and "rest \<noteq> [] \<Longrightarrow> has_arg p \<noteq> 0 \<Longrightarrow> found_long short_options pe a rest p i s =
      Inr (opt_val p, scan_at (b\<lparr>optarg := Some (tl rest)\<rparr>) A N [a] T (Some []))"
    and "has_arg p = 0 \<Longrightarrow> found_long short_options pe a [] p i s = Inr (opt_val p, scan_at b A N [a] T (Some []))"
    and "has_arg p \<noteq> 0 \<Longrightarrow> T = [] \<Longrightarrow> \<exists>s'. found_long short_options pe a [] p i s = Inr (code CHR ''?'', s')"
    and "has_arg p \<noteq> 0 \<Longrightarrow> T = v # T' \<Longrightarrow> found_long short_options pe a [] p i s =
      Inr (opt_val p, scan_at (b\<lparr>optarg := Some v\<rparr>) A N [a, v] T' (Some []))"
proof -
  have p: "opt_flag p = None" "has_arg p = 0 \<or> has_arg p = 1" using long_options_flags [OF assms(2)] by auto
  have adv: "(scan_at b A N [a] (v # T) nc)\<lparr>optind := Suc (Suc (length A + length N)), nextchar := nc'\<rparr> =
      scan_at b A N [a, v] T nc'" for b v T nc nc'
    by (simp add: scan_at_def)
  note defs = found_long_def Let_def long_result_def skip_text_def s_def missing_code_def
  show "rest \<noteq> [] \<Longrightarrow> has_arg p = 0 \<Longrightarrow> \<exists>s'. found_long short_options pe a rest p i s = Inr (code CHR ''?'', s')"
    by (simp add: defs)
  show "rest \<noteq> [] \<Longrightarrow> has_arg p \<noteq> 0 \<Longrightarrow> found_long short_options pe a rest p i s =
      Inr (opt_val p, scan_at (b\<lparr>optarg := Some (tl rest)\<rparr>) A N [a] T (Some []))"
    using assms(1) p by (simp add: defs)
  show "has_arg p = 0 \<Longrightarrow> found_long short_options pe a [] p i s = Inr (opt_val p, scan_at b A N [a] T (Some []))"
    using assms(1) p by (simp add: defs)
  show "has_arg p \<noteq> 0 \<Longrightarrow> T = [] \<Longrightarrow> \<exists>s'. found_long short_options pe a [] p i s = Inr (code CHR ''?'', s')"
    using p by (simp add: defs)
  show "has_arg p \<noteq> 0 \<Longrightarrow> T = v # T' \<Longrightarrow> found_long short_options pe a [] p i s =
      Inr (opt_val p, scan_at (b\<lparr>optarg := Some v\<rparr>) A N [a, v] T' (Some []))"
    using assms(1) p by (simp add: defs arg_def nth_append adv)
qed

subsection \<open>The loop agrees with the reference\<close>

definition agrees :: "(c_error + (lmap_options \<times> getopt_state)) option \<Rightarrow> parsed \<Rightarrow> bool" where
  "agrees r p =
     (case p of
        Inl e \<Rightarrow> r = Some (Inl e)
      | Inr (opts, seen, others) \<Rightarrow>
          \<exists>s. r = Some (Inr (opts, s)) \<and> argv s = seen @ others \<and> optind s = length seen)"

lemma agrees_Inl [simp]: "agrees r (Inl e) \<longleftrightarrow> r = Some (Inl e)"
  by (simp add: agrees_def)

text \<open>What \<^const>\<open>reference\<close> does behind an option element.\<close>

definition go_on ::
  "string \<Rightarrow> string \<Rightarrow> string \<Rightarrow> string list \<Rightarrow> string list \<Rightarrow> string list \<Rightarrow> lmap_options \<times> int option \<Rightarrow> parsed" where
  "go_on program version a rest seen others p =
     (case p of (opts, need) \<Rightarrow>
        case need of
          None \<Rightarrow> reference program version rest opts (seen @ [a]) others
        | Some c \<Rightarrow>
            (case rest of
               [] \<Rightarrow> Inl (Exit_process (try_help program))
             | v # rest' \<Rightarrow>
                 bindE (parse_case program version c (Some v) opts) (\<lambda>opts.
                 reference program version rest' opts (seen @ [a, v]) others)))"

definition finish_cluster ::
  "string \<Rightarrow> string \<Rightarrow> lmap_options \<times> (char \<times> string) option \<Rightarrow> c_error + (lmap_options \<times> int option)" where
  "finish_cluster program version p =
     (case p of (opts, r) \<Rightarrow>
        case r of
          None \<Rightarrow> Inr (opts, None)
        | Some (c, []) \<Rightarrow> Inr (opts, Some (code c))
        | Some (c, t) \<Rightarrow> bindE (parse_case program version (code c) (Some t) opts) (\<lambda>opts. Inr (opts, None)))"

lemma reference_option:
  "a \<noteq> ''--'' \<Longrightarrow> \<not> nonoption a \<Longrightarrow>
    reference program version (a # rest) opts seen others =
      bindE (element program version a opts) (go_on program version a rest seen others)"
  unfolding go_on_def by simp

lemma element_short:
  "take 2 a \<noteq> ''--'' \<Longrightarrow>
    element program version a opts = bindE (cluster program version (tl a) opts) (finish_cluster program version)"
  unfolding element_def finish_cluster_def by simp

lemma code_not_minus [simp]: "code c \<noteq> - 1"
proof -
  have "code c = int (of_char c)" by (simp only: code_def of_nat_of_char)
  then show ?thesis by simp
qed

lemma parse_loop_step:
  assumes "getopt_long short_options long_options s = Inr (c, s')" and "c \<noteq> - 1"
  shows "parse_loop program version s opts =
    (case parse_case program version c (optarg s') opts of
       Inl e \<Rightarrow> Some (Inl e) | Inr opts \<Rightarrow> parse_loop program version s' opts)"
  using assms by (subst parse_loop.simps) simp

lemma parse_case_bad [simp]:
  "parse_case program version (code CHR ''?'') v opts = Inl (Exit_process (try_help program))"
  by (simp add: parse_case_def code_def)

lemma parse_loop_bad:
  "getopt_long short_options long_options s = Inr (code CHR ''?'', s') \<Longrightarrow>
    parse_loop program version s opts = Some (Inl (Exit_process (try_help program)))"
  by (simp add: parse_loop_step)

lemma parse_case_flag:
  "takes_arg c = Some False \<Longrightarrow> parse_case program version (code c) v opts = parse_case program version (code c) None opts"
  by (drule takes_arg_char) (auto simp: parse_case_def code_def)

text \<open>
  The rest \<open>T\<close> of the elements is handled as in the reference behind the option element \<open>a\<close>, and behind \<open>a\<close> with
  an argument.
\<close>

definition continues :: "string \<Rightarrow> string \<Rightarrow> string list \<Rightarrow> string list \<Rightarrow> string \<Rightarrow> string list \<Rightarrow> bool" where
  "continues program version A N a T \<longleftrightarrow>
     (\<forall>b opts nc. longind b = None \<longrightarrow> nc = None \<or> nc = Some [] \<longrightarrow>
        agrees (parse_loop program version (scan_at b A N [a] T nc) opts) (reference program version T opts (A @ [a]) N)) \<and>
     (\<forall>b opts nc v T'. longind b = None \<longrightarrow> nc = None \<or> nc = Some [] \<longrightarrow> T = v # T' \<longrightarrow>
        agrees (parse_loop program version (scan_at b A N [a, v] T' nc) opts) (reference program version T' opts (A @ [a, v]) N))"

lemma continuesD:
  assumes "continues program version A N a T" and "longind b = None" and "nc = None \<or> nc = Some []"
  shows "agrees (parse_loop program version (scan_at b A N [a] T nc) opts) (reference program version T opts (A @ [a]) N)"
    and "T = v # T' \<Longrightarrow>
      agrees (parse_loop program version (scan_at b A N [a, v] T' nc) opts) (reference program version T' opts (A @ [a, v]) N)"
  using assms unfolding continues_def by blast+

text \<open>An option that takes an argument: behind it in the cluster, or in the next element.\<close>

lemma cluster_argument:
  assumes a: "char_at a 1 \<noteq> CHR ''-''" and takes: "takes_arg c = Some True" and b: "longind b = None"
    and g: "getopt_long short_options long_options s = decode_element pe (scan_at b A N [] (a # T) (Some (c # t)))"
    and K: "continues program version A N a T"
  shows "agrees (parse_loop program version s opts)
    (bindE (cluster program version (c # t) opts) (\<lambda>p. bindE (finish_cluster program version p) (go_on program version a T A N)))"
proof (cases t)
  case (Cons d t')
  then have "t \<noteq> []" by simp
  note step = parse_loop_step [OF g [unfolded decode_short_attached [OF a takes this]]]
  show ?thesis using takes Cons b continuesD(1) [OF K, of "b\<lparr>optarg := Some t\<rparr>" None]
    by (cases "parse_case program version (code c) (Some t) opts") (simp_all add: step finish_cluster_def go_on_def)
next
  case Nil
  show ?thesis
  proof (cases T)
    case T: Nil
    then show ?thesis using decode_short_missing [OF a takes, of pe b A N] g Nil takes
      by (auto simp: parse_loop_bad finish_cluster_def go_on_def)
  next
    case T: (Cons v T')
    note step = parse_loop_step [OF g [unfolded T Nil decode_short_separate [OF a takes]]]
    show ?thesis using takes Nil T b continuesD(2) [OF K, of "b\<lparr>optarg := Some v\<rparr>" None v T']
      by (cases "parse_case program version (code c) (Some v) opts") (simp_all add: step finish_cluster_def go_on_def)
  qed
qed

lemma cluster_agrees:
  assumes "char_at a 1 \<noteq> CHR ''-''" and "t \<noteq> []" and "A \<noteq> []"
    and "getopt_long short_options long_options s = decode_element pe (scan_at b A N [] (a # T) (Some t))"
    and "longind b = None" and K: "continues program version A N a T"
  shows "agrees (parse_loop program version s opts)
    (bindE (cluster program version t opts) (\<lambda>p. bindE (finish_cluster program version p) (go_on program version a T A N)))"
  using assms(2,4,5)
proof (induction t arbitrary: s b pe opts)
  case (Cons c t)
  consider "takes_arg c = None" | "takes_arg c = Some True" | (flag) "takes_arg c = Some False" by force
  then show ?case
  proof cases
    case 1
    then show ?thesis using decode_short_unknown [OF assms(1) 1, of pe b A N T t] Cons.prems(2)
      by (auto simp: parse_loop_bad)
  next
    case 2
    then show ?thesis by (rule cluster_argument [OF assms(1) _ Cons.prems(3,2) K])
  next
    case flag
    let ?s1 = "if t = [] then scan_at b A N [a] T (Some []) else scan_at b A N [] (a # T) (Some t)"
    have step: "parse_loop program version s opts = (case parse_case program version (code c) None opts of
        Inl e \<Rightarrow> Some (Inl e) | Inr opts \<Rightarrow> parse_loop program version ?s1 opts)"
      using parse_loop_step [OF Cons.prems(2) [unfolded decode_short_flag [OF assms(1) flag]]]
        parse_case_flag [OF flag, of program version "optarg b" opts] by simp
    show ?thesis
    proof (cases "parse_case program version (code c) None opts")
      case (Inr opts')
      then show ?thesis
        using step flag continuesD(1) [OF K Cons.prems(3), of "Some []" opts']
          Cons.IH [OF _ getopt_long_inside [OF assms(3)], of b opts'] Cons.prems(3)
        by (cases "t = []") (simp_all add: finish_cluster_def go_on_def)
    qed (use step flag in simp)
  qed
qed simp

lemma opt_val_flag:
  "p \<in> set long_options \<Longrightarrow> has_arg p = 0 \<Longrightarrow>
    parse_case program version (opt_val p) v opts = parse_case program version (opt_val p) None opts"
  by (auto simp: long_options_def parse_case_def code_def)

lemma opt_val_not_minus: "p \<in> set long_options \<Longrightarrow> opt_val p \<noteq> - 1"
  by (auto simp: long_options_def code_def)

lemma element_long:
  assumes "take 2 a = ''--''" and "candidates (takeWhile (\<lambda>c. c \<noteq> CHR ''='') (drop 2 a)) = [p]"
  shows "element program version a opts =
    (let rest = drop (length (takeWhile (\<lambda>c. c \<noteq> CHR ''='') (drop 2 a))) (drop 2 a) in
     if rest \<noteq> [] then
       if has_arg p = 0 then Inl (Exit_process (try_help program))
       else bindE (parse_case program version (opt_val p) (Some (tl rest)) opts) (\<lambda>opts. Inr (opts, None))
     else if has_arg p = 0 then
       bindE (parse_case program version (opt_val p) None opts) (\<lambda>opts. Inr (opts, None))
     else Inr (opts, Some (opt_val p)))"
  using assms by (simp add: element_def Let_def)

lemma element_long_bad:
  assumes "take 2 a = ''--''" and "\<nexists>p. candidates (takeWhile (\<lambda>c. c \<noteq> CHR ''='') (drop 2 a)) = [p]"
  shows "element program version a opts = Inl (Exit_process (try_help program))"
  using assms by (auto simp: element_def Let_def split: list.splits)

lemma long_agrees:
  assumes "char_at a 1 = CHR ''-''" and "take 2 a = ''--''" and "longind b = None"
    and s: "getopt_long short_options long_options s = decode_element pe (scan_at b A N [] (a # T) (Some (drop 2 a)))"
    and K: "continues program version A N a T"
  shows "agrees (parse_loop program version s opts)
    (bindE (element program version a opts) (go_on program version a T A N))"
proof (cases "\<exists>p. candidates (takeWhile (\<lambda>c. c \<noteq> CHR ''='') (drop 2 a)) = [p]")
  case False
  then show ?thesis
    using decode_long_eq(2) [OF assms(1) refl refl refl, of pe b A N T] s element_long_bad [OF assms(2)]
    by (auto simp: parse_loop_bad)
next
  case True
  then obtain p where p: "candidates (takeWhile (\<lambda>c. c \<noteq> CHR ''='') (drop 2 a)) = [p]" by blast
  define rest where "rest = drop (length (takeWhile (\<lambda>c. c \<noteq> CHR ''='') (drop 2 a))) (drop 2 a)"
  have pin: "p \<in> set long_options" using candidates_in [OF p] .
  note e = element_long [OF assms(2) p, of program version opts, folded rest_def, unfolded Let_def]
  obtain i where g: "getopt_long short_options long_options s =
      found_long short_options pe a rest p i (scan_at b A N [] (a # T) (Some (drop 2 a)))"
    using decode_long_eq(1) [OF assms(1) refl refl refl p, of pe b A N T] s by (auto simp: rest_def)
  note f = found_long_scan_at [OF assms(3) pin refl]
  note nm = opt_val_not_minus [OF pin]
  consider (bad) "rest \<noteq> []" "has_arg p = 0" | (attached) "rest \<noteq> []" "has_arg p \<noteq> 0"
    | (flag) "rest = []" "has_arg p = 0" | (missing) "rest = []" "has_arg p \<noteq> 0" "T = []"
    | (separate) v T' where "rest = []" "has_arg p \<noteq> 0" "T = v # T'"
    by (cases T) auto
  then show ?thesis
  proof cases
    case bad
    then show ?thesis using f(1) [OF bad, of pe a i A N T "Some (drop 2 a)"] g e by (auto simp: parse_loop_bad)
  next
    case attached
    note step = parse_loop_step [OF g [unfolded f(2) [OF attached]] nm]
    show ?thesis using attached e assms(3) continuesD(1) [OF K, of "b\<lparr>optarg := Some (tl rest)\<rparr>" "Some []"]
      by (cases "parse_case program version (opt_val p) (Some (tl rest)) opts") (simp_all add: step go_on_def)
  next
    case flag
    note step = parse_loop_step [OF g [unfolded flag(1) f(3) [OF flag(2)]] nm]
    show ?thesis using flag e assms(3) continuesD(1) [OF K, of b "Some []"] opt_val_flag [OF pin flag(2), of program version "optarg b" opts]
      by (cases "parse_case program version (opt_val p) None opts") (simp_all add: step go_on_def)
  next
    case missing
    then show ?thesis using f(4) [OF missing(2,3), of pe a i A N "Some (drop 2 a)"] g e
      by (auto simp: parse_loop_bad go_on_def)
  next
    case separate
    note step = parse_loop_step [OF g [unfolded separate(1) f(5) [OF separate(2,3)]] nm]
    show ?thesis using separate e assms(3) continuesD(2) [OF K, of "b\<lparr>optarg := Some v\<rparr>" "Some []" v T']
      by (cases "parse_case program version (opt_val p) (Some v) opts") (simp_all add: step go_on_def)
  qed
qed

lemma reference_skip:
  "reference program version R opts seen others =
    reference program version (dropWhile nonoption R) opts seen (others @ takeWhile nonoption R)"
proof (induction R arbitrary: others)
  case (Cons a R)
  then show ?case by (cases "a = ''--''") (simp_all add: nonoption_def)
qed simp

lemma option_shape:
  assumes "\<not> nonoption a" and "a \<noteq> ''--''"
  shows "(take 2 a = ''--'' \<longleftrightarrow> char_at a 1 = CHR ''-'') \<and> option_text a \<noteq> [] \<and>
    (char_at a 1 = CHR ''-'' \<longrightarrow> option_text a = drop 2 a) \<and> (char_at a 1 \<noteq> CHR ''-'' \<longrightarrow> option_text a = tl a)"
proof -
  obtain c t where "a = CHR ''-'' # c # t"
    using assms(1) by (cases a; cases "tl a") (auto simp: nonoption_def)
  with assms(2) show ?thesis by (auto simp: char_at_def option_text_def)
qed

text \<open>The scan is over.\<close>

lemma loop_end:
  assumes "A \<noteq> []" and "next_element True (scan_at (b\<lparr>optarg := None\<rparr>) A N Q R nc) = Inr (Some (- 1), s')"
  shows "parse_loop program version (scan_at b A N Q R nc) opts = Some (Inr (opts, s'))"
proof -
  have "getopt_long short_options long_options (scan_at b A N Q R nc) = Inr (- 1, s')"
    using assms by (simp add: getopt_long_scan_at)
  then show ?thesis by (subst parse_loop.simps) simp
qed

lemma element_agrees:
  assumes a: "\<not> nonoption a" "a \<noteq> ''--''" and A: "A \<noteq> []" and b: "longind b = None"
    and g: "getopt_long short_options long_options s = decode_element pe (scan_at b A N [] (a # T) (Some (option_text a)))"
    and K: "continues program version A N a T"
  shows "agrees (parse_loop program version s opts) (bindE (element program version a opts) (go_on program version a T A N))"
proof (cases "char_at a 1 = CHR ''-''")
  case True
  with option_shape [OF a] g show ?thesis by (intro long_agrees [OF True _ b _ K]) simp_all
next
  case False
  with option_shape [OF a] have a': "take 2 a \<noteq> ''--''" "option_text a = tl a" "tl a \<noteq> []" by auto
  show ?thesis
    using cluster_agrees [OF False a'(3) A g [unfolded a'(2)] b K, of opts] by (simp add: element_short [OF a'(1)])
qed

lemma loop_agrees:
  assumes "A \<noteq> []" and "longind b = None" and "nc = None \<or> nc = Some []"
  shows "agrees (parse_loop program version (scan_at b A N Q R nc) opts)
    (reference program version R opts (A @ Q) N)"
  using assms
proof (induction "length R" arbitrary: b A N Q R nc opts rule: less_induct)
  case less
  let ?N = "N @ takeWhile nonoption R" and ?A = "A @ Q"
  show ?case
  proof (cases "dropWhile nonoption R")
    case Nil
    obtain s' where s': "next_element True (scan_at (b\<lparr>optarg := None\<rparr>) A N Q R nc) = Inr (Some (- 1), s')"
      "argv s' = ?A @ ?N" "optind s' = length ?A"
      using next_element_scan_at(2) [OF less.prems(3) Nil] by (metis append_assoc)
    then show ?thesis
      by (subst reference_skip) (simp add: Nil agrees_def loop_end [OF less.prems(1) s'(1)])
  next
    case (Cons a T)
    have not: "\<not> nonoption a" using Cons by (simp add: dropWhile_eq_Cons_conv)
    have shorter: "length T < length R" using length_dropWhile_le [of nonoption R] Cons by simp
    show ?thesis
    proof (cases "a = ''--''")
      case True
      obtain s' where s': "next_element True (scan_at (b\<lparr>optarg := None\<rparr>) A N Q R nc) = Inr (Some (- 1), s')"
        "argv s' = (A @ Q @ [''--'']) @ N @ takeWhile nonoption R @ T" "optind s' = length (A @ Q @ [''--''])"
        using next_element_scan_at(3) [OF less.prems(3) Cons [unfolded True]] by blast
      then show ?thesis using True
        by (subst reference_skip) (simp add: Cons agrees_def loop_end [OF less.prems(1) s'(1)])
    next
      case False
      have g: "getopt_long short_options long_options (scan_at b A N Q R nc) = decode_element (opterr b)
          (scan_at (b\<lparr>optarg := None\<rparr>) ?A ?N [] (a # T) (Some (option_text a)))"
        using less.prems Cons False by (intro getopt_long_element) simp_all
      have "continues program version ?A ?N a T"
        using less.hyps [of T ?A _ _ ?N "[a]"] less.hyps [of _ ?A _ _ ?N "[a, _]"] shorter less.prems(1)
        unfolding continues_def by auto
      from element_agrees [OF not False _ _ g this] less.prems(1,2) show ?thesis
        by (subst reference_skip) (simp only: Cons reference_option [OF False not], simp)
    qed
  qed
qed

subsection \<open>The whole command line\<close>

lemma first_call:
  assumes "argv s = prog # args" and "\<not> posix_env s"
  shows "getopt_long short_options long_options (s\<lparr>optind := 0\<rparr>) =
    getopt_long short_options long_options (scan_at (s\<lparr>posixly_correct := False\<rparr>) [prog] [] [] args None)"
proof -
  have "s\<lparr>optarg := None, optind := Suc 0, first_nonopt := Suc 0, last_nonopt := Suc 0, nextchar := None,
      posixly_correct := False, order := PERMUTE, getopt_initialized := True\<rparr> =
    scan_at (s\<lparr>posixly_correct := False, optarg := None\<rparr>) [prog] [] [] args None"
    using assms(1) by (simp add: scan_at_def)
  moreover have "opterr (scan_at (s\<lparr>posixly_correct := False\<rparr>) [prog] [] [] args None) = opterr s"
    by (simp add: scan_at_def)
  ultimately show ?thesis
    using assms by (simp add: getopt_long_def getopt_internal_def Let_def getopt_initialize_def)
qed

lemma parse_options_agrees:
  assumes "argv s = prog # args" and "\<not> posix_env s" and "longind s = None"
  shows "case reference program version args opts [prog] [] of
      Inl e \<Rightarrow> parse_options program version s opts = Some (Inl e)
    | Inr (opts', seen, others) \<Rightarrow>
        if opt_dump opts' \<and> opt_read opts' then
          parse_options program version s opts =
            Some (Inl (Exit_process ''You cannote dump and read at the same time...''))
        else
          \<exists>s'. parse_options program version s opts = Some (Inr (opts', s')) \<and>
            argv s' = seen @ others \<and> optind s' = length seen"
proof -
  let ?b = "s\<lparr>posixly_correct := False\<rparr>"
  have "parse_loop program version (s\<lparr>optind := 0\<rparr>) opts =
      parse_loop program version (scan_at ?b [prog] [] [] args None) opts"
    using first_call [OF assms(1,2)] by (subst (1 2) parse_loop.simps) simp
  moreover have "agrees (parse_loop program version (scan_at ?b [prog] [] [] args None) opts)
      (reference program version args opts [prog] [])"
    using loop_agrees [of "[prog]" ?b None program version "[]" "[]" args opts] assms(3) by simp
  ultimately show ?thesis
    by (auto simp: parse_options_def agrees_def split: sum.splits)
qed

text \<open>
  C14: For every command line, \<^verbatim>\<open>parse_options\<close> returns, and it does what the reference parser does: it
  ends the program on the same errors and requests for help, and otherwise sets the same options.
  The arguments have been reordered: the option elements first, then the others, both in their
  order, and \<^verbatim>\<open>optind\<close> points between them. Dumping and reading at the same time ends the program.
\<close>

theorem parse_options_reference:
  assumes "argv s = prog # args" and "\<not> posix_env s" and "longind s = None"
  shows "case reference program version args opts [prog] [] of
      Inl e \<Rightarrow> parse_options program version s opts = Some (Inl e)
    | Inr (opts', seen, others) \<Rightarrow>
        if opt_dump opts' \<and> opt_read opts' then
          parse_options program version s opts =
            Some (Inl (Exit_process ''You cannote dump and read at the same time...''))
        else
          \<exists>s'. parse_options program version s opts = Some (Inr (opts', s')) \<and>
            argv s' = seen @ others \<and> optind s' = length seen"
  by (rule parse_options_agrees [OF assms])

definition no_options :: lmap_options where
  "no_options = \<lparr>opt_dump = False, opt_read = False, opt_raw = False, opt_iface = None, opt_dumpfile = None\<rparr>"

definition sample_args :: "string list \<Rightarrow> getopt_state" where
  "sample_args args = \<lparr>argv = ''lmap'' # args, optind = 1, optarg = None, optopt = 63, opterr = True,
     getopt_initialized = False, nextchar = None, first_nonopt = 0, last_nonopt = 0, order = REQUIRE_ORDER,
     posixly_correct = False, posix_env = False, longind = None, flag_vars = (\<lambda>_. 0), stderr = []\<rparr>"

lemma parse_options_reference_witness:
  "\<exists>s'. parse_options ''lmap'' ''0.1'' (sample_args [''x'', ''-wi'', ''eth0'', ''y'', ''--du=f'']) no_options =
      Some (Inr (\<lparr>opt_dump = True, opt_read = False, opt_raw = True, opt_iface = Some ''eth0'', opt_dumpfile = Some ''f''\<rparr>, s')) \<and>
    argv s' = [''lmap'', ''-wi'', ''eth0'', ''--du=f'', ''x'', ''y'']"
proof -
  have "candidates ''du'' = [\<lparr>opt_name = ''dump'', has_arg = 1, opt_flag = None, opt_val = code CHR ''d''\<rparr>]"
    by (simp add: candidates_def exacts_def prefixed_def long_options_def)
  then have "reference ''lmap'' ''0.1'' [''x'', ''-wi'', ''eth0'', ''y'', ''--du=f''] no_options [''lmap''] [] =
    Inr (\<lparr>opt_dump = True, opt_read = False, opt_raw = True, opt_iface = Some ''eth0'', opt_dumpfile = Some ''f''\<rparr>,
      [''lmap'', ''-wi'', ''eth0'', ''--du=f''], [''x'', ''y''])"
    by (simp add: nonoption_def element_def takes_arg_def parse_case_def code_def no_options_def Let_def strdup_def)
  then show ?thesis
    using parse_options_reference [of "sample_args [''x'', ''-wi'', ''eth0'', ''y'', ''--du=f'']" "''lmap''"
        "[''x'', ''-wi'', ''eth0'', ''y'', ''--du=f'']" "''lmap''" "''0.1''" no_options]
    by (auto simp: sample_args_def simp del: reference.simps)
qed

end
