(* ===== verification/Locks.thy ===== *)
theory Locks
  imports Prelude
begin

text \<open>
  What the two modules with locks (\<^verbatim>\<open>src/lmap_recursive_mutex.c\<close>, \<^verbatim>\<open>src/lmap_threads.c\<close>) promise: in
  every reachable state at most one thread is inside.
\<close>

type_synonym tid = nat

locale lock_protocol =
  fixes start :: "'s \<Rightarrow> bool"
    and step :: "'s \<Rightarrow> 's \<Rightarrow> bool"
    and inv :: "'s \<Rightarrow> bool"
    and inside :: "'s \<Rightarrow> tid \<Rightarrow> bool"
    and holder :: "'s \<Rightarrow> tid option"
  assumes inv_start: "start s \<Longrightarrow> inv s"
    and inv_step: "inv s \<Longrightarrow> step s s' \<Longrightarrow> inv s'"
    and inside_holder: "inv s \<Longrightarrow> inside s t \<Longrightarrow> holder s = Some t"
begin

lemma inv_steps: "step\<^sup>*\<^sup>* s s' \<Longrightarrow> inv s \<Longrightarrow> inv s'"
  by (induction rule: rtranclp_induct) (auto intro: inv_step)

lemma inv_reachable: "start s0 \<Longrightarrow> step\<^sup>*\<^sup>* s0 s \<Longrightarrow> inv s"
  using inv_steps inv_start by blast

lemma exclusion:
  assumes "start s0" and "step\<^sup>*\<^sup>* s0 s" and "inside s t" and "inside s u"
  shows "t = u"
proof -
  have "holder s = Some t" and "holder s = Some u"
    using inside_holder inv_reachable [OF assms(1,2)] assms(3,4) by blast+
  then show ?thesis by simp
qed

end

end
