(* ===== verification/Threads.thy ===== *)
theory Threads
  imports Locks
begin

text \<open>
  \<^verbatim>\<open>src/lmap_threads.c\<close>: the list of threads with their names, and the mutex that protects it. The
  operations are modelled first as functions on the list, then as steps of concurrent threads.
\<close>

subsection \<open>The list\<close>

record thread =
  thread_id :: tid
  thread_name :: string
  description :: string

text \<open>
  \<open>cancelled\<close> is the sequence of calls of \<^verbatim>\<open>pthread_cancel\<close> (each followed by \<^verbatim>\<open>pthread_join\<close>).
\<close>

record threads =
  thread_list :: "thread list"
  cancelled :: "tid list"

abbreviation (input) LMAP_SELF :: tid where
  "LMAP_SELF \<equiv> 0"

text \<open>\<^verbatim>\<open>if (id == LMAP_SELF) id = pthread_self();\<close> where \<open>me\<close> is the calling thread.\<close>

definition resolve :: "tid \<Rightarrow> tid \<Rightarrow> tid" where
  "resolve me i = (if i = LMAP_SELF then me else i)"

fun find_thread :: "tid \<Rightarrow> thread list \<Rightarrow> thread option" where
  "find_thread i [] = None"
| "find_thread i (t # ts) = (if thread_id t = i then Some t else find_thread i ts)"

definition lmap_thread_getname :: "tid \<Rightarrow> tid \<Rightarrow> threads \<Rightarrow> string" where
  "lmap_thread_getname me i s =
     (case find_thread (resolve me i) (thread_list s) of Some t \<Rightarrow> thread_name t | None \<Rightarrow> ''NR_THREAD'')"

definition lmap_thread_getdesc :: "tid \<Rightarrow> tid \<Rightarrow> threads \<Rightarrow> string" where
  "lmap_thread_getdesc me i s =
     (case find_thread (resolve me i) (thread_list s) of Some t \<Rightarrow> description t | None \<Rightarrow> '''')"

fun replace_thread :: "thread \<Rightarrow> thread list \<Rightarrow> thread list option" where
  "replace_thread e [] = None"
| "replace_thread e (t # ts) =
     (if thread_id t = thread_id e then Some (e # ts) else map_option (Cons t) (replace_thread e ts))"

definition lmap_thread_register :: "tid \<Rightarrow> tid \<Rightarrow> string \<Rightarrow> string \<Rightarrow> threads \<Rightarrow> threads" where
  "lmap_thread_register me i name desc s =
     (let e = \<lparr>thread_id = resolve me i, thread_name = name, description = desc\<rparr> in
      case replace_thread e (thread_list s) of
        Some l \<Rightarrow> s\<lparr>thread_list := l\<rparr>
      | None \<Rightarrow> s\<lparr>thread_list := e # thread_list s\<rparr>)"

text \<open>
  \<^verbatim>\<open>pthread_create\<close> is a parameter: its result and, when it is 0, the new thread. \<open>junk\<close> is what the
  local variable \<^verbatim>\<open>id\<close> holds otherwise.
\<close>

definition lmap_thread_new ::
  "int \<times> tid \<Rightarrow> tid \<Rightarrow> tid \<Rightarrow> string \<Rightarrow> string \<Rightarrow> threads \<Rightarrow> c_error + (tid \<times> threads)" where
  "lmap_thread_new create junk me name desc s =
     (if fst create < 0
      then Inl (Exit_process ''not enough system resources to create a new thread'')
      else
        let i = (if fst create = 0 then snd create else junk) in
        Inr (i, lmap_thread_register me i name desc s))"

fun remove_thread :: "tid \<Rightarrow> thread list \<Rightarrow> thread list" where
  "remove_thread i [] = []"
| "remove_thread i (t # ts) = (if thread_id t = i then ts else t # remove_thread i ts)"

definition lmap_thread_destroy :: "tid \<Rightarrow> threads \<Rightarrow> threads" where
  "lmap_thread_destroy i s =
     s\<lparr>thread_list := remove_thread i (thread_list s), cancelled := cancelled s @ [i]\<rparr>"

text \<open>
  The loop of \<^verbatim>\<open>lmap_thread_kill_all\<close> at the element \<open>t\<close> of the list, with those behind it: \<^verbatim>\<open>LIST_FOREACH\<close>
  reads \<^verbatim>\<open>current->next\<close> after the body, which is an error when the body has freed \<^verbatim>\<open>current\<close>.
\<close>

fun kill_from :: "tid \<Rightarrow> thread list \<Rightarrow> threads \<Rightarrow> c_error + threads" where
  "kill_from me [] s = Inr s"
| "kill_from me (t # ts) s =
     (if thread_id t \<noteq> me then
        (let s' = lmap_thread_destroy (thread_id t) s in
         if t \<in> set (thread_list s') then kill_from me ts s' else Inl Use_after_free)
      else kill_from me ts s)"

definition lmap_thread_kill_all :: "tid \<Rightarrow> threads \<Rightarrow> c_error + threads" where
  "lmap_thread_kill_all me s = kill_from me (thread_list s) s"

subsection \<open>The list is a map\<close>

definition threads_wf :: "threads \<Rightarrow> bool" where
  "threads_wf s \<longleftrightarrow> distinct (map thread_id (thread_list s))"

definition thread_map :: "threads \<Rightarrow> tid \<rightharpoonup> string \<times> string" where
  "thread_map s i = map_option (\<lambda>t. (thread_name t, description t)) (find_thread i (thread_list s))"

lemma find_thread_None: "find_thread i ts = None \<longleftrightarrow> i \<notin> thread_id ` set ts"
  by (induction ts) auto

lemma find_thread_id: "find_thread i ts = Some t \<Longrightarrow> thread_id t = i \<and> t \<in> set ts"
  by (induction ts) (auto split: if_splits)

lemma replace_thread_None: "replace_thread e ts = None \<longleftrightarrow> thread_id e \<notin> thread_id ` set ts"
  by (induction ts) auto

lemma replace_thread_ids: "replace_thread e ts = Some ts' \<Longrightarrow> map thread_id ts' = map thread_id ts"
  by (induction ts arbitrary: ts') (auto split: if_splits)

lemma find_replace_thread:
  "replace_thread e ts = Some ts' \<Longrightarrow>
    find_thread i ts' = (if i = thread_id e then Some e else find_thread i ts)"
  by (induction ts arbitrary: ts') (auto split: if_splits)

lemma remove_thread_ids: "thread_id ` set (remove_thread i ts) \<subseteq> thread_id ` set ts"
  by (induction ts) auto

lemma remove_thread_eq:
  "distinct (map thread_id ts) \<Longrightarrow> remove_thread i ts = filter (\<lambda>t. thread_id t \<noteq> i) ts"
  by (induction ts) (auto simp: image_iff intro!: filter_True [symmetric])

lemma find_thread_filter:
  "find_thread j (filter (\<lambda>t. thread_id t \<noteq> i) ts) = (if j = i then None else find_thread j ts)"
  by (induction ts) auto

lemma threads_wf_register: "threads_wf s \<Longrightarrow> threads_wf (lmap_thread_register me i n d s)"
  by (auto simp: threads_wf_def lmap_thread_register_def Let_def replace_thread_None
      dest: replace_thread_ids split: option.splits)

lemma threads_wf_destroy: "threads_wf s \<Longrightarrow> threads_wf (lmap_thread_destroy i s)"
  by (simp add: threads_wf_def lmap_thread_destroy_def remove_thread_eq distinct_map_filter)

lemma thread_map_register:
  "thread_map (lmap_thread_register me i n d s) = (thread_map s)(resolve me i \<mapsto> (n, d))"
  by (auto simp: fun_eq_iff thread_map_def lmap_thread_register_def Let_def find_replace_thread
      split: option.splits)

lemma thread_map_destroy:
  "threads_wf s \<Longrightarrow> thread_map (lmap_thread_destroy i s) = (thread_map s)(i := None)"
  by (auto simp: fun_eq_iff thread_map_def lmap_thread_destroy_def remove_thread_eq find_thread_filter
      threads_wf_def)

subsection \<open>Operations on the list\<close>

datatype thread_op =
    Op_getdesc tid
  | Op_register tid string string
  | Op_destroy tid

fun run_op :: "tid \<times> thread_op \<Rightarrow> threads \<Rightarrow> threads" where
  "run_op (me, Op_getdesc i) s = s"
| "run_op (me, Op_register i n d) s = lmap_thread_register me i n d s"
| "run_op (me, Op_destroy i) s = lmap_thread_destroy i s"

text \<open>What an operation does to the map from threads to names and descriptions.\<close>

fun op_effect :: "tid \<times> thread_op \<Rightarrow> (tid \<rightharpoonup> string \<times> string) \<Rightarrow> tid \<rightharpoonup> string \<times> string" where
  "op_effect (me, Op_getdesc i) m = m"
| "op_effect (me, Op_register i n d) m = m(resolve me i \<mapsto> (n, d))"
| "op_effect (me, Op_destroy i) m = m(i := None)"

definition no_threads :: threads where
  "no_threads = \<lparr>thread_list = [], cancelled = []\<rparr>"

lemma run_op_refines:
  "threads_wf s \<Longrightarrow> threads_wf (run_op p s) \<and> thread_map (run_op p s) = op_effect p (thread_map s)"
  by (cases "(p, s)" rule: run_op.cases)
     (simp_all add: threads_wf_register threads_wf_destroy thread_map_register thread_map_destroy)

lemma run_ops_refine:
  "threads_wf s \<Longrightarrow> threads_wf (fold run_op ops s) \<and>
    thread_map (fold run_op ops s) = fold op_effect ops (thread_map s)"
  by (induction ops arbitrary: s) (simp_all add: run_op_refines)

lemma names_by_map:
  "lmap_thread_getname me i s = (case thread_map s (resolve me i) of Some (n, d) \<Rightarrow> n | None \<Rightarrow> ''NR_THREAD'')"
  "lmap_thread_getdesc me i s = (case thread_map s (resolve me i) of Some (n, d) \<Rightarrow> d | None \<Rightarrow> '''')"
  by (simp_all add: lmap_thread_getname_def lmap_thread_getdesc_def thread_map_def split: option.splits)

lemma no_threads_simps [simp]: "threads_wf no_threads" "thread_map no_threads = Map.empty"
  by (auto simp: threads_wf_def thread_map_def no_threads_def)

text \<open>
  After any sequence of operations of any threads, \<^verbatim>\<open>lmap_thread_getname\<close> and
  \<^verbatim>\<open>lmap_thread_getdesc\<close> answer from the map that the operations define: what was registered last for
  the thread (the caller, for \<^verbatim>\<open>LMAP_SELF\<close>) unless it was destroyed since.
\<close>

theorem thread_names_refine_map:
  "lmap_thread_getname me i (fold run_op ops no_threads) =
      (case fold op_effect ops Map.empty (resolve me i) of Some (n, d) \<Rightarrow> n | None \<Rightarrow> ''NR_THREAD'') \<and>
    lmap_thread_getdesc me i (fold run_op ops no_threads) =
      (case fold op_effect ops Map.empty (resolve me i) of Some (n, d) \<Rightarrow> d | None \<Rightarrow> '''')"
  by (simp add: names_by_map run_ops_refine)

subsection \<open>Killing all threads\<close>

lemma remove_thread_self: "distinct (map thread_id ts) \<Longrightarrow> t \<in> set ts \<Longrightarrow> t \<notin> set (remove_thread (thread_id t) ts)"
  by (auto simp: remove_thread_eq)

lemma kill_from_eq:
  "threads_wf s \<Longrightarrow> set ts \<subseteq> set (thread_list s) \<Longrightarrow>
    kill_from me ts s = (if \<exists>t \<in> set ts. thread_id t \<noteq> me then Inl Use_after_free else Inr s)"
  by (induction ts) (auto simp: Let_def lmap_thread_destroy_def threads_wf_def remove_thread_self)

text \<open>
  \<^verbatim>\<open>lmap_thread_kill_all\<close> reads freed memory as soon as one other thread is registered: the loop
  takes \<^verbatim>\<open>current->next\<close> of an element that \<^verbatim>\<open>lmap_thread_destroy\<close> has freed. It only works when there
  is nothing to kill.
\<close>

theorem kill_all_use_after_free:
  assumes "threads_wf s"
  shows "lmap_thread_kill_all me s =
    (if \<exists>t \<in> set (thread_list s). thread_id t \<noteq> me then Inl Use_after_free else Inr s)"
  unfolding lmap_thread_kill_all_def by (rule kill_from_eq) (use assms in auto)

lemma kill_all_use_after_free_witness:
  "lmap_thread_kill_all 1 (fold run_op [(1, Op_register 0 ''main'' ''''), (1, Op_register 2 ''capture'' '''')] no_threads) =
    Inl Use_after_free"
proof -
  let ?s = "fold run_op [(1, Op_register 0 ''main'' ''''), (1, Op_register 2 ''capture'' '''')] no_threads"
  have "threads_wf ?s" by (metis run_ops_refine no_threads_simps(1))
  then show ?thesis using kill_all_use_after_free [of ?s 1]
    by (simp add: lmap_thread_register_def resolve_def no_threads_def)
qed

subsection \<open>The mutex\<close>

text \<open>
  Positions of a thread: outside; inside, in front of the body of an operation; inside, behind it;
  in the loop of \<^verbatim>\<open>lmap_thread_getname\<close>, which unlocks the mutex without having locked it. The
  default mutex of the threads library does not check who unlocks it; \<open>threads_mx\<close> is who locked it
  last. \<open>names\<close> says whether threads call \<^verbatim>\<open>lmap_thread_getname\<close>, as every \<^verbatim>\<open>DEBUG_MSG\<close> does.
\<close>

datatype thread_pc = Outside | Inside thread_op | Leaving | Searching tid

record thread_state =
  shared :: threads
  threads_mx :: "tid option"
  position :: "tid \<Rightarrow> thread_pc"

definition goto :: "tid \<Rightarrow> thread_pc \<Rightarrow> thread_state \<Rightarrow> thread_state" where
  "goto t p s = s\<lparr>position := (position s)(t := p)\<rparr>"

inductive thread_step :: "bool \<Rightarrow> thread_state \<Rightarrow> thread_state \<Rightarrow> bool" for names :: bool where
  enter: "position s t = Outside \<Longrightarrow> threads_mx s = None \<Longrightarrow>
    thread_step names s (goto t (Inside p) (s\<lparr>threads_mx := Some t\<rparr>))"
| body: "position s t = Inside p \<Longrightarrow>
    thread_step names s (goto t Leaving (s\<lparr>shared := run_op (t, p) (shared s)\<rparr>))"
| leave: "position s t = Leaving \<Longrightarrow>
    thread_step names s (goto t Outside (s\<lparr>threads_mx := None\<rparr>))"
| search: "names \<Longrightarrow> position s t = Outside \<Longrightarrow> thread_step names s (goto t (Searching i) s)"
| search_end: "position s t = Searching i \<Longrightarrow>
    thread_step names s (goto t Outside (s\<lparr>threads_mx := None\<rparr>))"

definition thread_start :: "thread_state \<Rightarrow> bool" where
  "thread_start s \<longleftrightarrow> shared s = no_threads \<and> threads_mx s = None \<and> position s = (\<lambda>_. Outside)"

fun inside_pc :: "thread_pc \<Rightarrow> bool" where
  "inside_pc (Inside p) = True"
| "inside_pc Leaving = True"
| "inside_pc _ = False"

definition thread_inv :: "thread_state \<Rightarrow> bool" where
  "thread_inv s \<longleftrightarrow> (\<forall>t. inside_pc (position s t) \<longrightarrow> threads_mx s = Some t) \<and>
     (\<forall>t i. position s t \<noteq> Searching i) \<and> threads_wf (shared s)"

lemma thread_inv_step: "thread_inv s \<Longrightarrow> thread_step False s s' \<Longrightarrow> thread_inv s'"
  by (erule thread_step.cases)
     (auto simp: thread_inv_def goto_def run_op_refines split: if_splits, metis inside_pc.simps(1,2) option.inject)

interpretation thread_mutex: lock_protocol thread_start "thread_step False" thread_inv
    "\<lambda>s t. inside_pc (position s t)" threads_mx
proof unfold_locales
  show "thread_inv s'" if "thread_inv s" "thread_step False s s'" for s s'
    using that by (rule thread_inv_step)
qed (auto simp: thread_start_def thread_inv_def)


definition thread_zero :: thread_state where
  "thread_zero = \<lparr>shared = no_threads, threads_mx = None, position = (\<lambda>_. Outside)\<rparr>"

lemma thread_start_zero: "thread_start thread_zero"
  by (simp add: thread_start_def thread_zero_def)


text \<open>
  With calls of \<^verbatim>\<open>lmap_thread_getname\<close> the mutex does not protect the list: its two unlocks have no
  lock, so while one thread is inside, a second one looks a name up and lets a third one in.
\<close>

theorem getname_breaks_mutex:
  "\<exists>s. (thread_step True)\<^sup>*\<^sup>* thread_zero s \<and>
    position s 1 = Inside (Op_register 0 ''a'' '''') \<and> position s 2 = Inside (Op_register 0 ''b'' '''')"
proof -
  let ?s1 = "goto 1 (Inside (Op_register 0 ''a'' '''')) (thread_zero\<lparr>threads_mx := Some 1\<rparr>)"
  let ?s2 = "goto 3 (Searching 1) ?s1"
  let ?s3 = "goto 3 Outside (?s2\<lparr>threads_mx := None\<rparr>)"
  let ?s4 = "goto 2 (Inside (Op_register 0 ''b'' '''')) (?s3\<lparr>threads_mx := Some 2\<rparr>)"
  have "thread_step True thread_zero ?s1" by (intro enter) (simp_all add: thread_zero_def)
  moreover have "thread_step True ?s1 ?s2" by (intro search) (simp_all add: goto_def thread_zero_def)
  moreover have "thread_step True ?s2 ?s3" by (intro search_end [where i = 1]) (simp_all add: goto_def)
  moreover have "thread_step True ?s3 ?s4" by (intro enter) (simp_all add: goto_def thread_zero_def)
  ultimately have "(thread_step True)\<^sup>*\<^sup>* thread_zero ?s4" by auto
  then show ?thesis by (intro exI [of _ ?s4]) (simp add: goto_def)
qed

end
