(* ===== verification/Table.thy ===== *)
theory Table
  imports Inet
begin

text \<open>
  The table of decoders of \<^verbatim>\<open>src/lmap_decode.c\<close>: \<^verbatim>\<open>add_decoder\<close>, \<^verbatim>\<open>get_decoder\<close>,
  \<^verbatim>\<open>set_L2_decoder\<close>, and the layers of \<^verbatim>\<open>include/lmap_decode.h\<close>. A function pointer is a value of a
  type \<open>'d\<close>.
\<close>

subsection \<open>Layers\<close>

datatype layer = IFACE_LAYER | LINK_LAYER | NET_LAYER | PROTO_LAYER | APP_LAYER | OPT6_LAYER

fun layer_num :: "layer \<Rightarrow> nat" where
  "layer_num IFACE_LAYER = 1"
| "layer_num LINK_LAYER = 2"
| "layer_num NET_LAYER = 3"
| "layer_num PROTO_LAYER = 4"
| "layer_num APP_LAYER = 5"
| "layer_num OPT6_LAYER = 6"

lemma layer_num_inject [simp]: "layer_num a = layer_num b \<longleftrightarrow> a = b"
  by (cases a; cases b) simp_all

lemma layer_num_le: "layer_num a \<le> 6"
  by (cases a) simp_all

text \<open>The layers are ordered by their numbers.\<close>

instantiation layer :: linorder
begin

definition less_eq_layer :: "layer \<Rightarrow> layer \<Rightarrow> bool" where
  "less_eq_layer a b \<longleftrightarrow> layer_num a \<le> layer_num b"

definition less_layer :: "layer \<Rightarrow> layer \<Rightarrow> bool" where
  "less_layer a b \<longleftrightarrow> layer_num a < layer_num b"

instance
  by intro_classes (auto simp: less_eq_layer_def less_layer_def)

end

subsection \<open>The table\<close>

record 'd dec_entry =
  dec_type :: int
  dec_level :: layer
  dec_fun :: 'd

type_synonym 'd table = "'d dec_entry list"

definition add_decoder :: "layer \<Rightarrow> int \<Rightarrow> 'd \<Rightarrow> 'd table \<Rightarrow> 'd table" where
  "add_decoder lv t d tab = \<lparr>dec_type = t, dec_level = lv, dec_fun = d\<rparr> # tab"

fun get_decoder :: "'d table \<Rightarrow> layer \<Rightarrow> int \<Rightarrow> 'd option" where
  "get_decoder [] lv t = None"
| "get_decoder (e # es) lv t =
     (if dec_level e = lv \<and> dec_type e = t then Some (dec_fun e) else get_decoder es lv t)"

text \<open>
  The loop of \<^verbatim>\<open>set_L2_decoder\<close>: the result code and the static pointer \<^verbatim>\<open>l2_decoder\<close>, which is \<open>l2\<close>
  before the call.
\<close>

fun set_L2_decoder :: "bool \<Rightarrow> 'd table \<Rightarrow> int \<Rightarrow> 'd option \<Rightarrow> int \<times> 'd option" where
  "set_L2_decoder raw [] dlt l2 = (- ENOTFOUND, l2)"
| "set_L2_decoder raw (e # es) dlt l2 =
     (if layer_num (dec_level e) = 2 \<and> dec_type e = dlt then (ESUCCESS, Some (dec_fun e))
      else if raw \<and> layer_num (dec_level e) = 2 \<and> dec_type e = 0 then (ESUCCESS, Some (dec_fun e))
      else set_L2_decoder raw es dlt l2)"

subsection \<open>The interface of a registry\<close>

text \<open>
  What the decoders and the capture rely on: a lookup finds what was registered last under its key.
  Then the order of two registrations under different keys, here the order in which the constructor
  functions of the decoders run, does not matter.
\<close>

locale registry =
  fixes none :: "'t"
    and add :: "'k \<Rightarrow> 'd \<Rightarrow> 't \<Rightarrow> 't"
    and find :: "'t \<Rightarrow> 'k \<Rightarrow> 'd option"
  assumes find_none: "find none k = None"
    and find_add: "find (add k d t) j = (if j = k then Some d else find t j)"
begin

definition build :: "('k \<times> 'd) list \<Rightarrow> 't" where
  "build kds = fold (\<lambda>(k, d). add k d) kds none"

lemma find_fold: "find (fold (\<lambda>(k, d). add k d) kds t) j =
    (case map_of (rev kds) j of None \<Rightarrow> find t j | Some d \<Rightarrow> Some d)"
  by (induction kds arbitrary: t) (auto simp: find_add map_add_def split: option.splits)

lemma find_build: "find (build kds) j = map_of (rev kds) j"
  by (simp add: build_def find_fold find_none split: option.splits)

lemma build_order:
  assumes "distinct (map fst kds)" and "distinct (map fst kds')" and "set kds = set kds'"
  shows "find (build kds) j = find (build kds') j"
proof -
  have "map_of (rev kds) = map_of (rev kds')"
    using assms by (intro map_of_inject_set [THEN iffD2]) (simp_all add: rev_map [symmetric])
  then show ?thesis by (simp add: find_build)
qed

end

definition lookup :: "'d table \<Rightarrow> layer \<times> int \<Rightarrow> 'd option" where
  "lookup tab k = get_decoder tab (fst k) (snd k)"

interpretation decoders: registry "[]" "\<lambda>k. add_decoder (fst k) (snd k)" lookup
  by unfold_locales (auto simp: lookup_def add_decoder_def)

text \<open>A program's table: the pairs it registers.\<close>

lemma set_L2_decoder_eq:
  "set_L2_decoder False tab dlt l2 =
    (case get_decoder tab LINK_LAYER dlt of None \<Rightarrow> (- ENOTFOUND, l2) | Some d \<Rightarrow> (ESUCCESS, Some d))"
proof (induction tab)
  case (Cons e es)
  have "layer_num (dec_level e) = 2 \<longleftrightarrow> dec_level e = LINK_LAYER"
    by (cases "dec_level e") simp_all
  with Cons show ?case by simp
qed simp

lemma set_L2_decoder_raw:
  assumes "\<forall>e \<in> set tab. dec_level e = LINK_LAYER \<longrightarrow> dec_type e \<noteq> 0"
  shows "set_L2_decoder raw tab dlt l2 = set_L2_decoder False tab dlt l2"
  using assms
proof (induction tab)
  case (Cons e es)
  have "layer_num (dec_level e) = 2 \<longleftrightarrow> dec_level e = LINK_LAYER"
    by (cases "dec_level e") simp_all
  with Cons show ?case by auto
qed simp

end
