(* ===== verification/Bucket.thy ===== *)
theory Bucket
  imports Iface Ui
begin

text \<open>
  \<^verbatim>\<open>src/lmap_db.c\<close> and \<^verbatim>\<open>include/lmap_db.h\<close>: the bucket that carries what the decoders find out about
  a packet, and its hand-over to the database, which for now prints it.
\<close>

subsection \<open>Data\<close>

abbreviation (input) ETH_ADDR_LEN :: nat where "ETH_ADDR_LEN \<equiv> 6"

record L2_info =
  mac_src :: bytes
  mac_dst :: bytes
  BSSID :: bytes
  ESSID :: "string option"

record L3_info =
  ip_src :: ip_addr
  ip_dst :: ip_addr
  l3_proto :: u_int16
  ttl :: u_int8

record L4_info =
  port_src :: u_int16
  port_dst :: u_int16
  l4_proto :: u_int16
  fingerprint :: "string option"

record L5_info =
  l5_type :: int
  dhcp_ip :: ip_addr
  dhcp_gw :: ip_addr
  dhcp_dns :: ip_addr

text \<open>The four pointers; \<^term>\<open>None\<close> is \<^verbatim>\<open>NULL\<close>.\<close>

record bucket =
  L2 :: "L2_info option"
  L3 :: "L3_info option"
  L4 :: "L4_info option"
  L5 :: "L5_info option"

text \<open>\<^verbatim>\<open>calloc\<close> zeroes the structures.\<close>

definition L2_zero :: L2_info where
  "L2_zero = \<lparr>mac_src = replicate 6 0, mac_dst = replicate 6 0, BSSID = replicate 6 0, ESSID = None\<rparr>"

definition L3_zero :: L3_info where
  "L3_zero = \<lparr>ip_src = ip_addr_zero, ip_dst = ip_addr_zero, l3_proto = 0, ttl = 0\<rparr>"

definition L4_zero :: L4_info where
  "L4_zero = \<lparr>port_src = 0, port_dst = 0, l4_proto = 0, fingerprint = None\<rparr>"

definition L5_zero :: L5_info where
  "L5_zero = \<lparr>l5_type = 0, dhcp_ip = ip_addr_zero, dhcp_gw = ip_addr_zero, dhcp_dns = ip_addr_zero\<rparr>"

text \<open>\<open>mem i\<close> says whether the \<open>i\<close>-th \<^verbatim>\<open>calloc\<close> succeeds.\<close>

definition db_bucket_alloc :: "(nat \<Rightarrow> bool) \<Rightarrow> c_error + bucket" where
  "db_bucket_alloc mem =
     (if \<not> mem 0 then Inl (Exit_process ''can't allocate bucket'')
      else
        let p = \<lparr>L2 = (if mem 1 then Some L2_zero else None), L3 = (if mem 2 then Some L3_zero else None),
                 L4 = (if mem 3 then Some L4_zero else None), L5 = (if mem 4 then Some L5_zero else None)\<rparr> in
        if L2 p = None \<or> L3 p = None \<or> L4 p = None \<or> L5 p = None
        then Inl (Exit_process ''can't allocate memory'')
        else Inr p)"

subsection \<open>Sending a bucket\<close>

text \<open>\<^verbatim>\<open>%s\<close> of a pointer.\<close>

definition fmt_s :: "string option \<Rightarrow> string" where
  "fmt_s p = (case p of None \<Rightarrow> ''(null)'' | Some b \<Rightarrow> c_str b)"

definition deref :: "'a option \<Rightarrow> c_error + 'a" where
  "deref p = (case p of None \<Rightarrow> Inl Null_pointer | Some x \<Rightarrow> Inr x)"

fun user_msgs :: "libc \<Rightarrow> string list \<Rightarrow> ui_state \<Rightarrow> c_error + ui_state" where
  "user_msgs lib [] u = Inr u"
| "user_msgs lib (m # ms) u = bindE (ui_msg lib m u) (user_msgs lib ms)"

text \<open>
  The three blocks of \<^verbatim>\<open>db_bucket_send\<close>: the messages they send, and the contents of the two local
  buffers, which start undefined and go from block to block.
\<close>

definition send_L2 :: "L2_info \<Rightarrow> string \<Rightarrow> c_error + (string list \<times> string)" where
  "send_L2 l2 tmp =
     bindE (eth_addr_ntoa (mac_src l2) tmp) (\<lambda>(_, tmp1).
     bindE (eth_addr_ntoa (mac_dst l2) tmp1) (\<lambda>(_, tmp2).
     Inr ([nl @ ''--- L2 INFO ---'' @ nl, '' --> source  '' @ c_str tmp1, '' --> dest    '' @ c_str tmp2,
           '' --> ESSID   '' @ fmt_s (ESSID l2)], tmp2)))"

definition send_L3 ::
  "endian \<Rightarrow> string \<Rightarrow> L3_info \<Rightarrow> string \<Rightarrow> string \<Rightarrow> c_error + (string list \<times> string \<times> string)" where
  "send_L3 en junk l3 tmp details =
     bindE (ip_addr_ntoa (ip_src l3) tmp) (\<lambda>(_, tmp1).
     bindE (ip_addr_details junk (ip_src l3) details) (\<lambda>details1.
     bindE (ip_addr_ntoa (ip_dst l3) tmp1) (\<lambda>(_, tmp2).
     bindE (ip_addr_details junk (ip_dst l3) details1) (\<lambda>details2.
     Inr ([nl @ ''--- L3 INFO ---'' @ nl,
           '' --> source  '' @ c_str tmp1 @ '' '' @ c_str details1,
           '' --> dest    '' @ c_str tmp2 @ '' '' @ c_str details2,
           '' --> proto   0x'' @ fmt_X False 4 (uint (ntohs en (l3_proto l3))),
           '' --> ttl     '' @ fmt_d (uint (ttl l3))], tmp2, details2)))))"

definition send_L4 :: "endian \<Rightarrow> L4_info \<Rightarrow> string list" where
  "send_L4 en l4 =
     [nl @ ''--- L4 INFO ---'' @ nl,
      '' --> source  '' @ fmt_d (uint (ntohs en (port_src l4))),
      '' --> dest    '' @ fmt_d (uint (ntohs en (port_dst l4))),
      '' --> proto   0x'' @ fmt_X False 4 (uint (ntohs en (l4_proto l4))),
      '' --> finger  '' @ fmt_s (fingerprint l4) @ nl]"

text \<open>
  \<open>junk\<close> stands for the undefined local arrays: \<^verbatim>\<open>tmp\<close> and \<^verbatim>\<open>details\<close> of the function (50 bytes each)
  and \<^verbatim>\<open>tmp\<close> of \<^verbatim>\<open>inet_details6\<close>. The bucket comes back with its first three pointers freed and set
  to \<^verbatim>\<open>NULL\<close>.
\<close>

record junk =
  junk_tmp :: string
  junk_details :: string
  junk_label :: string

definition db_bucket_send ::
  "endian \<Rightarrow> libc \<Rightarrow> junk \<Rightarrow> bucket \<Rightarrow> ui_state \<Rightarrow> c_error + (bucket \<times> ui_state)" where
  "db_bucket_send en lib jk b u =
     bindE (user_msgs lib [''db_bucket_send -- NOT YET IMPLEMENTED'' @ nl] u) (\<lambda>u.
     bindE (deref (L2 b)) (\<lambda>l2.
     bindE (send_L2 l2 (junk_tmp jk)) (\<lambda>(ms, tmp).
     bindE (user_msgs lib ms u) (\<lambda>u.
     bindE (deref (L3 b)) (\<lambda>l3.
     bindE (send_L3 en (junk_label jk) l3 tmp (junk_details jk)) (\<lambda>(ms, tmp, details).
     bindE (user_msgs lib ms u) (\<lambda>u.
     bindE (deref (L4 b)) (\<lambda>l4.
     bindE (user_msgs lib (send_L4 en l4) u) (\<lambda>u.
     Inr (b\<lparr>L2 := None, L3 := None, L4 := None\<rparr>, u))))))))))"

text \<open>\<^verbatim>\<open>db_bucket_free\<close> frees the structure only; the result is what it still pointed to.\<close>

definition db_bucket_free :: "bucket \<Rightarrow> nat" where
  "db_bucket_free b =
     length (filter id [L2 b \<noteq> None, L3 b \<noteq> None, L4 b \<noteq> None, L5 b \<noteq> None])"

subsection \<open>Lemmas\<close>

lemma db_bucket_alloc_ok:
  "db_bucket_alloc (\<lambda>_. True) =
    Inr \<lparr>L2 = Some L2_zero, L3 = Some L3_zero, L4 = Some L4_zero, L5 = Some L5_zero\<rparr>"
  by (simp add: db_bucket_alloc_def)

lemma user_msgs_eq:
  "user_msgs lib ms u = Inr (u\<lparr>messages_queue := messages_queue u @ ms\<rparr>)"
  by (induction ms arbitrary: u) (simp_all add: ui_msg_eq)

lemma deref_Some [simp]: "deref (Some x) = Inr x"
  by (simp add: deref_def)

definition L2_wf :: "L2_info \<Rightarrow> bool" where
  "L2_wf l \<longleftrightarrow> length (mac_src l) = 6 \<and> length (mac_dst l) = 6"

definition L3_wf :: "L3_info \<Rightarrow> bool" where
  "L3_wf l \<longleftrightarrow> ip_addr_wf (ip_src l) \<and> ip_addr_wf (ip_dst l)"

definition bucket_wf :: "bucket \<Rightarrow> bool" where
  "bucket_wf b \<longleftrightarrow> (\<exists>l2 l3 l4 l5. b = \<lparr>L2 = Some l2, L3 = Some l3, L4 = Some l4, L5 = Some l5\<rparr> \<and>
     L2_wf l2 \<and> L3_wf l3)"

definition junk_wf :: "junk \<Rightarrow> bool" where
  "junk_wf jk \<longleftrightarrow> length (junk_tmp jk) = 50 \<and> length (junk_details jk) = 50 \<and> length (junk_label jk) = 16"

lemma bucket_wf_alloc: "db_bucket_alloc mem = Inr b \<Longrightarrow> bucket_wf b"
  by (auto simp: db_bucket_alloc_def bucket_wf_def L2_wf_def L3_wf_def L2_zero_def L3_zero_def
      ip_addr_wf_zero Let_def split: if_splits)

lemma length_details_label: "length (details_label a) < 15"
  by (auto simp: details_label_def scope_label_def split: in6_class.splits)

subsection \<open>The report\<close>

text \<open>Text that the formats of the program produce: it has neither a NUL nor a percent sign.\<close>

definition clean :: "string \<Rightarrow> bool" where
  "clean s \<longleftrightarrow> NUL \<notin> set s \<and> CHR ''%'' \<notin> set s"

lemma clean_simps [simp]:
  "clean ''''" "clean (c # s) \<longleftrightarrow> c \<noteq> NUL \<and> c \<noteq> CHR ''%'' \<and> clean s" "clean (s @ t) \<longleftrightarrow> clean s \<and> clean t"
  by (auto simp: clean_def)

lemma clean_no_NUL: "clean s \<Longrightarrow> NUL \<notin> set s"
  by (simp add: clean_def)

lemma clean_digits: "\<forall>c \<in> set s. \<exists>k < 16. c = hex_digit u k \<Longrightarrow> clean s"
proof -
  have "hex_digit u k \<noteq> CHR ''%''" if "k < 16" for k
    using that by (cases u) (auto simp: hex_digit_def numeral_eq_Suc less_Suc_eq)
  then show "\<forall>c \<in> set s. \<exists>k < 16. c = hex_digit u k \<Longrightarrow> clean s"
    using hex_digit_not_space(6) unfolding clean_def by metis
qed

lemma clean_hexs [simp]: "clean (hexs u n)"
  using hexs_digits by (intro clean_digits) blast

lemma clean_decs [simp]: "clean (decs n)"
proof (rule clean_digits)
  show "\<forall>c \<in> set (decs n). \<exists>k < 16. c = hex_digit True k"
  proof
    fix c assume "c \<in> set (decs n)"
    then obtain k where "k < 10" "c = hex_digit True k" using decs_digits by blast
    then show "\<exists>k < 16. c = hex_digit True k" by (intro exI [of _ k]) simp
  qed
qed

lemma clean_fmt_X [simp]: "clean (fmt_X u w v)"
proof -
  have "clean (replicate n CHR ''0'')" for n by (induction n) simp_all
  then show ?thesis by (simp add: fmt_X_def pad0_def)
qed

lemma clean_fmt_d [simp]: "clean (fmt_d v)"
  by (simp add: fmt_d_def)

lemma clean_nl [simp]: "clean nl"
  by (simp add: nl_def)

lemma clean_mac_text [simp]: "clean (mac_text a)"
  by (simp add: mac_text_def)

lemma clean_dotted [simp]: "clean (dotted a)"
  by (simp add: dotted_def)

lemma clean_fmt_words: "fmt_words best ws i r = Some t \<Longrightarrow> clean t"
  by (induction r arbitrary: i t) (auto simp: hex_word_def split: if_splits)

lemma clean_ntop6_text: "ntop6_text ws = Some t \<Longrightarrow> clean t"
  using clean_fmt_words by (auto simp: ntop6_text_def Let_def)

lemma clean_details_label [simp]: "clean (details_label a)"
  by (auto simp: details_label_def scope_label_def split: in6_class.splits)

text \<open>
  What \<^verbatim>\<open>ip_addr_ntoa\<close> and \<^verbatim>\<open>ip_addr_details\<close> leave in a buffer that held the string \<open>old\<close>: an address
  without a type, or one that \<^verbatim>\<open>inet_ntop6\<close> refuses, leaves the old text.
\<close>

definition addr_text :: "ip_addr \<Rightarrow> string \<Rightarrow> string" where
  "addr_text a old =
     (if ip_type a = AF_INET then dotted (ip_bytes a)
      else if ip_type a = AF_INET6 then
        (case ntop6_text (words_of (ip_bytes a)) of None \<Rightarrow> old | Some t \<Rightarrow> t)
      else old)"

definition label_text :: "ip_addr \<Rightarrow> string \<Rightarrow> string" where
  "label_text a old =
     (if ip_type a = AF_INET then '''' else if ip_type a = AF_INET6 then details_label (ip_bytes a) else old)"

lemma ip_addr_ntoa_text:
  assumes "ip_addr_wf a" and "length dst = 50"
  shows "\<exists>r dst'. ip_addr_ntoa a dst = Inr (r, dst') \<and> length dst' = 50 \<and> c_str dst' = addr_text a (c_str dst)"
proof -
  have len: "length (ip_bytes a) = 16" using assms(1) by (simp add: ip_addr_wf_def)
  have six: "\<exists>r dst'. inet_ntop6 (ip_bytes a) dst IP6_ASCII_ADDR_LEN = Inr (r, dst') \<and> length dst' = 50 \<and>
     c_str dst' = (case ntop6_text (words_of (ip_bytes a)) of None \<Rightarrow> c_str dst | Some t \<Rightarrow> t)"
  proof (cases "ntop6_text (words_of (ip_bytes a))")
    case (Some t)
    then have "length t \<le> 39" using len by (intro length_ntop6_text) (simp_all add: length_words_of)
    moreover have "NUL \<notin> set t" using clean_ntop6_text [OF Some] by (rule clean_no_NUL)
    ultimately show ?thesis using Some len assms(2) by (simp add: inet_ntop6_def strlcpy_eq c_str_overwritten)
  qed (use len assms(2) in \<open>simp add: inet_ntop6_def\<close>)
  then show ?thesis
    using assms(2) len length_dotted [of "ip_bytes a"]
    by (auto simp: ip_addr_ntoa_def inet_ntop4_eq addr_text_def c_str_overwritten dotted_no_NUL)
qed

lemma ip_addr_details_text:
  assumes "ip_addr_wf a" and "length dst = 50" and "length junk = 16"
  shows "\<exists>dst'. ip_addr_details junk a dst = Inr dst' \<and> length dst' = 50 \<and> c_str dst' = label_text a (c_str dst)"
proof -
  have "NUL \<notin> set (details_label (ip_bytes a))" by (rule clean_no_NUL) simp
  moreover have "c_str (overwrite dst 0 [NUL]) = ''''" using c_str_overwritten [of "''''" dst] by simp
  ultimately show ?thesis
    using assms length_details_label [of "ip_bytes a"]
    by (auto simp: ip_addr_details_def store_def ip_addr_wf_def inet_details6_eq label_text_def c_str_overwritten)
qed

text \<open>
  The messages of \<^verbatim>\<open>db_bucket_send\<close>. The first text of the buffer \<^verbatim>\<open>tmp\<close> in the block of layer 3 is the
  destination of layer 2; \<open>d\<close> is the string in the undefined array \<^verbatim>\<open>details\<close>.
\<close>

definition report_L3 :: "endian \<Rightarrow> L3_info \<Rightarrow> string \<Rightarrow> string \<Rightarrow> string list" where
  "report_L3 en l3 old d =
     (let src = addr_text (ip_src l3) old; ds = label_text (ip_src l3) d in
      [nl @ ''--- L3 INFO ---'' @ nl, '' --> source  '' @ src @ '' '' @ ds,
       '' --> dest    '' @ addr_text (ip_dst l3) src @ '' '' @ label_text (ip_dst l3) ds,
       '' --> proto   0x'' @ fmt_X False 4 (uint (ntohs en (l3_proto l3))),
       '' --> ttl     '' @ fmt_d (uint (ttl l3))])"

definition report :: "endian \<Rightarrow> string \<Rightarrow> L2_info \<Rightarrow> L3_info \<Rightarrow> L4_info \<Rightarrow> string list" where
  "report en d l2 l3 l4 =
     [''db_bucket_send -- NOT YET IMPLEMENTED'' @ nl, nl @ ''--- L2 INFO ---'' @ nl,
      '' --> source  '' @ mac_text (mac_src l2), '' --> dest    '' @ mac_text (mac_dst l2),
      '' --> ESSID   '' @ fmt_s (ESSID l2)] @ report_L3 en l3 (mac_text (mac_dst l2)) d @ send_L4 en l4"

lemma length_report: "length (report en d l2 l3 l4) = 15"
  by (simp add: report_def report_L3_def send_L4_def Let_def)

lemma send_L2_text:
  assumes "L2_wf l2" and "length tmp = 50"
  shows "\<exists>tmp'. length tmp' = 50 \<and> c_str tmp' = mac_text (mac_dst l2) \<and> send_L2 l2 tmp =
    Inr ([nl @ ''--- L2 INFO ---'' @ nl, '' --> source  '' @ mac_text (mac_src l2),
      '' --> dest    '' @ mac_text (mac_dst l2), '' --> ESSID   '' @ fmt_s (ESSID l2)], tmp')"
  using assms by (simp add: send_L2_def L2_wf_def eth_addr_ntoa_ok length_mac_text c_str_overwritten mac_text_no_NUL)

lemma send_L3_text:
  assumes "L3_wf l3" and "length tmp = 50" and "length details = 50" and "length junk = 16"
  shows "\<exists>t d. send_L3 en junk l3 tmp details = Inr (report_L3 en l3 (c_str tmp) (c_str details), t, d)"
proof -
  have wf: "ip_addr_wf (ip_src l3)" "ip_addr_wf (ip_dst l3)" using assms(1) by (auto simp: L3_wf_def)
  obtain r1 t1 where 1: "ip_addr_ntoa (ip_src l3) tmp = Inr (r1, t1)" "length t1 = 50"
      "c_str t1 = addr_text (ip_src l3) (c_str tmp)"
    using ip_addr_ntoa_text [OF wf(1) assms(2)] by blast
  obtain d1 where 2: "ip_addr_details junk (ip_src l3) details = Inr d1" "length d1 = 50"
      "c_str d1 = label_text (ip_src l3) (c_str details)"
    using ip_addr_details_text [OF wf(1) assms(3,4)] by blast
  obtain r2 t2 where 3: "ip_addr_ntoa (ip_dst l3) t1 = Inr (r2, t2)" "c_str t2 = addr_text (ip_dst l3) (c_str t1)"
    using ip_addr_ntoa_text [OF wf(2) 1(2)] by blast
  obtain d2 where 4: "ip_addr_details junk (ip_dst l3) d1 = Inr d2" "c_str d2 = label_text (ip_dst l3) (c_str d1)"
    using ip_addr_details_text [OF wf(2) 2(2) assms(4)] by blast
  show ?thesis using 1 2 3 4 by (simp add: send_L3_def report_L3_def Let_def)
qed

text \<open>
  Sending a bucket that the decoders have filled in never fails, whatever the undefined local arrays hold,
  and no buffer overflows. It frees the three structures it has printed and loses the fourth:
  \<^verbatim>\<open>db_bucket_free\<close> then frees the bucket while it still points to the structure of layer 5.
\<close>

lemma db_bucket_send_report:
  assumes "b = \<lparr>L2 = Some l2, L3 = Some l3, L4 = Some l4, L5 = Some l5\<rparr>" and "L2_wf l2" and "L3_wf l3" and "junk_wf jk"
  shows "\<exists>b'. db_bucket_send en lib jk b u =
      Inr (b', u\<lparr>messages_queue := messages_queue u @ report en (c_str (junk_details jk)) l2 l3 l4\<rparr>) \<and>
    db_bucket_free b' = 1"
proof -
  obtain tmp where L2: "length tmp = 50" "c_str tmp = mac_text (mac_dst l2)"
      "send_L2 l2 (junk_tmp jk) = Inr ([nl @ ''--- L2 INFO ---'' @ nl, '' --> source  '' @ mac_text (mac_src l2),
      '' --> dest    '' @ mac_text (mac_dst l2), '' --> ESSID   '' @ fmt_s (ESSID l2)], tmp)"
    using send_L2_text [OF assms(2), of "junk_tmp jk"] assms(4) by (auto simp: junk_wf_def)
  obtain t3 d3 where L3: "send_L3 en (junk_label jk) l3 tmp (junk_details jk) =
      Inr (report_L3 en l3 (mac_text (mac_dst l2)) (c_str (junk_details jk)), t3, d3)"
    using send_L3_text [OF assms(3) L2(1)] L2(2) assms(4) unfolding junk_wf_def by metis
  show ?thesis
    using L2(3) L3 assms(1) by (simp add: db_bucket_send_def user_msgs_eq report_def db_bucket_free_def)
qed

lemma clean_report:
  assumes "ESSID l2 = None" and "\<And>f. fingerprint l4 = Some f \<Longrightarrow> clean (c_str f)"
    and "clean d \<or> ip_type (ip_src l3) \<in> {AF_INET, AF_INET6} \<and> ip_type (ip_dst l3) \<in> {AF_INET, AF_INET6}"
  shows "list_all clean (report en d l2 l3 l4)"
proof -
  have a: "clean (addr_text a old)" if "clean old" for a old
    using that clean_ntop6_text by (auto simp: addr_text_def split: option.splits)
  have l: "clean (label_text a old)" if "clean old \<or> ip_type a \<in> {AF_INET, AF_INET6}" for a old
    using that by (auto simp: label_text_def)
  have "clean (fmt_s (fingerprint l4))" using assms(2) by (auto simp: fmt_s_def split: option.splits)
  then show ?thesis
    using assms(1,3) by (auto simp: report_def report_L3_def send_L4_def Let_def fmt_s_def intro!: a l)
qed

text \<open>
  Sending a bucket that the decoders have filled in: the fifteen messages hold the fields of the bucket, but
  for addresses that have no text, in whose place the messages have what the two buffers held before.
\<close>

theorem db_bucket_send_ok:
  assumes "b = \<lparr>L2 = Some l2, L3 = Some l3, L4 = Some l4, L5 = Some l5\<rparr>" and "bucket_wf b" and "junk_wf jk"
  shows "\<exists>b'. db_bucket_send en lib jk b u =
      Inr (b', u\<lparr>messages_queue := messages_queue u @ report en (c_str (junk_details jk)) l2 l3 l4\<rparr>) \<and>
    length (report en (c_str (junk_details jk)) l2 l3 l4) = 15 \<and> db_bucket_free b' = 1"
proof -
  have "L2_wf l2" "L3_wf l3" using assms(1,2) by (auto simp: bucket_wf_def)
  with db_bucket_send_report [OF assms(1) _ _ assms(3)] show ?thesis by (simp add: length_report)
qed

lemma db_bucket_send_ok_witness:
  "\<exists>b' u'. db_bucket_send Little Glibc_2_1
      \<lparr>junk_tmp = replicate 50 CHR ''x'', junk_details = replicate 50 CHR ''x'', junk_label = replicate 16 NUL\<rparr>
      \<lparr>L2 = Some L2_zero, L3 = Some L3_zero, L4 = Some L4_zero, L5 = Some L5_zero\<rparr>
      \<lparr>messages_queue = [], shown = []\<rparr> = Inr (b', u') \<and> db_bucket_free b' = 1"
proof -
  have "junk_wf \<lparr>junk_tmp = replicate 50 CHR ''x'', junk_details = replicate 50 CHR ''x'', junk_label = replicate 16 NUL\<rparr>"
    by (simp add: junk_wf_def)
  from db_bucket_send_ok [OF refl bucket_wf_alloc [OF db_bucket_alloc_ok] this, of Little Glibc_2_1
      "\<lparr>messages_queue = [], shown = []\<rparr>"]
  show ?thesis by blast
qed

end
