(* ===== verification/Fingerprint.thy ===== *)
theory Fingerprint
  imports Hash Data_Files Missing
begin

text \<open>
  \<^verbatim>\<open>src/lmap_fingerprint.c\<close>: the passive TCP fingerprint of a connection (a buffer of 29
  characters that the IP and TCP decoders fill in, one field at a time) and the table of known
  fingerprints loaded from \<^verbatim>\<open>tcp-fingerprints\<close>.
\<close>

abbreviation (input) FINGER_LEN :: nat where
  "FINGER_LEN \<equiv> 28"

abbreviation (input) OS_LEN :: nat where
  "OS_LEN \<equiv> 60"

datatype finger_param =
    FINGER_WINDOW | FINGER_MSS | FINGER_TTL | FINGER_WS | FINGER_SACK
  | FINGER_NOP | FINGER_DF | FINGER_TIMESTAMP | FINGER_TCPFLAG | FINGER_LT

subsection \<open>Rounding the TTL\<close>

text \<open>The \<^verbatim>\<open>do ... while (i >>= 1)\<close> loop on three \<^verbatim>\<open>unsigned char\<close> registers.\<close>

function ttl_loop :: "u_int8 \<Rightarrow> u_int8 \<Rightarrow> u_int8 \<Rightarrow> u_int8 \<times> u_int8" where
  "ttl_loop i j c =
     (let c' = c + (i AND 1); j' = push_bit 1 j; i' = drop_bit 1 i in
      if i' \<noteq> 0 then ttl_loop i' j' c' else (j', c'))"
  by pat_completeness auto
termination
proof (relation "measure (\<lambda>(i, j, c). unat i)")
  fix i j c c' j' i' :: u_int8
  assume "i' = drop_bit 1 i" and "i' \<noteq> 0"
  then have eq: "unat i' = unat i div 2" by (simp add: drop_bit_eq_div unat_div)
  have "unat i' \<noteq> 0" using \<open>i' \<noteq> 0\<close> by (simp add: unat_eq_zero)
  with eq show "((i', j', c'), i, j, c) \<in> measure (\<lambda>(i, j, c). unat i)" by simp
qed simp

declare ttl_loop.simps [simp del]

definition TTL_PREDICTOR :: "u_int8 \<Rightarrow> u_int8" where
  "TTL_PREDICTOR x =
     (case ttl_loop x 1 0 of (j, c) \<Rightarrow>
        if c = 1 then x else if j \<noteq> 0 then j else 0xff)"

text \<open>
  The number of binary digits of a number and how many of them are 1; the loop computes both.
\<close>

fun bit_len :: "nat \<Rightarrow> nat" where
  "bit_len n = (if n < 2 then 1 else Suc (bit_len (n div 2)))"

fun bit_ones :: "nat \<Rightarrow> nat" where
  "bit_ones n = n mod 2 + (if n < 2 then 0 else bit_ones (n div 2))"

declare bit_len.simps [simp del] bit_ones.simps [simp del]

lemma word_low_bit: "(i AND 1) = (of_nat (unat i mod 2) :: 'a::len word)"
proof -
  have "even i \<longleftrightarrow> even (unat i)"
    using bit_unsigned_iff [of i 0, where ?'a = nat] by (simp add: bit_0)
  then show ?thesis by (simp add: and_one_eq mod_2_eq_odd)
qed

lemma bit_len_bounds: "0 < n \<Longrightarrow> 2 ^ (bit_len n - 1) \<le> n \<and> n < 2 ^ bit_len n"
proof (induction n rule: bit_len.induct)
  case (1 n)
  show ?case
  proof (cases "n < 2")
    case True
    with 1 have "n = 1" by simp
    then show ?thesis by (simp add: bit_len.simps)
  next
    case False
    then have "2 ^ (bit_len (n div 2) - 1) \<le> n div 2 \<and> n div 2 < 2 ^ bit_len (n div 2)"
      using 1 by simp
    moreover obtain k where "bit_len (n div 2) = Suc k" by (metis bit_len.simps not0_implies_Suc zero_neq_one nat.simps(3))
    ultimately show ?thesis using False by (auto simp: bit_len.simps [of n])
  qed
qed

lemma bit_ones_le: "bit_ones n \<le> bit_len n"
  by (induction n rule: bit_len.induct) (subst bit_ones.simps, subst bit_len.simps, auto)

lemma bit_ones_eq_0: "bit_ones n = 0 \<longleftrightarrow> n = 0"
proof (induction n rule: bit_len.induct)
  case (1 n)
  then show ?case by (subst bit_ones.simps) (cases "n < 2"; auto)
qed

lemma bit_ones_eq_1: "0 < n \<Longrightarrow> bit_ones n = 1 \<longleftrightarrow> n = 2 ^ (bit_len n - 1)"
proof (induction n rule: bit_len.induct)
  case (1 n)
  show ?case
  proof (cases "n < 2")
    case True
    with 1 have "n = 1" by simp
    then show ?thesis by (simp add: bit_len.simps bit_ones.simps)
  next
    case False
    then have IH: "bit_ones (n div 2) = 1 \<longleftrightarrow> n div 2 = 2 ^ (bit_len (n div 2) - 1)"
      using 1 by simp
    obtain k where k: "bit_len (n div 2) = Suc k" by (metis bit_len.simps not0_implies_Suc zero_neq_one nat.simps(3))
    have "bit_ones (n div 2) \<noteq> 0" using False by (simp add: bit_ones_eq_0)
    then have "bit_ones n = 1 \<longleftrightarrow> even n \<and> bit_ones (n div 2) = 1"
      using False by (subst bit_ones.simps) (auto simp: even_iff_mod_2_eq_zero)
    also have "\<dots> \<longleftrightarrow> n = 2 ^ (bit_len n - 1)"
      using False k IH by (auto simp: bit_len.simps [of n])
    finally show ?thesis .
  qed
qed

lemma ttl_loop_eq:
  "ttl_loop i j c = (push_bit (bit_len (unat i)) j, c + of_nat (bit_ones (unat i)))"
proof (induction i j c rule: ttl_loop.induct)
  case (1 i j c)
  let ?i' = "drop_bit 1 i"
  have half: "unat ?i' = unat i div 2" by (simp add: drop_bit_eq_div unat_div)
  show ?case
  proof (cases "?i' = 0")
    case True
    with half have "unat i < 2" by simp
    then show ?thesis using True
      by (simp add: ttl_loop.simps [of i] Let_def bit_len.simps bit_ones.simps word_low_bit)
  next
    case False
    then have "\<not> unat i < 2" using half by (metis div_less unat_eq_zero)
    then show ?thesis using False 1 half
      by (simp add: ttl_loop.simps [of i] Let_def bit_len.simps [of "unat i"]
          bit_ones.simps [of "unat i"] word_low_bit push_bit_push_bit add_ac)
  qed
qed

text \<open>The specification: the smallest power of two that is not below a number.\<close>

definition next_power :: "nat \<Rightarrow> nat" where
  "next_power n = (LEAST p. n \<le> p \<and> (\<exists>k. p = 2 ^ k))"

lemma next_power_eq:
  assumes "0 < n"
  shows "next_power n = (if bit_ones n = 1 then n else 2 ^ bit_len n)"
proof (cases "bit_ones n = 1")
  case True
  then have "n = 2 ^ (bit_len n - 1)" using bit_ones_eq_1 [OF assms] by blast
  then have "next_power n = n"
    unfolding next_power_def by (intro Least_equality) (metis le_refl, simp)
  with True show ?thesis by simp
next
  case False
  have lt: "2 ^ (bit_len n - 1) < n" "n < 2 ^ bit_len n"
    using bit_len_bounds [OF assms] False bit_ones_eq_1 [OF assms] by auto
  have "next_power n = 2 ^ bit_len n"
    unfolding next_power_def
  proof (rule Least_equality)
    fix p :: nat
    assume "n \<le> p \<and> (\<exists>k. p = 2 ^ k)"
    then obtain k where "p = 2 ^ k" and "n \<le> 2 ^ k" by auto
    with lt(1) have "(2 :: nat) ^ (bit_len n - 1) < 2 ^ k" by (rule_tac less_le_trans)
    then have "bit_len n - 1 < k" by (rule power_less_imp_less_exp [rotated]) simp
    then have "bit_len n \<le> k" by simp
    with \<open>p = 2 ^ k\<close> show "2 ^ bit_len n \<le> p" by simp
  qed (use lt in auto)
  with False show ?thesis by simp
qed

lemma bit_len_byte:
  assumes "0 < n" and "n < 256"
  shows "bit_len n \<le> 8" and "bit_len n < 8 \<longleftrightarrow> n < 128"
proof -
  have "2 ^ (bit_len n - 1) < (2 ^ 8 :: nat)" using bit_len_bounds [OF assms(1)] assms(2) by simp
  then have "bit_len n - 1 < 8" by (rule power_less_imp_less_exp [rotated]) simp
  then show len: "bit_len n \<le> 8" by simp
  show "bit_len n < 8 \<longleftrightarrow> n < 128"
  proof (cases "bit_len n = 8")
    case True
    then show ?thesis using bit_len_bounds [OF assms(1)] by simp
  next
    case False
    with len have "2 ^ bit_len n \<le> (2 ^ 7 :: nat)" by (intro power_increasing) simp_all
    with False len bit_len_bounds [OF assms(1)] show ?thesis by simp
  qed
qed

lemma unat_push_bit_byte: "k \<le> 8 \<Longrightarrow> unat (push_bit k (1 :: u_int8)) = (if k < 8 then 2 ^ k else 0)"
proof -
  assume "k \<le> 8"
  then have "k = 0 \<or> k = 1 \<or> k = 2 \<or> k = 3 \<or> k = 4 \<or> k = 5 \<or> k = 6 \<or> k = 7 \<or> k = 8" by arith
  then show ?thesis by (auto simp: push_bit_eq_mult)
qed

text \<open>
  \<^verbatim>\<open>TTL_PREDICTOR\<close> rounds a TTL up to the next power of two, for all 256 values: from 129 on
  the result is 255, and a TTL of 0 becomes 2.
\<close>

lemma TTL_PREDICTOR_unat:
  "unat (TTL_PREDICTOR x) =
    (if x = 0 then 2 else if unat x \<le> 128 then next_power (unat x) else 255)"
proof (cases "x = 0")
  case True
  then show ?thesis
    by (simp add: TTL_PREDICTOR_def ttl_loop_eq bit_len.simps bit_ones.simps push_bit_eq_mult)
next
  case False
  let ?n = "unat x"
  have n: "0 < ?n" "?n < 256"
    using False unsigned_less [of x, where ?'a = nat] by (auto simp: unat_gt_0)
  note len = bit_len_byte [OF n]
  have "unat (of_nat (bit_ones ?n) :: u_int8) = bit_ones ?n"
    using bit_ones_le [of ?n] len(1) by (simp add: unsigned_of_nat take_bit_nat_eq_self_iff)
  then have ones: "(of_nat (bit_ones ?n) :: u_int8) = 1 \<longleftrightarrow> bit_ones ?n = 1"
    by (metis unat_1 word_unat_eq_iff)
  show ?thesis
  proof (cases "bit_ones ?n = 1")
    case True
    then have "?n = 2 ^ (bit_len ?n - 1)" using bit_ones_eq_1 [OF n(1)] by blast
    moreover have "(2 :: nat) ^ (bit_len ?n - 1) \<le> 2 ^ 7" using len(1) by (intro power_increasing) auto
    ultimately show ?thesis
      using True False ones by (simp add: TTL_PREDICTOR_def ttl_loop_eq next_power_eq n(1))
  next
    case ones': False
    then have "?n \<noteq> 2 ^ (bit_len ?n - 1)" using bit_ones_eq_1 [OF n(1)] by blast
    then have "bit_len ?n = 8 \<Longrightarrow> ?n \<noteq> 128" by auto
    then have range: "?n \<le> 128 \<longleftrightarrow> bit_len ?n < 8" using len by linarith
    note val = unat_push_bit_byte [OF len(1)]
    have "TTL_PREDICTOR x =
        (if push_bit (bit_len ?n) 1 \<noteq> (0 :: u_int8) then push_bit (bit_len ?n) 1 else 0xff)"
      using ones' ones by (simp add: TTL_PREDICTOR_def ttl_loop_eq)
    moreover have "push_bit (bit_len ?n) 1 = (0 :: u_int8) \<longleftrightarrow> \<not> bit_len ?n < 8"
      using val by (metis power_not_zero unat_eq_zero zero_neq_numeral)
    ultimately show ?thesis using val ones' False range by (auto simp: next_power_eq n(1))
  qed
qed

subsection \<open>The fingerprint of a connection\<close>

definition fingerprint_alloc :: string where
  "fingerprint_alloc = ''0000:_MSS:TT:WS:0:0:0:0:F:LT'' @ [NUL]"

definition fingerprint_destroy :: "string option \<Rightarrow> string option" where
  "fingerprint_destroy finger = None"

text \<open>\<^verbatim>\<open>snprintf(tmp, sizeof(tmp), ...)\<close> with \<^verbatim>\<open>char tmp[10]\<close>, then \<^verbatim>\<open>strncpy(finger + off, tmp, n)\<close>.\<close>

definition put_field :: "string \<Rightarrow> nat \<Rightarrow> string \<Rightarrow> nat \<Rightarrow> c_error + string" where
  "put_field finger off s n = store finger off (strncpy_bytes (take 9 s) n)"

fun fingerprint_push :: "string option \<Rightarrow> finger_param \<Rightarrow> int \<Rightarrow> c_error + string" where
  "fingerprint_push None param value = Inl (Exit_process ''finger_push used on NULL string !!'')"
| "fingerprint_push (Some finger) param value =
     (case param of
        FINGER_WINDOW \<Rightarrow> put_field finger 0 (fmt_X True 4 value) 4
      | FINGER_MSS \<Rightarrow> put_field finger 5 (fmt_X True 4 value) 4
      | FINGER_TTL \<Rightarrow> put_field finger 10 (fmt_X True 2 (uint (TTL_PREDICTOR (word_of_int value)))) 2
      | FINGER_WS \<Rightarrow> put_field finger 13 (fmt_X True 2 value) 2
      | FINGER_SACK \<Rightarrow> put_field finger 16 (fmt_d value) 1
      | FINGER_NOP \<Rightarrow> put_field finger 18 (fmt_d value) 1
      | FINGER_DF \<Rightarrow> put_field finger 20 (fmt_d value) 1
      | FINGER_TIMESTAMP \<Rightarrow> put_field finger 22 (fmt_d value) 1
      | FINGER_TCPFLAG \<Rightarrow>
          if value = 1 then put_field finger 24 ''A'' 1 else put_field finger 24 ''S'' 1
      | FINGER_LT \<Rightarrow>
          (let lt_old = strtoul16 (c_str (drop 26 finger)) in
           put_field finger 26 (fmt_X False 2 (value + lt_old)) 2))"

subsection \<open>The table of known fingerprints\<close>

record finger_entry =
  finger :: string
  os :: string

abbreviation (input) FINGER_TABBIT :: nat where
  "FINGER_TABBIT \<equiv> 7"

abbreviation (input) FINGER_TABSIZE :: nat where
  "FINGER_TABSIZE \<equiv> 2 ^ FINGER_TABBIT"

definition finger_index :: "string \<Rightarrow> nat" where
  "finger_index f = masked FINGER_TABBIT (fnv_32 (str_bytes (take FINGER_LEN f)) :: u_int32)"

definition finger_empty :: "finger_entry chains" where
  "finger_empty = replicate FINGER_TABSIZE []"

text \<open>\<^verbatim>\<open>LOAD_ENTRY\<close> (which copies 28 bytes of \<^verbatim>\<open>finger\<close>) and \<^verbatim>\<open>SLIST_INSERT_HEAD\<close>.\<close>

definition finger_insert :: "string \<Rightarrow> string \<Rightarrow> finger_entry chains \<Rightarrow> finger_entry chains" where
  "finger_insert f name tab =
     slist_insert_head tab (finger_index f) \<lparr>finger = take FINGER_LEN f, os = name\<rparr>"

text \<open>The chain search; \<^verbatim>\<open>!memcmp(l->finger, f, FINGER_LEN)\<close> on two buffers of 28 bytes.\<close>

definition finger_lookup :: "finger_entry chains \<Rightarrow> string \<Rightarrow> string option" where
  "finger_lookup tab f =
     map_option os
       (slist_find (\<lambda>l. memcmp (str_bytes (finger l)) (str_bytes f) FINGER_LEN = Inr 0)
         (tab ! finger_index f))"

definition fingerprint_search :: "finger_entry chains \<Rightarrow> string \<Rightarrow> c_error + string option" where
  "fingerprint_search tab f =
     (if FINGER_LEN \<le> length f then Inr (finger_lookup tab (take FINGER_LEN f))
      else Inl Out_of_bounds)"

definition fingerprint_discard :: "finger_entry chains \<Rightarrow> finger_entry chains" where
  "fingerprint_discard tab = discard_all tab"

text \<open>
  The loop over the file. The arrays \<^verbatim>\<open>finger\<close> (29 bytes) and \<^verbatim>\<open>os\<close> (61 bytes) live across the
  iterations and start with arbitrary contents, so they are part of the state.
\<close>

record loader =
  l_tab :: "finger_entry chains"
  l_finger :: string
  l_os :: string
  l_count :: nat

definition load_line :: "string \<Rightarrow> loader \<Rightarrow> c_error + loader" where
  "load_line line s =
     (let text = takeWhile (\<lambda>c. c \<noteq> CHR ''#'') (c_str line) in
      if length text = 0 then Inr s
      else
        bindE (strlcpy (l_finger s) text FINGER_LEN) (\<lambda>(fb, _).
        bindE (strlcpy (l_os s) text OS_LEN) (\<lambda>(ob, _).
          Inr (s\<lparr>l_tab := finger_insert fb (c_str ob) (l_tab s), l_finger := fb, l_os := ob,
                 l_count := l_count s + 1\<rparr>))))"

fun load_lines :: "string list \<Rightarrow> loader \<Rightarrow> c_error + loader" where
  "load_lines [] s = Inr s"
| "load_lines (line # lines) s = bindE (load_line line s) (\<lambda>s. load_lines lines s)"

definition fingerprint_init ::
  "string \<Rightarrow> string \<Rightarrow> file_system \<Rightarrow> string \<Rightarrow> string \<Rightarrow> c_error + (finger_entry chains \<times> nat)" where
  "fingerprint_init finger0 os0 fs prefix program =
     bindE (open_data fs prefix program ''tcp-fingerprints'') (\<lambda>content.
     bindE (load_lines (file_lines 128 content)
              \<lparr>l_tab = finger_empty, l_finger = finger0, l_os = os0, l_count = 0\<rparr>) (\<lambda>s.
       Inr (l_tab s, l_count s)))"

subsection \<open>The table is a key database\<close>

lemma finger_index_less: "finger_index f < FINGER_TABSIZE"
  using masked_less [of FINGER_TABBIT] by (auto simp: finger_index_def)

interpretation fingers: key_database finger_empty finger_insert finger_lookup fingerprint_discard
    "\<lambda>t. length t = FINGER_TABSIZE" "\<lambda>f. length f = FINGER_LEN"
proof unfold_locales
  fix t :: "finger_entry chains" and k j v :: string
  assume "length t = FINGER_TABSIZE" and "length k = FINGER_LEN" and "length j = FINGER_LEN"
  then show "finger_lookup (finger_insert k v t) j = (if j = k then Some v else finger_lookup t j)"
    using finger_index_less [of k]
    by (auto simp: finger_lookup_def finger_insert_def nth_slist_insert_head memcmp_zero_iff)
qed (use finger_index_less in \<open>auto simp: finger_empty_def finger_lookup_def finger_insert_def
       fingerprint_discard_def discard_all_def\<close>)

subsection \<open>The fingerprint as a record\<close>

text \<open>
  What a fingerprint says, field by field (\<^verbatim>\<open>WWWW:_MSS:TT:WS:S:N:D:T:F:LT\<close>), and its text.
  \<^term>\<open>None\<close> is a field that has not been pushed.
\<close>

record finfo =
  f_window :: nat
  f_mss :: "nat option"
  f_ttl :: "nat option"
  f_ws :: "nat option"
  f_sack :: nat
  f_nop :: nat
  f_df :: nat
  f_timestamp :: nat
  f_ack :: "bool option"
  f_lt :: "nat option"

definition finfo_start :: finfo where
  "finfo_start = \<lparr>f_window = 0, f_mss = None, f_ttl = None, f_ws = None, f_sack = 0, f_nop = 0,
     f_df = 0, f_timestamp = 0, f_ack = None, f_lt = None\<rparr>"

definition finfo_wf :: "finfo \<Rightarrow> bool" where
  "finfo_wf f \<longleftrightarrow>
     f_window f < 65536 \<and> pred_option (\<lambda>n. n < 65536) (f_mss f) \<and>
     pred_option (\<lambda>n. n < 256) (f_ttl f) \<and> pred_option (\<lambda>n. n < 256) (f_ws f) \<and>
     f_sack f < 10 \<and> f_nop f < 10 \<and> f_df f < 10 \<and> f_timestamp f < 10 \<and>
     pred_option (\<lambda>n. n < 256) (f_lt f)"

definition opt_hex :: "bool \<Rightarrow> nat \<Rightarrow> string \<Rightarrow> nat option \<Rightarrow> string" where
  "opt_hex u w d v = (case v of None \<Rightarrow> d | Some n \<Rightarrow> fmt_X u w (int n))"

definition flag_text :: "bool option \<Rightarrow> string" where
  "flag_text a = (case a of None \<Rightarrow> ''F'' | Some True \<Rightarrow> ''A'' | Some False \<Rightarrow> ''S'')"

definition render :: "finfo \<Rightarrow> string" where
  "render f =
     fmt_X True 4 (int (f_window f)) @ '':'' @ opt_hex True 4 ''_MSS'' (f_mss f) @ '':'' @
     opt_hex True 2 ''TT'' (f_ttl f) @ '':'' @ opt_hex True 2 ''WS'' (f_ws f) @ '':'' @
     fmt_d (int (f_sack f)) @ '':'' @ fmt_d (int (f_nop f)) @ '':'' @ fmt_d (int (f_df f)) @ '':'' @
     fmt_d (int (f_timestamp f)) @ '':'' @ flag_text (f_ack f) @ '':'' @
     opt_hex False 2 ''LT'' (f_lt f)"

definition rounded_ttl :: "nat \<Rightarrow> nat" where
  "rounded_ttl v = (if v = 0 then 2 else if v \<le> 128 then next_power v else 255)"

definition finfo_push :: "finfo \<Rightarrow> finger_param \<Rightarrow> nat \<Rightarrow> finfo" where
  "finfo_push f p v =
     (case p of
        FINGER_WINDOW \<Rightarrow> f\<lparr>f_window := v\<rparr>
      | FINGER_MSS \<Rightarrow> f\<lparr>f_mss := Some v\<rparr>
      | FINGER_TTL \<Rightarrow> f\<lparr>f_ttl := Some (rounded_ttl v)\<rparr>
      | FINGER_WS \<Rightarrow> f\<lparr>f_ws := Some v\<rparr>
      | FINGER_SACK \<Rightarrow> f\<lparr>f_sack := v\<rparr>
      | FINGER_NOP \<Rightarrow> f\<lparr>f_nop := v\<rparr>
      | FINGER_DF \<Rightarrow> f\<lparr>f_df := (if v = 0x4000 then 1 else v)\<rparr>
      | FINGER_TIMESTAMP \<Rightarrow> f\<lparr>f_timestamp := v\<rparr>
      | FINGER_TCPFLAG \<Rightarrow> f\<lparr>f_ack := Some (v = 1)\<rparr>
      | FINGER_LT \<Rightarrow> f\<lparr>f_lt := Some (v + (case f_lt f of None \<Rightarrow> 0 | Some n \<Rightarrow> n))\<rparr>)"

text \<open>
  The values that fit into the field of a parameter. The IP decoder pushes the flag \<^verbatim>\<open>IP_DF\<close> as it
  is, 0x4000, and the field keeps the first of its decimal digits.
\<close>

definition finfo_fits :: "finfo \<Rightarrow> finger_param \<Rightarrow> nat \<Rightarrow> bool" where
  "finfo_fits f p v =
     (case p of
        FINGER_WINDOW \<Rightarrow> v < 65536
      | FINGER_MSS \<Rightarrow> v < 65536
      | FINGER_TTL \<Rightarrow> v < 256
      | FINGER_WS \<Rightarrow> v < 256
      | FINGER_SACK \<Rightarrow> v < 10
      | FINGER_NOP \<Rightarrow> v < 10
      | FINGER_DF \<Rightarrow> v < 10 \<or> v = 0x4000
      | FINGER_TIMESTAMP \<Rightarrow> v < 10
      | FINGER_TCPFLAG \<Rightarrow> True
      | FINGER_LT \<Rightarrow> v + (case f_lt f of None \<Rightarrow> 0 | Some n \<Rightarrow> n) < 256)"

lemma length_opt_hex [fmt_len]:
  assumes "pred_option (\<lambda>n. n < 16 ^ w) v" and "0 < w" and "w \<le> 8" and "length d = w"
  shows "length (opt_hex u w d v) = w"
proof (cases v)
  case (Some n)
  with assms(1) have "int n < 16 ^ w" by simp
  with Some assms(2,3) show ?thesis by (simp add: opt_hex_def length_fmt_X)
qed (use assms in \<open>simp add: opt_hex_def\<close>)

lemma length_flag_text [fmt_len]: "length (flag_text a) = 1"
  by (auto simp: flag_text_def split: option.splits bool.splits)

lemma fmt_d_digit: "n < 10 \<Longrightarrow> fmt_d (int n) = [hex_digit True n]"
  by (simp add: fmt_d_def decs.simps)

lemma put_field_eq:
  assumes "off + n \<le> length x" and "length s = n" and "n \<le> 9"
  shows "put_field x off s n = Inr (take off x @ s @ drop (off + n) x)"
  using assms by (auto simp: put_field_def store_def strncpy_bytes_take overwrite_def)

lemma render_lengths:
  assumes "finfo_wf f"
  shows "length (fmt_X True 4 (int (f_window f))) = 4"
    and "length (opt_hex True 4 ''_MSS'' (f_mss f)) = 4"
    and "length (opt_hex True 2 ''TT'' (f_ttl f)) = 2"
    and "length (opt_hex True 2 ''WS'' (f_ws f)) = 2"
    and "length (fmt_d (int (f_sack f))) = 1" and "length (fmt_d (int (f_nop f))) = 1"
    and "length (fmt_d (int (f_df f))) = 1" and "length (fmt_d (int (f_timestamp f))) = 1"
    and "length (opt_hex False 2 ''LT'' (f_lt f)) = 2"
  using assms by (simp_all add: finfo_wf_def fmt_len fmt_d_digit)

lemma length_render: "finfo_wf f \<Longrightarrow> length (render f) = FINGER_LEN"
  by (simp add: render_def render_lengths length_flag_text)

lemma render_no_NUL: "NUL \<notin> set (render f)"
  by (auto simp: render_def opt_hex_def flag_text_def split: option.splits bool.splits)

lemma fingerprint_alloc_render: "fingerprint_alloc = render finfo_start @ [NUL]"
  by (simp add: fingerprint_alloc_def render_def finfo_start_def opt_hex_def flag_text_def
      fmt_X_def fmt_d_def pad0_def hexs.simps decs.simps hex_digit_def numeral_eq_Suc)

lemma finfo_wf_start: "finfo_wf finfo_start"
  by (simp add: finfo_wf_def finfo_start_def)

lemma next_power_range: "0 < n \<Longrightarrow> n \<le> 128 \<Longrightarrow> next_power n \<le> 128"
  unfolding next_power_def by (rule Least_le) (auto intro: exI [of _ 7])

lemma finfo_wf_push:
  assumes "finfo_wf f" and "finfo_fits f p v"
  shows "finfo_wf (finfo_push f p v)"
  using assms next_power_range [of v]
  by (cases p) (auto simp: finfo_wf_def finfo_push_def finfo_fits_def rounded_ttl_def)

lemma strtoul16_LT:
  assumes "finfo_wf f"
  shows "strtoul16 (c_str (opt_hex False 2 ''LT'' (f_lt f) @ [NUL])) =
    (case f_lt f of None \<Rightarrow> 0 | Some n \<Rightarrow> int n)"
proof (cases "f_lt f")
  case None
  then show ?thesis
    by (simp add: opt_hex_def c_str_def strtoul16_def is_space_def drop_0x_def hex_value_def)
next
  case (Some n)
  with assms have n: "n < 256" by (simp add: finfo_wf_def)
  have "NUL \<notin> set (pad0 2 (hexs False n))"
    by (rule pad2_no_NUL)
  with n Some show ?thesis
    by (simp add: opt_hex_def fmt_X_def c_str_append_NUL strtoul16_pad2)
qed

lemma drop_26_render:
  "finfo_wf f \<Longrightarrow> drop 26 (render f @ [NUL]) = opt_hex False 2 ''LT'' (f_lt f) @ [NUL]"
  by (simp add: render_def render_lengths length_flag_text drop_append)

lemma uint_TTL_PREDICTOR:
  assumes "v < 256"
  shows "uint (TTL_PREDICTOR (word_of_nat v)) = int (rounded_ttl v)"
proof -
  define x where "x = (word_of_nat v :: u_int8)"
  have v: "unat x = v"
    using assms unfolding x_def by (simp add: unsigned_of_nat take_bit_nat_eq_self_iff)
  then have "x = 0 \<longleftrightarrow> v = 0" using unat_eq_zero [of x] by simp
  then have "unat (TTL_PREDICTOR x) = rounded_ttl v"
    using TTL_PREDICTOR_unat [of x] v by (simp add: rounded_ttl_def)
  then show ?thesis unfolding x_def by (simp add: uint_nat)
qed

lemma length_fmt_X_int [fmt_len]:
  "n < 16 ^ w \<Longrightarrow> 0 < w \<Longrightarrow> w \<le> 8 \<Longrightarrow> length (fmt_X u w (int n)) = w"
  by (simp add: length_fmt_X)

text \<open>What each field's \<^verbatim>\<open>sprintf\<close> produces and where it is stored.\<close>

definition field_offset :: "finger_param \<Rightarrow> nat" where
  "field_offset p =
     (case p of FINGER_WINDOW \<Rightarrow> 0 | FINGER_MSS \<Rightarrow> 5 | FINGER_TTL \<Rightarrow> 10 | FINGER_WS \<Rightarrow> 13
      | FINGER_SACK \<Rightarrow> 16 | FINGER_NOP \<Rightarrow> 18 | FINGER_DF \<Rightarrow> 20 | FINGER_TIMESTAMP \<Rightarrow> 22
      | FINGER_TCPFLAG \<Rightarrow> 24 | FINGER_LT \<Rightarrow> 26)"

definition field_text :: "finger_param \<Rightarrow> finfo \<Rightarrow> string" where
  "field_text p f =
     (case p of FINGER_WINDOW \<Rightarrow> fmt_X True 4 (int (f_window f))
      | FINGER_MSS \<Rightarrow> opt_hex True 4 ''_MSS'' (f_mss f)
      | FINGER_TTL \<Rightarrow> opt_hex True 2 ''TT'' (f_ttl f)
      | FINGER_WS \<Rightarrow> opt_hex True 2 ''WS'' (f_ws f)
      | FINGER_SACK \<Rightarrow> fmt_d (int (f_sack f)) | FINGER_NOP \<Rightarrow> fmt_d (int (f_nop f))
      | FINGER_DF \<Rightarrow> fmt_d (int (f_df f)) | FINGER_TIMESTAMP \<Rightarrow> fmt_d (int (f_timestamp f))
      | FINGER_TCPFLAG \<Rightarrow> flag_text (f_ack f) | FINGER_LT \<Rightarrow> opt_hex False 2 ''LT'' (f_lt f))"

definition field_width :: "finger_param \<Rightarrow> nat" where
  "field_width p =
     (case p of FINGER_WINDOW \<Rightarrow> 4 | FINGER_MSS \<Rightarrow> 4 | FINGER_TTL \<Rightarrow> 2 | FINGER_WS \<Rightarrow> 2
      | FINGER_SACK \<Rightarrow> 1 | FINGER_NOP \<Rightarrow> 1 | FINGER_DF \<Rightarrow> 1 | FINGER_TIMESTAMP \<Rightarrow> 1
      | FINGER_TCPFLAG \<Rightarrow> 1 | FINGER_LT \<Rightarrow> 2)"

lemma length_field_text: "finfo_wf f \<Longrightarrow> length (field_text p f) = field_width p"
  by (cases p) (simp_all add: field_text_def field_width_def render_lengths length_flag_text)

lemma field_text_other: "q \<noteq> p \<Longrightarrow> field_text q (finfo_push f p v) = field_text q f"
  by (cases p; cases q) (simp_all add: field_text_def finfo_push_def)

lemma render_fields:
  "render f = field_text FINGER_WINDOW f @ '':'' @ field_text FINGER_MSS f @ '':'' @
     field_text FINGER_TTL f @ '':'' @ field_text FINGER_WS f @ '':'' @ field_text FINGER_SACK f @
     '':'' @ field_text FINGER_NOP f @ '':'' @ field_text FINGER_DF f @ '':'' @
     field_text FINGER_TIMESTAMP f @ '':'' @ field_text FINGER_TCPFLAG f @ '':'' @
     field_text FINGER_LT f"
  by (simp add: render_def field_text_def)

lemma replace_field:
  assumes "finfo_wf f" and "finfo_wf (finfo_push f p v)"
  shows "put_field (render f @ [NUL]) (field_offset p) (field_text p (finfo_push f p v)) (field_width p)
    = Inr (render (finfo_push f p v) @ [NUL])"
  using put_field_eq [of "field_offset p" "field_width p" "render f @ [NUL]"
      "field_text p (finfo_push f p v)"]
    length_render [OF assms(1)] length_field_text [OF assms(2), of p]
    length_field_text [OF assms(1)]
  by (cases p)
     (simp_all add: field_offset_def field_width_def render_fields field_text_other)

lemma put_field_DF: "put_field x 20 (fmt_d 0x4000) 1 = put_field x 20 (fmt_d 1) 1"
  by (simp add: put_field_def fmt_d_def decs.simps hex_digit_def strncpy_bytes_def)

lemma fingerprint_push_eq:
  assumes "finfo_wf f" and "finfo_fits f p v"
  shows "fingerprint_push (Some (render f @ [NUL])) p (int v) = Inr (render (finfo_push f p v) @ [NUL])"
proof -
  have lt: "strtoul16 (c_str (drop 26 (render f @ [NUL]))) =
      (case f_lt f of None \<Rightarrow> 0 | Some n \<Rightarrow> int n)"
    by (simp only: drop_26_render strtoul16_LT assms(1))
  have "fingerprint_push (Some (render f @ [NUL])) p (int v) =
      put_field (render f @ [NUL]) (field_offset p) (field_text p (finfo_push f p v)) (field_width p)"
    using assms(2) lt
    by (cases p) (auto simp: field_offset_def field_text_def field_width_def finfo_push_def
        finfo_fits_def opt_hex_def flag_text_def uint_TTL_PREDICTOR Let_def add.commute
        put_field_DF [unfolded One_nat_def] simp del: drop_append split: option.splits)
  also have "\<dots> = Inr (render (finfo_push f p v) @ [NUL])"
    by (rule replace_field) (use assms finfo_wf_push in blast)+
  finally show ?thesis .
qed

text \<open>
  C10: Pushing a value into the 29 byte buffer of a connection does to the text exactly what setting
  the field does to the record: it overwrites the characters of that field, keeps every other
  field and the terminating NUL, rounds a TTL up to a power of two and adds to the option length
  that is already there. It holds for every value that fits into its field.
\<close>

theorem fingerprint_push_refines:
  assumes "finfo_wf f" and "finfo_fits f p v"
  shows "fingerprint_push (Some (render f @ [NUL])) p (int v) = Inr (render (finfo_push f p v) @ [NUL]) \<and>
    finfo_wf (finfo_push f p v) \<and> length (render f @ [NUL]) = FINGER_LEN + 1"
  using assms fingerprint_push_eq finfo_wf_push length_render by simp

subsection \<open>What the loader puts into the table\<close>

text \<open>
  The buffer \<^verbatim>\<open>finger\<close> after \<^verbatim>\<open>strlcpy(finger, line, FINGER_LEN)\<close> has a NUL among its first 28
  characters, so no fingerprint of 28 characters is ever stored.
\<close>

definition no_full_key :: "finger_entry chains \<Rightarrow> bool" where
  "no_full_key tab \<longleftrightarrow> length tab = FINGER_TABSIZE \<and>
     (\<forall>ls \<in> set tab. \<forall>l \<in> set ls. length (finger l) = FINGER_LEN \<and> NUL \<in> set (finger l))"

definition text_of_line :: "string \<Rightarrow> string" where
  "text_of_line line = takeWhile (\<lambda>c. c \<noteq> CHR ''#'') (c_str line)"

lemma no_full_key_empty: "no_full_key finger_empty"
  by (simp add: no_full_key_def finger_empty_def)

lemma no_full_key_insert:
  assumes "no_full_key tab" and "NUL \<in> set (take FINGER_LEN f)" and "FINGER_LEN \<le> length f"
  shows "no_full_key (finger_insert f name tab)"
proof -
  have "set (finger_insert f name tab) \<subseteq>
      insert (\<lparr>finger = take FINGER_LEN f, os = name\<rparr> # tab ! finger_index f) (set tab)"
    unfolding finger_insert_def slist_insert_head_def by (rule set_update_subset_insert)
  moreover have "tab ! finger_index f \<in> set tab"
    using assms(1) finger_index_less [of f] by (auto simp: no_full_key_def)
  ultimately show ?thesis using assms
    by (fastforce simp: no_full_key_def finger_insert_def)
qed

lemma slist_find_None: "\<forall>l \<in> set ls. \<not> P l \<Longrightarrow> slist_find P ls = None"
  by (induction ls) auto

lemma no_full_key_search:
  assumes "no_full_key tab" and "FINGER_LEN \<le> length f" and "NUL \<notin> set (take FINGER_LEN f)"
  shows "fingerprint_search tab f = Inr None"
proof -
  have "memcmp (str_bytes (finger l)) (str_bytes (take FINGER_LEN f)) FINGER_LEN \<noteq> Inr 0"
    if "NUL \<in> set (finger l)" and "length (finger l) = FINGER_LEN" for l
  proof
    assume "memcmp (str_bytes (finger l)) (str_bytes (take FINGER_LEN f)) FINGER_LEN = Inr 0"
    then have "finger l = take FINGER_LEN f"
      using that(2) assms(2) by (simp add: memcmp_zero_iff)
    with that(1) assms(3) show False by simp
  qed
  moreover have "tab ! finger_index (take FINGER_LEN f) \<in> set tab"
    using assms(1) finger_index_less by (simp add: no_full_key_def)
  ultimately have "finger_lookup tab (take FINGER_LEN f) = None"
    using assms(1) unfolding finger_lookup_def no_full_key_def
    by (subst slist_find_None) auto
  with assms(2) show ?thesis by (simp add: fingerprint_search_def)
qed

lemma load_line_ok:
  assumes "no_full_key (l_tab s)" and "length (l_finger s) = 29" and "length (l_os s) = 61"
  shows "\<exists>s'. load_line line s = Inr s' \<and> no_full_key (l_tab s') \<and> length (l_finger s') = 29 \<and>
    length (l_os s') = 61 \<and>
    l_count s' = l_count s + (if text_of_line line = [] then 0 else 1)"
proof (cases "text_of_line line = []")
  case True
  then show ?thesis using assms by (simp add: load_line_def text_of_line_def)
next
  case False
  let ?fb = "overwrite (l_finger s) 0 (take 27 (text_of_line line) @ [NUL])"
  have "NUL \<in> set (take FINGER_LEN ?fb)" by (auto simp: overwrite_def take_Cons')
  moreover have "length ?fb = 29" using assms(2) by simp
  ultimately show ?thesis
    using False assms by (simp add: load_line_def text_of_line_def Let_def strlcpy_eq no_full_key_insert)
qed

lemma load_lines_ok:
  assumes "no_full_key (l_tab s)" and "length (l_finger s) = 29" and "length (l_os s) = 61"
  shows "\<exists>s'. load_lines lines s = Inr s' \<and> no_full_key (l_tab s') \<and>
    l_count s' = l_count s + length (filter (\<lambda>l. text_of_line l \<noteq> []) lines)"
  using assms
proof (induction lines arbitrary: s)
  case (Cons line lines)
  obtain s1 where s1: "load_line line s = Inr s1" "no_full_key (l_tab s1)" "length (l_finger s1) = 29"
    "length (l_os s1) = 61" "l_count s1 = l_count s + (if text_of_line line = [] then 0 else 1)"
    using load_line_ok [OF Cons.prems] by blast
  then show ?case using Cons.IH [of s1] by auto
qed simp

text \<open>
  C24: Loading a fingerprint file succeeds and counts its non-empty lines, but no search for a
  complete fingerprint finds anything in the loaded table, whatever the file says:
  \<^verbatim>\<open>strlcpy(finger, line, FINGER_LEN)\<close> keeps 27 of the 28 characters.
\<close>

theorem fingerprint_init_search_misses:
  assumes "open_data fs prefix program ''tcp-fingerprints'' = Inr content"
    and "length finger0 = 29" and "length os0 = 61"
  shows "\<exists>tab. fingerprint_init finger0 os0 fs prefix program =
      Inr (tab, length (filter (\<lambda>l. text_of_line l \<noteq> []) (file_lines 128 content))) \<and>
    (\<forall>f. FINGER_LEN \<le> length f \<and> NUL \<notin> set (take FINGER_LEN f) \<longrightarrow>
       fingerprint_search tab f = Inr None)"
  using load_lines_ok [of "\<lparr>l_tab = finger_empty, l_finger = finger0, l_os = os0, l_count = 0\<rparr>"
      "file_lines 128 content"] assms no_full_key_empty
  by (auto simp: fingerprint_init_def no_full_key_search)

lemma fingerprint_push_refines_witness:
  "fingerprint_push (Some (render finfo_start @ [NUL])) FINGER_MSS 1460 =
    Inr (render (finfo_push finfo_start FINGER_MSS 1460) @ [NUL])"
  using fingerprint_push_refines [of finfo_start FINGER_MSS 1460] finfo_wf_start
  by (simp add: finfo_fits_def)

definition sample_fs :: file_system where
  "sample_fs = [''../share/tcp-fingerprints'' \<mapsto> ''16D0:05B4:40:00:1:0:1:1:A:2C:Linux'']"

lemma sample_fs_open:
  "open_data sample_fs ''/usr/share'' ''lmap'' ''tcp-fingerprints'' =
    Inr ''16D0:05B4:40:00:1:0:1:1:A:2C:Linux''"
  by (simp add: open_data_def get_full_path_def get_local_path_def sprintf_into_def overwrite_def
      c_str_def sample_fs_def)

lemma fingerprint_init_search_misses_witness:
  "\<exists>tab n. fingerprint_init (replicate 29 NUL) (replicate 61 NUL) sample_fs ''/usr/share'' ''lmap'' =
      Inr (tab, n) \<and>
    fingerprint_search tab ''16D0:05B4:40:00:1:0:1:1:A:2C'' = Inr None"
proof -
  have full: "FINGER_LEN \<le> length ''16D0:05B4:40:00:1:0:1:1:A:2C'' \<and>
      NUL \<notin> set (take FINGER_LEN ''16D0:05B4:40:00:1:0:1:1:A:2C'')"
    by simp
  obtain tab n where tab: "fingerprint_init (replicate 29 NUL) (replicate 61 NUL) sample_fs
        ''/usr/share'' ''lmap'' = Inr (tab, n)"
    and miss: "\<forall>f. FINGER_LEN \<le> length f \<and> NUL \<notin> set (take FINGER_LEN f) \<longrightarrow>
      fingerprint_search tab f = Inr None"
    using fingerprint_init_search_misses [OF sample_fs_open, of "replicate 29 NUL" "replicate 61 NUL"]
    by (metis length_replicate)
  from tab miss [rule_format, OF full] show ?thesis by blast
qed

declare fingerprint_push.simps(2) [simp del]

end
