(* ===== verification/Decoders.thy ===== *)
theory Decoders
  imports Table Stat Bucket Fingerprint
begin

text \<open>
  The protocol decoders \<^verbatim>\<open>src/lmap_decoder_*.c\<close>, except the one for TCP. A decoder looks at the bytes
  of the captured packet from a position on, stores what it finds into the bucket, says how many
  bytes it has decoded, and returns the next decoder.
\<close>

subsection \<open>What a decoder works on\<close>

text \<open>The functions of the type \<^verbatim>\<open>FUNC_DECODER_PTR\<close> that the program has.\<close>

datatype decoder =
    Decode_eth | Decode_wifi | Decode_arp | Decode_ip | Decode_ip6 | Decode_icmp | Decode_icmp6
  | Decode_udp | Decode_tcp | Decode_dhcpd | Decode_dhcpc

text \<open>
  What does not change while a packet is decoded: the byte order and the pointer width of the host,
  the C library, the table of decoders, the bytes of the packet and its address in memory.
\<close>

record config =
  byte_order :: endian
  lp64 :: bool
  c_lib :: libc
  decoder_table :: "decoder table"
  packet :: bytes
  packet_addr :: int

record env =
  stat_state :: stats
  ui :: ui_state
  bkt :: bucket

type_synonym outcome = "c_error + (decoder option \<times> int \<times> env)"

definition user_msg :: "config \<Rightarrow> string \<Rightarrow> env \<Rightarrow> c_error + env" where
  "user_msg c m e = bindE (ui_msg (c_lib c) m (ui e)) (\<lambda>u. Inr (e\<lparr>ui := u\<rparr>))"

definition count :: "string \<Rightarrow> env \<Rightarrow> env" where
  "count t e = e\<lparr>stat_state := update_stat t 1 (stat_state e)\<rparr>"

text \<open>Stores through the pointers \<^verbatim>\<open>BUCKET->L2\<close>, \<^verbatim>\<open>BUCKET->L3\<close> and \<^verbatim>\<open>BUCKET->L4\<close>.\<close>

definition with_L2 :: "(L2_info \<Rightarrow> c_error + L2_info) \<Rightarrow> env \<Rightarrow> c_error + env" where
  "with_L2 f e = bindE (deref (L2 (bkt e))) (\<lambda>l. bindE (f l) (\<lambda>l'. Inr (e\<lparr>bkt := (bkt e)\<lparr>L2 := Some l'\<rparr>\<rparr>)))"

definition with_L3 :: "(L3_info \<Rightarrow> c_error + L3_info) \<Rightarrow> env \<Rightarrow> c_error + env" where
  "with_L3 f e = bindE (deref (L3 (bkt e))) (\<lambda>l. bindE (f l) (\<lambda>l'. Inr (e\<lparr>bkt := (bkt e)\<lparr>L3 := Some l'\<rparr>\<rparr>)))"

definition with_L4 :: "(L4_info \<Rightarrow> c_error + L4_info) \<Rightarrow> env \<Rightarrow> c_error + env" where
  "with_L4 f e = bindE (deref (L4 (bkt e))) (\<lambda>l. bindE (f l) (\<lambda>l'. Inr (e\<lparr>bkt := (bkt e)\<lparr>L4 := Some l'\<rparr>\<rparr>)))"

definition next_decoder :: "config \<Rightarrow> layer \<Rightarrow> int \<Rightarrow> decoder option" where
  "next_decoder c lv t = get_decoder (decoder_table c) lv t"

definition net16 :: "config \<Rightarrow> nat \<Rightarrow> c_error + u_int16" where
  "net16 c i = bindE (rd16 (byte_order c) (packet c) i) (\<lambda>w. Inr (ntohs (byte_order c) w))"

text \<open>The types of \<^verbatim>\<open>include/lmap_decode.h\<close>.\<close>

abbreviation (input) LI_TYPE_ETH :: int where "LI_TYPE_ETH \<equiv> 1"
abbreviation (input) LI_TYPE_WIFI :: int where "LI_TYPE_WIFI \<equiv> 105"
abbreviation (input) LL_TYPE_IP :: int where "LL_TYPE_IP \<equiv> 0x0800"
abbreviation (input) LL_TYPE_IP6 :: int where "LL_TYPE_IP6 \<equiv> 0x86DD"
abbreviation (input) LL_TYPE_ARP :: int where "LL_TYPE_ARP \<equiv> 0x0806"
abbreviation (input) LN_TYPE_ICMP :: int where "LN_TYPE_ICMP \<equiv> 0x01"
abbreviation (input) LN_TYPE_ICMP6 :: int where "LN_TYPE_ICMP6 \<equiv> 0x3a"
abbreviation (input) LN_TYPE_TCP :: int where "LN_TYPE_TCP \<equiv> 0x06"
abbreviation (input) LN_TYPE_UDP :: int where "LN_TYPE_UDP \<equiv> 0x11"
abbreviation (input) LP_TYPE_DHCPD :: int where "LP_TYPE_DHCPD \<equiv> 0x43"
abbreviation (input) LP_TYPE_DHCPC :: int where "LP_TYPE_DHCPC \<equiv> 0x44"

subsection \<open>Ethernet and wireless frames\<close>

definition decode_eth :: "config \<Rightarrow> nat \<Rightarrow> u_int16 \<Rightarrow> env \<Rightarrow> outcome" where
  "decode_eth c pos buflen e =
     (let e = count ''TOTAL'' e in
      bindE (with_L2 (\<lambda>l.
        bindE (rd_bytes (packet c) (pos + 6) 6) (\<lambda>sha.
        bindE (rd_bytes (packet c) pos 6) (\<lambda>dha.
        Inr (l\<lparr>mac_src := sha, mac_dst := dha\<rparr>)))) e) (\<lambda>e.
      bindE (net16 c (pos + 12)) (\<lambda>proto.
      Inr (next_decoder c NET_LAYER (uint proto), 14, e))))"

abbreviation (input) WIFI_DATA :: u_int16 where "WIFI_DATA \<equiv> 0x0802"
abbreviation (input) WIFI_BACON :: u_int16 where "WIFI_BACON \<equiv> 0x0800"

definition decode_wifi :: "config \<Rightarrow> nat \<Rightarrow> u_int16 \<Rightarrow> env \<Rightarrow> outcome" where
  "decode_wifi c pos buflen e =
     (let e = count ''TOTAL'' e in
      bindE (with_L2 (\<lambda>l.
        bindE (rd_bytes (packet c) (pos + 10) 6) (\<lambda>sha.
        bindE (rd_bytes (packet c) (pos + 4) 6) (\<lambda>dha.
        Inr (l\<lparr>mac_src := sha, mac_dst := dha\<rparr>)))) e) (\<lambda>e.
      bindE (net16 c pos) (\<lambda>t.
      if t = WIFI_DATA then
        bindE (net16 c (pos + 24 + 6)) (\<lambda>ll_type.
        Inr (next_decoder c NET_LAYER (uint ll_type), 24 + 8, e))
      else if t = WIFI_BACON then Inr (None, uint buflen, e)
      else Inr (None, 24, e))))"

subsection \<open>ARP\<close>

definition arp_addrs :: "config \<Rightarrow> nat \<Rightarrow> int \<Rightarrow> L3_info \<Rightarrow> c_error + L3_info" where
  "arp_addrs c earp t l =
     bindE (ip_addr_init (ip_src l) t (drop (earp + 6) (packet c))) (\<lambda>(_, src).
     bindE (ip_addr_init (ip_dst l) t (drop (earp + 16) (packet c))) (\<lambda>(_, dst).
     Inr (l\<lparr>ip_src := src, ip_dst := dst\<rparr>)))"

definition decode_arp :: "config \<Rightarrow> nat \<Rightarrow> u_int16 \<Rightarrow> env \<Rightarrow> outcome" where
  "decode_arp c pos buflen e =
     (let e = count ''ARP'' e in
      bindE (rd8 (packet c) (pos + 4)) (\<lambda>hln.
      bindE (rd8 (packet c) (pos + 5)) (\<lambda>pln.
      let len = 8 + 2 * (uint hln + uint pln) in
      bindE (with_L3 (\<lambda>l. Inr (l\<lparr>l3_proto := htons (byte_order c) 0x0806, ttl := 1\<rparr>)) e) (\<lambda>e.
      bindE (if hln = 6 \<and> pln = 4 then with_L3 (arp_addrs c (pos + 8) AF_INET) e else Inr e) (\<lambda>e.
      bindE (if hln = 6 \<and> pln = 16 then with_L3 (arp_addrs c (pos + 8) AF_INET6) e else Inr e) (\<lambda>e.
      Inr (None, len, e)))))))"

subsection \<open>IPv4\<close>

text \<open>\<^verbatim>\<open>fingerprint_push(BUCKET->L4->fingerprint, ...)\<close>\<close>

definition push :: "finger_param \<Rightarrow> int \<Rightarrow> env \<Rightarrow> c_error + env" where
  "push p v = with_L4 (\<lambda>l.
     bindE (fingerprint_push (fingerprint l) p v) (\<lambda>f. Inr (l\<lparr>fingerprint := Some f\<rparr>)))"

definition IP_DF :: u_int16 where
  "IP_DF = 0x4000"

definition decode_ip :: "config \<Rightarrow> nat \<Rightarrow> u_int16 \<Rightarrow> env \<Rightarrow> outcome" where
  "decode_ip c pos buflen e =
     (let e = count ''IP'' e in
      bindE (rd8 (packet c) pos) (\<lambda>b0.
      let ihl = uint (b0 AND 0x0f) in
      bindE (with_L3 (\<lambda>l.
        bindE (ip_addr_init (ip_src l) AF_INET (drop (pos + 12) (packet c))) (\<lambda>(_, src).
        bindE (ip_addr_init (ip_dst l) AF_INET (drop (pos + 16) (packet c))) (\<lambda>(_, dst).
        bindE (rd8 (packet c) (pos + 8)) (\<lambda>t.
        Inr (l\<lparr>ip_src := src, ip_dst := dst, l3_proto := htons (byte_order c) 0x0800, ttl := t\<rparr>))))) e) (\<lambda>e.
      bindE (rd8 (packet c) (pos + 9)) (\<lambda>protocol.
      bindE
        (if uint protocol = LN_TYPE_TCP then
           bindE (with_L4 (\<lambda>l. Inr (l\<lparr>fingerprint := Some fingerprint_alloc\<rparr>)) e) (\<lambda>e.
           bindE (rd8 (packet c) (pos + 8)) (\<lambda>t.
           bindE (push FINGER_TTL (uint t) e) (\<lambda>e.
           bindE (net16 c (pos + 6)) (\<lambda>frag_off.
           bindE (push FINGER_DF (uint (frag_off AND IP_DF)) e) (\<lambda>e.
           push FINGER_LT (ihl * 4) e)))))
         else Inr e) (\<lambda>e.
      Inr (next_decoder c PROTO_LAYER (uint protocol), ihl * 4, e))))))"

subsection \<open>IPv6\<close>

definition decode_ip6 :: "config \<Rightarrow> nat \<Rightarrow> u_int16 \<Rightarrow> env \<Rightarrow> outcome" where
  "decode_ip6 c pos buflen e =
     (let e = count ''IP'' e in
      bindE (rd16 (byte_order c) (packet c) (pos + 4)) (\<lambda>payload_len.
      bindE
        (if payload_len = 0
         then bindE (user_msg c ''IPv6 jumbogram, Hop-By-Hop header should follow'' e) (\<lambda>e. Inr (0, e))
         else Inr (uint payload_len + 40, e)) (\<lambda>(len, e).
      bindE (with_L3 (\<lambda>l.
        bindE (ip_addr_init (ip_src l) AF_INET6 (drop (pos + 8) (packet c))) (\<lambda>(_, src).
        bindE (ip_addr_init (ip_dst l) AF_INET6 (drop (pos + 24) (packet c))) (\<lambda>(_, dst).
        bindE (rd8 (packet c) (pos + 7)) (\<lambda>hop_limit.
        Inr (l\<lparr>ip_src := src, ip_dst := dst, l3_proto := htons (byte_order c) 0x86DD,
               ttl := hop_limit\<rparr>))))) e) (\<lambda>e.
      bindE (rd8 (packet c) (pos + 6)) (\<lambda>next_hdr.
      bindE
        (if next_hdr = 0 then user_msg c '' --> option  Hop-By-Hop'' e
         else if next_hdr = 43 then user_msg c '' --> option  Routing'' e
         else if next_hdr = 44 then user_msg c '' --> option  Fragment'' e
         else if next_hdr = 60 then user_msg c '' --> option  Destination'' e
         else if next_hdr = 59 then user_msg c '' --> option  No-Next-Header'' e
         else Inr e) (\<lambda>e.
      Inr (next_decoder c PROTO_LAYER (uint next_hdr), len, e)))))))"

subsection \<open>ICMP, UDP and DHCP\<close>

definition decode_icmp :: "config \<Rightarrow> nat \<Rightarrow> u_int16 \<Rightarrow> env \<Rightarrow> outcome" where
  "decode_icmp c pos buflen e =
     (let e = count ''ICMP'' e in
      bindE (user_msg c (''ICMP : 0x'' @ fmt_X False 4 (uint buflen) @ '' bytes'' @ nl) e) (\<lambda>e.
      bindE (rd8 (packet c) pos) (\<lambda>t.
      bindE (user_msg c ('' --> type   0x'' @ fmt_X False 2 (uint t) @ nl) e) (\<lambda>e.
      Inr (None, 8, e)))))"

definition decode_icmp6 :: "config \<Rightarrow> nat \<Rightarrow> u_int16 \<Rightarrow> env \<Rightarrow> outcome" where
  "decode_icmp6 c pos buflen e =
     (let e = count ''ICMP'' e in
      bindE (user_msg c (''ICMPv6 : 0x'' @ fmt_X False 4 (uint buflen) @ '' bytes'' @ nl) e) (\<lambda>e.
      bindE (rd8 (packet c) pos) (\<lambda>t.
      bindE (user_msg c ('' --> type   0x'' @ fmt_X False 2 (uint t) @ nl) e) (\<lambda>e.
      Inr (None, 8, e)))))"

text \<open>The ports are stored as they are in the packet, the protocol number in the order of the host.\<close>

definition decode_udp :: "config \<Rightarrow> nat \<Rightarrow> u_int16 \<Rightarrow> env \<Rightarrow> outcome" where
  "decode_udp c pos buflen e =
     (let e = count ''UDP'' e in
      bindE (with_L4 (\<lambda>l.
        bindE (rd16 (byte_order c) (packet c) pos) (\<lambda>sport.
        bindE (rd16 (byte_order c) (packet c) (pos + 2)) (\<lambda>dport.
        Inr (l\<lparr>port_src := sport, port_dst := dport, l4_proto := 0x11\<rparr>)))) e) (\<lambda>e.
      bindE (net16 c (pos + 2)) (\<lambda>dport.
      Inr (next_decoder c APP_LAYER (uint dport), 8, e))))"

definition decode_dhcpd :: "config \<Rightarrow> nat \<Rightarrow> u_int16 \<Rightarrow> env \<Rightarrow> outcome" where
  "decode_dhcpd c pos buflen e =
     bindE (user_msg c ''DHCP -- server'' e) (\<lambda>e. Inr (None, 0, e))"

definition decode_dhcpc :: "config \<Rightarrow> nat \<Rightarrow> u_int16 \<Rightarrow> env \<Rightarrow> outcome" where
  "decode_dhcpc c pos buflen e =
     bindE (user_msg c ''DHCP -- client'' e) (\<lambda>e. Inr (None, 0, e))"

end
