(* ===== verification/Tcp.thy ===== *)
theory Tcp
  imports Decoders
begin

text \<open>
  \<^verbatim>\<open>src/lmap_decoder_tcp.c\<close>: the TCP decoder. On a SYN it walks the TCP options and completes the
  fingerprint that the IP decoder has begun; otherwise it throws the fingerprint away.
\<close>

subsection \<open>The loop over the options\<close>

text \<open>
  Positions are offsets in the packet; the end may be anywhere, so they are integers. \<^verbatim>\<open>ptohs\<close> reads
  two bytes in little endian order on every host.
\<close>

definition rd8i :: "bytes \<Rightarrow> int \<Rightarrow> c_error + u_int8" where
  "rd8i pkt i = (if 0 \<le> i then rd8 pkt (nat i) else Inl Out_of_bounds)"

definition ptohs :: "bytes \<Rightarrow> int \<Rightarrow> c_error + u_int16" where
  "ptohs pkt i =
     bindE (rd8i pkt i) (\<lambda>a. bindE (rd8i pkt (i + 1)) (\<lambda>b. Inr (of_mem16 Little a b)))"

definition push_str :: "finger_param \<Rightarrow> int \<Rightarrow> string option \<Rightarrow> c_error + string option" where
  "push_str p v f = bindE (fingerprint_push f p v) (\<lambda>f. Inr (Some f))"

text \<open>One iteration: the new \<^verbatim>\<open>opt_start\<close> and the fingerprint.\<close>

definition tcp_option :: "endian \<Rightarrow> bytes \<Rightarrow> int \<Rightarrow> int \<Rightarrow> string option \<Rightarrow> c_error + (int \<times> string option)" where
  "tcp_option en pkt opt_start opt_end f =
     bindE (rd8i pkt opt_start) (\<lambda>kind.
       if kind = 0 then Inr (opt_end, f)
       else if kind = 1 then
         bindE (push_str FINGER_NOP 1 f) (\<lambda>f. Inr (opt_start + 1, f))
       else if kind = 4 then
         bindE (push_str FINGER_SACK 1 f) (\<lambda>f. Inr (opt_start + 2, f))
       else if kind = 2 then
         bindE (ptohs pkt (opt_start + 2)) (\<lambda>w.
         bindE (push_str FINGER_MSS (uint (ntohs en w)) f) (\<lambda>f. Inr (opt_start + 2 + 2, f)))
       else if kind = 3 then
         bindE (rd8i pkt (opt_start + 2)) (\<lambda>v.
         bindE (push_str FINGER_WS (uint v) f) (\<lambda>f. Inr (opt_start + 2 + 1, f)))
       else if kind = 8 then
         bindE (push_str FINGER_TIMESTAMP 1 f) (\<lambda>f.
         bindE (rd8i pkt (opt_start + 1)) (\<lambda>len. Inr (opt_start + 1 + (uint len - 1), f)))
       else
         bindE (rd8i pkt (opt_start + 1)) (\<lambda>len. Inr (opt_start + 1 + (uint len - 1), f)))"

text \<open>\<^verbatim>\<open>while (opt_start < opt_end)\<close>; \<^term>\<open>None\<close> when it does not end.\<close>

partial_function (option) tcp_options ::
  "endian \<Rightarrow> bytes \<Rightarrow> int \<Rightarrow> int \<Rightarrow> string option \<Rightarrow> (c_error + string option) option" where
  "tcp_options en pkt opt_start opt_end f =
     (if opt_start < opt_end then
        (case tcp_option en pkt opt_start opt_end f of
           Inl err \<Rightarrow> Some (Inl err)
         | Inr (opt_start', f') \<Rightarrow> tcp_options en pkt opt_start' opt_end f')
      else Some (Inr f))"

subsection \<open>The decoder\<close>

text \<open>
  \<^verbatim>\<open>(u_char *)((int)tcp + tcp->off * 4)\<close>: a pointer that goes through an \<^verbatim>\<open>int\<close>. Where pointers have
  64 bits, the upper half is lost and replaced by copies of bit 31.
\<close>

definition int_of_pointer :: "bool \<Rightarrow> int \<Rightarrow> int" where
  "int_of_pointer wide a = (if wide then (a + 2 ^ 31) mod 2 ^ 32 - 2 ^ 31 else a)"

definition opt_end_offset :: "config \<Rightarrow> nat \<Rightarrow> int \<Rightarrow> int" where
  "opt_end_offset c pos hlen =
     int_of_pointer (lp64 c) (packet_addr c + int pos) + hlen - packet_addr c"

definition TH_SYN :: u_int8 where "TH_SYN = 0x02"
definition TH_ACK :: u_int8 where "TH_ACK = 0x10"

definition tcp_fingerprint :: "config \<Rightarrow> nat \<Rightarrow> int \<Rightarrow> u_int8 \<Rightarrow> env \<Rightarrow> c_error + env" where
  "tcp_fingerprint c pos hlen flags e =
     (if flags AND TH_SYN \<noteq> 0 then
        bindE (net16 c (pos + 14)) (\<lambda>win.
        bindE (push FINGER_WINDOW (uint win) e) (\<lambda>e.
        bindE (push FINGER_TCPFLAG (if flags AND TH_ACK \<noteq> 0 then 1 else 0) e) (\<lambda>e.
        bindE (push FINGER_LT hlen e) (\<lambda>e.
        with_L4 (\<lambda>l.
          case tcp_options (byte_order c) (packet c) (int pos + 20) (opt_end_offset c pos hlen)
                 (fingerprint l) of
            None \<Rightarrow> Inl Endless_loop
          | Some r \<Rightarrow> bindE r (\<lambda>f. Inr (l\<lparr>fingerprint := f\<rparr>))) e))))
      else with_L4 (\<lambda>l. Inr (l\<lparr>fingerprint := fingerprint_destroy (fingerprint l)\<rparr>)) e)"

definition decode_tcp :: "config \<Rightarrow> nat \<Rightarrow> u_int16 \<Rightarrow> env \<Rightarrow> outcome" where
  "decode_tcp c pos buflen e =
     (let e = count ''TCP'' e in
      bindE (rd8 (packet c) (pos + 12)) (\<lambda>b12.
      let hlen = uint (drop_bit 4 b12) * 4 in
      bindE (with_L4 (\<lambda>l.
        bindE (rd16 (byte_order c) (packet c) pos) (\<lambda>sport.
        bindE (rd16 (byte_order c) (packet c) (pos + 2)) (\<lambda>dport.
        Inr (l\<lparr>port_src := sport, port_dst := dport, l4_proto := 0x06\<rparr>)))) e) (\<lambda>e.
      bindE (rd8 (packet c) (pos + 13)) (\<lambda>flags.
      bindE (tcp_fingerprint c pos hlen flags e) (\<lambda>e.
      bindE (net16 c (pos + 2)) (\<lambda>dport.
      Inr (next_decoder c APP_LAYER (uint dport), hlen, e)))))))"

subsection \<open>Options as data\<close>

text \<open>The options that the decoder knows, and any other with its length byte, as RFC 793 encodes them.\<close>

datatype tcp_opt =
    Nop | Mss u_int16 | Wscale u_int8 | Sack_ok | Timestamp bytes | Unknown u_int8 bytes

fun opt_bytes :: "tcp_opt \<Rightarrow> bytes" where
  "opt_bytes Nop = [1]"
| "opt_bytes (Mss m) = [2, 4, hi8 m, lo8 m]"
| "opt_bytes (Wscale s) = [3, 3, s]"
| "opt_bytes Sack_ok = [4, 2]"
| "opt_bytes (Timestamp d) = 8 # of_nat (length d + 2) # d"
| "opt_bytes (Unknown k d) = k # of_nat (length d + 2) # d"

fun opt_wf :: "tcp_opt \<Rightarrow> bool" where
  "opt_wf (Timestamp d) \<longleftrightarrow> length d < 254"
| "opt_wf (Unknown k d) \<longleftrightarrow> length d < 254 \<and> k \<notin> {0, 1, 2, 3, 4, 8}"
| "opt_wf _ \<longleftrightarrow> True"

fun opt_push :: "tcp_opt \<Rightarrow> finfo \<Rightarrow> finfo" where
  "opt_push Nop f = finfo_push f FINGER_NOP 1"
| "opt_push (Mss m) f = finfo_push f FINGER_MSS (unat m)"
| "opt_push (Wscale s) f = finfo_push f FINGER_WS (unat s)"
| "opt_push Sack_ok f = finfo_push f FINGER_SACK 1"
| "opt_push (Timestamp d) f = finfo_push f FINGER_TIMESTAMP 1"
| "opt_push (Unknown k d) f = f"

definition opts_bytes :: "tcp_opt list \<Rightarrow> bytes" where
  "opts_bytes opts = concat (map opt_bytes opts)"

lemma finfo_wf_opt_push:
  assumes "finfo_wf f"
  shows "finfo_wf (opt_push t f)"
proof (cases t)
  case (Mss m)
  have "unat m < 65536" using unsigned_less [of m, where ?'a = nat] by simp
  with Mss assms show ?thesis by (simp add: finfo_wf_push finfo_fits_def)
next
  case (Wscale s)
  have "unat s < 256" using unsigned_less [of s, where ?'a = nat] by simp
  with Wscale assms show ?thesis by (simp add: finfo_wf_push finfo_fits_def)
qed (use assms in \<open>simp_all add: finfo_wf_push finfo_fits_def\<close>)

lemma push_str_refines:
  assumes "finfo_wf f" and "finfo_fits f p v"
  shows "push_str p (int v) (Some (render f @ [NUL])) = Inr (Some (render (finfo_push f p v) @ [NUL]))"
  using assms by (simp add: push_str_def fingerprint_push_eq)

lemma rd8i_at: "i = int (length a + k) \<Longrightarrow> k < length b \<Longrightarrow> rd8i (a @ b) i = Inr (b ! k)"
  by (simp add: rd8i_def rd8_def nth_append nat_int_add)

lemma rd8i_here [simp]: "rd8i (a @ x # b) (int (length a)) = Inr x"
  using rd8i_at [of _ a 0 "x # b"] by simp

lemma rd8i_next: "k < length b \<Longrightarrow> rd8i (a @ b) (int (length a) + int k) = Inr (b ! k)"
  by (rule rd8i_at) simp_all

lemma uint_length_byte: "length d < 254 \<Longrightarrow> uint (of_nat (length d + 2) :: u_int8) = int (length d) + 2"
proof -
  assume "length d < 254"
  then have "unat (of_nat (length d + 2) :: u_int8) = length d + 2"
    by (simp only: unsigned_of_nat) (simp add: take_bit_nat_eq_self_iff)
  then have "int (unat (of_nat (length d + 2) :: u_int8)) = int (length d + 2)" by (rule arg_cong)
  then show ?thesis by (simp only: uint_nat of_nat_add of_nat_numeral)
qed

lemma tcp_option_encoded:
  assumes "opt_wf t" and wf: "finfo_wf f"
  shows "tcp_option Little (pre @ opt_bytes t @ post) (int (length pre)) opt_end (Some (render f @ [NUL])) =
    Inr (int (length pre + length (opt_bytes t)), Some (render (opt_push t f) @ [NUL]))"
proof (cases t)
  case (Mss m)
  have "unat m < 65536" using unsigned_less [of m, where ?'a = nat] by simp
  then have "push_str FINGER_MSS (uint m) (Some (render f @ [NUL])) =
      Inr (Some (render (opt_push (Mss m) f) @ [NUL]))"
    using push_str_refines [OF wf, of FINGER_MSS "unat m"] by (simp add: finfo_fits_def)
  with Mss show ?thesis
    using rd8i_next [of 2 "opt_bytes (Mss m) @ post" pre] rd8i_next [of 3 "opt_bytes (Mss m) @ post" pre]
    by (simp add: tcp_option_def ptohs_def add.commute)
next
  case (Wscale s)
  have "unat s < 256" using unsigned_less [of s, where ?'a = nat] by simp
  then have "push_str FINGER_WS (uint s) (Some (render f @ [NUL])) =
      Inr (Some (render (opt_push (Wscale s) f) @ [NUL]))"
    using push_str_refines [OF wf, of FINGER_WS "unat s"] by (simp add: finfo_fits_def)
  with Wscale show ?thesis
    using rd8i_next [of 2 "opt_bytes (Wscale s) @ post" pre]
    by (simp add: tcp_option_def)
next
  case (Timestamp d)
  then show ?thesis using assms(1) push_str_refines [OF wf, of FINGER_TIMESTAMP 1]
      rd8i_next [of 1 "opt_bytes t @ post" pre] uint_length_byte [of d]
    by (simp add: tcp_option_def finfo_fits_def)
next
  case (Unknown k d)
  then show ?thesis using assms(1) rd8i_next [of 1 "opt_bytes t @ post" pre] uint_length_byte [of d]
    by (simp add: tcp_option_def)
qed (use push_str_refines [OF wf, of _ 1] in \<open>simp_all add: tcp_option_def finfo_fits_def\<close>)

lemma tcp_options_eq:
  assumes "\<forall>t \<in> set opts. opt_wf t" and "finfo_wf f"
    and "opt_end = int (length pre + length (opts_bytes opts)) \<or>
      opt_end > int (length pre + length (opts_bytes opts)) \<and> post \<noteq> [] \<and> hd post = 0"
  shows "tcp_options Little (pre @ opts_bytes opts @ post) (int (length pre)) opt_end (Some (render f @ [NUL])) =
    Some (Inr (Some (render (fold opt_push opts f) @ [NUL])))"
  using assms
proof (induction opts arbitrary: pre f)
  case Nil
  then show ?case
    by (cases post) (auto simp: opts_bytes_def tcp_options.simps [of Little pre]
        tcp_options.simps [of Little "pre @ _ # _"] tcp_option_def tcp_options.simps [of _ _ opt_end opt_end])
next
  case (Cons t opts)
  have "opt_bytes t \<noteq> []" by (cases t) auto
  let ?pkt = "pre @ opt_bytes t @ opts_bytes opts @ post" and ?pre = "pre @ opt_bytes t"
  have step: "tcp_option Little ?pkt (int (length pre)) opt_end (Some (render f @ [NUL])) =
      Inr (int (length ?pre), Some (render (opt_push t f) @ [NUL]))"
    using tcp_option_encoded [of t f pre "opts_bytes opts @ post"] Cons.prems by simp
  have "int (length pre) < opt_end"
  proof -
    have "0 < int (length (opt_bytes t))" using \<open>opt_bytes t \<noteq> []\<close> by simp
    moreover have "int (length pre) + int (length (opt_bytes t)) \<le> opt_end"
      using Cons.prems(3) by (auto simp: opts_bytes_def)
    ultimately show ?thesis by linarith
  qed
  then have "tcp_options Little ?pkt (int (length pre)) opt_end (Some (render f @ [NUL])) =
      tcp_options Little ?pkt (int (length ?pre)) opt_end (Some (render (opt_push t f) @ [NUL]))"
    using step by (subst tcp_options.simps) simp
  also have "\<dots> = Some (Inr (Some (render (fold opt_push opts (opt_push t f)) @ [NUL])))"
    using Cons.IH [of "opt_push t f" ?pre] Cons.prems finfo_wf_opt_push
    by (auto simp: opts_bytes_def)
  finally show ?case by (simp add: opts_bytes_def)
qed

text \<open>
  C7: On a little endian host the loop over the options of a SYN reads any list of well-formed
  options: it ends, at the end of the header or at the end-of-list option, and pushes into the
  fingerprint exactly what the options say, in their order. Options it does not know are skipped
  by their length.
\<close>

theorem tcp_options_reads_options:
  assumes "\<forall>t \<in> set opts. opt_wf t" and "finfo_wf f"
    and "opt_end = int (length pre + length (opts_bytes opts)) \<or>
      opt_end > int (length pre + length (opts_bytes opts)) \<and> post \<noteq> [] \<and> hd post = 0"
  shows "tcp_options Little (pre @ opts_bytes opts @ post) (int (length pre)) opt_end (Some (render f @ [NUL])) =
    Some (Inr (Some (render (fold opt_push opts f) @ [NUL])))"
  using assms by (rule tcp_options_eq)

lemma tcp_options_reads_options_witness:
  "tcp_options Little (replicate 20 7 @ opts_bytes [Mss 1460, Nop, Wscale 6, Sack_ok] @ [0, 0, 0]) 20 32
      (Some (render finfo_start @ [NUL])) =
    Some (Inr (Some (render (fold opt_push [Mss 1460, Nop, Wscale 6, Sack_ok] finfo_start) @ [NUL])))"
  using tcp_options_reads_options [of "[Mss 1460, Nop, Wscale 6, Sack_ok]" finfo_start 32 "replicate 20 7" "[0, 0, 0]"]
    finfo_wf_start
  by (simp add: opts_bytes_def)

subsection \<open>When the loop ends\<close>

text \<open>An option that has a length byte (that is, not one of the kinds 0 to 4) with the value 0.\<close>

definition zero_length_at :: "bytes \<Rightarrow> int \<Rightarrow> bool" where
  "zero_length_at pkt i \<longleftrightarrow> 0 \<le> i \<and> nat i + 1 < length pkt \<and>
     pkt ! nat i \<notin> {0, 1, 2, 3, 4} \<and> pkt ! (nat i + 1) = 0"

lemma tcp_option_zero_length:
  assumes "zero_length_at pkt i" and "finfo_wf f"
  shows "\<exists>f'. finfo_wf f' \<and> tcp_option en pkt i opt_end (Some (render f @ [NUL])) =
    Inr (i, Some (render f' @ [NUL]))"
proof -
  have i: "rd8i pkt i = Inr (pkt ! nat i)" "rd8i pkt (i + 1) = Inr 0"
    using assms(1) by (auto simp: zero_length_at_def rd8i_def rd8_def nat_add_distrib)
  show ?thesis
  proof (cases "pkt ! nat i = 8")
    case True
    have "finfo_wf (finfo_push f FINGER_TIMESTAMP 1)"
      using assms(2) by (intro finfo_wf_push) (simp_all add: finfo_fits_def)
    then show ?thesis using True i push_str_refines [OF assms(2), of FINGER_TIMESTAMP 1]
      by (auto simp: tcp_option_def finfo_fits_def)
  next
    case False
    then show ?thesis using assms i by (auto simp: tcp_option_def zero_length_at_def)
  qed
qed

definition stuck :: "bytes \<Rightarrow> int \<Rightarrow> int \<Rightarrow> string option \<Rightarrow> bool" where
  "stuck pkt i opt_end s \<longleftrightarrow> zero_length_at pkt i \<and> i < opt_end \<and>
     (\<exists>f. finfo_wf f \<and> s = Some (render f @ [NUL]))"

lemma tcp_options_not_stuck:
  assumes "tcp_options en pkt i opt_end s = Some r"
  shows "\<not> stuck pkt i opt_end s"
proof (rule tcp_options.raw_induct [where P = "\<lambda>en pkt i opt_end s r. \<not> stuck pkt i opt_end s", OF _ assms])
  fix loop en pkt i opt_end s r
  assume IH: "\<And>en pkt i opt_end s y. loop en pkt i opt_end s = Some y \<Longrightarrow> \<not> stuck pkt i opt_end s"
    and body: "(if i < opt_end then
        (case tcp_option en pkt i opt_end s of
           Inl err \<Rightarrow> Some (Inl err)
         | Inr (opt_start', f') \<Rightarrow> loop en pkt opt_start' opt_end f')
      else Some (Inr s)) = Some r"
  show "\<not> stuck pkt i opt_end s"
  proof
    assume st: "stuck pkt i opt_end s"
    then obtain f f' where "finfo_wf f'" "s = Some (render f @ [NUL])"
      "tcp_option en pkt i opt_end s = Inr (i, Some (render f' @ [NUL]))"
      using tcp_option_zero_length unfolding stuck_def by blast
    with body st have "loop en pkt i opt_end (Some (render f' @ [NUL])) = Some r" by (simp add: stuck_def)
    from IH [OF this] st \<open>finfo_wf f'\<close> show False by (auto simp: stuck_def)
  qed
qed

text \<open>
  C8: The loop hangs on an option of length 0: once it reaches one whose kind is none of 0 to 4, it
  never moves on, so a single packet stops the program.
\<close>

theorem tcp_options_hang:
  assumes "zero_length_at pkt i" and "i < opt_end" and "finfo_wf f"
  shows "tcp_options en pkt i opt_end (Some (render f @ [NUL])) = None"
  using tcp_options_not_stuck [of en pkt i opt_end "Some (render f @ [NUL])"] assms
  by (cases "tcp_options en pkt i opt_end (Some (render f @ [NUL]))") (auto simp: stuck_def)

lemma tcp_options_hang_witness:
  "tcp_options Little (replicate 20 0 @ [8, 0, 0, 0]) 20 24 (Some (render finfo_start @ [NUL])) = None"
  using tcp_options_hang [of "replicate 20 0 @ [8, 0, 0, 0]" 20 24 finfo_start Little] finfo_wf_start
  by (simp add: zero_length_at_def nth_append)

lemma tcp_option_progress:
  assumes "tcp_option en pkt i opt_end s = Inr (j, s')" and "\<not> zero_length_at pkt i" and "i < opt_end"
  shows "i < j"
proof -
  from assms(1) obtain kind where k: "rd8i pkt i = Inr kind"
    by (auto simp: tcp_option_def bindE_eq_Inr)
  have len: "0 < uint len" if "rd8i pkt (i + 1) = Inr len" and "kind \<notin> {0, 1, 2, 3, 4}" for len
  proof -
    have "len \<noteq> 0"
      using assms(2) k that
      by (auto simp: zero_length_at_def rd8i_def rd8_def nat_add_distrib split: if_splits)
    then show ?thesis by (simp add: word_neq_0_conv word_less_def)
  qed
  show ?thesis
    using assms(1,3) k len
    by (auto simp: tcp_option_def bindE_eq_Inr split: if_splits)
qed



end
