(* ===== verification/Decode.thy ===== *)
theory Decode
  imports Tcp
begin

text \<open>
  \<^verbatim>\<open>lmap_decode\<close> of \<^verbatim>\<open>src/lmap_decode.c\<close>, the callback that takes a captured packet through the
  decoders, and the constructor functions with which the decoders register themselves.
\<close>

subsection \<open>Constructors\<close>

record startup =
  table :: "decoder table"
  stat_table :: stats

definition enter :: "layer \<Rightarrow> int \<Rightarrow> decoder \<Rightarrow> startup \<Rightarrow> startup" where
  "enter lv t d s = s\<lparr>table := add_decoder lv t d (table s)\<rparr>"

definition counter :: "string \<Rightarrow> startup \<Rightarrow> startup" where
  "counter n s = s\<lparr>stat_table := register_stat n (stat_table s)\<rparr>"

definition eth_init :: "startup \<Rightarrow> startup" where
  "eth_init s = counter ''TOTAL'' (enter LINK_LAYER LI_TYPE_ETH Decode_eth s)"

definition wifi_init :: "startup \<Rightarrow> startup" where
  "wifi_init s = counter ''TOTAL'' (enter LINK_LAYER LI_TYPE_WIFI Decode_wifi s)"

definition arp_init :: "startup \<Rightarrow> startup" where
  "arp_init s = counter ''ARP'' (enter NET_LAYER LL_TYPE_ARP Decode_arp s)"

definition ip_init :: "startup \<Rightarrow> startup" where
  "ip_init s = counter ''IP'' (enter NET_LAYER LL_TYPE_IP Decode_ip s)"

definition ip6_init :: "startup \<Rightarrow> startup" where
  "ip6_init s = counter ''IP'' (enter NET_LAYER LL_TYPE_IP6 Decode_ip6 s)"

definition icmp_init :: "startup \<Rightarrow> startup" where
  "icmp_init s = counter ''ICMP'' (enter PROTO_LAYER LN_TYPE_ICMP Decode_icmp s)"

definition icmp6_init :: "startup \<Rightarrow> startup" where
  "icmp6_init s = counter ''ICMP'' (enter PROTO_LAYER LN_TYPE_ICMP6 Decode_icmp6 s)"

definition udp_init :: "startup \<Rightarrow> startup" where
  "udp_init s = counter ''UDP'' (enter PROTO_LAYER LN_TYPE_UDP Decode_udp s)"

definition tcp_init :: "startup \<Rightarrow> startup" where
  "tcp_init s = counter ''TCP'' (enter PROTO_LAYER LN_TYPE_TCP Decode_tcp s)"

definition dhcp_init :: "startup \<Rightarrow> startup" where
  "dhcp_init s =
     counter ''DHCP''
       (enter APP_LAYER LP_TYPE_DHCPC Decode_dhcpc (enter APP_LAYER LP_TYPE_DHCPD Decode_dhcpd s))"

text \<open>The linker decides in which order the constructors run.\<close>

datatype decoder_module = Eth | Wifi | Arp | Ip | Ip6 | Icmp | Icmp6 | Udp | Tcp | Dhcp

fun constructor :: "decoder_module \<Rightarrow> startup \<Rightarrow> startup" where
  "constructor Eth = eth_init"
| "constructor Wifi = wifi_init"
| "constructor Arp = arp_init"
| "constructor Ip = ip_init"
| "constructor Ip6 = ip6_init"
| "constructor Icmp = icmp_init"
| "constructor Icmp6 = icmp6_init"
| "constructor Udp = udp_init"
| "constructor Tcp = tcp_init"
| "constructor Dhcp = dhcp_init"

definition start_program :: "decoder_module list \<Rightarrow> startup" where
  "start_program ms = fold constructor ms \<lparr>table = [], stat_table = stats_start\<rparr>"

subsection \<open>The loop over the decoders\<close>

fun run_decoder :: "decoder \<Rightarrow> config \<Rightarrow> nat \<Rightarrow> u_int16 \<Rightarrow> env \<Rightarrow> outcome" where
  "run_decoder Decode_eth = decode_eth"
| "run_decoder Decode_wifi = decode_wifi"
| "run_decoder Decode_arp = decode_arp"
| "run_decoder Decode_ip = decode_ip"
| "run_decoder Decode_ip6 = decode_ip6"
| "run_decoder Decode_icmp = decode_icmp"
| "run_decoder Decode_icmp6 = decode_icmp6"
| "run_decoder Decode_udp = decode_udp"
| "run_decoder Decode_tcp = decode_tcp"
| "run_decoder Decode_dhcpd = decode_dhcpd"
| "run_decoder Decode_dhcpc = decode_dhcpc"

text \<open>
  \<^verbatim>\<open>do ... while (decoder != NULL)\<close>: the position of \<^verbatim>\<open>data\<close> in the packet and \<^verbatim>\<open>datalen\<close>, which is
  passed on as a 16 bit number. \<^term>\<open>None\<close> would be a loop that does not end.
\<close>

partial_function (option) decode_loop ::
  "config \<Rightarrow> decoder \<Rightarrow> nat \<Rightarrow> int \<Rightarrow> env \<Rightarrow> (c_error + env) option" where
  "decode_loop c d pos datalen e =
     (case run_decoder d c pos (word_of_int datalen) e of
        Inl err \<Rightarrow> Some (Inl err)
      | Inr (next, len, e') \<Rightarrow>
          if datalen - len > 0 then
            (case next of
               None \<Rightarrow> Some (Inr e')
             | Some d' \<Rightarrow> decode_loop c d' (pos + nat len) (datalen - len) e')
          else Some (Inr e'))"

text \<open>
  What outlives a packet: the counters, the queue of messages, the dump file, and the number of
  structures that were allocated for buckets and are no longer reachable.
\<close>

record session =
  s_stats :: stats
  s_ui :: ui_state
  dumped :: "bytes list"
  leaked :: nat

definition lmap_decode ::
  "(nat \<Rightarrow> bool) \<Rightarrow> junk \<Rightarrow> bool \<Rightarrow> decoder option \<Rightarrow> config \<Rightarrow> session \<Rightarrow> c_error + session" where
  "lmap_decode mem jk dump l2_decoder c s =
     bindE (user_msgs (c_lib c)
       [nl @ replicate 63 CHR ''*'' @ nl,
        ''lmap_get_packets (one packet dispatched from pcap)'',
        ''CAPTURED: 0x'' @ fmt_X False 4 (int (length (packet c))) @ '' bytes'' @ nl] (s_ui s)) (\<lambda>u.
     let d = (if dump then dumped s @ [packet c] else dumped s) in
     bindE (db_bucket_alloc mem) (\<lambda>b.
     bindE (deref l2_decoder) (\<lambda>decoder.
     bindE (case decode_loop c decoder 0 (int (length (packet c)))
                   \<lparr>stat_state = s_stats s, ui = u, bkt = b\<rparr> of
              None \<Rightarrow> Inl Endless_loop | Some r \<Rightarrow> r) (\<lambda>e.
     bindE (db_bucket_send (byte_order c) (c_lib c) jk (bkt e) (ui e)) (\<lambda>(b, u).
     Inr (s\<lparr>s_stats := stat_state e, s_ui := u, dumped := d, leaked := leaked s + db_bucket_free b\<rparr>))))))"

subsection \<open>The loop ends\<close>

text \<open>The layer of a decoder, and the tables in which every decoder is registered for its layer.\<close>

fun decoder_layer :: "decoder \<Rightarrow> layer" where
  "decoder_layer Decode_eth = LINK_LAYER"
| "decoder_layer Decode_wifi = LINK_LAYER"
| "decoder_layer Decode_arp = NET_LAYER"
| "decoder_layer Decode_ip = NET_LAYER"
| "decoder_layer Decode_ip6 = NET_LAYER"
| "decoder_layer Decode_icmp = PROTO_LAYER"
| "decoder_layer Decode_icmp6 = PROTO_LAYER"
| "decoder_layer Decode_udp = PROTO_LAYER"
| "decoder_layer Decode_tcp = PROTO_LAYER"
| "decoder_layer Decode_dhcpd = APP_LAYER"
| "decoder_layer Decode_dhcpc = APP_LAYER"

definition table_ok :: "decoder table \<Rightarrow> bool" where
  "table_ok tab \<longleftrightarrow> (\<forall>lv t d. get_decoder tab lv t = Some d \<longrightarrow> decoder_layer d = lv)"

lemma get_decoder_layer: "table_ok tab \<Longrightarrow> get_decoder tab lv t = Some d \<Longrightarrow> decoder_layer d = lv"
  by (simp add: table_ok_def)

lemmas decoder_defs =
  decode_eth_def decode_wifi_def decode_arp_def decode_ip_def decode_ip6_def decode_icmp_def
  decode_icmp6_def decode_udp_def decode_tcp_def decode_dhcpd_def decode_dhcpc_def

text \<open>Every decoder hands over to a decoder of a higher layer, and never to a negative position.\<close>

definition goes_up :: "config \<Rightarrow> decoder \<Rightarrow> decoder option \<times> int \<times> env \<Rightarrow> bool" where
  "goes_up c d r \<longleftrightarrow> (case r of (next, len, e) \<Rightarrow>
     0 \<le> len \<and> (\<forall>d'. next = Some d' \<longrightarrow>
       (\<exists>lv t. decoder_layer d < lv \<and> get_decoder (decoder_table c) lv t = Some d')))"

lemma run_decoder_goes_up: "ensures (goes_up c d) (run_decoder d c pos n e)"
proof -
  have less: "LINK_LAYER < NET_LAYER" "NET_LAYER < PROTO_LAYER" "PROTO_LAYER < APP_LAYER"
    by (simp_all add: less_layer_def)
  have len: "ensures (\<lambda>(len, e'). 0 \<le> len)
      (if w = 0 then bindE (user_msg c m e) (\<lambda>e. Inr (0, e)) else Inr (uint w + 40, e))"
    for w :: u_int16 and m and e :: env
    by (intro ensures_if ensures_bindE_any) auto
  have ip6: "ensures (goes_up c Decode_ip6) (decode_ip6 c pos n e)"
    unfolding decode_ip6_def Let_def
    by (rule ensures_bindE_any, rule ensures_bindE, rule ensures_mono [OF len], rule ensures_prod,
        intro ensures_intros) (auto simp: goes_up_def next_decoder_def intro: less)
  show ?thesis
  proof (cases "d = Decode_ip6")
    case True
    with ip6 show ?thesis by simp
  next
    case False
    then show ?thesis
      by (cases d) (simp_all only: run_decoder.simps decoder_defs Let_def,
        (intro ensures_intros, auto simp: goes_up_def next_decoder_def intro: less)+)
  qed
qed

lemma run_decoder_next:
  assumes "run_decoder d c pos n e = Inr (next, len, e')"
  shows "0 \<le> len \<and> (\<forall>d'. next = Some d' \<longrightarrow>
    (\<exists>lv t. decoder_layer d < lv \<and> get_decoder (decoder_table c) lv t = Some d'))"
  using ensuresD [OF run_decoder_goes_up assms] by (simp add: goes_up_def)

lemma decode_loop_ends:
  assumes "table_ok (decoder_table c)"
  shows "\<exists>r. decode_loop c d pos datalen e = Some r"
proof (induction "6 - layer_num (decoder_layer d)" arbitrary: d pos datalen e rule: less_induct)
  case less
  show ?case
  proof (cases "run_decoder d c pos (word_of_int datalen) e")
    case (Inl err)
    then show ?thesis by (subst decode_loop.simps) simp
  next
    case (Inr p)
    obtain nxt len e' where p: "p = (nxt, len, e')" by (cases p) auto
    show ?thesis
    proof (cases "datalen - len > 0 \<and> nxt \<noteq> None")
      case True
      then obtain d' where d': "nxt = Some d'" by auto
      then obtain lv t where "decoder_layer d < lv" "get_decoder (decoder_table c) lv t = Some d'"
        using run_decoder_next Inr p by blast
      then have "layer_num (decoder_layer d) < layer_num (decoder_layer d')"
        using get_decoder_layer [OF assms] by (auto simp: less_layer_def)
      then have "\<exists>r. decode_loop c d' (pos + nat len) (datalen - len) e' = Some r"
        using layer_num_le [of "decoder_layer d'"] by (intro less.hyps) auto
      then show ?thesis using True d' Inr p by (subst decode_loop.simps) simp
    next
      case False
      then show ?thesis using Inr p by (subst decode_loop.simps) (auto split: option.splits)
    qed
  qed
qed

subsection \<open>The table of the program\<close>

fun module_entries :: "decoder_module \<Rightarrow> ((layer \<times> int) \<times> decoder) list" where
  "module_entries Eth = [((LINK_LAYER, LI_TYPE_ETH), Decode_eth)]"
| "module_entries Wifi = [((LINK_LAYER, LI_TYPE_WIFI), Decode_wifi)]"
| "module_entries Arp = [((NET_LAYER, LL_TYPE_ARP), Decode_arp)]"
| "module_entries Ip = [((NET_LAYER, LL_TYPE_IP), Decode_ip)]"
| "module_entries Ip6 = [((NET_LAYER, LL_TYPE_IP6), Decode_ip6)]"
| "module_entries Icmp = [((PROTO_LAYER, LN_TYPE_ICMP), Decode_icmp)]"
| "module_entries Icmp6 = [((PROTO_LAYER, LN_TYPE_ICMP6), Decode_icmp6)]"
| "module_entries Udp = [((PROTO_LAYER, LN_TYPE_UDP), Decode_udp)]"
| "module_entries Tcp = [((PROTO_LAYER, LN_TYPE_TCP), Decode_tcp)]"
| "module_entries Dhcp = [((APP_LAYER, LP_TYPE_DHCPD), Decode_dhcpd), ((APP_LAYER, LP_TYPE_DHCPC), Decode_dhcpc)]"

fun module_counter :: "decoder_module \<Rightarrow> string" where
  "module_counter Eth = ''TOTAL''"
| "module_counter Wifi = ''TOTAL''"
| "module_counter Arp = ''ARP''"
| "module_counter Ip = ''IP''"
| "module_counter Ip6 = ''IP''"
| "module_counter Icmp = ''ICMP''"
| "module_counter Icmp6 = ''ICMP''"
| "module_counter Udp = ''UDP''"
| "module_counter Tcp = ''TCP''"
| "module_counter Dhcp = ''DHCP''"

lemma constructor_eq:
  "constructor m s =
    \<lparr>table = fold (\<lambda>(k, d). add_decoder (fst k) (snd k) d) (module_entries m) (table s),
     stat_table = register_stat (module_counter m) (stat_table s)\<rparr>"
  by (cases m) (simp_all add: eth_init_def wifi_init_def arp_init_def ip_init_def ip6_init_def
      icmp_init_def icmp6_init_def udp_init_def tcp_init_def dhcp_init_def enter_def counter_def)

lemma start_program_fold:
  "fold constructor ms s =
    \<lparr>table = fold (\<lambda>(k, d). add_decoder (fst k) (snd k) d) (concat (map module_entries ms)) (table s),
     stat_table = stat.registers (map module_counter ms) (stat_table s)\<rparr>"
proof (induction ms arbitrary: s)
  case Nil
  then show ?case by (simp add: stat.registers_def)
next
  case (Cons m ms)
  then show ?case by (simp add: constructor_eq stat.registers_def)
qed

lemma start_program_eq:
  "start_program ms = \<lparr>table = decoders.build (concat (map module_entries ms)),
     stat_table = stat.registers (map module_counter ms) stats_start\<rparr>"
  by (simp add: start_program_def start_program_fold decoders.build_def)

lemma module_keys_disjoint:
  "m \<noteq> m' \<Longrightarrow> fst ` set (module_entries m) \<inter> fst ` set (module_entries m') = {}"
  by (cases m; cases m') simp_all

lemma distinct_module_keys:
  "distinct ms \<Longrightarrow> distinct (map fst (concat (map module_entries ms)))"
proof (induction ms)
  case (Cons m ms)
  have "distinct (map fst (module_entries m))" by (cases m) simp_all
  moreover have "fst ` set (module_entries m) \<inter> fst ` set (concat (map module_entries ms)) = {}"
  proof -
    have "fst ` set (module_entries m) \<inter> fst ` set (module_entries m') = {}" if "m' \<in> set ms" for m'
      using Cons.prems that by (intro module_keys_disjoint) auto
    then show ?thesis by (simp add: image_UN Int_UN_distrib)
  qed
  ultimately show ?case using Cons by simp
qed simp

lemma get_decoder_start:
  assumes "distinct ms"
  shows "get_decoder (table (start_program ms)) lv t = Some d \<longleftrightarrow>
    (\<exists>m \<in> set ms. ((lv, t), d) \<in> set (module_entries m))"
proof -
  have "get_decoder (table (start_program ms)) lv t = lookup (table (start_program ms)) (lv, t)"
    by (simp add: lookup_def)
  also have "\<dots> = map_of (rev (concat (map module_entries ms))) (lv, t)"
    by (simp add: start_program_eq decoders.find_build)
  finally show ?thesis
    using distinct_module_keys [OF assms]
    by (simp add: map_of_eq_Some_iff rev_map [symmetric])
qed

text \<open>The table when every module is linked in.\<close>

definition all_modules :: "decoder_module list \<Rightarrow> bool" where
  "all_modules ms \<longleftrightarrow> distinct ms \<and> (\<forall>m. m \<in> set ms)"

definition std_decoder :: "layer \<Rightarrow> int \<Rightarrow> decoder option" where
  "std_decoder lv t =
     (case lv of
        LINK_LAYER \<Rightarrow> if t = LI_TYPE_ETH then Some Decode_eth else if t = LI_TYPE_WIFI then Some Decode_wifi else None
      | NET_LAYER \<Rightarrow>
          if t = LL_TYPE_ARP then Some Decode_arp else if t = LL_TYPE_IP then Some Decode_ip
          else if t = LL_TYPE_IP6 then Some Decode_ip6 else None
      | PROTO_LAYER \<Rightarrow>
          if t = LN_TYPE_ICMP then Some Decode_icmp else if t = LN_TYPE_ICMP6 then Some Decode_icmp6
          else if t = LN_TYPE_UDP then Some Decode_udp else if t = LN_TYPE_TCP then Some Decode_tcp else None
      | APP_LAYER \<Rightarrow>
          if t = LP_TYPE_DHCPD then Some Decode_dhcpd else if t = LP_TYPE_DHCPC then Some Decode_dhcpc else None
      | _ \<Rightarrow> None)"

lemma std_decoder_entries:
  "std_decoder lv t = Some d \<longleftrightarrow> (\<exists>m. ((lv, t), d) \<in> set (module_entries m))"
proof
  assume "std_decoder lv t = Some d"
  then show "\<exists>m. ((lv, t), d) \<in> set (module_entries m)"
    by (auto simp: std_decoder_def split: layer.splits if_splits
        intro: exI [of _ Eth] exI [of _ Wifi] exI [of _ Arp] exI [of _ Ip] exI [of _ Ip6] exI [of _ Icmp]
          exI [of _ Icmp6] exI [of _ Udp] exI [of _ Tcp] exI [of _ Dhcp])
next
  assume "\<exists>m. ((lv, t), d) \<in> set (module_entries m)"
  then obtain m where "((lv, t), d) \<in> set (module_entries m)" ..
  then show "std_decoder lv t = Some d" by (cases m) (auto simp: std_decoder_def)
qed

lemma get_decoder_std:
  assumes "all_modules ms"
  shows "get_decoder (table (start_program ms)) lv t = std_decoder lv t"
proof -
  have "get_decoder (table (start_program ms)) lv t = Some d \<longleftrightarrow> std_decoder lv t = Some d" for d
    using assms get_decoder_start [of ms lv t d] std_decoder_entries [of lv t d]
    by (auto simp: all_modules_def)
  then show ?thesis by (cases "std_decoder lv t"; cases "get_decoder (table (start_program ms)) lv t") auto
qed

lemma table_ok_std:
  assumes "all_modules ms"
  shows "table_ok (table (start_program ms))"
  unfolding table_ok_def get_decoder_std [OF assms]
  by (auto simp: std_decoder_def split: layer.splits if_splits)

definition std_counters :: "string set" where
  "std_counters = {''TOTAL'', ''ARP'', ''IP'', ''ICMP'', ''UDP'', ''TCP'', ''DHCP''}"

lemma counters_start:
  assumes "all_modules ms"
  shows "counters (stat_table (start_program ms)) = (\<lambda>n. if n \<in> std_counters then Some 0 else None)"
proof -
  let ?s = "stat_table (start_program ms)"
  have "module_counter ` set ms = std_counters"
  proof
    show "module_counter ` set ms \<subseteq> std_counters"
    proof
      fix n assume "n \<in> module_counter ` set ms"
      then obtain m where "n = module_counter m" by auto
      then show "n \<in> std_counters" by (cases m) (auto simp: std_counters_def)
    qed
    have "\<forall>m. module_counter m \<in> module_counter ` set ms" using assms by (auto simp: all_modules_def)
    then show "std_counters \<subseteq> module_counter ` set ms"
      unfolding std_counters_def
      by (metis (no_types, lifting) empty_subsetI insert_subset module_counter.simps)
  qed
  then have dom: "dom (counters ?s) = std_counters"
    using stat.known_registers [OF stats_invar_start, of "map module_counter ms"]
    by (simp add: start_program_eq) (simp add: counters_def stats_start_def)
  have zero: "get_stat ?s n = 0" for n
    using stat.get_registers [OF stats_invar_start, of "map module_counter ms" n]
    by (simp add: start_program_eq) (simp add: get_stat_def stats_start_def)
  show ?thesis
  proof
    fix n
    show "counters ?s n = (if n \<in> std_counters then Some 0 else None)"
      using zero [of n] dom by (auto simp: get_stat_counters domIff split: option.splits)
  qed
qed

text \<open>
  C28: In whatever order the linker runs the constructors, the program starts with the same decoder
  for every layer and type, with one counter, at 0, for each of the seven names, and with the
  invariant of the counters.
\<close>

theorem constructors_any_order:
  assumes "all_modules ms"
  shows "(\<forall>lv t. get_decoder (table (start_program ms)) lv t = std_decoder lv t) \<and>
    counters (stat_table (start_program ms)) = (\<lambda>n. if n \<in> std_counters then Some 0 else None) \<and>
    stats_invar (stat_table (start_program ms))"
  using get_decoder_std [OF assms] counters_start [OF assms]
    stat.invar_registers [OF stats_invar_start] by (simp add: start_program_eq)

definition link_order :: "decoder_module list" where
  "link_order = [Eth, Wifi, Arp, Ip, Ip6, Icmp, Icmp6, Udp, Tcp, Dhcp]"

lemma all_modules_link_order: "all_modules link_order"
proof -
  have "m \<in> set link_order" for m by (cases m) (simp_all add: link_order_def)
  then show ?thesis by (simp add: all_modules_def link_order_def)
qed

lemma constructors_any_order_witness:
  "get_decoder (table (start_program link_order)) PROTO_LAYER LN_TYPE_TCP = Some Decode_tcp"
  using constructors_any_order [OF all_modules_link_order] by (simp add: std_decoder_def)

text \<open>
  \<^verbatim>\<open>set_L2_decoder\<close> finds the decoder of the link type and fails, leaving the pointer alone, for
  a type without one; the option for raw packets makes no difference, because no decoder is
  registered for type 0.
\<close>

lemma set_L2_decoder_table:
  assumes "all_modules ms"
  shows "set_L2_decoder raw (table (start_program ms)) dlt l2 =
    (case std_decoder LINK_LAYER dlt of None \<Rightarrow> (- ENOTFOUND, l2) | Some d \<Rightarrow> (ESUCCESS, Some d))"
proof -
  have "dec_type e \<noteq> 0" if "e \<in> set (table (start_program ms))" "dec_level e = LINK_LAYER" for e
  proof -
    have "set (fold (\<lambda>(k, d). add_decoder (fst k) (snd k) d) kds t) =
        (\<lambda>(k, d). \<lparr>dec_type = snd k, dec_level = fst k, dec_fun = d\<rparr>) ` set kds \<union> set t" for kds :: "((layer \<times> int) \<times> decoder) list" and t
      by (induction kds arbitrary: t) (auto simp: add_decoder_def)
    with that obtain m where "((LINK_LAYER, dec_type e), dec_fun e) \<in> set (module_entries m)"
      by (auto simp: start_program_eq decoders.build_def)
    then show ?thesis by (cases m) auto
  qed
  then show ?thesis
    using set_L2_decoder_raw [of "table (start_program ms)" raw dlt l2] get_decoder_std [OF assms]
    by (simp add: set_L2_decoder_eq)
qed

end
