(* ===== verification/Program.thy ===== *)
theory Program
  imports Session Options Threads Decode
begin

text \<open>
  \<^verbatim>\<open>src/lmap_main.c\<close>, \<^verbatim>\<open>src/lmap_globals.c\<close>, \<^verbatim>\<open>src/lmap_capture.c\<close>, \<^verbatim>\<open>src/lmap_error.c\<close> and
  \<^verbatim>\<open>src/lmap_signal.c\<close>: the start of the program, the set-up of the capture, the ways in which the process
  ends, and the functions registered with \<^verbatim>\<open>atexit\<close> that run then. This theory composes the others.
\<close>

subsection \<open>State\<close>

text \<open>The functions that the pointers of \<^verbatim>\<open>struct ui_env\<close> point to.\<close>

datatype ui_hook = Do_nothing | Printf | Ncurses_init | Ncurses_start | Ncurses_cleanup | Ncurses_msg

datatype exit_handler =
  Globals_free | Run_ncurses_cleanup | Capture_close | Discard_macdb | Fingerprint_discard

datatype signal = SIGSEGV | SIGINT | SIGTERM

text \<open>\<^verbatim>\<open>struct globals\<close> with its three parts. The file handles of libpcap are numbers.\<close>

record globals =
  options :: lmap_options
  gbl_name :: "string option"
  gbl_version :: "string option"
  gbl_debug_file :: "string option"
  gbl_pcap :: "nat option"
  gbl_dump :: "nat option"
  gbl_snaplen :: u_int16

text \<open>
  The process: \<open>gbls\<close> is \<^term>\<open>None\<close> before the allocation and after the release; \<open>handlers\<close> has the last
  registered one first; \<open>term_calls\<close> are the calls that start and leave ncurses, apart from those of the
  screens; \<open>closed\<close> are the handles that were closed; \<open>dump_file\<close> are the packets saved, and \<open>lost\<close> the
  structures of the packets that are no longer reachable.
\<close>

record 'k program =
  gbls :: "globals option"
  ui_hooks :: "ui_hook ui_env"
  decoders_of :: "decoder table"
  l2_decoder :: "decoder option"
  mac_tab :: "mac_entry chains"
  finger_tab :: "finger_entry chains"
  thread_tab :: threads
  onscreen :: bool
  term_calls :: trace
  scr :: "'k screen"
  handlers :: "exit_handler list"
  caught :: "signal list"
  closed :: "nat list"
  printed_out :: "string list"
  dump_file :: "bytes list"
  lost :: nat

text \<open>
  The environment: libpcap, \<^verbatim>\<open>pthread_create\<close>, the thread that runs \<^verbatim>\<open>main\<close>, the installation directory,
  how many calls of \<^verbatim>\<open>calloc\<close> in the first steps succeed, \<^verbatim>\<open>sigaction\<close>, \<^verbatim>\<open>strsignal\<close>, and the keys and other events of the user interface.
\<close>

record pcap_lib =
  pcap_lookupdev :: "string option"
  pcap_open_offline :: "string option \<Rightarrow> nat option"
  pcap_open_live :: "string \<Rightarrow> int \<Rightarrow> int \<Rightarrow> int \<Rightarrow> nat option"
  pcap_dump_open :: "nat \<Rightarrow> string option \<Rightarrow> nat option"
  pcap_datalink :: "nat \<Rightarrow> int"
  pcap_errbuf :: string

record 'k world = "'k terminal" +
  pcap :: pcap_lib
  pthread_create :: "int \<times> tid"
  callocs :: nat
  sigaction :: "signal \<Rightarrow> int"
  strsignal :: "(signal \<Rightarrow> string) option"
  me :: tid
  junk_id :: tid
  junk_finger :: "string \<times> string"
  install_prefix :: string
  command_line :: getopt_state
  ui_events :: "event list"

subsection \<open>Steps\<close>

text \<open>
  A step of \<^verbatim>\<open>main\<close> goes on, stops with an error or an exit, is still running when the events end, or is
  ended by a signal that nobody catches.
\<close>

datatype halt = Halted c_error | Still_running | Killed

type_synonym 'k step = "'k program \<Rightarrow> halt option \<times> 'k program"

fun run_steps :: "'k step list \<Rightarrow> 'k step" where
  "run_steps [] p = (None, p)"
| "run_steps (f # fs) p = (case f p of (None, p) \<Rightarrow> run_steps fs p | (Some h, p) \<Rightarrow> (Some h, p))"

definition fail :: "c_error \<Rightarrow> 'k step" where
  "fail e p = (Some (Halted e), p)"

text \<open>\<open>with_globals\<close>: the step reads \<^verbatim>\<open>gbls\<close>.\<close>

definition with_globals :: "(globals \<Rightarrow> 'k step) \<Rightarrow> 'k step" where
  "with_globals f p = (case gbls p of None \<Rightarrow> fail Null_pointer p | Some g \<Rightarrow> f g p)"

definition set_globals :: "globals \<Rightarrow> 'k program \<Rightarrow> 'k program" where
  "set_globals g p = p\<lparr>gbls := Some g\<rparr>"

definition atexit :: "exit_handler \<Rightarrow> 'k program \<Rightarrow> 'k program" where
  "atexit h p = p\<lparr>handlers := h # handlers p\<rparr>"

subsection \<open>The user interface behind its pointers\<close>

definition do_cleanup :: "'k program \<Rightarrow> 'k program" where
  "do_cleanup p =
     (case ncurses_cleanup (onscreen p, term_calls p) of (on, tr) \<Rightarrow> p\<lparr>onscreen := on, term_calls := tr\<rparr>)"

definition run_ui_init :: "'k world \<Rightarrow> 'k step" where
  "run_ui_init W p =
     (case init (ui_hooks p) of
        Ncurses_init \<Rightarrow>
          (case ncurses_init W (onscreen p, term_calls p) of (on, tr) \<Rightarrow>
             (None, atexit Run_ncurses_cleanup (p\<lparr>onscreen := on, term_calls := tr\<rparr>)))
      | _ \<Rightarrow> (None, p))"

text \<open>\<^verbatim>\<open>ui_start\<close>; the interface of the name in the options.\<close>

definition run_ui_start :: "'k world \<Rightarrow> 'k step" where
  "run_ui_start W = with_globals (\<lambda>g p.
     case start (ui_hooks p) of
       Ncurses_start \<Rightarrow>
         (case opt_iface (options g) of
            None \<Rightarrow> fail Null_pointer p
          | Some i \<Rightarrow>
              (case ncurses_start (terminal.truncate (W\<lparr>iface := i\<rparr>)) (ui_events W) (scr p) of
                 Inl e \<Rightarrow> fail e p
               | Inr (True, _, s) \<Rightarrow> (None, p\<lparr>scr := s\<rparr>)
               | Inr (False, _, s) \<Rightarrow> (Some Still_running, p\<lparr>scr := s\<rparr>)))
     | _ \<Rightarrow> (None, p))"

definition run_ui_cleanup :: "'k program \<Rightarrow> 'k program" where
  "run_ui_cleanup p = (case cleanup (ui_hooks p) of Ncurses_cleanup \<Rightarrow> do_cleanup p | _ \<Rightarrow> p)"

text \<open>
  \<^verbatim>\<open>error_msg\<close>: the interface is cleaned up, the message printed, and the process exits. The message is
  cut to the size that \<^verbatim>\<open>vsnprintf\<close> is given.
\<close>

definition ERROR_MSG_LEN :: nat where "ERROR_MSG_LEN = 200"

definition error_msg :: "string \<Rightarrow> 'k step" where
  "error_msg m p = (Some (Halted (Exit_process (take (ERROR_MSG_LEN - 1) m))), run_ui_cleanup p)"

text \<open>\<^verbatim>\<open>FATAL_MSG\<close> only exits.\<close>

definition FATAL_MSG :: "string \<Rightarrow> 'k step" where
  "FATAL_MSG m p = (Some (Halted (Exit_process m)), p)"

text \<open>The result of a function that reports its errors with \<^verbatim>\<open>ERROR_MSG\<close>.\<close>

definition checked_call :: "c_error + 'a \<Rightarrow> ('a \<Rightarrow> 'k step) \<Rightarrow> 'k step" where
  "checked_call r f p =
     (case r of Inl (Exit_process m) \<Rightarrow> error_msg m p | Inl e \<Rightarrow> fail e p | Inr x \<Rightarrow> f x p)"

subsection \<open>The globals\<close>

definition no_globals :: globals where
  "no_globals = \<lparr>options = no_options, gbl_name = None, gbl_version = None, gbl_debug_file = None,
     gbl_pcap = None, gbl_dump = None, gbl_snaplen = 0\<rparr>"

text \<open>
  The four structures. When one cannot be allocated, the process exits with \<^verbatim>\<open>globals_free\<close> not registered,
  and what \<^verbatim>\<open>gbls\<close> points to by then is never read.
\<close>

definition globals_alloc :: "'k world \<Rightarrow> 'k step" where
  "globals_alloc W p =
     (if callocs W < 4
      then error_msg ([''can't allocate globals'', ''can't allocate lmap_options'', ''can't allocate program_env'',
        ''can't allocate pcap_env''] ! callocs W) p
      else (None, atexit Globals_free (set_globals no_globals p)))"

text \<open>
  The members are freed one after the other; the structure itself comes last. \<^verbatim>\<open>free_stats\<close> empties the
  list of counters.
\<close>

definition globals_free :: "'k program \<Rightarrow> c_error + 'k program" where
  "globals_free p =
     (case gbls p of
        None \<Rightarrow> Inl Use_after_free
      | Some g \<Rightarrow> Inr (p\<lparr>gbls := None, scr := (scr p)\<lparr>counts := free_stats (counts (scr p))\<rparr>\<rparr>))"

definition set_names :: "'k world \<Rightarrow> string \<Rightarrow> string \<Rightarrow> 'k step" where
  "set_names W program version = with_globals (\<lambda>g p.
     if callocs W < 5
     then error_msg ''can't allocate debug filename''
       (set_globals (g\<lparr>gbl_name := Some program, gbl_version := Some version\<rparr>) p)
     else checked_call (sprintf_into (length program + length ''_debug.log'' + 1) (program @ ''_debug.log'')) (\<lambda>buf p.
       (None, set_globals (g\<lparr>gbl_name := Some program, gbl_version := Some version,
          gbl_debug_file := Some (c_str buf)\<rparr>) p)) p)"

subsection \<open>Options\<close>

definition parse :: "'k world \<Rightarrow> 'k step" where
  "parse W = with_globals (\<lambda>g p.
     case (gbl_name g, gbl_version g) of
       (Some program, Some version) \<Rightarrow>
         (case parse_options program version (command_line W) (options g) of
            None \<Rightarrow> fail Endless_loop p
          | Some (Inl e) \<Rightarrow> fail e p
          | Some (Inr (opts, _)) \<Rightarrow> (None, set_globals (g\<lparr>options := opts\<rparr>) p))
     | _ \<Rightarrow> fail Null_pointer p)"

subsection \<open>The capture\<close>

definition PCAP_PROMISC :: int where "PCAP_PROMISC = 1"

definition PCAP_TIMEOUT :: int where "PCAP_TIMEOUT = 0"

definition choose_iface :: "'k world \<Rightarrow> 'k step" where
  "choose_iface W = with_globals (\<lambda>g p.
     case opt_iface (options g) of
       Some _ \<Rightarrow> (None, p)
     | None \<Rightarrow>
         (case pcap_lookupdev (pcap W) of
            None \<Rightarrow> error_msg ''No suitable interface found...'' p
          | Some i \<Rightarrow> (None, set_globals (g\<lparr>options := (options g)\<lparr>opt_iface := Some i\<rparr>\<rparr>) p)))"

definition announce :: "'k world \<Rightarrow> 'k step" where
  "announce W = with_globals (\<lambda>g p.
     checked_call
       (USER_MSG (terminal.truncate W) (''Listening on '' @ (case opt_iface (options g) of Some i \<Rightarrow> i | None \<Rightarrow> ''(null)'') @
          ''...'' @ nl @ nl) (scr p))
       (\<lambda>s p. (None, p\<lparr>scr := s\<rparr>)) p)"

definition open_pcap :: "'k world \<Rightarrow> globals \<Rightarrow> nat option" where
  "open_pcap W g =
     (if opt_read (options g) then pcap_open_offline (pcap W) (opt_dumpfile (options g))
      else pcap_open_live (pcap W) (case opt_iface (options g) of Some i \<Rightarrow> i | None \<Rightarrow> []) (uint (gbl_snaplen g))
        PCAP_PROMISC PCAP_TIMEOUT)"

definition open_dump :: "'k world \<Rightarrow> nat \<Rightarrow> globals \<Rightarrow> globals" where
  "open_dump W pd g =
     (if opt_dump (options g) then g\<lparr>gbl_dump := pcap_dump_open (pcap W) pd (opt_dumpfile (options g))\<rparr> else g)"

definition capture_open :: "'k world \<Rightarrow> 'k step" where
  "capture_open W = with_globals (\<lambda>g p.
     let g = g\<lparr>gbl_snaplen := 9999\<rparr> in
     case open_pcap W g of
       None \<Rightarrow> error_msg (pcap_errbuf (pcap W)) (set_globals g p)
     | Some pd \<Rightarrow>
         let g = open_dump W pd g;
             p = set_globals g p;
             dlt = pcap_datalink (pcap W) pd in
         (case set_L2_decoder (opt_raw (options g)) (decoders_of p) dlt (l2_decoder p) of (rc, l2) \<Rightarrow>
            let p = p\<lparr>l2_decoder := l2\<rparr> in
            if rc \<noteq> ESUCCESS then
              FATAL_MSG (if opt_read (options g)
                then ''Dump file not supported (DLT = '' @ fmt_d dlt @ '')''
                else ''Inteface '' @ (case opt_iface (options g) of Some i \<Rightarrow> i | None \<Rightarrow> ''(null)'') @
                  '' not supported (DLT = '' @ fmt_d dlt @ '')'') p
            else (None, atexit Capture_close (set_globals (g\<lparr>gbl_pcap := Some pd\<rparr>) p))))"

definition capture_init :: "'k world \<Rightarrow> 'k step" where
  "capture_init W = run_steps [choose_iface W, announce W, capture_open W]"

definition capture_close :: "'k program \<Rightarrow> c_error + 'k program" where
  "capture_close p =
     (case gbls p of
        None \<Rightarrow> Inl Use_after_free
      | Some g \<Rightarrow>
          (case gbl_pcap g of
             None \<Rightarrow> Inl Null_pointer
           | Some pd \<Rightarrow>
               if opt_dump (options g) then
                 (case gbl_dump g of None \<Rightarrow> Inl Null_pointer | Some d \<Rightarrow> Inr (p\<lparr>closed := closed p @ [pd, d]\<rparr>))
               else Inr (p\<lparr>closed := closed p @ [pd]\<rparr>)))"

subsection \<open>Signals\<close>

definition signal_handle :: "'k world \<Rightarrow> signal \<Rightarrow> 'k step" where
  "signal_handle W sg p =
     (if sigaction W sg < 0 then error_msg ''sigaction() failed'' p else (None, p\<lparr>caught := sg # caught p\<rparr>))"

definition signal_handler :: "'k world \<Rightarrow> 'k step" where
  "signal_handler W = run_steps [signal_handle W SIGSEGV, signal_handle W SIGINT, signal_handle W SIGTERM]"

text \<open>
  \<^verbatim>\<open>signal_TERM\<close>, and \<^verbatim>\<open>signal_SEGV\<close> without \<^verbatim>\<open>DEBUG\<close>: the interface is cleaned up, a text is printed and
  the process exits with the code (modulo 256) 1 or 666. \<open>str\<close> is \<^verbatim>\<open>strsignal\<close>, where the system has it.
\<close>

fun signo :: "signal \<Rightarrow> int" where
  "signo SIGINT = 2"
| "signo SIGSEGV = 11"
| "signo SIGTERM = 15"

definition shutdown_text :: "(signal \<Rightarrow> string) option \<Rightarrow> string \<Rightarrow> signal \<Rightarrow> string" where
  "shutdown_text str name sg =
     nl @ nl @ '' Shutting down '' @ name @ '' (received SIGNAL: '' @ fmt_d (signo sg) @
     (case str of None \<Rightarrow> [] | Some f \<Rightarrow> '' | '' @ f sg) @ '')'' @ nl @ nl"

definition signal_TERM :: "(signal \<Rightarrow> string) option \<Rightarrow> signal \<Rightarrow> 'k step" where
  "signal_TERM str sg p =
     (let p = run_ui_cleanup p in
      with_globals (\<lambda>g p.
        (Some (Halted (Exit_process (shutdown_text str (case gbl_name g of None \<Rightarrow> ''(null)'' | Some n \<Rightarrow> n) sg))), p)) p)"

definition signal_SEGV :: "'k step" where
  "signal_SEGV p =
     (Some (Halted (Exit_process (''Ooops ! This shouldn'' @ [CHR 0x27] @ ''t happen...'' @ ''Segmentation fault !'' @
        ''Please recompile in debug mode and send a bugreport''))), run_ui_cleanup p)"

definition deliver :: "(signal \<Rightarrow> string) option \<Rightarrow> signal \<Rightarrow> 'k step" where
  "deliver str sg p =
     (if sg \<notin> set (caught p) then (Some Killed, p)
      else case sg of SIGSEGV \<Rightarrow> signal_SEGV p | _ \<Rightarrow> signal_TERM str sg p)"

subsection \<open>The main program\<close>

definition register_thread :: "'k world \<Rightarrow> string \<Rightarrow> string \<Rightarrow> 'k step" where
  "register_thread W name desc p =
     (None, p\<lparr>thread_tab := lmap_thread_register (me W) LMAP_SELF name desc (thread_tab p)\<rparr>)"

definition banner :: "'k step" where
  "banner = with_globals (\<lambda>g p.
     case (gbl_name g, gbl_version g) of
       (Some n, Some v) \<Rightarrow> (None, p\<lparr>printed_out := printed_out p @ [n @ '' '' @ v]\<rparr>)
     | _ \<Rightarrow> fail Null_pointer p)"

definition load_manuf :: "'k world \<Rightarrow> 'k step" where
  "load_manuf W = with_globals (\<lambda>g p.
     case gbl_name g of
       None \<Rightarrow> fail Null_pointer p
     | Some n \<Rightarrow> checked_call (manuf_init (terminal.byte_order W) (files W) (install_prefix W) n) (\<lambda>(t, _) p.
         (None, atexit Discard_macdb (p\<lparr>mac_tab := t\<rparr>))) p)"

definition load_fingerprints :: "'k world \<Rightarrow> 'k step" where
  "load_fingerprints W = with_globals (\<lambda>g p.
     case gbl_name g of
       None \<Rightarrow> fail Null_pointer p
     | Some n \<Rightarrow> checked_call
         (fingerprint_init (fst (junk_finger W)) (snd (junk_finger W)) (files W) (install_prefix W) n) (\<lambda>(t, _) p.
         (None, atexit Fingerprint_discard (p\<lparr>finger_tab := t\<rparr>))) p)"

definition start_capture :: "'k world \<Rightarrow> 'k step" where
  "start_capture W p =
     checked_call (lmap_thread_new (pthread_create W) (junk_id W) (me W) ''capture'' ''pcap handler and packet decoder''
       (thread_tab p)) (\<lambda>(_, t) p. (None, p\<lparr>thread_tab := t\<rparr>)) p"

definition kill_all :: "'k world \<Rightarrow> 'k step" where
  "kill_all W p =
     (case lmap_thread_kill_all (me W) (thread_tab p) of
        Inl e \<Rightarrow> fail e p
      | Inr t \<Rightarrow> (None, p\<lparr>thread_tab := t\<rparr>))"

definition start_up :: "'k world \<Rightarrow> 'k step list" where
  "start_up W =
     [globals_alloc W, set_names W ''lmap'' ''0.0.2-devel'', register_thread W ''main'' [], signal_handler W, parse W,
      run_ui_init W, banner, capture_init W, load_manuf W, load_fingerprints W, start_capture W,
      register_thread W ''UI'' ''the user interface'']"

definition main_steps :: "'k world \<Rightarrow> 'k step list" where
  "main_steps W = start_up W @ [run_ui_start W, kill_all W, (\<lambda>p. (None, run_ui_cleanup p))]"

subsection \<open>The end of the process\<close>

fun run_handler :: "exit_handler \<Rightarrow> 'k program \<Rightarrow> c_error + 'k program" where
  "run_handler Globals_free p = globals_free p"
| "run_handler Run_ncurses_cleanup p = Inr (do_cleanup p)"
| "run_handler Capture_close p = capture_close p"
| "run_handler Discard_macdb p = Inr (p\<lparr>mac_tab := discard_macdb (mac_tab p)\<rparr>)"
| "run_handler Fingerprint_discard p = Inr (p\<lparr>finger_tab := fingerprint_discard (finger_tab p)\<rparr>)"

text \<open>\<^verbatim>\<open>exit\<close> runs the handlers, the last registered one first.\<close>

fun run_handlers :: "exit_handler list \<Rightarrow> 'k program \<Rightarrow> c_error + 'k program" where
  "run_handlers [] p = Inr p"
| "run_handlers (h # rest) p = bindE (run_handler h p) (run_handlers rest)"

definition exit_process :: "'k program \<Rightarrow> c_error + 'k program" where
  "exit_process p = run_handlers (handlers p) (p\<lparr>handlers := []\<rparr>)"

text \<open>
  A run of the program that a signal may interrupt after \<open>n\<close> steps of \<^verbatim>\<open>main\<close>. The result is an error when
  the behaviour is undefined, \<open>False\<close> with the state when it still runs, and \<open>True\<close> with the state after \<^verbatim>\<open>exit\<close> otherwise.
\<close>

definition finish :: "halt option \<times> 'k program \<Rightarrow> c_error + (bool \<times> 'k program)" where
  "finish r =
     (case r of
        (Some Still_running, p) \<Rightarrow> Inr (False, p)
      | (None, p) \<Rightarrow> map_sum id (Pair True) (exit_process p)
      | (Some Killed, p) \<Rightarrow> Inr (True, p)
      | (Some (Halted (Exit_process m)), p) \<Rightarrow> map_sum id (Pair True) (exit_process p)
      | (Some (Halted e), p) \<Rightarrow> Inl e)"

definition lmap :: "'k world \<Rightarrow> (nat \<times> signal) option \<Rightarrow> 'k program \<Rightarrow> c_error + (bool \<times> 'k program)" where
  "lmap W sig p =
     finish (case sig of
       None \<Rightarrow> run_steps (main_steps W) p
     | Some (n, sg) \<Rightarrow> run_steps (take n (main_steps W) @ [deliver (strsignal W) sg]) p)"

text \<open>The process before \<^verbatim>\<open>main\<close>: the constructors have filled the table of decoders and set the hooks.\<close>

definition before_main :: "decoder_module list \<Rightarrow> 'k system \<Rightarrow> c_error + 'k program" where
  "before_main ms k =
     bindE (ui_register \<lparr>ui_init = Some Ncurses_init, ui_start = Some Ncurses_start,
         ui_cleanup = Some Ncurses_cleanup, ui_msg_op = Some Ncurses_msg\<rparr> (ui_default Do_nothing Printf)) (\<lambda>hooks.
     let st = start_program ms in
     Inr \<lparr>gbls = None, ui_hooks = hooks, decoders_of = table st, l2_decoder = None,
       mac_tab = manuf_empty, finger_tab = finger_empty, thread_tab = \<lparr>thread_list = [], cancelled = []\<rparr>,
       onscreen = False, term_calls = [],
       scr = \<lparr>calls = [], w_sys = None, w_stat = None, last_total = - 1, counts = stat_table st,
         mqueue = \<lparr>messages_queue = [], shown = []\<rparr>, host = k, open_files = 0\<rparr>,
       handlers = [], caught = [], closed = [], printed_out = [], dump_file = [], lost = 0\<rparr>)"

end
