(* ===== verification/Process.thy ===== *)
theory Process
  imports Program
begin

text \<open>
  What holds of a run of the program: the steps of \<^verbatim>\<open>main\<close> keep an invariant that says which of the
  functions registered with \<^verbatim>\<open>atexit\<close> are waiting and that what they use is there; from it follow the
  properties of the start, of the end and of a session with the user interface.
\<close>

subsection \<open>Every way out\<close>

text \<open>The calls that start ncurses and those that leave it.\<close>

definition starts :: "trace \<Rightarrow> nat" where
  "starts tr = length (filter (\<lambda>c. c = Initscr) tr)"

definition ends :: "trace \<Rightarrow> nat" where
  "ends tr = length (filter (\<lambda>c. c = Endwin) tr)"

definition emptied :: "'e chains \<Rightarrow> bool" where
  "emptied tab \<longleftrightarrow> (\<forall>c \<in> set tab. c = [])"

text \<open>The libpcap handles that the globals hold.\<close>

definition open_handles :: "'k program \<Rightarrow> nat list" where
  "open_handles p =
     (case gbls p of None \<Rightarrow> []
      | Some g \<Rightarrow> (case gbl_pcap g of None \<Rightarrow> []
        | Some pd \<Rightarrow> pd # (if opt_dump (options g) then (case gbl_dump g of None \<Rightarrow> [] | Some d \<Rightarrow> [d]) else [])))"

text \<open>
  The invariant of \<^verbatim>\<open>main\<close> when \<open>hl\<close> are the registered handlers: what has to be undone is undone by one of
  them, and what they use is there.
\<close>

definition named :: "'k program \<Rightarrow> bool" where
  "named p \<longleftrightarrow> (\<exists>g. gbls p = Some g \<and> gbl_name g \<noteq> None)"

definition ready :: "exit_handler list \<Rightarrow> 'k program \<Rightarrow> bool" where
  "ready hl p \<longleftrightarrow> handlers p = hl \<and> cleanup (ui_hooks p) = Ncurses_cleanup \<and> init (ui_hooks p) = Ncurses_init \<and>
     start (ui_hooks p) = Ncurses_start \<and>
     (gbls p = None \<longleftrightarrow> Globals_free \<notin> set hl) \<and>
     (onscreen p \<longrightarrow> Run_ncurses_cleanup \<in> set hl) \<and>
     starts (term_calls p) = ends (term_calls p) + (if onscreen p then 1 else 0) \<and>
     (Discard_macdb \<notin> set hl \<longrightarrow> emptied (mac_tab p)) \<and> (Fingerprint_discard \<notin> set hl \<longrightarrow> emptied (finger_tab p)) \<and>
     (\<forall>g. gbls p = Some g \<longrightarrow> (gbl_pcap g = None \<longleftrightarrow> Capture_close \<notin> set hl) \<and>
        (Capture_close \<in> set hl \<longrightarrow> opt_dump (options g) \<longrightarrow> gbl_dump g \<noteq> None)) \<and>
     (caught p \<noteq> [] \<longrightarrow> named p) \<and> closed p = []"

definition stages :: "exit_handler list list" where
  "stages = [[], [Globals_free], [Run_ncurses_cleanup, Globals_free],
     [Capture_close, Run_ncurses_cleanup, Globals_free],
     [Discard_macdb, Capture_close, Run_ncurses_cleanup, Globals_free],
     [Fingerprint_discard, Discard_macdb, Capture_close, Run_ncurses_cleanup, Globals_free]]"

definition exitable :: "'k program \<Rightarrow> bool" where
  "exitable p \<longleftrightarrow> (\<exists>hl \<in> set stages. ready hl p)"

lemma starts_ends_cleanup [simp]:
  "starts (term_calls (do_cleanup p)) = starts (term_calls p)"
  "ends (term_calls (do_cleanup p)) = ends (term_calls p) + (if onscreen p then 1 else 0)"
  by (simp_all add: do_cleanup_def ncurses_cleanup_def starts_def ends_def)

lemma do_cleanup_fields [simp]:
  "handlers (do_cleanup p) = handlers p" "ui_hooks (do_cleanup p) = ui_hooks p" "gbls (do_cleanup p) = gbls p"
  "onscreen (do_cleanup p) = False" "mac_tab (do_cleanup p) = mac_tab p" "finger_tab (do_cleanup p) = finger_tab p"
  "closed (do_cleanup p) = closed p" "scr (do_cleanup p) = scr p" "thread_tab (do_cleanup p) = thread_tab p"
  "caught (do_cleanup p) = caught p"
  by (simp_all add: do_cleanup_def ncurses_cleanup_def)

lemma ready_cleanup: "ready hl p \<Longrightarrow> ready hl (run_ui_cleanup p)"
  by (simp add: ready_def run_ui_cleanup_def named_def)

lemma exitable_cleanup: "exitable p \<Longrightarrow> exitable (run_ui_cleanup p)"
  using ready_cleanup by (auto simp: exitable_def)

lemma emptied_discard [simp]: "emptied (discard_all t)"
  by (auto simp: emptied_def discard_all_def)

lemma exit_from:
  assumes "handlers p = hl" and "run_handlers hl (p\<lparr>handlers := []\<rparr>) = Inr p'"
  shows "exit_process p = Inr p'"
  using assms by (simp add: exit_process_def)

lemma capture_close_ok:
  assumes "gbls p = Some g" and "gbl_pcap g \<noteq> None" and "opt_dump (options g) \<longrightarrow> gbl_dump g \<noteq> None"
  shows "capture_close p = Inr (p\<lparr>closed := closed p @ open_handles p\<rparr>)"
  using assms by (auto simp: capture_close_def open_handles_def)

lemma exit_clean:
  assumes "exitable p"
  shows "\<exists>p'. exit_process p = Inr p' \<and> gbls p' = None \<and> \<not> onscreen p' \<and> starts (term_calls p') = ends (term_calls p') \<and>
    emptied (mac_tab p') \<and> emptied (finger_tab p') \<and> closed p' = open_handles p"
proof -
  obtain hl where hl: "hl \<in> set stages" "ready hl p" using assms by (auto simp: exitable_def)
  note r = hl(2) [unfolded ready_def]
  show ?thesis
  proof (cases "gbls p")
    case None
    with r hl(1) have "hl = []" by (auto simp: stages_def)
    with r None show ?thesis by (simp add: exit_process_def open_handles_def)
  next
    case (Some g)
    have o: "open_handles (p\<lparr>handlers := []\<rparr>) = open_handles p" by (simp add: open_handles_def)
    show ?thesis
    proof (cases "Capture_close \<in> set hl")
      case True
      then have c: "gbl_pcap g \<noteq> None" "opt_dump (options g) \<longrightarrow> gbl_dump g \<noteq> None" using r Some by auto
      have "capture_close q = Inr (q\<lparr>closed := open_handles p\<rparr>)" if "gbls q = Some g" "closed q = []" for q :: "'a program"
        using capture_close_ok [OF that(1) c] that Some by (simp add: open_handles_def)
      moreover have "hl = [Capture_close, Run_ncurses_cleanup, Globals_free] \<or>
          hl = [Discard_macdb, Capture_close, Run_ncurses_cleanup, Globals_free] \<or>
          hl = [Fingerprint_discard, Discard_macdb, Capture_close, Run_ncurses_cleanup, Globals_free]"
        using True hl(1) by (auto simp: stages_def)
      ultimately show ?thesis
        using r Some by (elim disjE) (simp_all add: exit_process_def globals_free_def discard_macdb_def fingerprint_discard_def)
    next
      case False
      then have "gbl_pcap g = None" using r Some by simp
      moreover have "hl = [Globals_free] \<or> hl = [Run_ncurses_cleanup, Globals_free]"
        using False hl(1) r Some by (auto simp: stages_def)
      ultimately show ?thesis
        using r Some by (elim disjE) (simp_all add: exit_process_def globals_free_def open_handles_def)
    qed
  qed
qed

subsection \<open>The steps of main\<close>

text \<open>
  \<open>leads f A B\<close>: from a state with \<open>A\<close>, the step \<open>f\<close> goes on in one with \<open>B\<close>, or exits in one that the
  handlers can clean up.
\<close>

definition leads :: "'k step \<Rightarrow> ('k program \<Rightarrow> bool) \<Rightarrow> ('k program \<Rightarrow> bool) \<Rightarrow> bool" where
  "leads f A B \<longleftrightarrow> (\<forall>p h p'. A p \<longrightarrow> f p = (h, p') \<longrightarrow>
     (h = None \<longrightarrow> B p') \<and> (\<forall>m. h = Some (Halted (Exit_process m)) \<longrightarrow> exitable p'))"

definition leads_all :: "'k step list \<Rightarrow> ('k program \<Rightarrow> bool) \<Rightarrow> bool" where
  "leads_all fs A \<longleftrightarrow> (\<forall>n. leads (run_steps (take n fs)) A exitable)"

lemma leads_steps:
  assumes "leads f A B" and "leads (run_steps fs) B C"
  shows "leads (run_steps (f # fs)) A C"
  using assms unfolding leads_def
  by (auto split: prod.splits option.splits)

lemma leads_all_Nil: "(\<And>p. A p \<Longrightarrow> exitable p) \<Longrightarrow> leads_all [] A"
  by (simp add: leads_all_def leads_def)

lemma leads_all_Cons:
  assumes "leads f A B" and "leads_all fs B" and "\<And>p. A p \<Longrightarrow> exitable p"
  shows "leads_all (f # fs) A"
  unfolding leads_all_def
proof
  fix n
  show "leads (run_steps (take n (f # fs))) A exitable"
  proof (cases n)
    case 0
    with assms(3) show ?thesis by (simp add: leads_def)
  next
    case (Suc k)
    have "leads (run_steps (take k fs)) B exitable" using assms(2) by (simp add: leads_all_def)
    with leads_steps [OF assms(1)] Suc show ?thesis by simp
  qed
qed

lemma ready_exitable: "hl \<in> set stages \<Longrightarrow> ready hl p \<Longrightarrow> exitable p"
  by (auto simp: exitable_def)

text \<open>A step that touches nothing the handlers use.\<close>

lemma leads_same:
  assumes "hl \<in> set stages"
    and "\<And>p h p'. ready hl p \<Longrightarrow> f p = (h, p') \<Longrightarrow> ready hl p'"
  shows "leads f (ready hl) (ready hl)"
  using assms ready_exitable unfolding leads_def by blast

lemma checked_call_upto:
  assumes "ready hl p" and "checked_call r f p = (h, p')" and "\<And>x h p'. r = Inr x \<Longrightarrow> f x p = (h, p') \<Longrightarrow> ready hl p'"
  shows "ready hl p'"
  using assms ready_cleanup
  by (fastforce simp: checked_call_def error_msg_def fail_def split: sum.splits c_error.splits)

lemma leads_checked:
  assumes "ready hl p" and "checked_call r f p = (h, p')" and "hl \<in> set stages"
    and "\<And>x. r = Inr x \<Longrightarrow> f x p = (h, p') \<Longrightarrow> h = None \<and> B p'"
  shows "(h = None \<longrightarrow> B p') \<and> (\<forall>m. h = Some (Halted (Exit_process m)) \<longrightarrow> exitable p')"
  using assms ready_cleanup [OF assms(1)]
  by (auto simp: checked_call_def error_msg_def fail_def exitable_def split: sum.splits c_error.splits)

lemma leads_globals_alloc: "leads (globals_alloc W) (ready []) (ready [Globals_free])"
  by (auto simp: leads_def globals_alloc_def error_msg_def exitable_def stages_def ready_cleanup
      intro!: bexI [of _ "[]"] split: if_splits)
     (auto simp: ready_def atexit_def set_globals_def no_globals_def named_def)

lemma ready_set_globals:
  "ready hl p \<Longrightarrow> gbls p = Some g \<Longrightarrow> gbl_pcap g' = gbl_pcap g \<Longrightarrow> (gbl_name g \<noteq> None \<longrightarrow> gbl_name g' \<noteq> None) \<Longrightarrow>
    (Capture_close \<in> set hl \<longrightarrow> opt_dump (options g') \<longrightarrow> gbl_dump g' \<noteq> None) \<Longrightarrow> ready hl (set_globals g' p)"
  by (auto simp: ready_def set_globals_def named_def)

lemma leads_set_names: "leads (set_names W n v) (ready [Globals_free]) (\<lambda>p. ready [Globals_free] p \<and> named p)"
  unfolding leads_def
proof (intro allI impI)
  fix p :: "'a program" and h p' assume r: "ready [Globals_free] p" and e: "set_names W n v p = (h, p')"
  then obtain g where g: "gbls p = Some g" by (auto simp: ready_def)
  show "(h = None \<longrightarrow> ready [Globals_free] p' \<and> named p') \<and> (\<forall>m. h = Some (Halted (Exit_process m)) \<longrightarrow> exitable p')"
  proof (cases "callocs W < 5")
    case True
    have "ready [Globals_free] (set_globals (g\<lparr>gbl_name := Some n, gbl_version := Some v\<rparr>) p)"
      by (rule ready_set_globals [OF r g]) auto
    then have "exitable (run_ui_cleanup (set_globals (g\<lparr>gbl_name := Some n, gbl_version := Some v\<rparr>) p))"
      using ready_cleanup ready_exitable [of "[Globals_free]"] by (auto simp: stages_def)
    with True e g show ?thesis by (auto simp: set_names_def with_globals_def error_msg_def)
  next
    case False
    show ?thesis
      using e unfolding set_names_def with_globals_def g option.case if_not_P [OF False]
      by (rule leads_checked [OF r])
         (use r g in \<open>auto simp: stages_def named_def set_globals_def intro!: ready_set_globals [unfolded set_globals_def]\<close>)
  qed
qed

lemma leads_named:
  "leads f (ready hl) (ready hl) \<Longrightarrow> (\<And>p h p'. f p = (h, p') \<Longrightarrow> gbls p' = gbls p) \<Longrightarrow>
    leads f (\<lambda>p. ready hl p \<and> named p) (\<lambda>p. ready hl p \<and> named p)"
  by (simp add: leads_def named_def) blast

lemma leads_register: "hl \<in> set stages \<Longrightarrow> leads (register_thread W n d) (ready hl) (ready hl)"
  by (rule leads_same) (auto simp: register_thread_def ready_def named_def)

lemma leads_register_named:
  "hl \<in> set stages \<Longrightarrow> leads (register_thread W n d) (\<lambda>p. ready hl p \<and> named p) (\<lambda>p. ready hl p \<and> named p)"
  by (rule leads_named [OF leads_register]) (auto simp: register_thread_def)

lemma leads_signal_handle:
  assumes "hl \<in> set stages"
  shows "leads (signal_handle W sg) (\<lambda>p. ready hl p \<and> named p) (\<lambda>p. ready hl p \<and> named p)"
proof -
  have "ready hl (p\<lparr>caught := sg # caught p\<rparr>)" if "ready hl p" "named p" for p :: "'a program"
    using that by (auto simp: ready_def named_def)
  then show ?thesis
    using ready_exitable [OF assms ready_cleanup]
    by (auto simp: leads_def signal_handle_def error_msg_def named_def split: if_splits)
qed

lemma leads_signal_handler: "hl \<in> set stages \<Longrightarrow> leads (signal_handler W) (\<lambda>p. ready hl p \<and> named p) (ready hl)"
  unfolding signal_handler_def
  by (intro leads_steps [OF leads_signal_handle]) (auto simp: leads_def)

lemma leads_parse: "leads (parse W) (ready [Globals_free]) (ready [Globals_free])"
  by (rule leads_same)
     (auto simp: parse_def with_globals_def fail_def stages_def intro: ready_set_globals split: option.splits sum.splits prod.splits)

lemma leads_ui_init: "leads (run_ui_init W) (ready [Globals_free]) (ready [Run_ncurses_cleanup, Globals_free])"
  by (auto simp: leads_def run_ui_init_def ready_def ncurses_init_def named_def atexit_def starts_def ends_def split: prod.splits)

lemma leads_banner: "hl \<in> set stages \<Longrightarrow> leads banner (ready hl) (ready hl)"
  by (rule leads_same) (auto simp: banner_def with_globals_def fail_def ready_def named_def split: option.splits)


lemma leads_choose_iface:
  "leads (choose_iface W) (ready [Run_ncurses_cleanup, Globals_free]) (ready [Run_ncurses_cleanup, Globals_free])"
proof (rule leads_same)
  fix p h p' assume a: "ready [Run_ncurses_cleanup, Globals_free] p" "choose_iface W p = (h, p')"
  then obtain g where g: "gbls p = Some g" by (auto simp: ready_def)
  show "ready [Run_ncurses_cleanup, Globals_free] p'"
    using a g by (auto simp: choose_iface_def with_globals_def error_msg_def intro!: ready_cleanup ready_set_globals
        split: option.splits)
qed (simp add: stages_def)

lemma ready_scr: "ready hl p \<Longrightarrow> ready hl (p\<lparr>scr := s\<rparr>)"
  by (simp add: ready_def named_def)

lemma ready_l2: "ready hl p \<Longrightarrow> ready hl (p\<lparr>l2_decoder := d\<rparr>)"
  by (simp add: ready_def named_def)

lemma ready_threads: "ready hl p \<Longrightarrow> ready hl (p\<lparr>thread_tab := t\<rparr>)"
  by (simp add: ready_def named_def)

lemma leads_announce:
  "leads (announce W) (ready [Run_ncurses_cleanup, Globals_free]) (ready [Run_ncurses_cleanup, Globals_free])"
proof (rule leads_same)
  fix p h p' assume a: "ready [Run_ncurses_cleanup, Globals_free] p" "announce W p = (h, p')"
  then obtain g where g: "gbls p = Some g" by (auto simp: ready_def)
  show "ready [Run_ncurses_cleanup, Globals_free] p'"
    using a(2) unfolding announce_def with_globals_def g option.case
    by (rule checked_call_upto [OF a(1)]) (use a(1) in \<open>auto intro: ready_scr\<close>)
qed (simp add: stages_def)

lemma leads_capture_open:
  assumes d: "\<And>pd f. pcap_dump_open (pcap W) pd f \<noteq> None"
  shows "leads (capture_open W) (ready [Run_ncurses_cleanup, Globals_free])
    (ready [Capture_close, Run_ncurses_cleanup, Globals_free])"
proof -
  have st: "exitable q" if "ready [Run_ncurses_cleanup, Globals_free] q" for q :: "'a program"
    using that by (auto simp: exitable_def stages_def)
  show ?thesis
    unfolding leads_def
  proof (intro allI impI)
    fix p :: "'a program" and h p'
    assume r: "ready [Run_ncurses_cleanup, Globals_free] p" and e: "capture_open W p = (h, p')"
    then obtain g where g: "gbls p = Some g" by (auto simp: ready_def)
    let ?g = "g\<lparr>gbl_snaplen := 9999\<rparr>"
    show "(h = None \<longrightarrow> ready [Capture_close, Run_ncurses_cleanup, Globals_free] p') \<and>
      (\<forall>m. h = Some (Halted (Exit_process m)) \<longrightarrow> exitable p')"
    proof (cases "open_pcap W ?g")
      case None
      with e g r show ?thesis
        by (auto simp: capture_open_def with_globals_def error_msg_def intro!: st ready_cleanup ready_set_globals)
    next
      case (Some pd)
      define g' where "g' = open_dump W pd ?g"
      have g': "gbl_pcap g' = gbl_pcap g" "opt_dump (options g') \<longrightarrow> gbl_dump g' \<noteq> None"
        using d by (auto simp: g'_def open_dump_def)
      have r': "ready [Run_ncurses_cleanup, Globals_free] (set_globals g' p)"
        by (rule ready_set_globals [OF r g g'(1)]) (simp_all add: g'_def open_dump_def)
      obtain rc l2 where l: "set_L2_decoder (opt_raw (options g')) (decoders_of (set_globals g' p))
          (pcap_datalink (pcap W) pd) (l2_decoder (set_globals g' p)) = (rc, l2)" by force
      show ?thesis
      proof (cases "rc = ESUCCESS")
        case True
        then have "(h, p') = (None, atexit Capture_close (set_globals (g'\<lparr>gbl_pcap := Some pd\<rparr>)
            (set_globals g' p\<lparr>l2_decoder := l2\<rparr>)))"
          using e g Some l by (simp add: capture_open_def with_globals_def Let_def flip: g'_def)
        with ready_l2 [OF r'] g' show ?thesis by (auto simp: ready_def atexit_def set_globals_def named_def)
      next
        case False
        then have "p' = set_globals g' p\<lparr>l2_decoder := l2\<rparr>" "h \<noteq> None"
          using e g Some l by (auto simp: capture_open_def with_globals_def Let_def FATAL_MSG_def simp flip: g'_def)
        moreover have "exitable (set_globals g' p\<lparr>l2_decoder := l2\<rparr>)" by (intro st ready_l2 r')
        ultimately show ?thesis by auto
      qed
    qed
  qed
qed

lemma leads_none: "leads (run_steps []) A A"
  by (simp add: leads_def)

lemma leads_capture_init:
  assumes "\<And>pd f. pcap_dump_open (pcap W) pd f \<noteq> None"
  shows "leads (capture_init W) (ready [Run_ncurses_cleanup, Globals_free])
    (ready [Capture_close, Run_ncurses_cleanup, Globals_free])"
  unfolding capture_init_def
  by (intro leads_steps [OF leads_choose_iface] leads_steps [OF leads_announce]
      leads_steps [OF leads_capture_open] leads_none assms)

lemma leads_load_manuf:
  "leads (load_manuf W) (ready [Capture_close, Run_ncurses_cleanup, Globals_free])
    (ready [Discard_macdb, Capture_close, Run_ncurses_cleanup, Globals_free])"
  unfolding leads_def
proof (intro allI impI)
  fix p :: "'a program" and h p'
  assume r: "ready [Capture_close, Run_ncurses_cleanup, Globals_free] p" and e: "load_manuf W p = (h, p')"
  then obtain g where g: "gbls p = Some g" by (auto simp: ready_def)
  show "(h = None \<longrightarrow> ready [Discard_macdb, Capture_close, Run_ncurses_cleanup, Globals_free] p') \<and>
      (\<forall>m. h = Some (Halted (Exit_process m)) \<longrightarrow> exitable p')"
  proof (cases "gbl_name g")
    case None
    with e g show ?thesis by (auto simp: load_manuf_def with_globals_def fail_def)
  next
    case (Some n)
    show ?thesis
      using e unfolding load_manuf_def with_globals_def g Some option.case
      by (rule leads_checked [OF r]) (use r in \<open>auto simp: stages_def ready_def atexit_def named_def\<close>)
  qed
qed

lemma leads_load_fingerprints:
  "leads (load_fingerprints W) (ready [Discard_macdb, Capture_close, Run_ncurses_cleanup, Globals_free])
    (ready [Fingerprint_discard, Discard_macdb, Capture_close, Run_ncurses_cleanup, Globals_free])"
  unfolding leads_def
proof (intro allI impI)
  fix p :: "'a program" and h p'
  assume r: "ready [Discard_macdb, Capture_close, Run_ncurses_cleanup, Globals_free] p"
    and e: "load_fingerprints W p = (h, p')"
  then obtain g where g: "gbls p = Some g" by (auto simp: ready_def)
  show "(h = None \<longrightarrow> ready [Fingerprint_discard, Discard_macdb, Capture_close, Run_ncurses_cleanup, Globals_free] p') \<and>
      (\<forall>m. h = Some (Halted (Exit_process m)) \<longrightarrow> exitable p')"
  proof (cases "gbl_name g")
    case None
    with e g show ?thesis by (auto simp: load_fingerprints_def with_globals_def fail_def)
  next
    case (Some n)
    show ?thesis
      using e unfolding load_fingerprints_def with_globals_def g Some option.case
      by (rule leads_checked [OF r]) (use r in \<open>auto simp: stages_def ready_def atexit_def named_def\<close>)
  qed
qed

lemma leads_start_capture: "hl \<in> set stages \<Longrightarrow> leads (start_capture W) (ready hl) (ready hl)"
proof (rule leads_same)
  fix p h p' assume a: "ready hl p" "start_capture W p = (h, p')"
  show "ready hl p'"
    using a(2) unfolding start_capture_def
    by (rule checked_call_upto [OF a(1)]) (auto intro: ready_threads [OF a(1)])
qed

lemma leads_kill_all: "hl \<in> set stages \<Longrightarrow> leads (kill_all W) (ready hl) (ready hl)"
  by (rule leads_same) (auto simp: kill_all_def fail_def intro: ready_threads split: sum.splits)

lemma leads_ui_start: "hl \<in> set stages \<Longrightarrow> leads (run_ui_start W) (ready hl) (ready hl)"
  by (rule leads_same) (auto simp: run_ui_start_def with_globals_def fail_def intro: ready_scr
      split: option.splits sum.splits prod.splits bool.splits ui_hook.splits)

lemma leads_ui_cleanup: "hl \<in> set stages \<Longrightarrow> leads (\<lambda>p. (None, run_ui_cleanup p)) (ready hl) (ready hl)"
  by (rule leads_same) (auto intro: ready_cleanup)

lemma main_leads:
  assumes "\<And>pd f. pcap_dump_open (pcap W) pd f \<noteq> None"
  shows "leads_all (main_steps W) (ready [])"
  unfolding main_steps_def start_up_def append.simps
  by (rule leads_all_Cons leads_globals_alloc leads_set_names leads_register_named leads_register leads_signal_handler leads_parse
      leads_ui_init leads_banner leads_capture_init leads_load_manuf leads_load_fingerprints leads_start_capture
      leads_ui_start leads_kill_all leads_ui_cleanup leads_all_Nil assms | erule ready_exitable [rotated] conjunct1 [THEN ready_exitable [rotated]] | simp add: stages_def)+

lemma before_main_ready: "before_main ms k = Inr p \<Longrightarrow> ready [] p"
  by (auto simp: before_main_def ui_register_def hook_def ui_default_def Let_def ready_def emptied_def manuf_empty_def
      finger_empty_def starts_def ends_def named_def split: sum.splits)

lemma signal_exits:
  assumes "exitable p" and "sg \<in> set (caught p)"
  shows "\<exists>m q. deliver str sg p = (Some (Halted (Exit_process m)), q) \<and> exitable q \<and> open_handles q = open_handles p"
proof -
  have n: "gbls (run_ui_cleanup p) = gbls p" by (simp add: run_ui_cleanup_def split: ui_hook.splits)
  have "named p" using assms by (auto simp: exitable_def ready_def)
  then obtain g m where g: "gbls p = Some g" "gbl_name g = Some m" by (auto simp: named_def)
  have o: "open_handles (run_ui_cleanup p) = open_handles p" by (simp add: open_handles_def n)
  show ?thesis
    using assms(2) exitable_cleanup [OF assms(1)] g n o
    by - (cases sg; simp add: deliver_def signal_SEGV_def signal_TERM_def Let_def with_globals_def)
qed

text \<open>
  What is left behind: the structures of the globals are freed, ncurses has been left as often as it was
  started, the chains of both tables are empty.
\<close>

definition released :: "'k program \<Rightarrow> bool" where
  "released p \<longleftrightarrow> gbls p = None \<and> \<not> onscreen p \<and> starts (term_calls p) = ends (term_calls p) \<and>
     emptied (mac_tab p) \<and> emptied (finger_tab p)"

lemma exits_clean:
  assumes "before_main ms k = Inr p0" and "\<And>pd f. pcap_dump_open (pcap W) pd f \<noteq> None"
    and "run_steps (take n (main_steps W)) p0 = (h, p)"
    and "h = None \<or> (\<exists>m. h = Some (Halted (Exit_process m)))"
  shows "exitable p"
proof -
  have "leads (run_steps (take n (main_steps W))) (ready []) exitable"
    using main_leads [of W] assms(2) by (simp add: leads_all_def)
  then show ?thesis using before_main_ready [OF assms(1)] assms(3,4) by (auto simp: leads_def)
qed

lemma caught_clean:
  assumes "exitable p" and "sg \<in> set (caught p)"
  shows "\<exists>p'. finish (deliver str sg p) = Inr (True, p') \<and> released p' \<and> closed p' = open_handles p"
proof -
  obtain m q where q: "deliver str sg p = (Some (Halted (Exit_process m)), q)" "exitable q" "open_handles q = open_handles p"
    using signal_exits [OF assms] by blast
  then show ?thesis using exit_clean [OF q(2)] by (auto simp: finish_def released_def)
qed


subsection \<open>Starting up\<close>

lemma run_steps_append:
  "run_steps (fs @ gs) p = (case run_steps fs p of (None, q) \<Rightarrow> run_steps gs q | (Some h, q) \<Rightarrow> (Some h, q))"
  by (induction fs arbitrary: p) (auto split: prod.splits option.splits)

lemma run_steps_goes_on: "run_steps (f # fs) p = (None, p') \<longleftrightarrow> (\<exists>q. f p = (None, q) \<and> run_steps fs q = (None, p'))"
  by (auto split: prod.splits option.splits)

lemma checked_call_goes_on:
  "checked_call r f p = (None, p') \<longleftrightarrow> (\<exists>x. r = Inr x \<and> f x p = (None, p'))"
  by (auto simp: checked_call_def error_msg_def fail_def split: sum.splits c_error.splits)

text \<open>The steps that leave the thread list and the terminal as they are.\<close>

definition apart :: "'k step \<Rightarrow> bool" where
  "apart f \<longleftrightarrow> (\<forall>p p'. f p = (None, p') \<longrightarrow> thread_tab p' = thread_tab p \<and> onscreen p' = onscreen p \<and> ui_hooks p' = ui_hooks p)"

lemma apart_globals:
  "(\<And>g p p'. f g p = (None, p') \<Longrightarrow> thread_tab p' = thread_tab p \<and> onscreen p' = onscreen p \<and> ui_hooks p' = ui_hooks p) \<Longrightarrow> apart (with_globals f)"
  by (auto simp: apart_def with_globals_def fail_def split: option.splits)

lemmas apart_unfolds = atexit_def set_globals_def error_msg_def fail_def checked_call_goes_on FATAL_MSG_def Let_def

lemma apart_steps:
  "apart (globals_alloc W)" "apart (set_names W n v)" "apart (signal_handler W)" "apart (parse W)" "apart banner"
  "apart (choose_iface W)" "apart (announce W)" "apart (load_manuf W)" "apart (load_fingerprints W)"
  subgoal by (auto simp: apart_def globals_alloc_def apart_unfolds split: if_splits)
  subgoal unfolding set_names_def by (rule apart_globals) (auto simp: apart_unfolds split: if_splits)
  subgoal by (auto simp: apart_def signal_handler_def signal_handle_def error_msg_def split: if_splits)
  subgoal unfolding parse_def by (rule apart_globals) (auto simp: apart_unfolds split: option.splits sum.splits)
  subgoal unfolding banner_def by (rule apart_globals) (auto simp: apart_unfolds split: option.splits)
  subgoal unfolding choose_iface_def by (rule apart_globals) (auto simp: apart_unfolds split: option.splits)
  subgoal unfolding announce_def by (rule apart_globals) (auto simp: apart_unfolds)
  subgoal unfolding load_manuf_def by (rule apart_globals) (auto simp: apart_unfolds split: option.splits)
  subgoal unfolding load_fingerprints_def by (rule apart_globals) (auto simp: apart_unfolds split: option.splits)
  done

lemma apart_capture_open: "apart (capture_open W)"
  unfolding capture_open_def by (rule apart_globals) (auto simp: apart_unfolds split: option.splits prod.splits if_splits)

lemma apart_ui_start: "apart (run_ui_start W)"
  unfolding run_ui_start_def
  by (rule apart_globals) (auto simp: apart_unfolds split: option.splits sum.splits prod.splits bool.splits ui_hook.splits)

lemma apart_capture_init: "apart (capture_init W)"
  using apart_steps(6,7) [of W] apart_capture_open [of W] unfolding apart_def capture_init_def run_steps_goes_on
  by (metis run_steps.simps(1) prod.inject)

lemma capture_init_apart:
  "capture_init W p = (None, p') \<Longrightarrow> thread_tab p' = thread_tab p \<and> onscreen p' = onscreen p \<and> ui_hooks p' = ui_hooks p"
  using apart_capture_init by (auto simp: apart_def)

lemma apartD: "f p = (None, p') \<Longrightarrow> apart f \<Longrightarrow> thread_tab p' = thread_tab p \<and> onscreen p' = onscreen p \<and> ui_hooks p' = ui_hooks p"
  by (simp add: apart_def)

definition session_threads :: "tid \<Rightarrow> tid \<Rightarrow> threads" where
  "session_threads main capture = \<lparr>thread_list =
     [\<lparr>thread_id = capture, thread_name = ''capture'', description = ''pcap handler and packet decoder''\<rparr>,
      \<lparr>thread_id = main, thread_name = ''UI'', description = ''the user interface''\<rparr>], cancelled = []\<rparr>"

lemma register_goes_on:
  "register_thread W n d p = (None, p') \<longleftrightarrow>
    p' = p\<lparr>thread_tab := lmap_thread_register (me W) LMAP_SELF n d (thread_tab p)\<rparr>"
  by (auto simp: register_thread_def)

lemma start_capture_goes_on:
  "start_capture W p = (None, p') \<Longrightarrow> \<exists>i t. lmap_thread_new (pthread_create W) (junk_id W) (me W) ''capture''
      ''pcap handler and packet decoder'' (thread_tab p) = Inr (i, t) \<and> p' = p\<lparr>thread_tab := t\<rparr>"
  by (auto simp: start_capture_def checked_call_goes_on)

lemma ui_init_goes_on:
  "run_ui_init W p = (None, p') \<Longrightarrow> init (ui_hooks p) = Ncurses_init \<Longrightarrow> onscreen p' \<and> thread_tab p' = thread_tab p"
  by (auto simp: run_ui_init_def ncurses_init_def atexit_def split: prod.splits)

lemma start_up_threads:
  assumes run: "run_steps (start_up W @ [run_ui_start W]) p = (None, p')" and "pthread_create W = (0, t)"
    and "t \<noteq> me W" and "t \<noteq> LMAP_SELF"
    and "thread_tab p = \<lparr>thread_list = [], cancelled = []\<rparr>" and "init (ui_hooks p) = Ncurses_init"
  shows "thread_tab p' = session_threads (me W) t \<and> onscreen p'"
proof -
  note a = apartD [OF _ apart_steps(1)] apartD [OF _ apart_steps(2)] apartD [OF _ apart_steps(3)]
    apartD [OF _ apart_steps(4)] apartD [OF _ apart_steps(5)] capture_init_apart apartD [OF _ apart_steps(8)]
    apartD [OF _ apart_steps(9)] apartD [OF _ apart_ui_start]
  from run obtain p1 p2 p3 p4 p5 p6 p7 p8 p9 p10 p11 p12 where
    s: "globals_alloc W p = (None, p1)" "set_names W ''lmap'' ''0.0.2-devel'' p1 = (None, p2)"
      "register_thread W ''main'' [] p2 = (None, p3)" "signal_handler W p3 = (None, p4)" "parse W p4 = (None, p5)"
      "run_ui_init W p5 = (None, p6)" "banner p6 = (None, p7)" "capture_init W p7 = (None, p8)"
      "load_manuf W p8 = (None, p9)" "load_fingerprints W p9 = (None, p10)" "start_capture W p10 = (None, p11)"
      "register_thread W ''UI'' ''the user interface'' p11 = (None, p12)" "run_ui_start W p12 = (None, p')"
    unfolding start_up_def append.simps run_steps_goes_on by auto
  have p3: "ui_hooks p3 = ui_hooks p2"
      "thread_tab p3 = lmap_thread_register (me W) LMAP_SELF ''main'' [] (thread_tab p2)"
    using s(3) by (simp_all add: register_goes_on)
  have "thread_tab p5 = lmap_thread_register (me W) LMAP_SELF ''main'' [] (thread_tab p)" "init (ui_hooks p5) = Ncurses_init"
    using assms(6) p3 a(1) [OF s(1)] a(2) [OF s(2)] a(3) [OF s(4)] a(4) [OF s(5)] by simp_all
  then have p10: "onscreen p10" "thread_tab p10 = lmap_thread_register (me W) LMAP_SELF ''main'' [] (thread_tab p)"
    using ui_init_goes_on [OF s(6)] a(5) [OF s(7)] a(6) [OF s(8)] a(7) [OF s(9)] a(8) [OF s(10)] by simp_all
  obtain tab where tab: "lmap_thread_new (pthread_create W) (junk_id W) (me W) ''capture''
      ''pcap handler and packet decoder'' (thread_tab p10) = Inr tab" "p11 = p10\<lparr>thread_tab := snd tab\<rparr>"
    using start_capture_goes_on [OF s(11)] by auto
  show ?thesis
    using s(12) a(9) [OF s(13)] tab p10 assms(2-5)
    by (auto simp: register_goes_on lmap_thread_new_def lmap_thread_register_def resolve_def session_threads_def split: if_splits)
qed

lemma before_main_threads:
  "before_main ms k = Inr p \<Longrightarrow> thread_tab p = \<lparr>thread_list = [], cancelled = []\<rparr> \<and> init (ui_hooks p) = Ncurses_init"
  by (auto simp: before_main_def ui_register_def hook_def ui_default_def Let_def split: sum.splits)

text \<open>
  C5: When the start succeeds and the user leaves the interface, \<^verbatim>\<open>main\<close> never reaches its last call: the
  capture thread is still registered, so \<^verbatim>\<open>lmap_thread_kill_all\<close> reads the list element that it has just
  freed, and the terminal is still in the state of ncurses.
\<close>

theorem quitting_uses_freed_memory:
  assumes "before_main ms k = Inr p0" and "pthread_create W = (0, t)" and "t \<noteq> me W" and "t \<noteq> LMAP_SELF"
    and "run_steps (start_up W @ [run_ui_start W]) p0 = (None, p)"
  shows "run_steps (main_steps W) p0 = (Some (Halted Use_after_free), p) \<and> onscreen p \<and>
    lmap W None p0 = Inl Use_after_free"
proof -
  have m: "main_steps W = (start_up W @ [run_ui_start W]) @ [kill_all W, \<lambda>p. (None, run_ui_cleanup p)]"
    by (simp add: main_steps_def)
  have t: "thread_tab p = session_threads (me W) t \<and> onscreen p"
    using start_up_threads [OF assms(5,2-4)] before_main_threads [OF assms(1)] by simp
  have "lmap_thread_kill_all (me W) (session_threads (me W) t) = Inl Use_after_free"
    using assms(3) kill_from_eq [of "session_threads (me W) t" "thread_list (session_threads (me W) t)" "me W"]
    by (simp add: lmap_thread_kill_all_def session_threads_def threads_wf_def)
  with t have "kill_all W p = (Some (Halted Use_after_free), p)" by (simp add: kill_all_def fail_def)
  then have "run_steps (main_steps W) p0 = (Some (Halted Use_after_free), p)"
    using assms(5) unfolding m run_steps_append by simp
  with t show ?thesis by (simp add: lmap_def finish_def)
qed

lemma checked_call_Inr [simp]: "checked_call (Inr x) f p = f x p"
  by (simp add: checked_call_def)

lemma set_names_ok:
  assumes "gbls p = Some g" and "NUL \<notin> set program" and "5 \<le> callocs W"
  shows "set_names W program version p = (None, set_globals (g\<lparr>gbl_name := Some program, gbl_version := Some version,
     gbl_debug_file := Some (program @ ''_debug.log'')\<rparr>) p)"
proof -
  obtain b where "sprintf_into (length program + length ''_debug.log'' + 1) (program @ ''_debug.log'') = Inr b"
      "c_str b = program @ ''_debug.log''"
    using c_str_sprintf_into [of "program @ ''_debug.log''" "length program + length ''_debug.log'' + 1"] assms(2) by auto
  then show ?thesis using assms(1,3) by (simp add: set_names_def with_globals_def del: length_append list.size)
qed

lemma globals_alloc_ok: "4 \<le> callocs W \<Longrightarrow> globals_alloc W p = (None, atexit Globals_free (set_globals no_globals p))"
  by (simp add: globals_alloc_def)

lemma signal_handler_ok:
  assumes "\<And>sg. 0 \<le> sigaction W sg"
  shows "signal_handler W p = (None, p\<lparr>caught := [SIGTERM, SIGINT, SIGSEGV] @ caught p\<rparr>)"
proof -
  have "(sigaction W sg < 0) = False" for sg using assms [of sg] by simp
  then show ?thesis by (simp add: signal_handler_def signal_handle_def)
qed

lemmas step_defs = set_names_ok with_globals_def register_thread_def parse_def
  run_ui_init_def banner_def choose_iface_def announce_def capture_open_def load_manuf_def load_fingerprints_def
  start_capture_def atexit_def set_globals_def ncurses_init_def USER_MSG_eq

lemma start_up_goes_on:
  assumes "all_modules ms" and "before_main ms k = Inr p0" and "5 \<le> callocs W" and "\<And>sg. 0 \<le> sigaction W sg"
    and "parse_options ''lmap'' ''0.0.2-devel'' (command_line W) no_options = Some (Inr (opts, gs))"
    and "opt_iface opts = Some i \<or> opt_iface opts = None \<and> pcap_lookupdev (pcap W) = Some i"
    and "(if opt_read opts then pcap_open_offline (pcap W) (opt_dumpfile opts) else pcap_open_live (pcap W) i 9999 1 0) = Some pd"
    and "std_decoder LINK_LAYER (pcap_datalink (pcap W) pd) = Some d"
    and "manuf_init (terminal.byte_order W) (files W) (install_prefix W) ''lmap'' = Inr (macs, m)"
    and "fingerprint_init (fst (junk_finger W)) (snd (junk_finger W)) (files W) (install_prefix W) ''lmap'' = Inr (fingers, n)"
    and "pthread_create W = (0, t)" and "t \<noteq> me W" and "t \<noteq> LMAP_SELF"
  shows "\<exists>p. run_steps (start_up W) p0 = (None, p) \<and> mac_tab p = macs \<and> finger_tab p = fingers \<and>
    l2_decoder p = Some d \<and> thread_tab p = session_threads (me W) t \<and> onscreen p \<and>
    scr p = (scr p0)\<lparr>mqueue := \<lparr>messages_queue = [''Listening on '' @ i @ ''...'' @ nl @ nl], shown = []\<rparr>\<rparr> \<and>
    start (ui_hooks p) = Ncurses_start \<and>
    (\<exists>g. gbls p = Some g \<and> options g = opts\<lparr>opt_iface := Some i\<rparr> \<and> gbl_pcap g = Some pd) \<and>
    handlers p = [Fingerprint_discard, Discard_macdb, Capture_close, Run_ncurses_cleanup, Globals_free]"
proof -
  have o: "opts\<lparr>opt_iface := Some i\<rparr> = opts" if "opt_iface opts = Some i" using that by (cases opts) simp
  note p0 = assms(2) [unfolded before_main_def ui_register_ok Let_def bindE.simps sum.inject, symmetric]
  have "4 \<le> callocs W" using assms(3) by simp
  note first = globals_alloc_ok [OF this] signal_handler_ok [OF assms(4)]
  show ?thesis
    using assms(3,5-) o unfolding p0 start_up_def capture_init_def
    by (cases "opt_dump opts"; cases "opt_read opts"; elim disjE)
       (auto simp: first step_defs no_globals_def set_L2_decoder_table [OF assms(1)] ui_default_def open_pcap_def open_dump_def PCAP_PROMISC_def
        PCAP_TIMEOUT_def lmap_thread_new_def lmap_thread_register_def resolve_def session_threads_def Let_def)
qed

text \<open>
  C4: When the options are accepted, there is an interface, libpcap opens it with a link layer that has a
  decoder, both data files load and the thread can be created, the whole start of \<^verbatim>\<open>main\<close> goes through:
  the tables are those of the files, the decoder that of the link layer, the threads are the capture and
  the user interface (the entry of the main thread is renamed), the one message says what is listened
  to, the interface is in the options, and five functions wait for \<^verbatim>\<open>exit\<close>.
\<close>

theorem start_up_loads_everything:
  assumes "all_modules ms" and "before_main ms k = Inr p0" and "5 \<le> callocs W" and "\<And>sg. 0 \<le> sigaction W sg"
    and "parse_options ''lmap'' ''0.0.2-devel'' (command_line W) no_options = Some (Inr (opts, gs))"
    and "opt_iface opts = Some i \<or> opt_iface opts = None \<and> pcap_lookupdev (pcap W) = Some i"
    and "(if opt_read opts then pcap_open_offline (pcap W) (opt_dumpfile opts) else pcap_open_live (pcap W) i 9999 1 0) = Some pd"
    and "std_decoder LINK_LAYER (pcap_datalink (pcap W) pd) = Some d"
    and "manuf_init (terminal.byte_order W) (files W) (install_prefix W) ''lmap'' = Inr (macs, m)"
    and "fingerprint_init (fst (junk_finger W)) (snd (junk_finger W)) (files W) (install_prefix W) ''lmap'' = Inr (fingers, n)"
    and "pthread_create W = (0, t)" and "t \<noteq> me W" and "t \<noteq> LMAP_SELF"
  shows "\<exists>p. run_steps (start_up W) p0 = (None, p) \<and> mac_tab p = macs \<and> finger_tab p = fingers \<and>
    l2_decoder p = Some d \<and> thread_tab p = session_threads (me W) t \<and> onscreen p \<and>
    messages_queue (mqueue (scr p)) = [''Listening on '' @ i @ ''...'' @ nl @ nl] \<and>
    counts (scr p) = stat_table (start_program ms) \<and>
    (\<exists>g. gbls p = Some g \<and> options g = opts\<lparr>opt_iface := Some i\<rparr> \<and> gbl_pcap g = Some pd) \<and>
    handlers p = [Fingerprint_discard, Discard_macdb, Capture_close, Run_ncurses_cleanup, Globals_free]"
  using start_up_goes_on [OF assms] assms(2)
  by (auto simp: before_main_def Let_def ui_register_ok)

text \<open>
  With every decoder linked in, \<^verbatim>\<open>capture_init\<close> accepts the Ethernet and 802.11 link layers, whatever the
  option \<^verbatim>\<open>--raw\<close> says, and sets their decoder. Any other link layer ends the program, and the handle that was
  opened is then closed by nobody: it is neither stored nor is \<^verbatim>\<open>capture_close\<close> registered.
\<close>

theorem capture_link_layers:
  fixes W :: "'k world" and p :: "'k program"
  assumes "all_modules ms" and "decoders_of p = table (start_program ms)" and "gbls p = Some g"
    and "open_pcap W (g\<lparr>gbl_snaplen := 9999\<rparr>) = Some pd"
  shows "if pcap_datalink (pcap W) pd \<in> {LI_TYPE_ETH, LI_TYPE_WIFI}
    then \<exists>p' g'. capture_open W p = (None, p') \<and> handlers p' = Capture_close # handlers p \<and>
      gbls p' = Some g' \<and> gbl_pcap g' = Some pd \<and>
      l2_decoder p' = Some (if pcap_datalink (pcap W) pd = LI_TYPE_ETH then Decode_eth else Decode_wifi)
    else \<exists>p' g' m. capture_open W p = (Some (Halted (Exit_process m)), p') \<and> handlers p' = handlers p \<and>
      gbls p' = Some g' \<and> gbl_pcap g' = gbl_pcap g \<and> closed p' = closed p"
  using assms(3,4)
  by (auto simp: capture_open_def with_globals_def open_dump_def Let_def set_L2_decoder_table [OF assms(1)] assms(2)
      std_decoder_def atexit_def set_globals_def FATAL_MSG_def)

subsection \<open>A run\<close>

lemma counters_ok_start:
  assumes "ms \<noteq> []"
  shows "counters_ok (stat_table (start_program ms))"
proof -
  have 1: "current (register_stat t st) = current st \<and> stat_list (register_stat t st) \<noteq> []" for t st
    by (cases "stat_list st") (auto simp: register_stat_def Let_def split: option.splits if_splits)
  have 2: "stats_invar (stat.registers ts st) \<and> current (stat.registers ts st) = current st \<and>
      (ts = [] \<or> stat_list (stat.registers ts st) \<noteq> [])" if "stats_invar st" for ts st
    using that
  proof (induction ts arbitrary: st)
    case (Cons t ts)
    then show ?case using 1 [of t st] Cons.IH [OF stats_invar_register [OF Cons.prems]]
      by (cases ts) (auto simp: stat.registers_def)
  qed (simp add: stat.registers_def)
  show ?thesis
    using 2 [OF stats_invar_start, of "map module_counter ms"] assms
    by (auto simp: counters_ok_def start_program_eq stats_start_def)
qed

text \<open>The user starts the program without options, looks at the statistics and leaves.\<close>

definition sample_world_with :: "event list \<Rightarrow> unit world" where
  "sample_world_with es = \<lparr>LINES = 24, COLS = 80, has_colors = True, memory_left = True,
     new_handle = (\<lambda>tr _ _. Some (length tr)), lib = Glibc_2_1, iface = ''eth0'',
     ioctl = (\<lambda>r ifr k. (0, ifr\<lparr>sa_data := [0, 0, 10, 0, 0, 1, 0, 0, 0, 0, 0, 0, 0, 0]\<rparr>, ())),
     files = [''../share/mac-fingerprints'' \<mapsto> [], ''../share/tcp-fingerprints'' \<mapsto> []],
     byte_order = Little, junk_ip = ip_addr_zero,
     junk_text = (\<lambda>n. replicate n NUL), junk_bytes = (\<lambda>n. replicate n 0),
     pcap = \<lparr>pcap_lookupdev = Some ''eth0'', pcap_open_offline = (\<lambda>_. None), pcap_open_live = (\<lambda>_ _ _ _. Some 3),
       pcap_dump_open = (\<lambda>_ _. Some 4), pcap_datalink = (\<lambda>_. 1), pcap_errbuf = []\<rparr>,
     pthread_create = (0, 2), callocs = 5, sigaction = (\<lambda>_. 0), strsignal = None, me = 1, junk_id = 0, junk_finger = (replicate 29 NUL, replicate 61 NUL),
     install_prefix = ''/usr/share'', command_line = sample_args [], ui_events = es\<rparr>"

definition sample_world :: "unit world" where
  "sample_world = sample_world_with sample_keys"

lemma sample_parse: "\<exists>gs. parse_options ''lmap'' ''0.0.2-devel'' (sample_args []) no_options = Some (Inr (no_options, gs))"
  using parse_options_agrees [of "sample_args []" "''lmap''" "[]" "''lmap''" "''0.0.2-devel''" no_options]
  by (simp add: sample_args_def no_options_def) blast

lemma file_lines_empty [simp]: "file_lines n [] = []"
  by (cases "n - 1") (simp_all add: file_lines.simps fgets_def)

lemma sample_data:
  "manuf_init Little (files sample_world) ''/usr/share'' ''lmap'' = Inr (manuf_empty, 0)"
  "fingerprint_init f g (files sample_world) ''/usr/share'' ''lmap'' = Inr (finger_empty, 0)"
  by (simp_all add: manuf_init_def fingerprint_init_def open_data_def get_full_path_def get_local_path_def sprintf_into_def
      overwrite_def c_str_def sample_world_def sample_world_with_def)

definition sample_host :: "unit system" where
  "sample_host = \<lparr>kernel = (), open_sockets = 0\<rparr>"

lemma sample_start:
  obtains p0 :: "unit program" and gs where "before_main link_order sample_host = Inr p0"
    and "parse_options ''lmap'' ''0.0.2-devel'' (sample_args []) no_options = Some (Inr (no_options, gs))"
    and "scr p0 = \<lparr>calls = [], w_sys = None, w_stat = None, last_total = - 1, counts = stat_table (start_program link_order),
      mqueue = \<lparr>messages_queue = [], shown = []\<rparr>, host = sample_host, open_files = 0\<rparr>"
    and "decoders_of p0 = table (start_program link_order)" and "gbls p0 = None" and "handlers p0 = []"
  using sample_parse by (auto simp: before_main_def ui_register_ok Let_def)

lemma start_up_loads_everything_witness:
  "\<exists>p0 p. before_main link_order sample_host = Inr p0 \<and> run_steps (start_up sample_world) p0 = (None, p) \<and>
    l2_decoder p = Some Decode_eth \<and> thread_tab p = session_threads 1 2 \<and>
    messages_queue (mqueue (scr p)) = [''Listening on eth0...'' @ nl @ nl]"
proof -
  obtain p0 gs where p0: "before_main link_order sample_host = Inr p0"
      "parse_options ''lmap'' ''0.0.2-devel'' (sample_args []) no_options = Some (Inr (no_options, gs))"
    by (rule sample_start)
  show ?thesis
    using start_up_loads_everything [OF all_modules_link_order p0(1), of sample_world no_options gs "''eth0''" 3 Decode_eth manuf_empty 0
        finger_empty 0 2] p0 sample_data
    by (auto simp: sample_world_def sample_world_with_def no_options_def std_decoder_def)
qed

lemma sample_started:
  obtains p0 p g where "before_main link_order sample_host = Inr p0" and "run_steps (start_up (sample_world_with es)) p0 = (None, p)"
    and "l2_decoder p = Some Decode_eth" and "gbls p = Some g" and "opt_iface (options g) = Some ''eth0''"
    and "start (ui_hooks p) = Ncurses_start" and "list_all plain (messages_queue (mqueue (scr p)))"
    and "screen_ok (scr p)" and "w_stat (scr p) = None"
proof -
  obtain p0 gs where p0: "before_main link_order sample_host = Inr p0"
      "parse_options ''lmap'' ''0.0.2-devel'' (sample_args []) no_options = Some (Inr (no_options, gs))"
      "scr p0 = \<lparr>calls = [], w_sys = None, w_stat = None, last_total = - 1, counts = stat_table (start_program link_order),
        mqueue = \<lparr>messages_queue = [], shown = []\<rparr>, host = sample_host, open_files = 0\<rparr>"
    by (rule sample_start)
  obtain p1 g where p1: "run_steps (start_up (sample_world_with es)) p0 = (None, p1)" "start (ui_hooks p1) = Ncurses_start"
      "scr p1 = (scr p0)\<lparr>mqueue := \<lparr>messages_queue = [''Listening on '' @ ''eth0'' @ ''...'' @ nl @ nl], shown = []\<rparr>\<rparr>"
      "gbls p1 = Some g" "options g = no_options\<lparr>opt_iface := Some ''eth0''\<rparr>"
      "l2_decoder p1 = Some Decode_eth"
    using start_up_goes_on [OF all_modules_link_order p0(1), of "sample_world_with es" no_options gs "''eth0''" 3 Decode_eth manuf_empty 0
        finger_empty 0 2] p0 sample_data
    by (auto simp: sample_world_with_def sample_world_def no_options_def std_decoder_def)
  have "screen_ok (scr p1)"
    using counters_ok_start [of link_order] by (simp add: p1 p0 screen_ok_def link_order_def plain_def nl_def)
  with p0(1) p1 show thesis
    by (intro that [of p0 p1 g]) (simp_all add: p0(3) no_options_def plain_def nl_def)
qed

lemma console_ok_sample_world: "console_ok (terminal.truncate ((sample_world_with es)\<lparr>iface := ''eth0''\<rparr>))"
  by (auto simp: console_ok_def sample_world_with_def terminal.defs buffers_ok_def get_default_dns_def ip_addr_zero_def)

lemma sample_session:
  obtains p0 p1 p g where "before_main link_order sample_host = Inr p0" and "run_steps (start_up sample_world) p0 = (None, p1)"
    and "l2_decoder p1 = Some Decode_eth" and "gbls p1 = Some g"
    and "run_steps (start_up sample_world @ [run_ui_start sample_world]) p0 = (None, p)"
proof -
  obtain p0 p1 g where p: "before_main link_order sample_host = Inr p0" "run_steps (start_up sample_world) p0 = (None, p1)"
      "l2_decoder p1 = Some Decode_eth" "gbls p1 = Some g" "opt_iface (options g) = Some ''eth0''"
      "start (ui_hooks p1) = Ncurses_start" "list_all plain (messages_queue (mqueue (scr p1)))"
      "screen_ok (scr p1)" "w_stat (scr p1) = None"
    unfolding sample_world_def by (rule sample_started)
  let ?E = "terminal.truncate (sample_world\<lparr>iface := ''eth0''\<rparr>)"
  obtain s' where "ncurses_start ?E sample_keys (scr p1) = Inr (True, [Sent ''three''], s')"
    using ncurses_start_ok [OF _ p(8,9) sample_keys_plain, of ?E] console_ok_sample_world sample_quits
    unfolding sample_world_def by fastforce
  then have "run_ui_start sample_world p1 = (None, p1\<lparr>scr := s'\<rparr>)"
    using p(4-6) by (simp add: run_ui_start_def with_globals_def) (simp add: sample_world_def sample_world_with_def)
  then have "run_steps (start_up sample_world @ [run_ui_start sample_world]) p0 = (None, p1\<lparr>scr := s'\<rparr>)"
    using p(2) by (simp add: run_steps_append)
  with p(1-4) show thesis by (intro that) simp_all
qed

lemma quitting_uses_freed_memory_witness:
  "\<exists>p0. before_main link_order sample_host = Inr p0 \<and> lmap sample_world None p0 = Inl Use_after_free"
proof -
  obtain p0 p where "before_main link_order sample_host = Inr p0"
      "run_steps (start_up sample_world @ [run_ui_start sample_world]) p0 = (None, p)"
    by (rule sample_session)
  then show ?thesis
    using quitting_uses_freed_memory [of link_order sample_host p0 sample_world 2 p] by (simp add: sample_world_def sample_world_with_def)
qed


lemma capture_link_layers_witness:
  "\<exists>p0 p'. before_main link_order sample_host = Inr p0 \<and>
    capture_open sample_world (p0\<lparr>gbls := Some no_globals\<rparr>) = (None, p') \<and> l2_decoder p' = Some Decode_eth"
proof -
  obtain p0 gs where p0: "before_main link_order sample_host = Inr p0"
      "decoders_of p0 = table (start_program link_order)"
    by (rule sample_start)
  show ?thesis
    using capture_link_layers [OF all_modules_link_order, of "p0\<lparr>gbls := Some no_globals\<rparr>" no_globals sample_world 3] p0
    by (auto simp: sample_world_def sample_world_with_def open_pcap_def no_globals_def no_options_def)
qed

end
