(* ===== verification/Packets.thy ===== *)
theory Packets
  imports Decode
begin

text \<open>
  The headers of packets, and what the decoder of each of them does with a packet that has it at the
  position where the decoder looks.
\<close>

subsection \<open>Headers\<close>

definition eth_header :: "bytes \<Rightarrow> bytes \<Rightarrow> u_int16 \<Rightarrow> bytes" where
  "eth_header dha sha t = dha @ sha @ [hi8 t, lo8 t]"

definition ip_header ::
  "u_int8 \<Rightarrow> bytes \<Rightarrow> u_int16 \<Rightarrow> u_int8 \<Rightarrow> u_int8 \<Rightarrow> bytes \<Rightarrow> bytes \<Rightarrow> bytes \<Rightarrow> bytes \<Rightarrow> bytes" where
  "ip_header tos lenid frag t protocol check src dst opts =
     [of_nat (0x45 + length opts div 4), tos] @ lenid @ [hi8 frag, lo8 frag, t, protocol] @ check @ src @ dst @ opts"

definition tcp_header :: "u_int16 \<Rightarrow> u_int16 \<Rightarrow> bytes \<Rightarrow> u_int8 \<Rightarrow> u_int8 \<Rightarrow> u_int16 \<Rightarrow> bytes \<Rightarrow> bytes" where
  "tcp_header sport dport seqack off flags win sumurg =
     [hi8 sport, lo8 sport, hi8 dport, lo8 dport] @ seqack @ [off, flags, hi8 win, lo8 win] @ sumurg"

definition udp_header :: "u_int16 \<Rightarrow> u_int16 \<Rightarrow> bytes \<Rightarrow> bytes" where
  "udp_header sport dport lensum = [hi8 sport, lo8 sport, hi8 dport, lo8 dport] @ lensum"

subsection \<open>One decoder at a time\<close>

definition set_L2 :: "L2_info \<Rightarrow> env \<Rightarrow> env" where
  "set_L2 l e = e\<lparr>bkt := (bkt e)\<lparr>L2 := Some l\<rparr>\<rparr>"

definition set_L3 :: "L3_info \<Rightarrow> env \<Rightarrow> env" where
  "set_L3 l e = e\<lparr>bkt := (bkt e)\<lparr>L3 := Some l\<rparr>\<rparr>"

definition set_L4 :: "L4_info \<Rightarrow> env \<Rightarrow> env" where
  "set_L4 l e = e\<lparr>bkt := (bkt e)\<lparr>L4 := Some l\<rparr>\<rparr>"

lemma env_access [simp]:
  "L2 (bkt (set_L2 l2 e)) = Some l2" "L3 (bkt (set_L2 l2 e)) = L3 (bkt e)" "L4 (bkt (set_L2 l2 e)) = L4 (bkt e)"
  "L2 (bkt (set_L3 l3 e)) = L2 (bkt e)" "L3 (bkt (set_L3 l3 e)) = Some l3" "L4 (bkt (set_L3 l3 e)) = L4 (bkt e)"
  "L2 (bkt (set_L4 l4 e)) = L2 (bkt e)" "L3 (bkt (set_L4 l4 e)) = L3 (bkt e)" "L4 (bkt (set_L4 l4 e)) = Some l4"
  "bkt (count n e) = bkt e" "set_L4 l4 (set_L4 l4' e) = set_L4 l4 e"
  "stat_state (set_L2 l2 e) = stat_state e" "stat_state (set_L3 l3 e) = stat_state e"
  "stat_state (set_L4 l4 e) = stat_state e" "ui (set_L2 l2 e) = ui e" "ui (set_L3 l3 e) = ui e"
  "ui (set_L4 l4 e) = ui e" "ui (count n e) = ui e"
  "stat_state (count n e) = update_stat n 1 (stat_state e)"
  "L5 (bkt (set_L2 l2 e)) = L5 (bkt e)" "L5 (bkt (set_L3 l3 e)) = L5 (bkt e)" "L5 (bkt (set_L4 l4 e)) = L5 (bkt e)"
  by (simp_all add: set_L2_def set_L3_def set_L4_def count_def)

lemma with_L_eq:
  "L2 (bkt e) = Some l2 \<Longrightarrow> with_L2 f2 e = bindE (f2 l2) (\<lambda>l. Inr (set_L2 l e))"
  "L3 (bkt e) = Some l3 \<Longrightarrow> with_L3 f3 e = bindE (f3 l3) (\<lambda>l. Inr (set_L3 l e))"
  "L4 (bkt e) = Some l4 \<Longrightarrow> with_L4 f4 e = bindE (f4 l4) (\<lambda>l. Inr (set_L4 l e))"
  by (simp_all add: with_L2_def with_L3_def with_L4_def set_L2_def set_L3_def set_L4_def)

text \<open>Reads behind a prefix of known length.\<close>

lemma rd_prefix:
  assumes "length pre = p"
  shows "k < length b \<Longrightarrow> rd8 (pre @ b) (p + k) = Inr (b ! k)"
    and "k + n \<le> length b \<Longrightarrow> rd_bytes (pre @ b) (p + k) n = Inr (take n (drop k b))"
    and "k + 1 < length b \<Longrightarrow> rd16 en (pre @ b) (p + k) = Inr (of_mem16 en (b ! k) (b ! (k + 1)))"
  using assms by (auto simp: rd8_def rd_bytes_def rd16_def nth_append)

lemma net16_prefix:
  assumes "packet c = pre @ b" and "length pre = p" and "k + 1 < length b"
  shows "net16 c (p + k) = Inr (join16 (b ! k) (b ! (k + 1)))"
  using rd_prefix(3) [OF assms(2,3)] assms(1) by (simp add: net16_def)

lemma decode_eth_frame:
  assumes pkt: "packet c = pre @ eth_header dha sha t @ rest" and len: "length pre = pos" "length dha = 6" "length sha = 6"
    and "L2 (bkt e) = Some l2"
  shows "decode_eth c pos n e = Inr (next_decoder c NET_LAYER (uint t), 14,
    set_L2 (l2\<lparr>mac_src := sha, mac_dst := dha\<rparr>) (count ''TOTAL'' e))"
proof -
  let ?b = "eth_header dha sha t @ rest"
  have "length ?b \<ge> 14" using len by (simp add: eth_header_def)
  then have rd: "rd_bytes (packet c) (pos + 6) 6 = Inr sha" "rd_bytes (packet c) pos 6 = Inr dha"
    using rd_prefix(2) [OF len(1), of 6 6 ?b] rd_prefix(2) [OF len(1), of 0 6 ?b] pkt len
    by (simp_all add: eth_header_def)
  have "net16 c (pos + 12) = Inr t"
    using net16_prefix [OF pkt len(1), of 12] len by (simp add: eth_header_def nth_append)
  with rd assms(5) show ?thesis by (simp add: decode_eth_def Let_def with_L_eq)
qed

lemma push_env:
  assumes "L4 (bkt e) = Some l4" and "fingerprint l4 = Some (render f @ [NUL])"
    and "finfo_wf f" and "finfo_fits f p v"
  shows "push p (int v) e = Inr (set_L4 (l4\<lparr>fingerprint := Some (render (finfo_push f p v) @ [NUL])\<rparr>) e)"
  using assms by (simp add: push_def with_L_eq fingerprint_push_eq)

definition set_addr :: "int \<Rightarrow> nat \<Rightarrow> bytes \<Rightarrow> ip_addr \<Rightarrow> ip_addr" where
  "set_addr t n a sa = sa\<lparr>ip_type := t, addr_size := n, ip_bytes := overwrite (ip_bytes sa) 0 (take n a)\<rparr>"

lemma ip_addr_init_eq:
  "4 \<le> length a \<Longrightarrow> ip_addr_init sa AF_INET a = Inr (ESUCCESS, set_addr AF_INET 4 a sa)"
  "16 \<le> length a \<Longrightarrow> ip_addr_init sa AF_INET6 a = Inr (ESUCCESS, set_addr AF_INET6 16 a sa)"
  by (simp_all add: ip_addr_init_def rd_bytes_ok Let_def set_addr_def)

lemma set_addr_wf:
  assumes "ip_addr_wf sa" and "n \<le> length a" and "(t, n) \<in> {(AF_INET, 4), (AF_INET6, 16)}"
  shows "ip_addr_wf (set_addr t n a sa) \<and> addr_value (set_addr t n a sa) = (t, take n a)"
  using assms by (auto simp: set_addr_def ip_addr_wf_def addr_value_def overwrite_def)

lemma and_single_bit: "w AND push_bit k 1 = (if bit w k then push_bit k 1 else (0 :: 'a::len word))"
  by (rule bit_word_eqI) (auto simp: bit_simps)

lemma and_IP_DF: "w AND IP_DF = (if bit w 14 then 0x4000 else 0)"
proof -
  have "IP_DF = push_bit 14 1" by (simp add: IP_DF_def push_bit_eq_mult)
  then show ?thesis using and_single_bit [of w 14] by (simp add: IP_DF_def)
qed

text \<open>What the IP header contributes to a fingerprint.\<close>

definition finfo_ip :: "u_int8 \<Rightarrow> u_int16 \<Rightarrow> nat \<Rightarrow> finfo" where
  "finfo_ip t frag hlen =
     finfo_push (finfo_push (finfo_push finfo_start FINGER_TTL (unat t))
       FINGER_DF (if bit frag 14 then 0x4000 else 0)) FINGER_LT hlen"

lemma unat_u8 [simp]: "unat (b :: u_int8) < 256"
  using unsigned_less [of b, where ?'a = nat] by simp

lemma unat_u16 [simp]: "unat (w :: u_int16) < 65536"
  using unsigned_less [of w, where ?'a = nat] by simp

lemma finfo_ip_wf: "hlen \<le> 60 \<Longrightarrow> finfo_wf (finfo_ip t frag hlen)"
  unfolding finfo_ip_def
  by (intro finfo_wf_push finfo_wf_start) (simp_all add: finfo_fits_def finfo_push_def finfo_start_def)

lemma fingerprint_ip:
  assumes "L4 (bkt e) = Some l4" and "hlen \<le> 60"
  shows "bindE (with_L4 (\<lambda>l. Inr (l\<lparr>fingerprint := Some fingerprint_alloc\<rparr>)) e) (\<lambda>e.
      bindE (push FINGER_TTL (uint t) e) (\<lambda>e.
      bindE (push FINGER_DF (uint (frag AND IP_DF)) e) (\<lambda>e. push FINGER_LT (int hlen) e))) =
    Inr (set_L4 (l4\<lparr>fingerprint := Some (render (finfo_ip t frag hlen) @ [NUL])\<rparr>) e)"
proof -
  let ?f1 = "finfo_push finfo_start FINGER_TTL (unat t)"
  let ?d = "if bit frag 14 then 0x4000 else 0 :: nat"
  let ?f2 = "finfo_push ?f1 FINGER_DF ?d"
  have wf: "finfo_wf finfo_start" "finfo_wf ?f1" "finfo_wf ?f2"
    by (auto intro!: finfo_wf_push finfo_wf_start simp: finfo_fits_def)
  have fits: "finfo_fits finfo_start FINGER_TTL (unat t)" "finfo_fits ?f1 FINGER_DF ?d" "finfo_fits ?f2 FINGER_LT hlen"
    using assms(2) by (simp_all add: finfo_fits_def finfo_push_def finfo_start_def)
  have d: "uint (frag AND IP_DF) = int ?d" by (simp add: and_IP_DF)
  have t: "uint t = int (unat t)" by simp
  show ?thesis
    unfolding d t
    using assms push_env [OF _ _ wf(1) fits(1)] push_env [OF _ _ wf(2) fits(2)] push_env [OF _ _ wf(3) fits(3)]
    by (simp add: with_L_eq fingerprint_alloc_render finfo_ip_def)
qed

text \<open>The state behind an IPv4 header.\<close>

definition after_ip :: "config \<Rightarrow> nat \<Rightarrow> u_int8 \<Rightarrow> u_int16 \<Rightarrow> u_int8 \<Rightarrow> bytes \<Rightarrow> bytes \<Rightarrow> L3_info \<Rightarrow> L4_info \<Rightarrow> env \<Rightarrow> env" where
  "after_ip c hlen t frag protocol src dst l3 l4 e =
     (let e = set_L3 (l3\<lparr>ip_src := set_addr AF_INET 4 src (ip_src l3), ip_dst := set_addr AF_INET 4 dst (ip_dst l3),
               l3_proto := htons (byte_order c) 0x0800, ttl := t\<rparr>) (count ''IP'' e) in
      if protocol = 6 then set_L4 (l4\<lparr>fingerprint := Some (render (finfo_ip t frag hlen) @ [NUL])\<rparr>) e else e)"

text \<open>The first byte of the header gives its length.\<close>

lemma ihl_byte:
  assumes "4 dvd n" and "n \<le> 40"
  shows "uint ((of_nat (0x45 + n div 4) :: u_int8) AND 0x0f) * 4 = int (20 + n)"
proof -
  obtain k where n: "n = 4 * k" using assms(1) by (auto elim: dvdE)
  with assms(2) have "k \<in> set [0..<11]" by simp
  then have "uint ((of_nat (0x45 + k) :: u_int8) AND 0x0f) = int (5 + k)"
    by (simp add: upt_rec) (elim disjE; simp)
  then show ?thesis by (simp add: n)
qed

lemma decode_ip_header:
  assumes pkt: "packet c = pre @ ip_header tos lenid frag t protocol check src dst opts @ rest"
    and len: "length pre = pos" "length lenid = 4" "length check = 2" "length src = 4" "length dst = 4"
      "4 dvd length opts" "length opts \<le> 40"
    and e: "L3 (bkt e) = Some l3" "L4 (bkt e) = Some l4"
  shows "decode_ip c pos n e = Inr (next_decoder c PROTO_LAYER (uint protocol), int (20 + length opts),
    after_ip c (20 + length opts) t frag protocol src dst l3 l4 e)"
proof -
  define b where "b = ip_header tos lenid frag t protocol check src dst opts @ rest"
  have pkt: "packet c = pre @ b" using pkt by (simp add: b_def)
  have b: "length b \<ge> 20" "b ! 0 = of_nat (0x45 + length opts div 4)" "b ! 6 = hi8 frag" "b ! 7 = lo8 frag" "b ! 8 = t"
    "b ! 9 = protocol" "drop 12 b = src @ dst @ opts @ rest" "drop 16 b = dst @ opts @ rest"
    using len by (simp_all add: b_def ip_header_def nth_append nth_Cons')
  have rd: "rd8 (packet c) pos = Inr (of_nat (0x45 + length opts div 4))" "rd8 (packet c) (pos + 8) = Inr t"
      "rd8 (packet c) (pos + 9) = Inr protocol"
    using rd_prefix(1) [OF len(1), of 0 b] rd_prefix(1) [OF len(1), of 8 b] rd_prefix(1) [OF len(1), of 9 b] pkt b
      length_greater_0_conv [of b]
    by (simp_all del: length_greater_0_conv)
  have frag: "net16 c (pos + 6) = Inr frag"
    using net16_prefix [OF pkt len(1), of 6] b by simp
  have dr: "drop (pos + 12) (packet c) = src @ dst @ opts @ rest" "drop (pos + 16) (packet c) = dst @ opts @ rest"
    using b len(1) by (simp_all add: pkt drop_append)
  have addr: "set_addr AF_INET 4 (src @ x) sa = set_addr AF_INET 4 src sa"
    "set_addr AF_INET 4 (dst @ x) sa = set_addr AF_INET 4 dst sa" for x sa
    using len by (simp_all add: set_addr_def)
  let ?e = "set_L3 (l3\<lparr>ip_src := set_addr AF_INET 4 src (ip_src l3), ip_dst := set_addr AF_INET 4 dst (ip_dst l3),
               l3_proto := htons (byte_order c) 0x0800, ttl := t\<rparr>) (count ''IP'' e)"
  have L4: "L4 (bkt ?e) = Some l4" using e by simp
  have proto: "uint protocol = 6 \<longleftrightarrow> protocol = 6"
    using uint_word_of_int_eq [of 6] word_uint_eq_iff [of protocol 6] by simp
  note ihl = ihl_byte [OF len(6,7)]
  have hlen: "20 + length opts \<le> 60" using len(7) by simp
  show ?thesis
    unfolding decode_ip_def Let_def
    using e rd frag dr len(4,5) fingerprint_ip [OF L4 hlen, of t frag]
    by (simp add: with_L_eq ip_addr_init_eq addr proto after_ip_def ihl del: of_nat_add)
qed

subsection \<open>TCP segments\<close>

lemma opt_end_offset_eq:
  assumes "\<not> lp64 c \<or> - (2 ^ 31) \<le> packet_addr c + int pos \<and> packet_addr c + int pos < 2 ^ 31"
  shows "opt_end_offset c pos hlen = int pos + hlen"
  using assms by (auto simp: opt_end_offset_def int_of_pointer_def)

definition finfo_tcp :: "u_int16 \<Rightarrow> bool \<Rightarrow> nat \<Rightarrow> tcp_opt list \<Rightarrow> finfo \<Rightarrow> finfo" where
  "finfo_tcp win ack hlen opts f =
     fold opt_push opts
       (finfo_push (finfo_push (finfo_push f FINGER_WINDOW (unat win)) FINGER_TCPFLAG (if ack then 1 else 0))
         FINGER_LT hlen)"

lemma tcp_fingerprint_syn:
  assumes pkt: "packet c = pre @ opts_bytes opts @ post" and pos: "length pre = pos + 20"
    and c: "byte_order c = Little" "\<not> lp64 c \<or> - (2 ^ 31) \<le> packet_addr c + int pos \<and> packet_addr c + int pos < 2 ^ 31"
    and win: "net16 c (pos + 14) = Inr win"
    and opts: "\<forall>t \<in> set opts. opt_wf t"
    and hlen: "hlen = 20 + length (opts_bytes opts) \<or>
      hlen > 20 + length (opts_bytes opts) \<and> post \<noteq> [] \<and> hd post = 0"
    and syn: "flags AND TH_SYN \<noteq> 0"
    and e: "L4 (bkt e) = Some l4" "fingerprint l4 = Some (render f @ [NUL])"
    and f: "finfo_wf f" "finfo_fits f FINGER_LT hlen"
  shows "tcp_fingerprint c pos (int hlen) flags e =
    Inr (set_L4 (l4\<lparr>fingerprint := Some (render (finfo_tcp win (flags AND TH_ACK \<noteq> 0) hlen opts f) @ [NUL])\<rparr>) e)"
proof -
  let ?a = "if flags AND TH_ACK \<noteq> 0 then 1 else 0 :: nat"
  let ?f1 = "finfo_push f FINGER_WINDOW (unat win)"
  let ?f2 = "finfo_push ?f1 FINGER_TCPFLAG ?a"
  let ?f3 = "finfo_push ?f2 FINGER_LT hlen"
  have fits: "finfo_fits f FINGER_WINDOW (unat win)" "finfo_fits ?f1 FINGER_TCPFLAG ?a" "finfo_fits ?f2 FINGER_LT hlen"
    using f(2) by (simp_all add: finfo_fits_def finfo_push_def)
  have wf: "finfo_wf ?f1" "finfo_wf ?f2" "finfo_wf ?f3"
    using f(1) fits by (auto intro!: finfo_wf_push)
  have w: "uint win = int (unat win)" and a: "(if flags AND TH_ACK \<noteq> 0 then 1 else 0) = int ?a" by simp_all
  have "tcp_options Little (pre @ opts_bytes opts @ post) (int pos + 20) (int pos + int hlen) (Some (render ?f3 @ [NUL])) =
      Some (Inr (Some (render (fold opt_push opts ?f3) @ [NUL])))"
    using tcp_options_eq [OF opts wf(3), of "int pos + int hlen" pre post] hlen pos by auto
  then show ?thesis
    using syn win c e opt_end_offset_eq [OF c(2)]
      push_env [OF e f(1) fits(1)] push_env [OF _ _ wf(1) fits(2)] push_env [OF _ _ wf(2) fits(3)]
    unfolding tcp_fingerprint_def w a
    by (simp add: with_L_eq pkt finfo_tcp_def)
qed

lemma of_mem16_swap: "of_mem16 en (hi8 w) (lo8 w) = ntohs en w"
  by (cases en) simp_all

lemma tcp_header_reads:
  assumes pkt: "packet c = pre @ tcp_header sport dport seqack off flags win sumurg @ rest"
    and len: "length pre = pos" "length seqack = 8" "length sumurg = 4"
  shows "rd8 (packet c) (pos + 12) = Inr off" and "rd8 (packet c) (pos + 13) = Inr flags"
    and "rd16 en (packet c) pos = Inr (ntohs en sport)" and "rd16 en (packet c) (pos + 2) = Inr (ntohs en dport)"
    and "net16 c (pos + 2) = Inr dport" and "net16 c (pos + 14) = Inr win"
proof -
  define b where "b = tcp_header sport dport seqack off flags win sumurg @ rest"
  have pkt: "packet c = pre @ b" using pkt by (simp add: b_def)
  have b: "20 \<le> length b" "b ! 0 = hi8 sport" "b ! 1 = lo8 sport" "b ! 2 = hi8 dport" "b ! 3 = lo8 dport"
    "b ! 12 = off" "b ! 13 = flags" "b ! 14 = hi8 win" "b ! 15 = lo8 win"
    using len by (simp_all add: b_def tcp_header_def nth_append nth_Cons')
  show "rd8 (packet c) (pos + 12) = Inr off" and "rd8 (packet c) (pos + 13) = Inr flags"
    using rd_prefix(1) [OF len(1), of 12 b] rd_prefix(1) [OF len(1), of 13 b] b pkt by simp_all
  show "rd16 en (packet c) pos = Inr (ntohs en sport)" and "rd16 en (packet c) (pos + 2) = Inr (ntohs en dport)"
    using rd_prefix(3) [OF len(1), of 0 b en] rd_prefix(3) [OF len(1), of 2 b en] b pkt by (simp_all add: of_mem16_swap)
  show "net16 c (pos + 2) = Inr dport" and "net16 c (pos + 14) = Inr win"
    using net16_prefix [OF pkt len(1), of 2] net16_prefix [OF pkt len(1), of 14] b by simp_all
qed

definition L4_ports :: "endian \<Rightarrow> u_int16 \<Rightarrow> u_int16 \<Rightarrow> u_int16 \<Rightarrow> L4_info \<Rightarrow> L4_info" where
  "L4_ports en sport dport proto l = l\<lparr>port_src := ntohs en sport, port_dst := ntohs en dport, l4_proto := proto\<rparr>"

lemma decode_tcp_syn:
  assumes pkt: "packet c = pre @ tcp_header sport dport seqack off flags win sumurg @ opts_bytes opts @ post"
    and len: "length pre = pos" "length seqack = 8" "length sumurg = 4"
    and c: "byte_order c = Little" "\<not> lp64 c \<or> - (2 ^ 31) \<le> packet_addr c + int pos \<and> packet_addr c + int pos < 2 ^ 31"
    and opts: "\<forall>t \<in> set opts. opt_wf t"
    and hlen: "hlen = unat (drop_bit 4 off) * 4" "hlen = 20 + length (opts_bytes opts) \<or>
      hlen > 20 + length (opts_bytes opts) \<and> post \<noteq> [] \<and> hd post = 0"
    and syn: "flags AND TH_SYN \<noteq> 0"
    and e: "L4 (bkt e) = Some l4" "fingerprint l4 = Some (render f @ [NUL])"
    and f: "finfo_wf f" "finfo_fits f FINGER_LT hlen"
  shows "decode_tcp c pos n e = Inr (next_decoder c APP_LAYER (uint dport), int hlen,
    set_L4 ((L4_ports Little sport dport 6 l4)
      \<lparr>fingerprint := Some (render (finfo_tcp win (flags AND TH_ACK \<noteq> 0) hlen opts f) @ [NUL])\<rparr>) (count ''TCP'' e))"
proof -
  note rd = tcp_header_reads(1,2,5,6) [OF pkt len] tcp_header_reads(3,4) [OF pkt len, where en = Little]
  let ?pre = "pre @ tcp_header sport dport seqack off flags win sumurg"
  let ?e = "set_L4 (L4_ports Little sport dport 6 l4) (count ''TCP'' e)"
  have h: "uint (drop_bit 4 off) * 4 = int hlen" using hlen(1) by simp
  have "tcp_fingerprint c pos (int hlen) flags ?e =
      Inr (set_L4 ((L4_ports Little sport dport 6 l4)
        \<lparr>fingerprint := Some (render (finfo_tcp win (flags AND TH_ACK \<noteq> 0) hlen opts f) @ [NUL])\<rparr>) ?e)"
  proof (rule tcp_fingerprint_syn [of c ?pre opts post])
    show "packet c = ?pre @ opts_bytes opts @ post" using pkt by simp
    show "length ?pre = pos + 20" using len by (simp add: tcp_header_def)
    show "fingerprint (L4_ports Little sport dport 6 l4) = Some (render f @ [NUL])"
      using e(2) by (simp add: L4_ports_def)
  qed (use c rd opts hlen syn f in simp_all)
  then show ?thesis
    unfolding decode_tcp_def Let_def h
    using rd e c by (simp add: with_L_eq h L4_ports_def)
qed

lemma decode_tcp_other:
  assumes pkt: "packet c = pre @ tcp_header sport dport seqack off flags win sumurg @ rest"
    and len: "length pre = pos" "length seqack = 8" "length sumurg = 4"
    and syn: "flags AND TH_SYN = 0" and e: "L4 (bkt e) = Some l4"
  shows "decode_tcp c pos n e = Inr (next_decoder c APP_LAYER (uint dport), int (unat (drop_bit 4 off) * 4),
    set_L4 ((L4_ports (byte_order c) sport dport 6 l4)\<lparr>fingerprint := None\<rparr>) (count ''TCP'' e))"
  using tcp_header_reads [OF pkt len] syn e
  by (simp add: decode_tcp_def Let_def with_L_eq tcp_fingerprint_def L4_ports_def fingerprint_destroy_def)

subsection \<open>ARP, UDP, ICMP and DHCP\<close>

definition arp_header :: "bytes \<Rightarrow> u_int8 \<Rightarrow> u_int8 \<Rightarrow> bytes \<Rightarrow> bytes" where
  "arp_header hw hln pln oper = hw @ [hln, pln] @ oper"

text \<open>The addresses are only taken from packets with the address lengths of Ethernet and IP.\<close>

definition arp_L3 :: "endian \<Rightarrow> u_int8 \<Rightarrow> u_int8 \<Rightarrow> bytes \<Rightarrow> L3_info \<Rightarrow> L3_info" where
  "arp_L3 en hln pln addrs l3 =
     (let l3 = l3\<lparr>l3_proto := htons en 0x0806, ttl := 1\<rparr>;
          set = \<lambda>t n. l3\<lparr>ip_src := set_addr t n (drop 6 addrs) (ip_src l3), ip_dst := set_addr t n (drop 16 addrs) (ip_dst l3)\<rparr> in
      if hln = 6 \<and> pln = 4 then set AF_INET 4 else if hln = 6 \<and> pln = 16 then set AF_INET6 16 else l3)"

definition arp_addrs_wf :: "u_int8 \<Rightarrow> u_int8 \<Rightarrow> bytes \<Rightarrow> bool" where
  "arp_addrs_wf hln pln addrs \<longleftrightarrow> (hln = 6 \<and> pln = 4 \<longrightarrow> 20 \<le> length addrs) \<and> (hln = 6 \<and> pln = 16 \<longrightarrow> 32 \<le> length addrs)"

lemma decode_arp_header:
  assumes pkt: "packet c = pre @ arp_header hw hln pln oper @ addrs"
    and len: "length pre = pos" "length hw = 4" "length oper = 2" "arp_addrs_wf hln pln addrs"
    and e: "L3 (bkt e) = Some l3"
  shows "decode_arp c pos n e = Inr (None, 8 + 2 * (uint hln + uint pln),
    set_L3 (arp_L3 (byte_order c) hln pln addrs l3) (count ''ARP'' e))"
proof -
  let ?b = "arp_header hw hln pln oper @ addrs"
  have b: "?b ! 4 = hln" "?b ! 5 = pln" "8 \<le> length ?b" "drop 14 ?b = drop 6 addrs" "drop 24 ?b = drop 16 addrs"
    using len by (simp_all add: arp_header_def nth_append)
  have rd: "rd8 (packet c) (pos + 4) = Inr hln" "rd8 (packet c) (pos + 5) = Inr pln"
    using rd_prefix(1) [OF len(1), of 4 ?b] rd_prefix(1) [OF len(1), of 5 ?b] b pkt by simp_all
  have dr: "drop (14 + pos) (packet c) = drop 6 addrs" "drop (24 + pos) (packet c) = drop 16 addrs"
    using b(4,5) len(1) by (simp_all add: pkt drop_append)
  have set3: "set_L3 l (set_L3 l' e') = set_L3 l e'" for l l' e' by (simp add: set_L3_def)
  show ?thesis
    using rd dr e len(4)
    by (auto simp: decode_arp_def Let_def with_L_eq arp_addrs_def ip_addr_init_eq arp_L3_def arp_addrs_wf_def set3)
qed

lemma user_msg_eq: "user_msg c m e = Inr (e\<lparr>ui := (ui e)\<lparr>messages_queue := messages_queue (ui e) @ [m]\<rparr>\<rparr>)"
  by (simp add: user_msg_def ui_msg_eq)

lemma decode_udp_header:
  assumes pkt: "packet c = pre @ udp_header sport dport lensum @ rest"
    and len: "length pre = pos" and e: "L4 (bkt e) = Some l4"
  shows "decode_udp c pos n e = Inr (next_decoder c APP_LAYER (uint dport), 8,
    set_L4 (L4_ports (byte_order c) sport dport 0x11 l4) (count ''UDP'' e))"
proof -
  let ?b = "udp_header sport dport lensum @ rest"
  have b: "?b ! 0 = hi8 sport" "?b ! 1 = lo8 sport" "?b ! 2 = hi8 dport" "?b ! 3 = lo8 dport" "4 \<le> length ?b"
    by (simp_all add: udp_header_def)
  have "rd16 en (packet c) pos = Inr (ntohs en sport)" "rd16 en (packet c) (pos + 2) = Inr (ntohs en dport)" for en
    using rd_prefix(3) [OF len(1), of 0 ?b en] rd_prefix(3) [OF len(1), of 2 ?b en] b pkt
    by (simp_all add: of_mem16_swap del: One_nat_def)
  moreover have "net16 c (pos + 2) = Inr dport"
    using net16_prefix [OF pkt len(1), of 2] b by simp
  ultimately show ?thesis using e by (simp add: decode_udp_def Let_def with_L_eq L4_ports_def)
qed

text \<open>The messages about an ICMP packet of \<open>n\<close> bytes.\<close>

definition icmp_log :: "bool \<Rightarrow> u_int16 \<Rightarrow> u_int8 \<Rightarrow> string list" where
  "icmp_log six n t =
     [(if six then ''ICMPv6 : 0x'' else ''ICMP : 0x'') @ fmt_X False 4 (uint n) @ '' bytes'' @ nl,
      '' --> type   0x'' @ fmt_X False 2 (uint t) @ nl]"

definition logged :: "string list \<Rightarrow> ui_state \<Rightarrow> ui_state" where
  "logged ms u = u\<lparr>messages_queue := messages_queue u @ ms\<rparr>"

lemma logged_simps [simp]: "logged [] u = u" "logged ms (logged ms' u) = logged (ms' @ ms) u"
    "messages_queue (logged ms u) = messages_queue u @ ms"
  by (simp_all add: logged_def)

lemma user_msg_logged: "user_msg c m e = Inr (e\<lparr>ui := logged [m] (ui e)\<rparr>)"
  by (simp add: user_msg_eq logged_def)

lemma decode_icmp_header:
  assumes "packet c = pre @ t # rest" and "length pre = pos"
  shows "decode_icmp c pos n e = Inr (None, 8, (count ''ICMP'' e)\<lparr>ui := logged (icmp_log False n t) (ui e)\<rparr>)"
    and "decode_icmp6 c pos n e = Inr (None, 8, (count ''ICMP'' e)\<lparr>ui := logged (icmp_log True n t) (ui e)\<rparr>)"
  using rd_prefix(1) [OF assms(2), of 0 "t # rest"] assms(1)
  by (simp_all add: decode_icmp_def decode_icmp6_def Let_def user_msg_logged icmp_log_def)

subsection \<open>IPv6\<close>

definition ip6_header :: "bytes \<Rightarrow> u_int16 \<Rightarrow> u_int8 \<Rightarrow> u_int8 \<Rightarrow> bytes \<Rightarrow> bytes \<Rightarrow> bytes" where
  "ip6_header vfl plen nh hop src dst = vfl @ [hi8 plen, lo8 plen, nh, hop] @ src @ dst"

definition ip6_L3 :: "config \<Rightarrow> u_int8 \<Rightarrow> bytes \<Rightarrow> bytes \<Rightarrow> L3_info \<Rightarrow> L3_info" where
  "ip6_L3 c hop src dst l3 = l3\<lparr>ip_src := set_addr AF_INET6 16 src (ip_src l3),
     ip_dst := set_addr AF_INET6 16 dst (ip_dst l3), l3_proto := htons (byte_order c) 0x86DD, ttl := hop\<rparr>"

lemma ip6_header_reads:
  assumes pkt: "packet c = pre @ ip6_header vfl plen nh hop src dst @ rest"
    and len: "length pre = pos" "length vfl = 4" "length src = 16" "length dst = 16"
  shows "rd16 en (packet c) (pos + 4) = Inr (ntohs en plen)" and "rd8 (packet c) (pos + 6) = Inr nh"
    and "rd8 (packet c) (pos + 7) = Inr hop" and "drop (pos + 8) (packet c) = src @ dst @ rest"
    and "drop (pos + 24) (packet c) = dst @ rest"
    and "rd8 (packet c) (pos + 12) = Inr (src ! 4)" and "rd8 (packet c) (pos + 13) = Inr (src ! 5)"
    and "\<exists>w. rd16 en (packet c) pos = Inr w" and "\<exists>w. rd16 en (packet c) (pos + 2) = Inr w"
    and "\<exists>w. net16 c (pos + 14) = Inr w"
proof -
  define b where "b = ip6_header vfl plen nh hop src dst @ rest"
  have pkt: "packet c = pre @ b" using pkt by (simp add: b_def)
  have b: "40 \<le> length b" "b ! 4 = hi8 plen" "b ! 5 = lo8 plen" "b ! 6 = nh" "b ! 7 = hop"
    "drop 8 b = src @ dst @ rest" "drop 24 b = dst @ rest" "b ! 12 = src ! 4" "b ! 13 = src ! 5"
    using len by (simp_all add: b_def ip6_header_def nth_append nth_Cons')
  show "rd16 en (packet c) (pos + 4) = Inr (ntohs en plen)"
    using rd_prefix(3) [OF len(1), of 4 b en] b pkt by (simp add: of_mem16_swap)
  show "rd8 (packet c) (pos + 6) = Inr nh" and "rd8 (packet c) (pos + 7) = Inr hop"
    and "rd8 (packet c) (pos + 12) = Inr (src ! 4)" and "rd8 (packet c) (pos + 13) = Inr (src ! 5)"
    using rd_prefix(1) [OF len(1), of 6 b] rd_prefix(1) [OF len(1), of 7 b] rd_prefix(1) [OF len(1), of 12 b]
      rd_prefix(1) [OF len(1), of 13 b] b pkt by simp_all
  show "drop (pos + 8) (packet c) = src @ dst @ rest" and "drop (pos + 24) (packet c) = dst @ rest"
    using b len(1) by (simp_all add: pkt drop_append)
  show "\<exists>w. rd16 en (packet c) pos = Inr w" and "\<exists>w. rd16 en (packet c) (pos + 2) = Inr w"
    using rd_prefix(3) [OF len(1), of 0 b en] rd_prefix(3) [OF len(1), of 2 b en] b pkt by auto
  show "\<exists>w. net16 c (pos + 14) = Inr w"
    using net16_prefix [OF pkt len(1), of 14] b by auto
qed

text \<open>The extension headers are only named.\<close>

definition ip6_log :: "u_int8 \<Rightarrow> string list" where
  "ip6_log nh =
     (if nh = 0 then ['' --> option  Hop-By-Hop''] else if nh = 43 then ['' --> option  Routing'']
      else if nh = 44 then ['' --> option  Fragment''] else if nh = 60 then ['' --> option  Destination'']
      else if nh = 59 then ['' --> option  No-Next-Header''] else [])"

lemma decode_ip6_header:
  assumes pkt: "packet c = pre @ ip6_header vfl plen nh hop src dst @ rest"
    and len: "length pre = pos" "length vfl = 4" "length src = 16" "length dst = 16"
    and e: "L3 (bkt e) = Some l3"
  shows "decode_ip6 c pos n e = Inr (next_decoder c PROTO_LAYER (uint nh),
    (if plen = 0 then 0 else uint (ntohs (byte_order c) plen) + 40),
    (set_L3 (ip6_L3 c hop src dst l3) (count ''IP'' e))
      \<lparr>ui := logged ((if plen = 0 then [''IPv6 jumbogram, Hop-By-Hop header should follow''] else []) @ ip6_log nh) (ui e)\<rparr>)"
proof -
  note rd = ip6_header_reads(2-5) [OF pkt len] ip6_header_reads(1) [OF pkt len, of "byte_order c"]
  have addr: "set_addr AF_INET6 16 (src @ x) sa = set_addr AF_INET6 16 src sa"
    "set_addr AF_INET6 16 (dst @ x) sa = set_addr AF_INET6 16 dst sa" for x sa
    using len by (simp_all add: set_addr_def)
  have zero: "ntohs (byte_order c) plen = 0 \<longleftrightarrow> plen = 0"
    by (metis ntohs_ntohs ntohs_zero)
  have L3': "set_L3 l (e'\<lparr>ui := u\<rparr>) = (set_L3 l e')\<lparr>ui := u\<rparr>" for l e' u by (simp add: set_L3_def)
  have ui: "(e' :: env)\<lparr>ui := u\<rparr>\<lparr>ui := v\<rparr> = e'\<lparr>ui := v\<rparr>" for e' u v by simp
  have same: "(set_L3 l (count t e))\<lparr>ui := ui e\<rparr> = set_L3 l (count t e)" for l t by (simp add: set_L3_def count_def)
  show ?thesis
    using rd e len
    by (auto simp: decode_ip6_def Let_def with_L_eq ip_addr_init_eq addr user_msg_logged zero ip6_L3_def L3' ip6_log_def same)
qed

subsection \<open>The loop\<close>

lemma decode_loop_next:
  assumes "run_decoder d c pos (word_of_int datalen) e = Inr (Some d', len, e')" and "datalen - len > 0"
  shows "decode_loop c d pos datalen e = decode_loop c d' (pos + nat len) (datalen - len) e'"
  using assms by (subst decode_loop.simps) simp

lemma decode_loop_last:
  assumes "run_decoder d c pos (word_of_int datalen) e = Inr (next, len, e')" and "datalen - len \<le> 0 \<or> next = None"
  shows "decode_loop c d pos datalen e = Some (Inr e')"
  using assms by (subst decode_loop.simps) auto

definition std_config :: "config \<Rightarrow> bool" where
  "std_config c \<longleftrightarrow> (\<exists>ms. all_modules ms \<and> decoder_table c = table (start_program ms))"

lemma next_decoder_std: "std_config c \<Longrightarrow> next_decoder c lv t = std_decoder lv t"
  by (auto simp: std_config_def next_decoder_def get_decoder_std)

end
