(* ===== verification/Frames.thy ===== *)
theory Frames
  imports Packets
begin

text \<open>
  Whole packets: frames of Ethernet and 802.11 networks with everything that the program has a decoder
  for, what they stand for, and \<^verbatim>\<open>lmap_decode\<close> on each of them.
\<close>

subsection \<open>Frames\<close>

record ip_head =
  ih_tos :: u_int8
  ih_lenid :: bytes
  ih_frag :: u_int16
  ih_ttl :: u_int8
  ih_check :: bytes
  ih_src :: bytes
  ih_dst :: bytes
  ih_opts :: bytes

record tcp_seg =
  tg_sport :: u_int16
  tg_dport :: u_int16
  tg_seqack :: bytes
  tg_flags :: u_int8
  tg_win :: u_int16
  tg_sumurg :: bytes
  tg_opts :: "tcp_opt list"
  tg_pad :: nat

text \<open>
  What follows an IPv4 header: a TCP segment with its payload; source port, destination port, length and
  checksum, and payload of a UDP datagram; an ICMP packet, of version 4 or 6, with its type and the rest;
  another protocol.
\<close>

datatype trans =
    Tcp_seg tcp_seg bytes
  | Udp_seg u_int16 u_int16 bytes bytes
  | Icmp_seg bool u_int8 bytes
  | Other_seg u_int8 bytes

text \<open>
  What follows a link header: an ARP packet (\<open>arp_header\<close> and the addresses), IPv4, IPv6
  (\<open>ip6_header\<close> and the rest), something else.
\<close>

datatype net =
    Arp_net bytes u_int8 u_int8 bytes bytes
  | Ip_net ip_head trans
  | Ip6_net bytes u_int16 u_int8 u_int8 bytes bytes bytes
  | Other_net u_int16 bytes

text \<open>
  Destination, source and contents of an Ethernet frame; duration, destination, source, the fourteen bytes
  up to the type, and contents of an 802.11 data frame; any other 802.11 frame.
\<close>

datatype frame =
    Eth_frame bytes bytes net
  | Wifi_data bytes bytes bytes bytes net
  | Wifi_other u_int16 bytes bytes bytes bytes

subsection \<open>Their bytes\<close>

definition tcp_hlen :: "tcp_seg \<Rightarrow> nat" where
  "tcp_hlen sg = 20 + length (opts_bytes (tg_opts sg)) + tg_pad sg"

fun trans_bytes :: "trans \<Rightarrow> bytes" where
  "trans_bytes (Tcp_seg sg pl) =
     tcp_header (tg_sport sg) (tg_dport sg) (tg_seqack sg) (of_nat (tcp_hlen sg div 4 * 16)) (tg_flags sg)
       (tg_win sg) (tg_sumurg sg) @ opts_bytes (tg_opts sg) @ replicate (tg_pad sg) 0 @ pl"
| "trans_bytes (Udp_seg sport dport lensum pl) = udp_header sport dport lensum @ pl"
| "trans_bytes (Icmp_seg six t r) = t # r"
| "trans_bytes (Other_seg p r) = r"

fun trans_proto :: "trans \<Rightarrow> u_int8" where
  "trans_proto (Tcp_seg sg pl) = 6"
| "trans_proto (Udp_seg sport dport lensum pl) = 17"
| "trans_proto (Icmp_seg six t r) = (if six then 58 else 1)"
| "trans_proto (Other_seg p r) = p"

definition ip_head_bytes :: "ip_head \<Rightarrow> u_int8 \<Rightarrow> bytes" where
  "ip_head_bytes ih p =
     ip_header (ih_tos ih) (ih_lenid ih) (ih_frag ih) (ih_ttl ih) p (ih_check ih) (ih_src ih) (ih_dst ih) (ih_opts ih)"

fun net_bytes :: "net \<Rightarrow> bytes" where
  "net_bytes (Arp_net hw hln pln oper addrs) = arp_header hw hln pln oper @ addrs"
| "net_bytes (Ip_net ih tr) = ip_head_bytes ih (trans_proto tr) @ trans_bytes tr"
| "net_bytes (Ip6_net vfl plen nh hop src dst r) = ip6_header vfl plen nh hop src dst @ r"
| "net_bytes (Other_net t r) = r"

fun net_type :: "net \<Rightarrow> u_int16" where
  "net_type (Arp_net hw hln pln oper addrs) = 0x0806"
| "net_type (Ip_net ih tr) = 0x0800"
| "net_type (Ip6_net vfl plen nh hop src dst r) = 0x86DD"
| "net_type (Other_net t r) = t"

definition wifi_header :: "u_int16 \<Rightarrow> bytes \<Rightarrow> bytes \<Rightarrow> bytes \<Rightarrow> bytes" where
  "wifi_header t dur dha sha = [hi8 t, lo8 t] @ dur @ dha @ sha"

fun frame_bytes :: "frame \<Rightarrow> bytes" where
  "frame_bytes (Eth_frame dha sha nt) = eth_header dha sha (net_type nt) @ net_bytes nt"
| "frame_bytes (Wifi_data dur dha sha mid nt) =
     wifi_header 0x0802 dur dha sha @ mid @ [hi8 (net_type nt), lo8 (net_type nt)] @ net_bytes nt"
| "frame_bytes (Wifi_other t dur dha sha r) = wifi_header t dur dha sha @ r"

subsection \<open>What is asked of them\<close>

text \<open>
  Fields have their lengths, what is called other is other, and a packet over IPv6 is not longer than the
  decoder takes it to be. The fingerprint of a SYN is read on a little endian host, at an address that the
  decoder can compute with.
\<close>

fun trans_wf :: "endian \<Rightarrow> bool \<Rightarrow> int \<Rightarrow> trans \<Rightarrow> bool" where
  "trans_wf en lp a (Tcp_seg sg pl) \<longleftrightarrow>
     length (tg_seqack sg) = 8 \<and> length (tg_sumurg sg) = 4 \<and>
     list_all opt_wf (tg_opts sg) \<and> 4 dvd tcp_hlen sg \<and> tcp_hlen sg \<le> 60 \<and>
     (tg_flags sg AND TH_SYN \<noteq> 0 \<longrightarrow> en = Little \<and> (\<not> lp \<or> - (2 ^ 31) \<le> a \<and> a < 2 ^ 31))"
| "trans_wf en lp a (Udp_seg sport dport lensum pl) \<longleftrightarrow> length lensum = 4"
| "trans_wf en lp a (Icmp_seg six t r) \<longleftrightarrow> True"
| "trans_wf en lp a (Other_seg p r) \<longleftrightarrow> std_decoder PROTO_LAYER (uint p) = None"

definition ip_head_wf :: "ip_head \<Rightarrow> bool" where
  "ip_head_wf ih \<longleftrightarrow> length (ih_lenid ih) = 4 \<and> length (ih_check ih) = 2 \<and> length (ih_src ih) = 4 \<and>
     length (ih_dst ih) = 4 \<and> 4 dvd length (ih_opts ih) \<and> length (ih_opts ih) \<le> 40"

fun net_wf :: "endian \<Rightarrow> bool \<Rightarrow> int \<Rightarrow> net \<Rightarrow> bool" where
  "net_wf en lp a (Arp_net hw hln pln oper addrs) \<longleftrightarrow> length hw = 4 \<and> length oper = 2 \<and> arp_addrs_wf hln pln addrs"
| "net_wf en lp a (Ip_net ih tr) \<longleftrightarrow> ip_head_wf ih \<and> trans_wf en lp (a + 20 + int (length (ih_opts ih))) tr"
| "net_wf en lp a (Ip6_net vfl plen nh hop src dst r) \<longleftrightarrow> length vfl = 4 \<and> length src = 16 \<and> length dst = 16 \<and>
     plen \<noteq> 0 \<and> length r \<le> unat (ntohs en plen)"
| "net_wf en lp a (Other_net t r) \<longleftrightarrow> std_decoder NET_LAYER (uint t) = None"

fun frame_wf :: "endian \<Rightarrow> bool \<Rightarrow> int \<Rightarrow> frame \<Rightarrow> bool" where
  "frame_wf en lp a (Eth_frame dha sha nt) \<longleftrightarrow> length dha = 6 \<and> length sha = 6 \<and> net_wf en lp (a + 14) nt"
| "frame_wf en lp a (Wifi_data dur dha sha mid nt) \<longleftrightarrow>
     length dur = 2 \<and> length dha = 6 \<and> length sha = 6 \<and> length mid = 14 \<and> net_wf en lp (a + 32) nt"
| "frame_wf en lp a (Wifi_other t dur dha sha r) \<longleftrightarrow>
     length dur = 2 \<and> length dha = 6 \<and> length sha = 6 \<and> t \<noteq> WIFI_DATA"

subsection \<open>What they stand for\<close>

text \<open>The decoders, the counters, the messages of the decoders, and the structures of the bucket.\<close>

fun trans_decoder :: "trans \<Rightarrow> decoder option" where
  "trans_decoder (Tcp_seg sg pl) = Some Decode_tcp"
| "trans_decoder (Udp_seg sport dport lensum pl) = Some Decode_udp"
| "trans_decoder (Icmp_seg six t r) = Some (if six then Decode_icmp6 else Decode_icmp)"
| "trans_decoder (Other_seg p r) = None"

fun net_decoder :: "net \<Rightarrow> decoder option" where
  "net_decoder (Arp_net hw hln pln oper addrs) = Some Decode_arp"
| "net_decoder (Ip_net ih tr) = Some Decode_ip"
| "net_decoder (Ip6_net vfl plen nh hop src dst r) = Some Decode_ip6"
| "net_decoder (Other_net t r) = None"

fun frame_decoder :: "frame \<Rightarrow> decoder" where
  "frame_decoder (Eth_frame dha sha nt) = Decode_eth"
| "frame_decoder (Wifi_data dur dha sha mid nt) = Decode_wifi"
| "frame_decoder (Wifi_other t dur dha sha r) = Decode_wifi"

fun trans_counts :: "trans \<Rightarrow> string list" where
  "trans_counts (Tcp_seg sg pl) = [''TCP'']"
| "trans_counts (Udp_seg sport dport lensum pl) = [''UDP'']"
| "trans_counts (Icmp_seg six t r) = [''ICMP'']"
| "trans_counts (Other_seg p r) = []"

fun net_counts :: "net \<Rightarrow> string list" where
  "net_counts (Arp_net hw hln pln oper addrs) = [''ARP'']"
| "net_counts (Ip_net ih tr) = ''IP'' # trans_counts tr"
| "net_counts (Ip6_net vfl plen nh hop src dst r) = [''IP'']"
| "net_counts (Other_net t r) = []"

fun frame_counts :: "frame \<Rightarrow> string list" where
  "frame_counts (Eth_frame dha sha nt) = ''TOTAL'' # net_counts nt"
| "frame_counts (Wifi_data dur dha sha mid nt) = ''TOTAL'' # net_counts nt"
| "frame_counts (Wifi_other t dur dha sha r) = [''TOTAL'']"

definition counted :: "string list \<Rightarrow> stats \<Rightarrow> stats" where
  "counted ns st = fold (\<lambda>n. update_stat n 1) ns st"

lemma counted_simps [simp]: "counted [] st = st" "counted (n # ns) st = counted ns (update_stat n 1 st)"
  by (simp_all add: counted_def)

text \<open>The decoders of the application layer look at the destination port, if there is a payload at all.\<close>

definition app_log :: "u_int16 \<Rightarrow> bytes \<Rightarrow> string list" where
  "app_log dport pl =
     (if pl = [] then [] else if dport = 0x43 then [''DHCP -- server''] else if dport = 0x44 then [''DHCP -- client''] else [])"

fun trans_log :: "trans \<Rightarrow> string list" where
  "trans_log (Tcp_seg sg pl) = app_log (tg_dport sg) pl"
| "trans_log (Udp_seg sport dport lensum pl) = app_log dport pl"
| "trans_log (Icmp_seg six t r) = icmp_log six (of_nat (length (t # r))) t"
| "trans_log (Other_seg p r) = []"

fun net_log :: "net \<Rightarrow> string list" where
  "net_log (Ip_net ih tr) = trans_log tr"
| "net_log (Ip6_net vfl plen nh hop src dst r) = ip6_log nh"
| "net_log nt = []"

fun frame_log :: "frame \<Rightarrow> string list" where
  "frame_log (Eth_frame dha sha nt) = net_log nt"
| "frame_log (Wifi_data dur dha sha mid nt) = net_log nt"
| "frame_log (Wifi_other t dur dha sha r) = []"

text \<open>The fingerprint of a SYN segment, and that of any other one: none.\<close>

definition syn_fingerprint :: "ip_head \<Rightarrow> tcp_seg \<Rightarrow> finfo" where
  "syn_fingerprint ih sg =
     finfo_tcp (tg_win sg) (tg_flags sg AND TH_ACK \<noteq> 0) (tcp_hlen sg) (tg_opts sg)
       (finfo_ip (ih_ttl ih) (ih_frag ih) (20 + length (ih_opts ih)))"

definition finger :: "ip_head \<Rightarrow> tcp_seg \<Rightarrow> string option" where
  "finger ih sg = (if tg_flags sg AND TH_SYN \<noteq> 0 then Some (render (syn_fingerprint ih sg) @ [NUL]) else None)"

fun trans_L4 :: "endian \<Rightarrow> ip_head \<Rightarrow> trans \<Rightarrow> L4_info" where
  "trans_L4 en ih (Tcp_seg sg pl) = (L4_ports en (tg_sport sg) (tg_dport sg) 6 L4_zero)\<lparr>fingerprint := finger ih sg\<rparr>"
| "trans_L4 en ih (Udp_seg sport dport lensum pl) = L4_ports en sport dport 0x11 L4_zero"
| "trans_L4 en ih tr = L4_zero"

fun net_L3 :: "endian \<Rightarrow> net \<Rightarrow> L3_info" where
  "net_L3 en (Arp_net hw hln pln oper addrs) = arp_L3 en hln pln addrs L3_zero"
| "net_L3 en (Ip_net ih tr) =
     L3_zero\<lparr>ip_src := set_addr AF_INET 4 (ih_src ih) ip_addr_zero, ip_dst := set_addr AF_INET 4 (ih_dst ih) ip_addr_zero,
       l3_proto := htons en 0x0800, ttl := ih_ttl ih\<rparr>"
| "net_L3 en (Ip6_net vfl plen nh hop src dst r) =
     L3_zero\<lparr>ip_src := set_addr AF_INET6 16 src ip_addr_zero, ip_dst := set_addr AF_INET6 16 dst ip_addr_zero,
       l3_proto := htons en 0x86DD, ttl := hop\<rparr>"
| "net_L3 en (Other_net t r) = L3_zero"

fun net_L4 :: "endian \<Rightarrow> net \<Rightarrow> L4_info" where
  "net_L4 en (Ip_net ih tr) = trans_L4 en ih tr"
| "net_L4 en nt = L4_zero"

fun frame_L2 :: "frame \<Rightarrow> L2_info" where
  "frame_L2 (Eth_frame dha sha nt) = L2_zero\<lparr>mac_src := sha, mac_dst := dha\<rparr>"
| "frame_L2 (Wifi_data dur dha sha mid nt) = L2_zero\<lparr>mac_src := sha, mac_dst := dha\<rparr>"
| "frame_L2 (Wifi_other t dur dha sha r) = L2_zero\<lparr>mac_src := sha, mac_dst := dha\<rparr>"

fun frame_L3 :: "endian \<Rightarrow> frame \<Rightarrow> L3_info" where
  "frame_L3 en (Eth_frame dha sha nt) = net_L3 en nt"
| "frame_L3 en (Wifi_data dur dha sha mid nt) = net_L3 en nt"
| "frame_L3 en (Wifi_other t dur dha sha r) = L3_zero"

fun frame_L4 :: "endian \<Rightarrow> frame \<Rightarrow> L4_info" where
  "frame_L4 en (Eth_frame dha sha nt) = net_L4 en nt"
| "frame_L4 en (Wifi_data dur dha sha mid nt) = net_L4 en nt"
| "frame_L4 en (Wifi_other t dur dha sha r) = L4_zero"

subsection \<open>The decoders on them\<close>

text \<open>The state of the decoders with a complete bucket.\<close>

definition env_of :: "stats \<Rightarrow> ui_state \<Rightarrow> L2_info \<Rightarrow> L3_info \<Rightarrow> L4_info \<Rightarrow> env" where
  "env_of st u l2 l3 l4 =
     \<lparr>stat_state = st, ui = u, bkt = \<lparr>L2 = Some l2, L3 = Some l3, L4 = Some l4, L5 = Some L5_zero\<rparr>\<rparr>"

lemma env_of_simps [simp]:
  "stat_state (env_of st u l2 l3 l4) = st" "ui (env_of st u l2 l3 l4) = u"
  "L2 (bkt (env_of st u l2 l3 l4)) = Some l2" "L3 (bkt (env_of st u l2 l3 l4)) = Some l3"
  "L4 (bkt (env_of st u l2 l3 l4)) = Some l4"
  "set_L2 l (env_of st u l2 l3 l4) = env_of st u l l3 l4" "set_L3 l3' (env_of st u l2 l3 l4) = env_of st u l2 l3' l4"
  "set_L4 l4' (env_of st u l2 l3 l4) = env_of st u l2 l3 l4'"
  "count n (env_of st u l2 l3 l4) = env_of (update_stat n 1 st) u l2 l3 l4"
  "(env_of st u l2 l3 l4)\<lparr>ui := v\<rparr> = env_of st v l2 l3 l4"
  by (simp_all add: env_of_def set_L2_def set_L3_def set_L4_def count_def)

lemma decode_loop_step:
  "run_decoder d c pos (word_of_int n) e = Inr (nxt, len, e') \<Longrightarrow> decode_loop c d pos n e =
     (if n - len > 0 then (case nxt of None \<Rightarrow> Some (Inr e') | Some d' \<Rightarrow> decode_loop c d' (pos + nat len) (n - len) e')
      else Some (Inr e'))"
  by (subst decode_loop.simps) simp

lemma decode_app:
  assumes "std_config c"
  shows "(if int (length pl) > 0 then
      (case next_decoder c APP_LAYER (uint dport) of None \<Rightarrow> Some (Inr e)
        | Some d \<Rightarrow> decode_loop c d pos (int (length pl)) e) else Some (Inr e)) =
    Some (Inr (e\<lparr>ui := logged (app_log dport pl) (ui e)\<rparr>))"
proof -
  have port: "uint dport = 0x43 \<longleftrightarrow> dport = 0x43" "uint dport = 0x44 \<longleftrightarrow> dport = 0x44"
    using word_uint_eq_iff [of dport "0x43"] word_uint_eq_iff [of dport "0x44"] by simp_all
  have "decode_loop c Decode_dhcpd pos n e = Some (Inr (e\<lparr>ui := logged [''DHCP -- server''] (ui e)\<rparr>))"
    "decode_loop c Decode_dhcpc pos n e = Some (Inr (e\<lparr>ui := logged [''DHCP -- client''] (ui e)\<rparr>))" for n
    by (simp_all add: decode_loop.simps decode_dhcpd_def decode_dhcpc_def user_msg_logged)
  then show ?thesis
    using assms port by (simp add: next_decoder_std std_decoder_def app_log_def)
qed

lemma hlen_byte:
  assumes "4 dvd h" and "h \<le> (60 :: nat)"
  shows "unat (drop_bit 4 (of_nat (h div 4 * 16) :: u_int8)) * 4 = h"
proof -
  have "h div 4 * 16 < 256" using assms(2) by linarith
  then have "unat (of_nat (h div 4 * 16) :: u_int8) = h div 4 * 16"
    by (simp only: unsigned_of_nat) (simp add: take_bit_nat_eq_self_iff)
  moreover have "unat (drop_bit 4 w) = unat w div 16" for w :: u_int8
    by (simp add: drop_bit_eq_div unat_div)
  ultimately have "unat (drop_bit 4 (of_nat (h div 4 * 16) :: u_int8)) = h div 4 * 16 div 16" by simp
  then show ?thesis using assms(1) by simp
qed

text \<open>The fingerprint that the decoder of IPv4 hands to that of TCP.\<close>

definition ip_L4 :: "ip_head \<Rightarrow> u_int8 \<Rightarrow> L4_info" where
  "ip_L4 ih p = (if p = 6 then L4_zero\<lparr>fingerprint := Some (render (finfo_ip (ih_ttl ih) (ih_frag ih) (20 + length (ih_opts ih))) @ [NUL])\<rparr>
     else L4_zero)"

lemma decode_tcp_seg:
  assumes pkt: "packet c = pre @ trans_bytes (Tcp_seg sg pl)" and pos: "length pre = pos"
    and wf: "trans_wf (byte_order c) (lp64 c) (packet_addr c + int pos) (Tcp_seg sg pl)" and ih: "ip_head_wf ih"
  shows "decode_tcp c pos n (env_of st u l2 l3 (ip_L4 ih 6)) = Inr (next_decoder c APP_LAYER (uint (tg_dport sg)), int (tcp_hlen sg),
    env_of (update_stat ''TCP'' 1 st) u l2 l3 (trans_L4 (byte_order c) ih (Tcp_seg sg pl)))"
proof -
  let ?h = "tcp_hlen sg"
  let ?f = "finfo_ip (ih_ttl ih) (ih_frag ih) (20 + length (ih_opts ih))"
  have len: "length (tg_seqack sg) = 8" "length (tg_sumurg sg) = 4" "\<forall>t \<in> set (tg_opts sg). opt_wf t"
    and h: "4 dvd ?h" "?h \<le> 60" and opts: "length (ih_opts ih) \<le> 40"
    using wf ih by (simp_all add: list_all_iff ip_head_wf_def)
  note hb = hlen_byte [OF h]
  note pkt' = pkt [unfolded trans_bytes.simps]
  show ?thesis
  proof (cases "tg_flags sg AND TH_SYN = 0")
    case True
    then show ?thesis
      using decode_tcp_other [OF pkt' pos len(1,2) True, where e = "env_of st u l2 l3 (ip_L4 ih 6)"] arg_cong [OF hb, of int]
      by (simp add: finger_def ip_L4_def L4_ports_def)
  next
    case False
    have post: "?h = 20 + length (opts_bytes (tg_opts sg)) \<or>
        ?h > 20 + length (opts_bytes (tg_opts sg)) \<and> replicate (tg_pad sg) 0 @ pl \<noteq> [] \<and> hd (replicate (tg_pad sg) 0 @ pl) = 0"
      by (cases "tg_pad sg") (simp_all add: tcp_hlen_def)
    have "f_lt ?f = Some (20 + length (ih_opts ih))" by (simp add: finfo_ip_def finfo_push_def finfo_start_def)
    then have fits: "finfo_wf ?f" "finfo_fits ?f FINGER_LT ?h"
      using opts h(2) by (simp_all add: finfo_ip_wf finfo_fits_def)
    have c: "byte_order c = Little" "\<not> lp64 c \<or> - (2 ^ 31) \<le> packet_addr c + int pos \<and> packet_addr c + int pos < 2 ^ 31"
      using wf False by auto
    show ?thesis
      using decode_tcp_syn [OF pkt' pos len(1,2) c len(3) hb [symmetric] post False _ _ fits,
          where e = "env_of st u l2 l3 (ip_L4 ih 6)" and n = n] c False
      by (simp add: ip_L4_def finger_def syn_fingerprint_def L4_ports_def)
  qed
qed

lemma decode_trans:
  assumes pkt: "packet c = pre @ trans_bytes tr" and pos: "length pre = pos"
    and wf: "trans_wf (byte_order c) (lp64 c) (packet_addr c + int pos) tr" and ih: "ip_head_wf ih"
    and c: "std_config c" and d: "trans_decoder tr = Some d"
  shows "decode_loop c d pos (int (length (trans_bytes tr))) (env_of st u l2 l3 (ip_L4 ih (trans_proto tr))) =
    Some (Inr (env_of (counted (trans_counts tr) st) (logged (trans_log tr) u) l2 l3 (trans_L4 (byte_order c) ih tr)))"
proof (cases tr)
  case (Tcp_seg sg pl)
  have len: "int (length (trans_bytes tr)) - int (tcp_hlen sg) = int (length pl)"
    using wf by (simp add: Tcp_seg tcp_header_def tcp_hlen_def)
  have run: "run_decoder d c pos n (env_of st u l2 l3 (ip_L4 ih (trans_proto tr))) =
      Inr (next_decoder c APP_LAYER (uint (tg_dport sg)), int (tcp_hlen sg),
        env_of (update_stat ''TCP'' 1 st) u l2 l3 (trans_L4 (byte_order c) ih tr))" for n
    using decode_tcp_seg [OF pkt [unfolded Tcp_seg] pos wf [unfolded Tcp_seg] ih] d by (simp add: Tcp_seg)
  show ?thesis unfolding decode_loop_step [OF run] len decode_app [OF c] by (simp add: Tcp_seg)
next
  case (Udp_seg sport dport lensum pl)
  have len: "int (length (trans_bytes tr)) - 8 = int (length pl)"
    using wf by (simp add: Udp_seg udp_header_def)
  have run: "run_decoder d c pos n (env_of st u l2 l3 (ip_L4 ih (trans_proto tr))) =
      Inr (next_decoder c APP_LAYER (uint dport), 8, env_of (update_stat ''UDP'' 1 st) u l2 l3 (trans_L4 (byte_order c) ih tr))" for n
    using decode_udp_header [where c = c and pre = pre and sport = sport and dport = dport and lensum = lensum and rest = pl,
        OF _ pos, where e = "env_of st u l2 l3 L4_zero"] pkt d by (simp add: Udp_seg ip_L4_def)
  show ?thesis unfolding decode_loop_step [OF run] len decode_app [OF c] by (simp add: Udp_seg)
next
  case (Icmp_seg six t r)
  have run: "run_decoder d c pos n (env_of st u l2 l3 (ip_L4 ih (trans_proto tr))) =
      Inr (None, 8, env_of (update_stat ''ICMP'' 1 st) (logged (icmp_log six n t) u) l2 l3 L4_zero)" for n
    using decode_icmp_header [of c pre t r pos] pkt pos d by (auto simp: Icmp_seg ip_L4_def)
  show ?thesis unfolding decode_loop_step [OF run] by (simp add: Icmp_seg)
next
  case (Other_seg p r)
  then show ?thesis using d by simp
qed

lemma trans_decoder_std: "trans_wf en lp a tr \<Longrightarrow> std_decoder PROTO_LAYER (uint (trans_proto tr)) = trans_decoder tr"
  by (cases tr) (simp_all add: std_decoder_def)

lemma net_decoder_std: "net_wf en lp a nt \<Longrightarrow> std_decoder NET_LAYER (uint (net_type nt)) = net_decoder nt"
  by (cases nt) (simp_all add: std_decoder_def)

lemma decode_ip_net:
  assumes pkt: "packet c = pre @ net_bytes (Ip_net ih tr)" and pos: "length pre = pos"
    and wf: "net_wf (byte_order c) (lp64 c) (packet_addr c + int pos) (Ip_net ih tr)" and c: "std_config c"
  shows "decode_loop c Decode_ip pos (int (length (net_bytes (Ip_net ih tr)))) (env_of st u l2 L3_zero L4_zero) =
    Some (Inr (env_of (counted (net_counts (Ip_net ih tr)) st) (logged (net_log (Ip_net ih tr)) u) l2
      (net_L3 (byte_order c) (Ip_net ih tr)) (net_L4 (byte_order c) (Ip_net ih tr))))"
proof -
  let ?hd = "ip_head_bytes ih (trans_proto tr)" and ?h = "20 + length (ih_opts ih)"
  have ih: "ip_head_wf ih" and tr: "trans_wf (byte_order c) (lp64 c) (packet_addr c + int (pos + ?h)) tr"
    using wf by (simp_all add: algebra_simps)
  have len: "length (ih_lenid ih) = 4" "length (ih_check ih) = 2" "length (ih_src ih) = 4" "length (ih_dst ih) = 4"
    "4 dvd length (ih_opts ih)" "length (ih_opts ih) \<le> 40"
    using ih by (simp_all add: ip_head_wf_def)
  have hd: "length ?hd = ?h" using len by (simp add: ip_head_bytes_def ip_header_def)
  let ?e = "env_of (update_stat ''IP'' 1 st) u l2 (net_L3 (byte_order c) (Ip_net ih tr)) (ip_L4 ih (trans_proto tr))"
  have run: "run_decoder Decode_ip c pos n (env_of st u l2 L3_zero L4_zero) = Inr (trans_decoder tr, int ?h, ?e)" for n
    using decode_ip_header [where c = c and pre = pre and pos = pos and tos = "ih_tos ih" and e = "env_of st u l2 L3_zero L4_zero" and n = n
        and rest = "trans_bytes tr"] pkt pos len trans_decoder_std [OF tr]
    by (simp add: ip_head_bytes_def after_ip_def Let_def ip_L4_def next_decoder_std [OF c] L3_zero_def)
  have total: "int (length (net_bytes (Ip_net ih tr))) - int ?h = int (length (trans_bytes tr))"
    using hd by simp
  show ?thesis
  proof (cases "trans_decoder tr")
    case None
    then obtain p r where "tr = Other_seg p r" by (cases tr) auto
    moreover from this have "p \<noteq> 6" using wf by (auto simp: std_decoder_def)
    ultimately show ?thesis
      unfolding decode_loop_step [OF run] by (simp add: ip_L4_def)
  next
    case (Some d)
    have "trans_bytes tr \<noteq> []" using Some by (cases tr) (simp_all add: tcp_header_def udp_header_def)
    then show ?thesis
      using decode_trans [where pre = "pre @ ?hd", OF _ _ tr ih c Some] pkt pos hd Some
      unfolding decode_loop_step [OF run] total nat_int by (simp add: algebra_simps)
  qed
qed

lemma decode_net:
  assumes pkt: "packet c = pre @ net_bytes nt" and pos: "length pre = pos"
    and wf: "net_wf (byte_order c) (lp64 c) (packet_addr c + int pos) nt" and c: "std_config c" and d: "net_decoder nt = Some d"
  shows "decode_loop c d pos (int (length (net_bytes nt))) (env_of st u l2 L3_zero L4_zero) =
    Some (Inr (env_of (counted (net_counts nt) st) (logged (net_log nt) u) l2 (net_L3 (byte_order c) nt) (net_L4 (byte_order c) nt)))"
proof (cases nt)
  case (Arp_net hw hln pln oper addrs)
  then show ?thesis
    using decode_arp_header [of c pre hw hln pln oper addrs pos, where e = "env_of st u l2 L3_zero L4_zero"] pkt pos wf d
    by (simp add: decode_loop_step)
next
  case (Ip_net ih tr)
  then show ?thesis using decode_ip_net [OF _ pos _ c] pkt wf d by simp
next
  case (Ip6_net vfl plen nh hop src dst r)
  have "length r \<le> unat (ntohs (byte_order c) plen)" using wf by (simp add: Ip6_net)
  then have "int (length r) \<le> uint (ntohs (byte_order c) plen)" by (metis of_nat_le_iff uint_nat)
  then have "int (length (net_bytes nt)) - (uint (ntohs (byte_order c) plen) + 40) \<le> 0"
    using wf by (simp add: Ip6_net ip6_header_def)
  then show ?thesis
    using decode_ip6_header [of c pre vfl plen nh hop src dst r pos, where e = "env_of st u l2 L3_zero L4_zero"] pkt pos wf d
    by (simp add: Ip6_net decode_loop_step ip6_L3_def L3_zero_def)
next
  case (Other_net t r)
  then show ?thesis using d by simp
qed

lemma decode_wifi_header:
  assumes pkt: "packet c = wifi_header t dur dha sha @ r" and len: "length dur = 2" "length dha = 6" "length sha = 6"
  shows "decode_wifi c 0 n (env_of st u l2 l3 l4) =
    (let e = env_of (update_stat ''TOTAL'' 1 st) u (l2\<lparr>mac_src := sha, mac_dst := dha\<rparr>) l3 l4 in
     if t = WIFI_DATA then bindE (net16 c 30) (\<lambda>ty. Inr (next_decoder c NET_LAYER (uint ty), 32, e))
     else if t = WIFI_BACON then Inr (None, uint n, e) else Inr (None, 24, e))"
proof -
  let ?b = "wifi_header t dur dha sha @ r"
  have b: "16 \<le> length ?b" "?b ! 0 = hi8 t" "?b ! 1 = lo8 t" using len by (simp_all add: wifi_header_def)
  have "rd_bytes (packet c) 10 6 = Inr sha" "rd_bytes (packet c) 4 6 = Inr dha"
    using rd_prefix(2) [of "[]" 0 10 6 ?b] rd_prefix(2) [of "[]" 0 4 6 ?b] pkt b(1) len by (simp_all add: wifi_header_def)
  moreover have "net16 c 0 = Inr t" using net16_prefix [of c "[]" ?b 0 0] pkt b by simp
  ultimately show ?thesis by (simp add: decode_wifi_def Let_def with_L_eq)
qed

text \<open>The decoder of the link layer, and the rest of the frame.\<close>

lemma decode_link:
  assumes run: "\<And>n. run_decoder d c 0 n e = Inr (net_decoder nt, int h, env_of st u l2 L3_zero L4_zero)"
    and pkt: "packet c = pre @ net_bytes nt" and h: "length pre = h"
    and wf: "net_wf (byte_order c) (lp64 c) (packet_addr c + int h) nt" and c: "std_config c"
  shows "decode_loop c d 0 (int (length (packet c))) e =
    Some (Inr (env_of (counted (net_counts nt) st) (logged (net_log nt) u) l2 (net_L3 (byte_order c) nt) (net_L4 (byte_order c) nt)))"
proof (cases "net_decoder nt")
  case None
  then obtain t r where "nt = Other_net t r" by (cases nt) auto
  then show ?thesis unfolding decode_loop_step [OF run] by simp
next
  case (Some d')
  have "net_bytes nt \<noteq> []"
    using Some wf by (cases nt) (simp_all add: arp_header_def ip_head_bytes_def ip_header_def ip6_header_def)
  moreover have "int (length (packet c)) - int h = int (length (net_bytes nt))" using pkt h by simp
  ultimately show ?thesis
    using decode_net [OF pkt h wf c Some] Some unfolding decode_loop_step [OF run] by simp
qed

lemma decode_frame:
  assumes pkt: "packet c = frame_bytes fr" and wf: "frame_wf (byte_order c) (lp64 c) (packet_addr c) fr" and c: "std_config c"
  shows "decode_loop c (frame_decoder fr) 0 (int (length (packet c))) (env_of st u L2_zero L3_zero L4_zero) =
    Some (Inr (env_of (counted (frame_counts fr) st) (logged (frame_log fr) u)
      (frame_L2 fr) (frame_L3 (byte_order c) fr) (frame_L4 (byte_order c) fr)))"
proof (cases fr)
  case (Eth_frame dha sha nt)
  let ?e = "env_of st u L2_zero L3_zero L4_zero"
  have wf': "net_wf (byte_order c) (lp64 c) (packet_addr c + int 14) nt" "length dha = 6" "length sha = 6"
    using wf by (simp_all add: Eth_frame)
  have pkt': "packet c = eth_header dha sha (net_type nt) @ net_bytes nt" "length (eth_header dha sha (net_type nt)) = 14"
    using pkt wf' by (simp_all add: Eth_frame eth_header_def)
  have "run_decoder Decode_eth c 0 n ?e = Inr (net_decoder nt, int 14,
      env_of (update_stat ''TOTAL'' 1 st) u (L2_zero\<lparr>mac_src := sha, mac_dst := dha\<rparr>) L3_zero L4_zero)" for n
    using decode_eth_frame [where c = c and pre = "[]" and e = ?e and n = n] pkt'(1) wf' net_decoder_std [OF wf'(1)]
    by (simp add: next_decoder_std [OF c])
  from decode_link [OF this pkt' wf'(1) c] show ?thesis by (simp add: Eth_frame)
next
  case (Wifi_data dur dha sha mid nt)
  let ?e = "env_of st u L2_zero L3_zero L4_zero"
  let ?t = "net_type nt"
  let ?hd = "wifi_header WIFI_DATA dur dha sha @ mid @ [hi8 ?t, lo8 ?t]"
  have wf': "net_wf (byte_order c) (lp64 c) (packet_addr c + int 32) nt" "length dur = 2" "length dha = 6" "length sha = 6" "length mid = 14"
    using wf by (simp_all add: Wifi_data)
  have pkt': "packet c = ?hd @ net_bytes nt" "length ?hd = 32"
    using pkt wf' by (simp_all add: Wifi_data wifi_header_def)
  have "net16 c 30 = Inr ?t"
    using net16_prefix [of c "[]" "?hd @ net_bytes nt" 0 30] pkt' wf' by (simp add: wifi_header_def nth_append)
  then have "run_decoder Decode_wifi c 0 n ?e = Inr (net_decoder nt, int 32,
      env_of (update_stat ''TOTAL'' 1 st) u (L2_zero\<lparr>mac_src := sha, mac_dst := dha\<rparr>) L3_zero L4_zero)" for n
    using decode_wifi_header [of c WIFI_DATA dur dha sha] pkt'(1) wf' net_decoder_std [OF wf'(1)]
    by (simp add: next_decoder_std [OF c])
  from decode_link [OF this pkt' wf'(1) c] show ?thesis by (simp add: Wifi_data)
next
  case (Wifi_other t dur dha sha r)
  then show ?thesis
    using decode_wifi_header [of c t dur dha sha r] pkt wf
    by (cases "t = WIFI_BACON"; subst decode_loop.simps) (simp_all add: Let_def)
qed

subsection \<open>What becomes of a frame\<close>

lemma clean_render [simp]: "clean (render f)"
  by (auto simp: render_def opt_hex_def flag_text_def split: option.splits bool.splits)

text \<open>
  All the messages about a frame: those of \<^verbatim>\<open>lmap_decode\<close>, those of the decoders, and those of
  \<^verbatim>\<open>db_bucket_send\<close>. \<open>d\<close> is the string in an undefined array, which only shows in frames without IP
  addresses.
\<close>

definition captured :: "nat \<Rightarrow> string list" where
  "captured n =
     [nl @ replicate 63 CHR ''*'' @ nl, ''lmap_get_packets (one packet dispatched from pcap)'',
      ''CAPTURED: 0x'' @ fmt_X False 4 (int n) @ '' bytes'' @ nl]"

definition frame_report :: "endian \<Rightarrow> string \<Rightarrow> frame \<Rightarrow> string list" where
  "frame_report en d fr =
     captured (length (frame_bytes fr)) @ frame_log fr @ report en d (frame_L2 fr) (frame_L3 en fr) (frame_L4 en fr)"

lemma lmap_decode_run:
  assumes "decode_loop c dec 0 (int (length (packet c)))
      (env_of (s_stats s) (logged (captured (length (packet c))) (s_ui s)) L2_zero L3_zero L4_zero) =
      Some (Inr (env_of st u l2 l3 l4))"
    and "L2_wf l2" and "L3_wf l3" and "junk_wf jk"
  shows "lmap_decode (\<lambda>_. True) jk dump (Some dec) c s =
    Inr \<lparr>s_stats = st, s_ui = logged (report (byte_order c) (c_str (junk_details jk)) l2 l3 l4) u,
      dumped = dumped s @ (if dump then [packet c] else []), leaked = leaked s + 1\<rparr>"
proof -
  obtain b where "db_bucket_send (byte_order c) (c_lib c) jk \<lparr>L2 = Some l2, L3 = Some l3, L4 = Some l4, L5 = Some L5_zero\<rparr> u =
      Inr (b, logged (report (byte_order c) (c_str (junk_details jk)) l2 l3 l4) u)" "db_bucket_free b = 1"
    using db_bucket_send_report [OF refl assms(2-4)] unfolding logged_def by metis
  with assms(1) show ?thesis
    by (simp add: lmap_decode_def user_msgs_eq db_bucket_alloc_ok Let_def env_of_def logged_def captured_def)
qed

lemma frame_L2_wf: "frame_wf en lp a fr \<Longrightarrow> L2_wf (frame_L2 fr)"
  by (cases fr) (simp_all add: L2_wf_def)

lemma frame_L3_wf: "frame_wf en lp a fr \<Longrightarrow> L3_wf (frame_L3 en fr)"
proof -
  have z: "L3_wf L3_zero" by (simp add: L3_wf_def L3_zero_def ip_addr_wf_zero)
  have arp: "L3_wf (arp_L3 en hln pln addrs L3_zero)" if "arp_addrs_wf hln pln addrs" for hln pln addrs
    using that set_addr_wf [OF ip_addr_wf_zero]
    by (auto simp: arp_L3_def arp_addrs_wf_def L3_wf_def L3_zero_def ip_addr_wf_zero Let_def)
  have "L3_wf (net_L3 en nt)" if "net_wf en lp a nt" for nt a
    using that z arp set_addr_wf [OF ip_addr_wf_zero] by (cases nt) (auto simp: L3_wf_def ip_head_wf_def)
  then show "frame_wf en lp a fr \<Longrightarrow> L3_wf (frame_L3 en fr)" using z by (cases fr) auto
qed

lemma lmap_decode_frame:
  assumes "packet c = frame_bytes fr" and "frame_wf (byte_order c) (lp64 c) (packet_addr c) fr" and "std_config c" and "junk_wf jk"
  shows "lmap_decode (\<lambda>_. True) jk dump (Some (frame_decoder fr)) c s =
    Inr \<lparr>s_stats = counted (frame_counts fr) (s_stats s),
      s_ui = logged (frame_report (byte_order c) (c_str (junk_details jk)) fr) (s_ui s),
      dumped = dumped s @ (if dump then [frame_bytes fr] else []), leaked = leaked s + 1\<rparr>"
  using lmap_decode_run [OF decode_frame [OF assms(1-3)] frame_L2_wf [OF assms(2)] frame_L3_wf [OF assms(2)] assms(4)]
  by (simp add: frame_report_def assms(1))

text \<open>
  The texts of a report are clean. A frame without IP addresses (an 802.11 beacon, a type without a decoder,
  ARP for another network) shows the text in an array that nobody has written.
\<close>

definition addressed :: "frame \<Rightarrow> bool" where
  "addressed fr \<longleftrightarrow> (\<forall>en. ip_type (ip_src (frame_L3 en fr)) \<in> {AF_INET, AF_INET6} \<and> ip_type (ip_dst (frame_L3 en fr)) \<in> {AF_INET, AF_INET6})"

lemma clean_frame_report:
  assumes "clean d \<or> addressed fr"
  shows "list_all clean (frame_report en d fr)"
proof -
  have "clean (replicate n CHR ''*'')" for n by (induction n) simp_all
  then have "list_all clean (captured n)" for n by (simp add: captured_def)
  moreover have "list_all clean (trans_log tr)" for tr by (cases tr) (simp_all add: app_log_def icmp_log_def)
  then have "list_all clean (net_log nt)" for nt by (cases nt) (simp_all add: ip6_log_def)
  then have "list_all clean (frame_log fr)" by (cases fr) simp_all
  moreover have "list_all clean (report en d (frame_L2 fr) (frame_L3 en fr) (frame_L4 en fr))"
  proof (rule clean_report)
    show "ESSID (frame_L2 fr) = None" by (cases fr) (simp_all add: L2_zero_def)
    have "clean (c_str f)" if "fingerprint (trans_L4 en ih tr) = Some f" for ih tr f
      using that c_str_append_NUL [OF render_no_NUL, of _ "[]"]
      by (cases tr) (auto simp: finger_def L4_ports_def L4_zero_def split: if_splits)
    then have "clean (c_str f)" if "fingerprint (net_L4 en nt) = Some f" for nt f
      using that by (cases nt) (auto simp: L4_zero_def)
    then show "\<And>f. fingerprint (frame_L4 en fr) = Some f \<Longrightarrow> clean (c_str f)" by (cases fr) (auto simp: L4_zero_def)
  qed (use assms in \<open>auto simp: addressed_def\<close>)
  ultimately show ?thesis by (simp add: frame_report_def)
qed

text \<open>
  For such a frame the source address in the report is the destination of the link layer, and behind it
  stands the undefined text.
\<close>

lemma no_address_reports_MAC:
  assumes "frame_L3 en fr = L3_zero"
  shows "report en d (frame_L2 fr) (frame_L3 en fr) (frame_L4 en fr) ! 6 = '' --> source  '' @ mac_text (mac_dst (frame_L2 fr)) @ '' '' @ d"
  by (simp add: assms report_def report_L3_def Let_def addr_text_def label_text_def L3_zero_def ip_addr_zero_def)

subsection \<open>A TCP segment in an Ethernet frame\<close>

lemma dotted_set_addr: "length a = 4 \<Longrightarrow> dotted (ip_bytes (set_addr AF_INET 4 a ip_addr_zero)) = dotted a"
  by (simp add: set_addr_def ip_addr_zero_def dotted_def overwrite_def nth_append)

text \<open>
  C6: An Ethernet frame with a TCP segment over IPv4, on a little endian host: \<^verbatim>\<open>lmap_decode\<close> returns,
  counts the packet once under TOTAL, IP and TCP, saves it when packets are dumped, loses the one
  structure of its bucket that nothing frees (the application layer's), and reports its
  MAC addresses, IP addresses, TTL and ports as they are in the headers. For a SYN it reports the
  fingerprint that the TTL, the DF flag, the window, the lengths and the options of the headers
  determine, for any other segment none.
\<close>

theorem lmap_decode_tcp:
  assumes "frame_wf Little (lp64 c) (packet_addr c) (Eth_frame dha sha (Ip_net ih (Tcp_seg sg pl)))"
    and "packet c = frame_bytes (Eth_frame dha sha (Ip_net ih (Tcp_seg sg pl)))" and "std_config c"
    and "byte_order c = Little" and "tg_dport sg \<noteq> 0x43" and "tg_dport sg \<noteq> 0x44" and "junk_wf jk"
  shows "\<exists>s' ms. lmap_decode (\<lambda>_. True) jk dump (Some Decode_eth) c s = Inr s' \<and>
    s_stats s' = update_stat ''TCP'' 1 (update_stat ''IP'' 1 (update_stat ''TOTAL'' 1 (s_stats s))) \<and>
    dumped s' = dumped s @ (if dump then [packet c] else []) \<and> leaked s' = leaked s + 1 \<and>
    messages_queue (s_ui s') = messages_queue (s_ui s) @ ms \<and> length ms = 18 \<and>
    ms ! 5 = '' --> source  '' @ mac_text sha \<and>
    ms ! 6 = '' --> dest    '' @ mac_text dha \<and>
    ms ! 9 = '' --> source  '' @ dotted (ih_src ih) @ '' '' \<and>
    ms ! 10 = '' --> dest    '' @ dotted (ih_dst ih) @ '' '' \<and>
    ms ! 12 = '' --> ttl     '' @ fmt_d (uint (ih_ttl ih)) \<and>
    ms ! 14 = '' --> source  '' @ fmt_d (uint (tg_sport sg)) \<and>
    ms ! 15 = '' --> dest    '' @ fmt_d (uint (tg_dport sg)) \<and>
    ms ! 17 = '' --> finger  '' @ (if tg_flags sg AND TH_SYN \<noteq> 0 then render (syn_fingerprint ih sg) else ''(null)'') @ nl"
proof -
  let ?fr = "Eth_frame dha sha (Ip_net ih (Tcp_seg sg pl))"
  let ?ms = "frame_report Little (c_str (junk_details jk)) ?fr"
  have r: "lmap_decode (\<lambda>_. True) jk dump (Some Decode_eth) c s = Inr
      \<lparr>s_stats = counted (frame_counts ?fr) (s_stats s), s_ui = logged ?ms (s_ui s),
       dumped = dumped s @ (if dump then [packet c] else []), leaked = leaked s + 1\<rparr>"
    using lmap_decode_frame [OF assms(2) _ assms(3,7), of dump s] assms(1,2,4) by simp
  have log: "app_log (tg_dport sg) pl = []" using assms(5,6) by (simp add: app_log_def)
  have txts: "addr_text (set_addr AF_INET 4 a ip_addr_zero) old = dotted a" "label_text (set_addr AF_INET 4 a ip_addr_zero) old = ''''"
    if "length a = 4" for a old
    using dotted_set_addr [OF that] by (simp_all add: addr_text_def label_text_def) (simp_all add: set_addr_def)
  have finger: "fmt_s (finger ih sg) = (if tg_flags sg AND TH_SYN \<noteq> 0 then render (syn_fingerprint ih sg) else ''(null)'')"
    using c_str_append_NUL [OF render_no_NUL, of "syn_fingerprint ih sg" "[]"] by (simp add: fmt_s_def finger_def)
  have len: "length (ih_src ih) = 4" "length (ih_dst ih) = 4" using assms(1) by (simp_all add: ip_head_wf_def)
  show ?thesis
    unfolding r
    by (intro exI [of _ ?ms] exI conjI, rule refl)
       (simp_all add: frame_report_def captured_def report_def report_L3_def send_L4_def log txts len finger Let_def L4_ports_def)
qed

definition sample_config :: "bytes \<Rightarrow> config" where
  "sample_config pkt = \<lparr>byte_order = Little, lp64 = False, c_lib = Glibc_2_1,
     decoder_table = table (start_program link_order), packet = pkt, packet_addr = 0x08060000\<rparr>"

definition sample_junk :: junk where
  "sample_junk = \<lparr>junk_tmp = replicate 50 CHR ''x'', junk_details = replicate 50 CHR ''x'', junk_label = replicate 16 NUL\<rparr>"

definition sample_session :: session where
  "sample_session = \<lparr>s_stats = stat_table (start_program link_order), s_ui = \<lparr>messages_queue = [], shown = []\<rparr>, dumped = [], leaked = 0\<rparr>"

lemma std_config_sample: "std_config (sample_config pkt)"
  using all_modules_link_order by (auto simp: std_config_def sample_config_def)

lemma junk_wf_sample: "junk_wf sample_junk"
  by (simp add: junk_wf_def sample_junk_def)

definition sample_head :: ip_head where
  "sample_head = \<lparr>ih_tos = 0, ih_lenid = [0, 60, 1, 2], ih_frag = 0x4000, ih_ttl = 57, ih_check = [0, 0],
     ih_src = [192, 168, 0, 2], ih_dst = [10, 0, 0, 1], ih_opts = []\<rparr>"

definition sample_segment :: tcp_seg where
  "sample_segment = \<lparr>tg_sport = 40000, tg_dport = 80, tg_seqack = [0, 0, 0, 1, 0, 0, 0, 0], tg_flags = 2, tg_win = 5840,
     tg_sumurg = [0, 0, 0, 0], tg_opts = [Mss 1460, Sack_ok, Timestamp [0, 0, 0, 0, 0, 0, 0, 0], Nop, Wscale 7], tg_pad = 0\<rparr>"

definition sample_frame :: frame where
  "sample_frame = Eth_frame [0, 1, 2, 3, 4, 5] [0, 0x0c, 0x29, 1, 2, 3] (Ip_net sample_head (Tcp_seg sample_segment []))"

lemma sample_frame_wf: "frame_wf Little False a sample_frame"
  by (simp add: sample_frame_def sample_head_def sample_segment_def ip_head_wf_def tcp_hlen_def opts_bytes_def)

lemma lmap_decode_tcp_witness:
  "\<exists>s' ms. lmap_decode (\<lambda>_. True) sample_junk True (Some Decode_eth)
      (sample_config (frame_bytes sample_frame)) sample_session = Inr s' \<and>
    messages_queue (s_ui s') = ms \<and> ms ! 14 = '' --> source  '' @ fmt_d 40000"
proof -
  let ?c = "sample_config (frame_bytes sample_frame)"
  let ?fr = "Eth_frame [0, 1, 2, 3, 4, 5] [0, 0x0c, 0x29, 1, 2, 3] (Ip_net sample_head (Tcp_seg sample_segment []))"
  have c: "lp64 ?c = False" "packet ?c = frame_bytes sample_frame" "byte_order ?c = Little" by (simp_all add: sample_config_def)
  have fr: "frame_wf Little (lp64 ?c) (packet_addr ?c) ?fr" "packet ?c = frame_bytes ?fr"
    unfolding sample_frame_def [symmetric] c by (rule sample_frame_wf refl)+
  have p: "tg_dport sample_segment \<noteq> 0x43" "tg_dport sample_segment \<noteq> 0x44" "uint (tg_sport sample_segment) = 40000"
    by (simp_all add: sample_segment_def)
  show ?thesis
    using lmap_decode_tcp [OF fr std_config_sample c(3) p(1,2) junk_wf_sample, of True sample_session]
    unfolding p(3) by (elim exE conjE) (auto simp: sample_session_def)
qed

subsection \<open>Frames that are too short\<close>

text \<open>
  C40: A frame with fewer bytes than an Ethernet header makes \<^verbatim>\<open>lmap_decode\<close> read behind the captured
  bytes: no decoder looks at the length it is given.
\<close>

theorem short_frame_overread:
  assumes "length (packet c) < 14"
  shows "lmap_decode (\<lambda>_. True) jk dump (Some Decode_eth) c s = Inl Out_of_bounds"
proof -
  have "decode_eth c 0 n e = Inl Out_of_bounds" if "L2 (bkt e) = Some l2" for n e l2
    using assms that by (auto simp: decode_eth_def Let_def with_L_eq rd_bytes_def net16_def rd16_def)
  then have "decode_loop c Decode_eth 0 n \<lparr>stat_state = s_stats s, ui = u,
      bkt = \<lparr>L2 = Some L2_zero, L3 = Some L3_zero, L4 = Some L4_zero, L5 = Some L5_zero\<rparr>\<rparr> = Some (Inl Out_of_bounds)" for n u
    by (subst decode_loop.simps) simp
  then show ?thesis
    by (simp add: lmap_decode_def user_msgs_eq db_bucket_alloc_ok Let_def)
qed

lemma short_frame_overread_witness:
  "lmap_decode (\<lambda>_. True) sample_junk False (Some Decode_eth) (sample_config [1, 2, 3]) sample_session = Inl Out_of_bounds"
  using short_frame_overread [of "sample_config [1, 2, 3]"] by (simp add: sample_config_def)

subsection \<open>IPv6\<close>



text \<open>
  An IPv6 packet with a payload length of 0 and the next header TCP ends the program when byte 5
  of its source address has the bit of the SYN flag: the TCP decoder is run on the IPv6 header
  itself and pushes into a fingerprint that nobody has allocated.
\<close>

theorem ip6_jumbogram_exits:
  assumes "packet c = eth_header dha sha 0x86DD @ ip6_header vfl 0 6 hop src dst @ payload"
    and "length dha = 6" "length sha = 6" "length vfl = 4" "length src = 16" "length dst = 16"
    and "std_config c" and "src ! 5 AND TH_SYN \<noteq> 0"
  shows "lmap_decode (\<lambda>_. True) jk dump (Some Decode_eth) c s =
    Inl (Exit_process ''finger_push used on NULL string !!'')"
proof -
  let ?eth = "eth_header dha sha 0x86DD"
  let ?u = "logged (captured (length (packet c))) (s_ui s)"
  let ?e1 = "env_of (update_stat ''TOTAL'' 1 (s_stats s)) ?u (L2_zero\<lparr>mac_src := sha, mac_dst := dha\<rparr>) L3_zero L4_zero"
  let ?e2 = "env_of (update_stat ''IP'' 1 (update_stat ''TOTAL'' 1 (s_stats s)))
      (logged [''IPv6 jumbogram, Hop-By-Hop header should follow''] ?u) (L2_zero\<lparr>mac_src := sha, mac_dst := dha\<rparr>)
      (ip6_L3 c hop src dst L3_zero) L4_zero"
  have eth_len: "length ?eth = 14" using assms(2,3) by (simp add: eth_header_def)
  have total: "length (packet c) = 54 + length payload"
    using eth_len assms(1,4-6) by (simp add: ip6_header_def)
  have "run_decoder Decode_eth c 0 n (env_of st u L2_zero L3_zero L4_zero) = Inr (Some Decode_ip6, 14,
      env_of (update_stat ''TOTAL'' 1 st) u (L2_zero\<lparr>mac_src := sha, mac_dst := dha\<rparr>) L3_zero L4_zero)" for n st u
    using decode_eth_frame [where c = c and pre = "[]" and dha = dha and sha = sha and t = "0x86DD" and pos = 0
        and e = "env_of st u L2_zero L3_zero L4_zero" and n = n]
      assms(1-3,7) by (simp add: next_decoder_std std_decoder_def)
  note eth = this [of _ "s_stats s" ?u]
  have ip6: "run_decoder Decode_ip6 c 14 n ?e1 = Inr (Some Decode_tcp, 0, ?e2)" for n
    using decode_ip6_header [OF assms(1) eth_len assms(4-6), of ?e1 L3_zero n] assms(7)
    by (simp add: next_decoder_std std_decoder_def ip6_log_def)
  note rd = ip6_header_reads [OF assms(1) eth_len assms(4-6)]
  have tcp: "run_decoder Decode_tcp c 14 n ?e2 = Inl (Exit_process ''finger_push used on NULL string !!'')" for n
    using rd(6,7,10) rd(8,9) [of "byte_order c"] assms(8)
    by (auto simp: decode_tcp_def Let_def with_L_eq tcp_fingerprint_def push_def L4_zero_def)
  have "decode_loop c Decode_eth 0 (int (length (packet c))) (env_of (s_stats s) ?u L2_zero L3_zero L4_zero) =
      Some (Inl (Exit_process ''finger_push used on NULL string !!''))"
  proof -
    have "decode_loop c Decode_tcp 14 k ?e2 = Some (Inl (Exit_process ''finger_push used on NULL string !!''))" for k
      by (subst decode_loop.simps) (simp only: tcp sum.case)
    then have "decode_loop c Decode_ip6 14 k ?e1 = Some (Inl (Exit_process ''finger_push used on NULL string !!''))" if "k > 0" for k
      unfolding decode_loop_step [OF ip6] using that by simp
    then show ?thesis unfolding decode_loop_step [OF eth] using total by simp
  qed
  then show ?thesis
    by (simp add: lmap_decode_def user_msgs_eq db_bucket_alloc_ok Let_def env_of_def logged_def captured_def)
qed

lemma ip6_jumbogram_exits_witness:
  "lmap_decode (\<lambda>_. True) sample_junk False (Some Decode_eth)
     (sample_config (eth_header (replicate 6 1) (replicate 6 2) 0x86DD @
      ip6_header [0x60, 0, 0, 0] 0 6 64 (replicate 16 2) (replicate 16 4) @ [])) sample_session =
    Inl (Exit_process ''finger_push used on NULL string !!'')"
  using ip6_jumbogram_exits [of _ "replicate 6 1" "replicate 6 2" "[0x60, 0, 0, 0]" 64 "replicate 16 2" "replicate 16 4" "[]"]
    std_config_sample
  by (simp add: sample_config_def TH_SYN_def)

end
