(* ===== verification/Traffic.thy ===== *)
theory Traffic
  imports Process Frames "HOL-Library.Sublist"
begin

text \<open>
  The thread that \<^verbatim>\<open>main\<close> starts: \<^verbatim>\<open>capture\<close> of \<^verbatim>\<open>src/lmap_capture.c\<close>, whose \<^verbatim>\<open>pcap_loop\<close> hands every packet to
  \<^verbatim>\<open>lmap_decode\<close>. It works on the counters, the messages and the dump file of the process. The packets it
  captures before and while the user interface runs end up in the window of the system messages.
\<close>

subsection \<open>The thread\<close>

text \<open>
  A packet is given with the address at which libpcap holds it. \<open>lp\<close>, \<open>mem\<close> and \<open>jk\<close> are the pointer width,
  the calls of \<^verbatim>\<open>calloc\<close> that succeed, and the contents of uninitialised buffers.
\<close>

definition packet_config :: "'k world \<Rightarrow> bool \<Rightarrow> 'k program \<Rightarrow> bytes \<times> int \<Rightarrow> config" where
  "packet_config W lp p pkt =
     \<lparr>config.byte_order = terminal.byte_order W, lp64 = lp, c_lib = lib W, decoder_table = decoders_of p,
      packet = fst pkt, packet_addr = snd pkt\<rparr>"

definition packet_arrives ::
  "'k world \<Rightarrow> bool \<Rightarrow> (nat \<Rightarrow> bool) \<Rightarrow> junk \<Rightarrow> bytes \<times> int \<Rightarrow> 'k program \<Rightarrow> c_error + 'k program" where
  "packet_arrives W lp mem jk pkt p =
     bindE (deref (gbls p)) (\<lambda>g.
     bindE (lmap_decode mem jk (opt_dump (options g)) (l2_decoder p) (packet_config W lp p pkt)
              \<lparr>s_stats = counts (scr p), s_ui = mqueue (scr p), dumped = dump_file p, leaked = lost p\<rparr>) (\<lambda>s.
       Inr (p\<lparr>scr := (scr p)\<lparr>counts := s_stats s, mqueue := s_ui s\<rparr>, dump_file := dumped s, lost := leaked s\<rparr>)))"

fun capture ::
  "'k world \<Rightarrow> bool \<Rightarrow> (nat \<Rightarrow> bool) \<Rightarrow> junk \<Rightarrow> (bytes \<times> int) list \<Rightarrow> 'k program \<Rightarrow> c_error + 'k program" where
  "capture W lp mem jk [] p = Inr p"
| "capture W lp mem jk (pkt # pkts) p = bindE (packet_arrives W lp mem jk pkt p) (capture W lp mem jk pkts)"

subsection \<open>Traffic that is decoded\<close>

text \<open>A frame for the decoder of the link type, at an address at which the decoders can read it.\<close>

definition decodable :: "endian \<Rightarrow> bool \<Rightarrow> decoder \<Rightarrow> frame \<times> int \<Rightarrow> bool" where
  "decodable en lp dec = (\<lambda>(fr, a). frame_wf en lp a fr \<and> frame_decoder fr = dec)"

definition on_wire :: "frame \<times> int \<Rightarrow> bytes \<times> int" where
  "on_wire = (\<lambda>(fr, a). (frame_bytes fr, a))"

text \<open>The counters and the messages of a list of frames, with the string \<open>d\<close> in an undefined array.\<close>

definition traffic_counts :: "(frame \<times> int) list \<Rightarrow> string list" where
  "traffic_counts frs = concat (map (frame_counts \<circ> fst) frs)"

definition traffic_report :: "endian \<Rightarrow> string \<Rightarrow> (frame \<times> int) list \<Rightarrow> string list" where
  "traffic_report en d frs = concat (map (frame_report en d \<circ> fst) frs)"

definition traffic_seen :: "endian \<Rightarrow> string \<Rightarrow> bool \<Rightarrow> (frame \<times> int) list \<Rightarrow> 'k program \<Rightarrow> 'k program" where
  "traffic_seen en d dump frs p =
     p\<lparr>scr := (scr p)\<lparr>counts := counted (traffic_counts frs) (counts (scr p)),
         mqueue := logged (traffic_report en d frs) (mqueue (scr p))\<rparr>,
       dump_file := dump_file p @ (if dump then map (frame_bytes \<circ> fst) frs else []), lost := lost p + length frs\<rparr>"

lemma counted_append: "counted (ns @ ns') st = counted ns' (counted ns st)"
  by (simp add: counted_def)

lemma packet_arrives_frame:
  assumes "all_modules ms" and "decoders_of p = table (start_program ms)" and "l2_decoder p = Some dec"
    and "gbls p = Some g" and "decodable (terminal.byte_order W) lp dec fr" and "junk_wf jk"
  shows "packet_arrives W lp (\<lambda>_. True) jk (on_wire fr) p =
    Inr (traffic_seen (terminal.byte_order W) (c_str (junk_details jk)) (opt_dump (options g)) [fr] p)"
proof -
  obtain f a where fr: "fr = (f, a)" by (cases fr)
  let ?c = "packet_config W lp p (frame_bytes f, a)"
  have c: "packet ?c = frame_bytes f" "std_config ?c" "config.byte_order ?c = terminal.byte_order W" "lp64 ?c = lp" "packet_addr ?c = a"
    using assms(1,2) by (auto simp: packet_config_def std_config_def)
  have f: "frame_wf (terminal.byte_order W) lp a f" "frame_decoder f = dec" using assms(5) by (auto simp: decodable_def fr)
  show ?thesis
    using lmap_decode_frame [OF c(1) _ c(2) assms(6), of "opt_dump (options g)"
        "\<lparr>s_stats = counts (scr p), s_ui = mqueue (scr p), dumped = dump_file p, leaked = lost p\<rparr>"] f assms(3,4)
    by (simp add: packet_arrives_def on_wire_def fr c traffic_seen_def traffic_counts_def traffic_report_def)
qed

lemma capture_frames:
  assumes "all_modules ms" and "decoders_of p = table (start_program ms)" and "l2_decoder p = Some dec"
    and "gbls p = Some g" and "list_all (decodable (terminal.byte_order W) lp dec) frs" and "junk_wf jk"
  shows "capture W lp (\<lambda>_. True) jk (map on_wire frs) p =
    Inr (traffic_seen (terminal.byte_order W) (c_str (junk_details jk)) (opt_dump (options g)) frs p)"
  using assms(2-5)
proof (induction frs arbitrary: p)
  case Nil
  then show ?case by (simp add: traffic_seen_def traffic_counts_def traffic_report_def)
next
  case (Cons fr frs)
  let ?seen = "traffic_seen (terminal.byte_order W) (c_str (junk_details jk)) (opt_dump (options g))"
  have "packet_arrives W lp (\<lambda>_. True) jk (on_wire fr) p = Inr (?seen [fr] p)"
    using Cons.prems(4) by (intro packet_arrives_frame [OF assms(1) Cons.prems(1-3) _ assms(6)]) simp
  moreover have "capture W lp (\<lambda>_. True) jk (map on_wire frs) (?seen [fr] p) = Inr (?seen frs (?seen [fr] p))"
    using Cons.prems by (intro Cons.IH) (simp_all add: traffic_seen_def)
  moreover have "?seen frs (?seen [fr] p) = ?seen (fr # frs) p"
    by (simp add: traffic_seen_def traffic_counts_def traffic_report_def counted_append)
  ultimately show ?case by simp
qed

subsection \<open>The counters\<close>

lemma counted_counters:
  assumes "stats_invar st" and "set ns \<subseteq> dom (counters st)"
  shows "stats_invar (counted ns st) \<and> dom (counters (counted ns st)) = dom (counters st) \<and>
    get_stat (counted ns st) t = get_stat st t + of_nat (count_list ns t)"
  using assms
proof (induction ns arbitrary: st)
  case (Cons n ns)
  then have "stats_invar (update_stat n 1 st)" "dom (counters (update_stat n 1 st)) = dom (counters st)"
      "get_stat (update_stat n 1 st) t = get_stat st t + (if t = n then 1 else 0)"
    by (auto simp: stat.invar_update stat.known_update stat.get_update)
  with Cons.IH [of "update_stat n 1 st"] Cons.prems(2) show ?case by (auto simp: algebra_simps)
qed simp

lemma frame_counts_std: "set (frame_counts fr) \<subseteq> std_counters"
proof -
  have "set (trans_counts tr) \<subseteq> std_counters" for tr by (cases tr) (simp_all add: std_counters_def)
  then have "set (net_counts nt) \<subseteq> std_counters" for nt by (cases nt) (simp_all add: std_counters_def)
  then show ?thesis by (cases fr) (simp_all add: std_counters_def)
qed

lemma distinct_frame_counts: "distinct (frame_counts fr)"
proof -
  have tr: "distinct (trans_counts tr)" "set (trans_counts tr) \<subseteq> {''TCP'', ''UDP'', ''ICMP''}" for tr by (cases tr; simp)+
  then have "distinct (net_counts nt)" "''TOTAL'' \<notin> set (net_counts nt)" for nt by (cases nt; force)+
  then show ?thesis by (cases fr) simp_all
qed

lemma count_distinct: "distinct xs \<Longrightarrow> count_list xs t = (if t \<in> set xs then 1 else 0)"
  by (induction xs) auto

lemma count_traffic: "count_list (traffic_counts frs) t = length (filter (\<lambda>fr. t \<in> set (frame_counts (fst fr))) frs)"
proof (induction frs)
  case (Cons fr frs)
  have "count_list (frame_counts (fst fr)) t = (if t \<in> set (frame_counts (fst fr)) then 1 else 0)"
    using distinct_frame_counts [of "fst fr"] by (simp add: count_distinct)
  with Cons show ?case by (simp add: traffic_counts_def count_list_append)
qed (simp add: traffic_counts_def)

text \<open>The start of the program leaves the table of decoders, the counters, the windows and the dump file as they are.\<close>

definition still :: "'k step \<Rightarrow> bool" where
  "still f \<longleftrightarrow> (\<forall>p p'. f p = (None, p') \<longrightarrow> decoders_of p' = decoders_of p \<and> counts (scr p') = counts (scr p) \<and>
     dump_file p' = dump_file p \<and> lost p' = lost p \<and> w_sys (scr p') = w_sys (scr p) \<and> w_stat (scr p') = w_stat (scr p))"

lemma still_globals:
  "(\<And>g p p'. f g p = (None, p') \<Longrightarrow> decoders_of p' = decoders_of p \<and> counts (scr p') = counts (scr p) \<and>
     dump_file p' = dump_file p \<and> lost p' = lost p \<and> w_sys (scr p') = w_sys (scr p) \<and> w_stat (scr p') = w_stat (scr p)) \<Longrightarrow> still (with_globals f)"
  by (auto simp: still_def with_globals_def fail_def split: option.splits)

lemma still_steps: "list_all still fs \<Longrightarrow> still (run_steps fs)"
proof (induction fs)
  case (Cons f fs)
  then have "still f" "still (run_steps fs)" by simp_all
  then show ?case unfolding still_def run_steps_goes_on by metis
qed (simp add: still_def)

lemma still_start_up: "still (run_steps (start_up W))"
proof -
  have "still (globals_alloc W)" by (auto simp: still_def globals_alloc_def apart_unfolds split: if_splits)
  moreover have "still (set_names W n v)" for n v
    unfolding set_names_def by (rule still_globals) (auto simp: apart_unfolds split: if_splits)
  moreover have "still (register_thread W n d)" for n d by (auto simp: still_def register_thread_def)
  moreover have "still (signal_handler W)"
    by (auto simp: still_def signal_handler_def signal_handle_def error_msg_def split: if_splits)
  moreover have "still (parse W)"
    unfolding parse_def by (rule still_globals) (auto simp: apart_unfolds split: option.splits sum.splits)
  moreover have "still (run_ui_init W)"
    by (auto simp: still_def run_ui_init_def atexit_def split: ui_hook.splits prod.splits)
  moreover have "still banner"
    unfolding banner_def by (rule still_globals) (auto simp: apart_unfolds split: option.splits)
  moreover have "still (choose_iface W)"
    unfolding choose_iface_def by (rule still_globals) (auto simp: apart_unfolds split: option.splits)
  moreover have "still (announce W)"
    unfolding announce_def by (rule still_globals) (auto simp: apart_unfolds USER_MSG_eq)
  moreover have "still (capture_open W)"
    unfolding capture_open_def
    by (rule still_globals) (auto simp: apart_unfolds split: option.splits prod.splits if_splits)
  moreover have "still (load_manuf W)"
    unfolding load_manuf_def by (rule still_globals) (auto simp: apart_unfolds split: option.splits)
  moreover have "still (load_fingerprints W)"
    unfolding load_fingerprints_def by (rule still_globals) (auto simp: apart_unfolds split: option.splits)
  moreover have "still (start_capture W)" by (auto simp: still_def start_capture_def checked_call_goes_on)
  ultimately show ?thesis
    unfolding start_up_def capture_init_def by (intro still_steps) (simp add: still_steps)
qed

lemma start_up_ready:
  assumes "before_main ms k = Inr p0" and "run_steps (start_up W) p0 = (None, p)"
  shows "decoders_of p = table (start_program ms)" and "counts (scr p) = stat_table (start_program ms)"
    and "dump_file p = []" and "lost p = 0" and "w_sys (scr p) = None" and "w_stat (scr p) = None"
  using still_start_up [of W] assms by (auto simp: still_def before_main_def Let_def ui_register_ok)

lemma traffic_counted:
  assumes "all_modules ms"
  shows "get_stat (counted (traffic_counts frs) (stat_table (start_program ms))) t =
    of_nat (length (filter (\<lambda>fr. t \<in> set (frame_counts (fst fr))) frs))"
proof -
  let ?st = "stat_table (start_program ms)"
  have st: "stats_invar ?st" using stat.invar_registers [OF stats_invar_start] by (simp add: start_program_eq)
  have c: "counters ?st = (\<lambda>n. if n \<in> std_counters then Some 0 else None)" by (rule counters_start [OF assms])
  have "set (traffic_counts frs) \<subseteq> dom (counters ?st)"
    using frame_counts_std by (fastforce simp: c traffic_counts_def)
  then show ?thesis
    using counted_counters [OF st, of "traffic_counts frs" t] by (simp add: count_traffic get_stat_counters c)
qed


definition sample_frames :: "(frame \<times> int) list" where
  "sample_frames = [(sample_frame, 0),
     (Eth_frame (replicate 6 255) [0, 0x0c, 0x29, 1, 2, 3]
       (Arp_net [0, 1, 8, 0] 6 4 [0, 1] ([0, 0x0c, 0x29, 1, 2, 3, 192, 168, 0, 2] @ replicate 6 0 @ [192, 168, 0, 1])), 0),
     (Eth_frame [0, 1, 2, 3, 4, 5] [0, 0x0c, 0x29, 1, 2, 3] (Ip_net sample_head (Udp_seg 68 67 [0, 9, 0, 0] [1])), 0)]"

lemma sample_frames_ok: "list_all (decodable Little False Decode_eth) sample_frames"
proof -
  have "frame_wf Little False 0 sample_frame" "frame_decoder sample_frame = Decode_eth"
    using sample_frame_wf by (simp_all add: sample_frame_def)
  then show ?thesis
    by (simp add: sample_frames_def decodable_def arp_addrs_wf_def) (simp add: sample_head_def ip_head_wf_def)
qed


subsection \<open>From the wire to the screen\<close>

text \<open>The steps of the capture thread on a frame, as the user interface sees them.\<close>

definition frame_events :: "endian \<Rightarrow> string \<Rightarrow> frame \<Rightarrow> event list" where
  "frame_events en d fr =
     map Sent (captured (length (frame_bytes fr))) @ map (\<lambda>n. Counted n 1) (frame_counts fr) @
     map Sent (frame_log fr @ report en d (frame_L2 fr) (frame_L3 en fr) (frame_L4 en fr))"

definition traffic_events :: "endian \<Rightarrow> string \<Rightarrow> (frame \<times> int) list \<Rightarrow> event list" where
  "traffic_events en d frs = concat (map (frame_events en d \<circ> fst) frs)"

definition sent_messages :: "event list \<Rightarrow> string list" where
  "sent_messages es = concat (map (\<lambda>e. case e of Sent m \<Rightarrow> [m] | _ \<Rightarrow> []) es)"

lemma sent_messages_simps [simp]:
  "sent_messages [] = []" "sent_messages (Sent m # es) = m # sent_messages es" "sent_messages (Counted t n # es) = sent_messages es"
  "sent_messages (Polled k # es) = sent_messages es" "sent_messages (es @ fs) = sent_messages es @ sent_messages fs"
  "sent_messages (map Sent ms) = ms" "sent_messages (map (\<lambda>n. Counted n 1) ns) = []" "sent_messages (map Polled ks) = []"
proof -
  show "sent_messages (map Sent ms) = ms" by (induction ms) (simp_all add: sent_messages_def)
  show "sent_messages (map (\<lambda>n. Counted n 1) ns) = []" by (induction ns) (simp_all add: sent_messages_def)
  show "sent_messages (map Polled ks) = []" by (induction ks) (simp_all add: sent_messages_def)
qed (simp_all add: sent_messages_def)

lemma sent_in: "Sent m \<in> set es \<Longrightarrow> m \<in> set (sent_messages es)"
  by (force simp: sent_messages_def)

lemma sent_traffic: "sent_messages (traffic_events en d frs) = traffic_report en d frs"
  by (induction frs) (simp_all add: traffic_events_def traffic_report_def frame_events_def frame_report_def)

text \<open>Keys between the messages change nothing about their order.\<close>

lemma sent_shuffles:
  "es \<in> shuffles xs ys \<Longrightarrow> list_all (\<lambda>y. \<exists>k. y = Polled k) ys \<Longrightarrow> sent_messages es = sent_messages xs"
proof (induction xs ys arbitrary: es rule: shuffles.induct)
  case (1 ys)
  then show ?case by (induction ys arbitrary: es) auto
next
  case (3 x xs y ys)
  then show ?case by (cases x) auto
qed auto

lemma ui_messages_sent:
  "\<exists>seen. es = seen @ snd (quits es) \<and> subseq (sent_messages seen) (ui_messages d es)"
proof (induction d es rule: ui_messages.induct)
  case (2 d k es)
  show ?case
  proof (cases "key_code k = 0")
    case True
    then show ?thesis by (intro exI [of _ "[Polled k]"]) simp
  next
    case False
    with 2 obtain seen where "es = seen @ snd (quits es)" "subseq (sent_messages seen) (ui_messages (next_display (key_code k) d) es)"
      by blast
    with False show ?thesis by (intro exI [of _ "Polled k # seen"]) (simp add: list_emb_append2)
  qed
next
  case (3 d t n es)
  then obtain seen where "es = seen @ snd (quits es)" "subseq (sent_messages seen) (ui_messages d es)" by blast
  then show ?case by (intro exI [of _ "Counted t n # seen"]) simp
next
  case (4 d m es)
  then obtain seen where "es = seen @ snd (quits es)" "subseq (sent_messages seen) (ui_messages d es)" by blast
  then show ?case by (intro exI [of _ "Sent m # seen"]) simp
qed simp

lemma counters_ok_counted: "counters_ok st \<Longrightarrow> counters_ok (counted ns st)"
  by (induction ns arbitrary: st) (simp_all add: counters_ok_update)

lemma plain_traffic:
  assumes "clean d \<or> list_all (addressed \<circ> fst) frs"
  shows "list_all plain (traffic_report en d frs)"
proof -
  have "clean m \<Longrightarrow> plain m" for m by (simp add: clean_def plain_def)
  moreover have "list_all clean (frame_report en d (fst fr))" if "fr \<in> set frs" for fr
    using assms that by (intro clean_frame_report) (auto simp: list_all_iff)
  ultimately show ?thesis by (fastforce simp: traffic_report_def list_all_iff)
qed

text \<open>The state in which the user interface starts, when \<open>before\<close> has been captured and \<open>during\<close> is to come.\<close>

lemma interface_ready:
  assumes "all_modules ms" and "before_main ms k = Inr p0" and "run_steps (start_up W) p0 = (None, p)"
    and "l2_decoder p = Some dec" and "gbls p = Some g" and "list_all plain (messages_queue (mqueue (scr p)))"
    and "list_all (decodable (terminal.byte_order W) lp dec) before" and "junk_wf jk"
    and "clean (c_str (junk_details jk)) \<or> list_all (addressed \<circ> fst) (before @ during)"
    and "es \<in> shuffles (traffic_events (terminal.byte_order W) (c_str (junk_details jk)) during) (map Polled keys)"
    and "capture W lp (\<lambda>_. True) jk (map on_wire before) p = Inr p1"
  shows "p1 = traffic_seen (terminal.byte_order W) (c_str (junk_details jk)) (opt_dump (options g)) before p"
    and "screen_ok (scr p1)" and "w_stat (scr p1) = None" and "\<forall>m. Sent m \<in> set es \<longrightarrow> plain m"
    and "sent_messages es = traffic_report (terminal.byte_order W) (c_str (junk_details jk)) during"
proof -
  let ?en = "terminal.byte_order W" and ?d = "c_str (junk_details jk)"
  note p = start_up_ready [OF assms(2,3)]
  show p1: "p1 = traffic_seen ?en ?d (opt_dump (options g)) before p"
    using capture_frames [OF assms(1) p(1) assms(4,5,7,8)] assms(11) by simp
  have pl: "list_all plain (traffic_report ?en ?d before)" "list_all plain (traffic_report ?en ?d during)"
    using assms(9) by (auto intro!: plain_traffic)
  have "ms \<noteq> []" using assms(1) by (auto simp: all_modules_def)
  then show "screen_ok (scr p1)"
    using pl(1) assms(6) p by (simp add: p1 traffic_seen_def screen_ok_def counters_ok_counted counters_ok_start)
  show "w_stat (scr p1) = None" using p by (simp add: p1 traffic_seen_def)
  have "list_all (\<lambda>y. \<exists>k. y = Polled k) (map Polled keys)" by (auto simp: list_all_iff)
  then show sent: "sent_messages es = traffic_report ?en ?d during"
    using sent_shuffles [OF assms(10)] by (simp add: sent_traffic)
  show "\<forall>m. Sent m \<in> set es \<longrightarrow> plain m"
    using sent_in [of _ es] pl(2) unfolding sent by (auto simp: list_all_iff)
qed


text \<open>Three frames before the interface starts, one while it runs; then the user leaves.\<close>

definition sample_during :: "(frame \<times> int) list" where
  "sample_during = [(sample_frame, 0)]"

definition sample_events :: "event list" where
  "sample_events = traffic_events Little (replicate 50 CHR ''x'') sample_during @ [Polled (Some (of_char CHR ''Q''))]"

lemma quits_sent: "(\<forall>k. Polled k \<notin> set es) \<Longrightarrow> quits (es @ fs) = quits fs"
  by (induction es rule: quits.induct) auto


end
