(* ===== verification/RecMutex.thy ===== *)
theory RecMutex
  imports Locks
begin

text \<open>
  \<^verbatim>\<open>src/lmap_recursive_mutex.c\<close>: a mutex that its owner may lock again, made of a plain mutex and a
  list of (mutex, thread, count). The two functions run in every interleaving of any number of
  threads; a thread's position in the code is part of the state.
\<close>

subsection \<open>The list\<close>

text \<open>
  \<^verbatim>\<open>unsigned long count\<close> is a natural number here: it is the number of nested calls of one thread,
  which cannot reach \<^verbatim>\<open>ULONG_MAX\<close>.
\<close>

record rm_entry =
  mx :: nat
  rm_id :: tid
  rm_count :: nat

text \<open>\<^verbatim>\<open>mutex == current->mx && pthread_equal(me, current->id) != 0\<close>\<close>

definition rm_match :: "nat \<Rightarrow> tid \<Rightarrow> rm_entry \<Rightarrow> bool" where
  "rm_match m me e \<longleftrightarrow> m = mx e \<and> me = rm_id e"

text \<open>The loop of \<^verbatim>\<open>recursive_mutex_lock\<close>: \<^term>\<open>None\<close> when it ends without a match.\<close>

fun lock_scan :: "nat \<Rightarrow> tid \<Rightarrow> rm_entry list \<Rightarrow> rm_entry list option" where
  "lock_scan m me [] = None"
| "lock_scan m me (e # es) =
     (if rm_match m me e then Some (e\<lparr>rm_count := rm_count e + 1\<rparr> # es)
      else map_option (Cons e) (lock_scan m me es))"

text \<open>
  The loop of \<^verbatim>\<open>recursive_mutex_unlock\<close>: it goes on after a match whose count does not become zero.
  The flag says that the plain mutex is to be unlocked.
\<close>

fun unlock_scan :: "nat \<Rightarrow> tid \<Rightarrow> rm_entry list \<Rightarrow> rm_entry list \<times> bool" where
  "unlock_scan m me [] = ([], False)"
| "unlock_scan m me (e # es) =
     (if rm_match m me e \<and> rm_count e = 1 then (es, True)
      else
        (case unlock_scan m me es of (es', free) \<Rightarrow>
           ((if rm_match m me e then e\<lparr>rm_count := rm_count e - 1\<rparr> else e) # es', free)))"

subsection \<open>Steps\<close>

text \<open>
  Positions: outside of both functions; waiting for the mutex of the list; holding it, in front of
  the loop; holding it, behind the loop; waiting for the plain mutex.
\<close>

datatype rm_pc =
    Idle
  | Lock_enter nat
  | Lock_search nat
  | Lock_counted nat
  | Lock_inserted nat
  | Lock_wait nat
  | Unlock_enter nat
  | Unlock_search nat
  | Unlock_done

text \<open>
  \<open>depth t m\<close> is a history variable: how often \<open>t\<close> has returned from locking \<open>m\<close> without unlocking
  it yet.
\<close>

record rm_state =
  rm_list :: "rm_entry list"
  list_mx :: "tid option"
  owner :: "nat \<Rightarrow> tid option"
  pc :: "tid \<Rightarrow> rm_pc"
  depth :: "tid \<Rightarrow> nat \<Rightarrow> nat"

definition at :: "tid \<Rightarrow> rm_pc \<Rightarrow> rm_state \<Rightarrow> rm_state" where
  "at t p s = s\<lparr>pc := (pc s)(t := p)\<rparr>"

definition entered :: "tid \<Rightarrow> nat \<Rightarrow> rm_state \<Rightarrow> rm_state" where
  "entered t m s = s\<lparr>depth := (depth s)(t := (depth s t)(m := depth s t m + 1))\<rparr>"

definition left :: "tid \<Rightarrow> nat \<Rightarrow> rm_state \<Rightarrow> rm_state" where
  "left t m s = s\<lparr>depth := (depth s)(t := (depth s t)(m := depth s t m - 1))\<rparr>"

inductive rm_step :: "rm_state \<Rightarrow> rm_state \<Rightarrow> bool" where
  call_lock: "pc s t = Idle \<Longrightarrow> rm_step s (at t (Lock_enter m) s)"
| lock_list: "pc s t = Lock_enter m \<Longrightarrow> list_mx s = None \<Longrightarrow>
    rm_step s (at t (Lock_search m) (s\<lparr>list_mx := Some t\<rparr>))"
| lock_again: "pc s t = Lock_search m \<Longrightarrow> lock_scan m t (rm_list s) = Some es \<Longrightarrow>
    rm_step s (at t (Lock_counted m) (s\<lparr>rm_list := es\<rparr>))"
| lock_again_return: "pc s t = Lock_counted m \<Longrightarrow>
    rm_step s (at t Idle (entered t m (s\<lparr>list_mx := None\<rparr>)))"
| malloc_fails: "pc s t = Lock_search m \<Longrightarrow> lock_scan m t (rm_list s) = None \<Longrightarrow>
    rm_step s (at t Idle s)"
| lock_first: "pc s t = Lock_search m \<Longrightarrow> lock_scan m t (rm_list s) = None \<Longrightarrow>
    rm_step s (at t (Lock_inserted m) (s\<lparr>rm_list := \<lparr>mx = m, rm_id = t, rm_count = 1\<rparr> # rm_list s\<rparr>))"
| unlock_list: "pc s t = Lock_inserted m \<Longrightarrow>
    rm_step s (at t (Lock_wait m) (s\<lparr>list_mx := None\<rparr>))"
| lock_mutex: "pc s t = Lock_wait m \<Longrightarrow> owner s m = None \<Longrightarrow>
    rm_step s (at t Idle (entered t m (s\<lparr>owner := (owner s)(m := Some t)\<rparr>)))"
| call_unlock: "pc s t = Idle \<Longrightarrow> rm_step s (at t (Unlock_enter m) s)"
| unlock_lock_list: "pc s t = Unlock_enter m \<Longrightarrow> list_mx s = None \<Longrightarrow>
    rm_step s (at t (Unlock_search m) (s\<lparr>list_mx := Some t\<rparr>))"
| unlock_body: "pc s t = Unlock_search m \<Longrightarrow> unlock_scan m t (rm_list s) = (es, free) \<Longrightarrow>
    rm_step s (at t Unlock_done (left t m (s\<lparr>rm_list := es,
      owner := (if free then (owner s)(m := None) else owner s)\<rparr>)))"
| unlock_return: "pc s t = Unlock_done \<Longrightarrow> rm_step s (at t Idle (s\<lparr>list_mx := None\<rparr>))"

definition rm_start :: "rm_state \<Rightarrow> bool" where
  "rm_start s \<longleftrightarrow> rm_list s = [] \<and> list_mx s = None \<and> owner s = (\<lambda>_. None) \<and>
     pc s = (\<lambda>_. Idle) \<and> depth s = (\<lambda>_ _. 0)"

subsection \<open>The loops as operations on counts\<close>

text \<open>The count of a thread for a mutex, 0 without an entry.\<close>

fun rm_lookup :: "rm_entry list \<Rightarrow> nat \<Rightarrow> tid \<Rightarrow> nat" where
  "rm_lookup [] m t = 0"
| "rm_lookup (e # es) m t = (if rm_match m t e then rm_count e else rm_lookup es m t)"

definition rm_keys :: "rm_entry list \<Rightarrow> (nat \<times> tid) list" where
  "rm_keys es = map (\<lambda>e. (mx e, rm_id e)) es"

definition rm_wf :: "rm_entry list \<Rightarrow> bool" where
  "rm_wf es \<longleftrightarrow> distinct (rm_keys es) \<and> (\<forall>e \<in> set es. 0 < rm_count e)"

lemma rm_wf_Cons [simp]:
  "rm_wf (e # es) \<longleftrightarrow> (mx e, rm_id e) \<notin> set (rm_keys es) \<and> 0 < rm_count e \<and> rm_wf es"
  by (auto simp: rm_wf_def rm_keys_def)

lemma rm_wf_Nil [simp]: "rm_wf []"
  by (simp add: rm_wf_def rm_keys_def)

lemma rm_keys_Cons [simp]: "rm_keys (e # es) = (mx e, rm_id e) # rm_keys es"
  by (simp add: rm_keys_def)

lemma rm_lookup_key: "rm_wf es \<Longrightarrow> 0 < rm_lookup es m t \<longleftrightarrow> (m, t) \<in> set (rm_keys es)"
  by (induction es) (auto simp: rm_match_def rm_keys_def)

lemma rm_lookup_zero: "rm_wf es \<Longrightarrow> rm_lookup es m t = 0 \<longleftrightarrow> (m, t) \<notin> set (rm_keys es)"
  using rm_lookup_key [of es m t] by auto

lemma lock_scan_None: "rm_wf es \<Longrightarrow> lock_scan m t es = None \<longleftrightarrow> rm_lookup es m t = 0"
  by (induction es) auto

lemma lock_scan_Some:
  "lock_scan m t es = Some es' \<Longrightarrow> rm_wf es \<Longrightarrow>
    rm_keys es' = rm_keys es \<and> rm_wf es' \<and> 0 < rm_lookup es m t \<and>
    (\<forall>n u. rm_lookup es' n u = rm_lookup es n u + (if n = m \<and> u = t then 1 else 0))"
proof (induction es arbitrary: es')
  case (Cons e es)
  show ?case
  proof (cases "rm_match m t e")
    case True
    with Cons.prems show ?thesis by (auto simp: rm_match_def)
  next
    case False
    with Cons.prems obtain es1 where es1: "lock_scan m t es = Some es1" "es' = e # es1" by auto
    with Cons False show ?thesis by (auto simp: rm_match_def)
  qed
qed simp

lemma unlock_scan_absent:
  "(m, t) \<notin> set (rm_keys es) \<Longrightarrow> unlock_scan m t es = (es, False)"
  by (induction es) (auto simp: rm_match_def)

lemma unlock_scan_eq:
  "unlock_scan m t es = (es', free) \<Longrightarrow> rm_wf es \<Longrightarrow>
    rm_wf es' \<and> set (rm_keys es') \<subseteq> set (rm_keys es) \<and> (free \<longleftrightarrow> rm_lookup es m t = 1) \<and>
    (\<forall>n u. rm_lookup es' n u = rm_lookup es n u - (if n = m \<and> u = t then 1 else 0))"
proof (induction es arbitrary: es' free)
  case (Cons e es)
  show ?case
  proof (cases "rm_match m t e")
    case True
    then have "(m, t) \<notin> set (rm_keys es)" using Cons.prems by (auto simp: rm_match_def)
    moreover from this have "rm_lookup es m t = 0" using Cons.prems by (simp add: rm_lookup_zero)
    ultimately show ?thesis
      using Cons.prems True by (auto simp: unlock_scan_absent rm_match_def split: if_splits)
  next
    case False
    obtain es1 f1 where r: "unlock_scan m t es = (es1, f1)" by (cases "unlock_scan m t es")
    with Cons.prems False have "es' = e # es1" "free = f1" by auto
    with Cons.IH [OF r] Cons.prems False show ?thesis by (auto simp: rm_match_def)
  qed
qed simp

subsection \<open>The invariant\<close>

definition waiting :: "rm_pc \<Rightarrow> nat \<Rightarrow> bool" where
  "waiting p m \<longleftrightarrow> p = Lock_inserted m \<or> p = Lock_wait m"

fun in_list :: "rm_pc \<Rightarrow> bool" where
  "in_list (Lock_search m) = True"
| "in_list (Lock_counted m) = True"
| "in_list (Lock_inserted m) = True"
| "in_list (Unlock_search m) = True"
| "in_list Unlock_done = True"
| "in_list _ = False"

text \<open>
  For one thread and one mutex: the count in the list, the owner of the plain mutex, the depth and
  the position fit together.
\<close>

definition rm_cell :: "nat \<Rightarrow> tid option \<Rightarrow> nat \<Rightarrow> rm_pc \<Rightarrow> tid \<Rightarrow> nat \<Rightarrow> bool" where
  "rm_cell k own d p t m \<longleftrightarrow>
     (if waiting p m then k = 1 \<and> d = 0 \<and> own \<noteq> Some t
      else k = d + (if p = Lock_counted m then 1 else 0) \<and> (own = Some t \<longleftrightarrow> 0 < k))"

definition rm_inv :: "rm_state \<Rightarrow> bool" where
  "rm_inv s \<longleftrightarrow> rm_wf (rm_list s) \<and>
     (\<forall>t m. rm_cell (rm_lookup (rm_list s) m t) (owner s m) (depth s t m) (pc s t) t m) \<and>
     (\<forall>t. in_list (pc s t) \<longrightarrow> list_mx s = Some t)"

definition holds_mutex :: "nat \<Rightarrow> rm_state \<Rightarrow> tid \<Rightarrow> bool" where
  "holds_mutex m s t \<longleftrightarrow> 0 < depth s t m"

lemma rm_inv_start: "rm_start s \<Longrightarrow> rm_inv s"
  by (simp add: rm_start_def rm_inv_def rm_cell_def waiting_def)

lemma rm_cellD:
  "rm_inv s \<Longrightarrow> rm_cell (rm_lookup (rm_list s) m t) (owner s m) (depth s t m) (pc s t) t m"
  by (simp add: rm_inv_def)

lemma rm_invD: "rm_inv s \<Longrightarrow> rm_wf (rm_list s)" "rm_inv s \<Longrightarrow> in_list (pc s t) \<Longrightarrow> list_mx s = Some t"
  by (auto simp: rm_inv_def)

lemmas rm_updates = at_def entered_def left_def

lemma rm_inv_intro:
  assumes "rm_inv s" and "rm_wf (rm_list s')"
    and "\<And>u n. rm_cell (rm_lookup (rm_list s) n u) (owner s n) (depth s u n) (pc s u) u n \<Longrightarrow>
      rm_cell (rm_lookup (rm_list s') n u) (owner s' n) (depth s' u n) (pc s' u) u n"
    and "\<And>u. in_list (pc s' u) \<Longrightarrow> list_mx s' = Some u"
  shows "rm_inv s'"
  using assms by (auto simp: rm_inv_def)

lemma rm_alone:
  assumes "rm_inv s" and "in_list (pc s u)"
  shows "pc s t = Lock_counted m \<Longrightarrow> u = t" "pc s t = Lock_inserted m \<Longrightarrow> u = t" "pc s t = Unlock_done \<Longrightarrow> u = t"
  using rm_invD(2) [OF assms(1), of t] rm_invD(2) [OF assms] by auto

lemmas rm_cell_simps = rm_updates rm_cell_def waiting_def

lemma rm_inv_step:
  assumes inv: "rm_inv s" and "rm_step s s'"
  shows "rm_inv s'"
  using assms(2)
proof cases
  case (lock_again t m es)
  then have "rm_wf es" "0 < rm_lookup (rm_list s) m t" "list_mx s = Some t"
    "\<And>n u. rm_lookup es n u = rm_lookup (rm_list s) n u + (if n = m \<and> u = t then 1 else 0)"
    using lock_scan_Some [of m t "rm_list s" es] rm_invD [OF inv] by auto
  with lock_again inv show ?thesis
    by (auto intro!: rm_inv_intro [of s] simp: rm_cell_simps split: if_splits dest: rm_invD(2))
next
  case (lock_first t m)
  then have "rm_lookup (rm_list s) m t = 0" "(m, t) \<notin> set (rm_keys (rm_list s))" "list_mx s = Some t"
    using rm_invD [OF inv] by (auto simp: lock_scan_None rm_lookup_zero)
  with lock_first inv show ?thesis
    by (auto intro!: rm_inv_intro [of s] simp: rm_cell_simps rm_match_def rm_invD(1) split: if_splits dest: rm_invD(2))
next
  case (lock_mutex t m)
  with inv rm_cellD [OF inv, of m t] show ?thesis
    by (auto intro!: rm_inv_intro [of s] simp: rm_cell_simps rm_invD split: if_splits dest: rm_invD(2))
next
  case (unlock_body t m es free)
  then have "rm_wf es" "free \<longleftrightarrow> rm_lookup (rm_list s) m t = 1" "list_mx s = Some t"
    "\<And>n u. rm_lookup es n u = rm_lookup (rm_list s) n u - (if n = m \<and> u = t then 1 else 0)"
    using unlock_scan_eq [of m t "rm_list s" es free] rm_invD [OF inv] by auto
  with unlock_body inv rm_cellD [OF inv, of m t] show ?thesis
    by (auto intro!: rm_inv_intro [of s] simp: rm_cell_simps split: if_splits dest: rm_invD(2))
qed (use inv in
  \<open>auto intro!: rm_inv_intro [of s] simp: rm_cell_simps rm_invD(1) split: if_splits dest: rm_invD(2) rm_alone\<close>)

interpretation rm: lock_protocol rm_start rm_step rm_inv "holds_mutex m" "\<lambda>s. owner s m" for m
proof unfold_locales
  show "owner s m = Some t" if "rm_inv s" "holds_mutex m s t" for s t
    using rm_cellD [OF that(1), of m t] that(2) by (auto simp: rm_cell_def holds_mutex_def split: if_splits)
qed (use rm_inv_start rm_inv_step in blast)+

text \<open>
  C19: In every interleaving, at most one thread has locked a recursive mutex and not unlocked it.
\<close>

theorem recursive_mutex_excludes:
  assumes "rm_start s0" and "rm_step\<^sup>*\<^sup>* s0 s" and "0 < depth s t m" and "0 < depth s u m"
  shows "t = u"
  using rm.exclusion [OF assms(1,2), of m t u] assms(3,4) by (simp add: holds_mutex_def)

subsection \<open>Calls without contention\<close>

text \<open>The state after \<open>t\<close> has locked \<open>m\<close>, when the mutex of the list is free.\<close>

definition after_lock :: "tid \<Rightarrow> nat \<Rightarrow> rm_state \<Rightarrow> rm_state" where
  "after_lock t m s =
     (case lock_scan m t (rm_list s) of
        Some es \<Rightarrow> entered t m (s\<lparr>rm_list := es\<rparr>)
      | None \<Rightarrow> entered t m (s\<lparr>rm_list := \<lparr>mx = m, rm_id = t, rm_count = 1\<rparr> # rm_list s,
          owner := (owner s)(m := Some t)\<rparr>))"

definition after_unlock :: "tid \<Rightarrow> nat \<Rightarrow> rm_state \<Rightarrow> rm_state" where
  "after_unlock t m s =
     (case unlock_scan m t (rm_list s) of (es, free) \<Rightarrow>
        left t m (s\<lparr>rm_list := es, owner := (if free then (owner s)(m := None) else owner s)\<rparr>))"

lemma lock_run:
  assumes "pc s t = Idle" and "list_mx s = None"
    and "lock_scan m t (rm_list s) = None \<Longrightarrow> owner s m = None"
  shows "rm_step\<^sup>*\<^sup>* s (after_lock t m s)"
proof -
  let ?s1 = "at t (Lock_enter m) s"
  let ?s2 = "at t (Lock_search m) (?s1\<lparr>list_mx := Some t\<rparr>)"
  have idle: "(pc s)(t := Idle) = pc s" and free: "s\<lparr>list_mx := None\<rparr> = s"
    using assms(1,2) by auto
  have "rm_step s ?s1" using assms(1) by (rule call_lock)
  moreover have "rm_step ?s1 ?s2" using assms(2) by (intro lock_list) (simp_all add: at_def)
  ultimately have pre: "rm_step\<^sup>*\<^sup>* s ?s2" by auto
  show ?thesis
  proof (cases "lock_scan m t (rm_list s)")
    case (Some es)
    let ?s3 = "at t (Lock_counted m) (?s2\<lparr>rm_list := es\<rparr>)"
    have "rm_step ?s2 ?s3" using Some by (intro lock_again) (simp_all add: at_def)
    moreover have "rm_step ?s3 (at t Idle (entered t m (?s3\<lparr>list_mx := None\<rparr>)))"
      by (rule lock_again_return) (simp add: at_def)
    moreover have "at t Idle (entered t m (?s3\<lparr>list_mx := None\<rparr>)) = after_lock t m s"
      using Some idle assms(2) by (cases s) (simp add: after_lock_def rm_updates)
    ultimately show ?thesis using pre by (metis rtranclp.rtrancl_into_rtrancl)
  next
    case None
    let ?s3 = "at t (Lock_inserted m) (?s2\<lparr>rm_list := \<lparr>mx = m, rm_id = t, rm_count = 1\<rparr> # rm_list ?s2\<rparr>)"
    let ?s4 = "at t (Lock_wait m) (?s3\<lparr>list_mx := None\<rparr>)"
    let ?s5 = "at t Idle (entered t m (?s4\<lparr>owner := (owner ?s4)(m := Some t)\<rparr>))"
    have "rm_step ?s2 ?s3" using None by (intro lock_first) (simp_all add: at_def)
    moreover have "rm_step ?s3 ?s4" by (rule unlock_list) (simp add: at_def)
    moreover have "rm_step ?s4 ?s5" using assms(3) [OF None] by (intro lock_mutex) (simp_all add: at_def)
    moreover have "?s5 = after_lock t m s"
      using None idle assms(2) by (cases s) (simp add: after_lock_def rm_updates)
    ultimately show ?thesis using pre by (metis rtranclp.rtrancl_into_rtrancl)
  qed
qed

lemma unlock_run:
  assumes "pc s t = Idle" and "list_mx s = None"
  shows "rm_step\<^sup>*\<^sup>* s (after_unlock t m s)"
proof -
  let ?s1 = "at t (Unlock_enter m) s"
  let ?s2 = "at t (Unlock_search m) (?s1\<lparr>list_mx := Some t\<rparr>)"
  obtain es free where r: "unlock_scan m t (rm_list s) = (es, free)" by fastforce
  let ?s3 = "at t Unlock_done (left t m (?s2\<lparr>rm_list := es,
      owner := (if free then (owner ?s2)(m := None) else owner ?s2)\<rparr>))"
  let ?s4 = "at t Idle (?s3\<lparr>list_mx := None\<rparr>)"
  have idle: "(pc s)(t := Idle) = pc s" using assms(1) by auto
  have "rm_step s ?s1" using assms(1) by (rule call_unlock)
  moreover have "rm_step ?s1 ?s2" using assms(2) by (intro unlock_lock_list) (simp_all add: at_def)
  moreover have "rm_step ?s2 ?s3" using r by (intro unlock_body) (simp_all add: at_def)
  moreover have "rm_step ?s3 ?s4" by (rule unlock_return) (simp add: at_def)
  moreover have "?s4 = after_unlock t m s"
    using r idle assms(2) by (cases s) (simp add: after_unlock_def rm_updates)
  ultimately show ?thesis by (metis rtranclp.rtrancl_into_rtrancl rtranclp.rtrancl_refl)
qed

lemma after_lock_frame [simp]:
  "pc (after_lock t m s) = pc s" "list_mx (after_lock t m s) = list_mx s"
  "depth (after_lock t m s) = (depth s)(t := (depth s t)(m := depth s t m + 1))"
  by (auto simp: after_lock_def entered_def split: option.splits)

lemma after_unlock_frame [simp]:
  "pc (after_unlock t m s) = pc s" "list_mx (after_unlock t m s) = list_mx s"
  "depth (after_unlock t m s) = (depth s)(t := (depth s t)(m := depth s t m - 1))"
  by (auto simp: after_unlock_def left_def split: prod.splits)

text \<open>A thread that is outside of the operations and has locked the mutex \<open>k\<close> times; with \<open>k = 0\<close> it is free.\<close>

definition nested :: "tid \<Rightarrow> nat \<Rightarrow> nat \<Rightarrow> rm_state \<Rightarrow> bool" where
  "nested t m k s \<longleftrightarrow> rm_inv s \<and> pc s t = Idle \<and> list_mx s = None \<and> depth s t m = k \<and>
     owner s m = (if k = 0 then None else Some t)"

lemma lock_nested:
  assumes "nested t m k s"
  shows "rm_step\<^sup>*\<^sup>* s (after_lock t m s)" and "nested t m (Suc k) (after_lock t m s)"
proof -
  have s: "rm_inv s" "pc s t = Idle" "list_mx s = None" "depth s t m = k" using assms by (auto simp: nested_def)
  have "owner s m = None" if "lock_scan m t (rm_list s) = None"
    using that rm_cellD [OF s(1), of m t] rm_invD(1) [OF s(1)] assms
    by (auto simp: lock_scan_None rm_cell_def waiting_def nested_def split: if_splits)
  then show run: "rm_step\<^sup>*\<^sup>* s (after_lock t m s)" using s by (intro lock_run)
  then have "rm_inv (after_lock t m s)" using rm.inv_steps s(1) by blast
  then show "nested t m (Suc k) (after_lock t m s)"
    using rm_cellD [of "after_lock t m s" m t] s by (auto simp: nested_def rm_cell_def waiting_def)
qed

lemma unlock_nested:
  assumes "nested t m (Suc k) s"
  shows "rm_step\<^sup>*\<^sup>* s (after_unlock t m s)" and "nested t m k (after_unlock t m s)"
proof -
  have s: "rm_inv s" "pc s t = Idle" "list_mx s = None" "depth s t m = Suc k" "owner s m = Some t"
    using assms by (auto simp: nested_def)
  then show run: "rm_step\<^sup>*\<^sup>* s (after_unlock t m s)" by (intro unlock_run)
  then have inv: "rm_inv (after_unlock t m s)" using rm.inv_steps s(1) by blast
  obtain es free where r: "unlock_scan m t (rm_list s) = (es, free)" by fastforce
  have "rm_lookup (rm_list s) m t = Suc k"
    using rm_cellD [OF s(1), of m t] s by (auto simp: rm_cell_def waiting_def)
  then have "free \<longleftrightarrow> k = 0" using unlock_scan_eq [OF r rm_invD(1) [OF s(1)]] by simp
  then show "nested t m k (after_unlock t m s)"
    using inv s r by (simp add: nested_def) (simp add: after_unlock_def left_def)
qed

lemma lock_times: "nested t m 0 s \<Longrightarrow> \<exists>s'. rm_step\<^sup>*\<^sup>* s s' \<and> nested t m k s'"
  by (induction k) (auto intro: lock_nested rtranclp_trans)

lemma unlock_times: "nested t m k s \<Longrightarrow> \<exists>s'. rm_step\<^sup>*\<^sup>* s s' \<and> nested t m 0 s'"
proof (induction k arbitrary: s)
  case (Suc k)
  then show ?case using unlock_nested [OF Suc.prems] by (meson rtranclp_trans)
qed auto


subsection \<open>Failure of malloc\<close>

lemma lost_step:
  assumes "rm_inv s" and "list_mx s = Some t" and "\<not> in_list (pc s t)" and "rm_step s s'"
  shows "list_mx s' = Some t \<and> \<not> in_list (pc s' t) \<and> rm_list s' = rm_list s \<and>
    (\<forall>u n. depth s u n \<le> depth s' u n)"
proof -
  have none: "\<not> in_list (pc s u)" for u
    using assms(1-3) rm_invD(2) [OF assms(1), of u] by auto
  have "pc s u \<noteq> Lock_search n" "pc s u \<noteq> Lock_counted n" "pc s u \<noteq> Lock_inserted n"
    "pc s u \<noteq> Unlock_search n" "pc s u \<noteq> Unlock_done" for u n
    using none [of u] by (metis in_list.simps)+
  then show ?thesis
    using assms(2-4) by (cases rule: rm_step.cases [OF assms(4)]) (auto simp: rm_updates)
qed

lemma lost_steps:
  assumes "rm_step\<^sup>*\<^sup>* s s'" and "rm_inv s" and "list_mx s = Some t" and "\<not> in_list (pc s t)"
  shows "rm_inv s' \<and> list_mx s' = Some t \<and> \<not> in_list (pc s' t) \<and> rm_list s' = rm_list s \<and>
    (\<forall>u n. depth s u n \<le> depth s' u n)"
  using assms
proof (induction rule: rtranclp_induct)
  case (step y z)
  then have y: "rm_inv y" "list_mx y = Some t" "\<not> in_list (pc y t)" "rm_list y = rm_list s"
      "\<forall>u n. depth s u n \<le> depth y u n" by blast+
  from lost_step [OF y(1-3) step(2)] y(4,5) rm_inv_step [OF y(1) step(2)] show ?case
    by (metis le_trans)
qed simp

text \<open>
  When \<^verbatim>\<open>malloc\<close> fails in \<^verbatim>\<open>recursive_mutex_lock\<close>, the mutex of the list stays locked for ever:
  in everything that can follow, no thread gets at the list again, so no unlock takes effect and no
  thread's hold on any recursive mutex is ever given up.
\<close>

theorem malloc_failure_blocks:
  assumes "rm_start s0" and "rm_step\<^sup>*\<^sup>* s0 s" and "pc s t = Lock_search m"
    and "lock_scan m t (rm_list s) = None" and "rm_step\<^sup>*\<^sup>* (at t Idle s) s'"
  shows "list_mx s' = Some t \<and> (\<forall>u. \<not> in_list (pc s' u)) \<and> rm_list s' = rm_list s \<and>
    (\<forall>u n. depth s u n \<le> depth s' u n)"
proof -
  have inv: "rm_inv s" using rm.inv_reachable assms(1,2) by blast
  have "rm_inv (at t Idle s)" using rm_inv_step [OF inv malloc_fails [OF assms(3,4)]] .
  moreover have "list_mx (at t Idle s) = Some t" using rm_invD(2) [OF inv, of t] assms(3) by (simp add: at_def)
  moreover have "\<not> in_list (pc (at t Idle s) t)" by (simp add: at_def)
  ultimately have r: "rm_inv s' \<and> list_mx s' = Some t \<and> \<not> in_list (pc s' t) \<and> rm_list s' = rm_list (at t Idle s) \<and>
      (\<forall>u n. depth (at t Idle s) u n \<le> depth s' u n)"
    using lost_steps [OF assms(5)] by blast
  then have "\<not> in_list (pc s' u)" for u using rm_invD(2) [of s' u] by auto
  with r show ?thesis by (simp add: at_def)
qed

subsection \<open>Examples\<close>

definition rm_zero :: rm_state where
  "rm_zero = \<lparr>rm_list = [], list_mx = None, owner = (\<lambda>_. None), pc = (\<lambda>_. Idle), depth = (\<lambda>_ _. 0)\<rparr>"

lemma rm_start_zero: "rm_start rm_zero"
  by (simp add: rm_start_def rm_zero_def)

lemma recursive_mutex_excludes_witness:
  "rm_step\<^sup>*\<^sup>* rm_zero (after_lock 1 7 rm_zero) \<and> depth (after_lock 1 7 rm_zero) 1 7 = 1 \<and>
    depth (after_lock 1 7 rm_zero) 2 7 = 0"
proof -
  have run: "rm_step\<^sup>*\<^sup>* rm_zero (after_lock 1 7 rm_zero)"
    by (rule lock_run) (simp_all add: rm_zero_def)
  moreover have "depth (after_lock 1 7 rm_zero) 1 7 = 1" by (simp add: rm_zero_def)
  ultimately show ?thesis
    using recursive_mutex_excludes [OF rm_start_zero run, of 1 7 2] by (simp add: rm_zero_def)
qed


lemma malloc_failure_blocks_witness:
  "let s = at 1 (Lock_search 7) ((at 1 (Lock_enter 7) rm_zero)\<lparr>list_mx := Some 1\<rparr>) in
   rm_step\<^sup>*\<^sup>* rm_zero s \<and> list_mx (at 1 Idle s) = Some 1 \<and> rm_list (at 1 Idle s) = []"
proof -
  let ?s1 = "at 1 (Lock_enter 7) rm_zero"
  let ?s = "at 1 (Lock_search 7) (?s1\<lparr>list_mx := Some 1\<rparr>)"
  have "rm_step rm_zero ?s1" by (rule call_lock) (simp add: rm_zero_def)
  moreover have "rm_step ?s1 ?s" by (rule lock_list) (simp_all add: at_def rm_zero_def)
  ultimately have run: "rm_step\<^sup>*\<^sup>* rm_zero ?s" by auto
  then show ?thesis
    using malloc_failure_blocks [OF rm_start_zero run, of 1 7 "at 1 Idle ?s"]
    by (simp add: at_def rm_zero_def)
qed

end
