(* ===== verification/Cancel.thy ===== *)
theory Cancel
  imports Threads
begin

text \<open>
  The life of threads in \<^verbatim>\<open>src/lmap_threads.c\<close>: \<^verbatim>\<open>lmap_thread_init\<close>, \<^verbatim>\<open>lmap_thread_testcancel\<close> and
  \<^verbatim>\<open>lmap_thread_destroy\<close>, which cancels a thread and waits for its end before it takes it off the list.
\<close>

subsection \<open>Threads that end\<close>

text \<open>
  On top of the list, its mutex and the positions of the threads: \<open>joining\<close>, the thread for whose end
  another one waits in \<^verbatim>\<open>pthread_join\<close>; \<open>asynchronous\<close>, the threads that may be cancelled at any moment;
  \<open>requests\<close>, those for which \<^verbatim>\<open>pthread_cancel\<close> has been called; and \<open>gone\<close>, those that have ended.
\<close>

record life = thread_state +
  joining :: "tid \<Rightarrow> tid option"
  asynchronous :: "tid set"
  requests :: "tid set"
  gone :: "tid set"

definition at :: "tid \<Rightarrow> thread_pc \<Rightarrow> life \<Rightarrow> life" where
  "at t p s = s\<lparr>position := (position s)(t := p)\<rparr>"

text \<open>A thread that lives and waits for nobody.\<close>

definition free_to_go :: "life \<Rightarrow> tid \<Rightarrow> bool" where
  "free_to_go s t \<longleftrightarrow> t \<notin> gone s \<and> joining s t = None"

text \<open>
  \<^verbatim>\<open>pthread_setcanceltype(PTHREAD_CANCEL_ASYNCHRONOUS, NULL)\<close>; \<^verbatim>\<open>pthread_testcancel\<close>, which ends a thread
  for which there is a request; and the two halves of \<^verbatim>\<open>lmap_thread_destroy\<close> in front of its lock and behind
  \<^verbatim>\<open>pthread_join\<close>.
\<close>

definition lmap_thread_init :: "tid \<Rightarrow> life \<Rightarrow> life" where
  "lmap_thread_init t s = s\<lparr>asynchronous := insert t (asynchronous s)\<rparr>"

definition lmap_thread_testcancel :: "tid \<Rightarrow> life \<Rightarrow> life" where
  "lmap_thread_testcancel t s = (if t \<in> requests s then s\<lparr>gone := insert t (gone s)\<rparr> else s)"

definition destroy_cancel :: "tid \<Rightarrow> tid \<Rightarrow> life \<Rightarrow> life" where
  "destroy_cancel t i s = s\<lparr>requests := insert i (requests s), joining := (joining s)(t \<mapsto> i)\<rparr>"

definition destroy_joined :: "tid \<Rightarrow> tid \<Rightarrow> life \<Rightarrow> life" where
  "destroy_joined t i s = at t (Inside (Op_destroy i)) (s\<lparr>threads_mx := Some t, joining := (joining s)(t := None)\<rparr>)"

lemmas life_ops = at_def lmap_thread_init_def lmap_thread_testcancel_def destroy_cancel_def destroy_joined_def

text \<open>
  The operations on the list, in the steps lock, body and unlock; \<^verbatim>\<open>lmap_thread_destroy\<close> in the steps
  \<^verbatim>\<open>pthread_cancel\<close>, \<^verbatim>\<open>pthread_join\<close> with the lock, body and unlock; \<^verbatim>\<open>lmap_thread_init\<close>; the end of a thread
  in \<^verbatim>\<open>lmap_thread_testcancel\<close>, and anywhere when its cancellation is asynchronous.
\<close>

inductive life_step :: "life \<Rightarrow> life \<Rightarrow> bool" where
  lock: "free_to_go s t \<Longrightarrow> position s t = Outside \<Longrightarrow> threads_mx s = None \<Longrightarrow> \<forall>i. p \<noteq> Op_destroy i \<Longrightarrow>
    life_step s (at t (Inside p) (s\<lparr>threads_mx := Some t\<rparr>))"
| body: "free_to_go s t \<Longrightarrow> position s t = Inside p \<Longrightarrow>
    life_step s (at t Leaving (s\<lparr>shared := run_op (t, p) (shared s)\<rparr>))"
| unlock: "free_to_go s t \<Longrightarrow> position s t = Leaving \<Longrightarrow>
    life_step s (at t Outside (s\<lparr>threads_mx := None\<rparr>))"
| cancel: "free_to_go s t \<Longrightarrow> position s t = Outside \<Longrightarrow>
    life_step s (destroy_cancel t i s)"
| join: "t \<notin> gone s \<Longrightarrow> joining s t = Some i \<Longrightarrow> i \<in> gone s \<Longrightarrow> threads_mx s = None \<Longrightarrow>
    life_step s (destroy_joined t i s)"
| thread_init: "free_to_go s t \<Longrightarrow> position s t = Outside \<Longrightarrow>
    life_step s (lmap_thread_init t s)"
| testcancel: "free_to_go s t \<Longrightarrow> position s t = Outside \<Longrightarrow> life_step s (lmap_thread_testcancel t s)"
| asynchronous_end: "t \<notin> gone s \<Longrightarrow> t \<in> requests s \<Longrightarrow> t \<in> asynchronous s \<Longrightarrow>
    life_step s (s\<lparr>gone := insert t (gone s)\<rparr>)"

definition life_start :: "life \<Rightarrow> bool" where
  "life_start s \<longleftrightarrow> shared s = no_threads \<and> threads_mx s = None \<and> position s = (\<lambda>_. Outside) \<and>
     joining s = (\<lambda>_. None) \<and> asynchronous s = {} \<and> requests s = {} \<and> gone s = {}"

subsection \<open>The mutex\<close>

definition life_inv :: "life \<Rightarrow> bool" where
  "life_inv s \<longleftrightarrow> (\<forall>t. inside_pc (position s t) \<longleftrightarrow> threads_mx s = Some t) \<and> (\<forall>t i. position s t \<noteq> Searching i) \<and>
     (\<forall>t. joining s t \<noteq> None \<longrightarrow> position s t = Outside) \<and> threads_wf (shared s)"

lemma life_inv_step: "life_step s s' \<Longrightarrow> life_inv s \<Longrightarrow> life_inv s'"
proof (induction rule: life_step.induct)
  case (lock s t p)
  then show ?case by (auto simp: life_inv_def life_ops free_to_go_def)
next
  case (body s t p)
  then show ?case
    unfolding life_inv_def by (auto simp: life_ops free_to_go_def run_op_refines)
next
  case (unlock s t)
  then show ?case unfolding life_inv_def by (auto simp: life_ops free_to_go_def)
next
  case (join t s i)
  then show ?case by (auto simp: life_inv_def life_ops)
qed (auto simp: life_inv_def free_to_go_def life_ops split: if_splits)

interpretation life_mutex: lock_protocol life_start life_step life_inv "\<lambda>s t. inside_pc (position s t)" threads_mx
proof unfold_locales
  show "life_inv s'" if "life_inv s" "life_step s s'" for s s'
    using life_inv_step that by blast
qed (auto simp: life_start_def life_inv_def)

text \<open>A mutex whose holder has ended is never free again, and nobody gets inside.\<close>

definition held_by_gone :: "tid \<Rightarrow> life \<Rightarrow> bool" where
  "held_by_gone t s \<longleftrightarrow> life_inv s \<and> threads_mx s = Some t \<and> t \<in> gone s"

lemma held_by_gone_step:
  assumes "life_step s s'" and "held_by_gone t s"
  shows "held_by_gone t s' \<and> (\<forall>u. inside_pc (position s' u) \<longrightarrow> u = t) \<and> (\<forall>u i. joining s u = Some i \<longrightarrow> joining s' u = Some i)"
proof -
  have inv: "life_inv s'" using life_inv_step assms by (simp add: held_by_gone_def)
  have in_t: "inside_pc (position s u) \<Longrightarrow> u = t" for u using assms(2) by (auto simp: held_by_gone_def life_inv_def)
  have "threads_mx s' = Some t \<and> t \<in> gone s' \<and> (\<forall>u i. joining s u = Some i \<longrightarrow> joining s' u = Some i)"
    using assms(1)
  proof cases
    case (body u p)
    then show ?thesis using in_t [of u] assms(2) by (auto simp: held_by_gone_def free_to_go_def)
  next
    case (unlock u)
    then show ?thesis using in_t [of u] assms(2) by (auto simp: held_by_gone_def free_to_go_def)
  qed (use assms(2) in \<open>auto simp: held_by_gone_def life_ops free_to_go_def\<close>)
  then show ?thesis using inv by (auto simp: held_by_gone_def life_inv_def)
qed

lemma held_by_gone_steps:
  "life_step\<^sup>*\<^sup>* s s' \<Longrightarrow> held_by_gone t s \<Longrightarrow>
    held_by_gone t s' \<and> (\<forall>u i. joining s u = Some i \<longrightarrow> joining s' u = Some i)"
  by (induction rule: rtranclp_induct) (auto dest: held_by_gone_step)


definition life_zero :: life where
  "life_zero = \<lparr>shared = no_threads, threads_mx = None, position = (\<lambda>_. Outside), joining = (\<lambda>_. None),
     asynchronous = {}, requests = {}, gone = {}\<rparr>"

lemma life_start_zero: "life_start life_zero"
  by (simp add: life_start_def life_zero_def)


subsection \<open>Deferred cancellation\<close>

text \<open>
  Without \<^verbatim>\<open>lmap_thread_init\<close> a thread only ends in \<^verbatim>\<open>lmap_thread_testcancel\<close>, which the program calls outside of
  the mutex: then the holder of the mutex is alive.
\<close>

definition deferred_step :: "life \<Rightarrow> life \<Rightarrow> bool" where
  "deferred_step s s' \<longleftrightarrow> life_step s s' \<and> asynchronous s' = {}"

definition holder_lives :: "life \<Rightarrow> bool" where
  "holder_lives s \<longleftrightarrow> life_inv s \<and> (\<forall>t. threads_mx s = Some t \<longrightarrow> free_to_go s t)"

lemma holder_lives_step:
  assumes "deferred_step s s'" and "holder_lives s"
  shows "holder_lives s'"
proof -
  have step: "life_step s s'" "asynchronous s' = {}" using assms(1) by (auto simp: deferred_step_def)
  have s: "life_inv s" "\<forall>t. threads_mx s = Some t \<longrightarrow> free_to_go s t" using assms(2) by (auto simp: holder_lives_def)
  have "\<forall>t. threads_mx s' = Some t \<longrightarrow> free_to_go s' t"
    using step(1)
  proof cases
    case (testcancel t)
    then show ?thesis using s by (auto simp: life_inv_def free_to_go_def life_ops dest: spec [of _ t] split: if_splits)
  next
    case (cancel t i)
    then show ?thesis using s by (auto simp: life_inv_def free_to_go_def life_ops dest: spec [of _ t] split: if_splits)
  next
    case (asynchronous_end t)
    then show ?thesis using step(2) by simp
  qed (use s in \<open>auto simp: free_to_go_def life_ops\<close>)
  then show ?thesis using life_inv_step [OF step(1) s(1)] by (simp add: holder_lives_def)
qed

lemma holder_lives_steps: "deferred_step\<^sup>*\<^sup>* s s' \<Longrightarrow> holder_lives s \<Longrightarrow> holder_lives s'"
  by (induction rule: rtranclp_induct) (auto intro: holder_lives_step)

lemma deferred_steps_asynchronous: "deferred_step\<^sup>*\<^sup>* s s' \<Longrightarrow> asynchronous s = {} \<Longrightarrow> asynchronous s' = {}"
  by (induction rule: rtranclp_induct) (auto simp: deferred_step_def)

text \<open>
  So, whoever has been cancelled, whoever is inside can go on and give the mutex back.
\<close>

theorem deferred_cancel_releases:
  assumes "life_start s0" and "deferred_step\<^sup>*\<^sup>* s0 s"
  shows "\<exists>s'. deferred_step\<^sup>*\<^sup>* s s' \<and> threads_mx s' = None"
proof (cases "threads_mx s")
  case (Some t)
  have "holder_lives s0" using assms(1) by (auto simp: holder_lives_def life_start_def life_inv_def)
  then have "holder_lives s" using holder_lives_steps [OF assms(2)] by simp
  then have t: "free_to_go s t" "inside_pc (position s t)" using Some by (auto simp: holder_lives_def life_inv_def)
  have a: "asynchronous s = {}" using deferred_steps_asynchronous [OF assms(2)] assms(1) by (simp add: life_start_def)
  have last: "\<exists>s'. deferred_step r s' \<and> threads_mx s' = None" if "free_to_go r t" "position r t = Leaving" "asynchronous r = {}" for r
    using unlock [OF that(1,2)] that(3) by (intro exI [of _ "at t Outside (r\<lparr>threads_mx := None\<rparr>)"]) (simp add: deferred_step_def life_ops)
  show ?thesis
  proof (cases "position s t")
    case (Inside p)
    let ?r = "at t Leaving (s\<lparr>shared := run_op (t, p) (shared s)\<rparr>)"
    have "deferred_step s ?r" using body [OF t(1) Inside] a by (simp add: deferred_step_def life_ops)
    moreover have "free_to_go ?r t" "position ?r t = Leaving" "asynchronous ?r = {}" using t(1) a by (simp_all add: life_ops free_to_go_def)
    ultimately show ?thesis using last by (meson converse_rtranclp_into_rtranclp r_into_rtranclp)
  next
    case Leaving
    then show ?thesis using last [OF t(1) _ a] by (meson r_into_rtranclp)
  qed (use t(2) in simp_all)
qed auto

end
