(* ===== verification/Debug.thy ===== *)
theory Debug
  imports Missing Threads
begin

text \<open>
  \<^verbatim>\<open>src/lmap_debug.c\<close>: the line that a debug message becomes, and \<^verbatim>\<open>hex_format\<close>, the hexadecimal dump of a
  buffer that the decoders write to the log.
\<close>

subsection \<open>Debug messages\<close>

text \<open>
  \<^verbatim>\<open>debug_msg\<close> copies the format into an array of \<^verbatim>\<open>strlen(message) + 2\<close> bytes, whose contents are
  \<open>junk\<close>, and appends a newline. The result is the format of the line that goes to the log.
\<close>

definition debug_format :: "string \<Rightarrow> string \<Rightarrow> c_error + string" where
  "debug_format junk message =
     bindE (strlcpy junk message (length message + 2)) (\<lambda>(buf, _).
     bindE (strlcat buf [CHR 0x0A] (length message + 2)) (\<lambda>(buf, _).
     Inr (c_str buf)))"

text \<open>The text in front of it: \<^verbatim>\<open>"[%9s]\t"\<close> with the name of the thread.\<close>

definition debug_prefix :: "tid \<Rightarrow> threads \<Rightarrow> string" where
  "debug_prefix self ts =
     (let name = lmap_thread_getname self LMAP_SELF ts in
      CHR ''['' # replicate (9 - length name) CHR '' '' @ name @ [CHR '']'', CHR 0x09])"

lemma debug_format_eq:
  assumes "NUL \<notin> set message" and "length junk = length message + 2"
  shows "debug_format junk message = Inr (message @ [CHR 0x0A])"
proof -
  let ?buf = "overwrite junk 0 (message @ [NUL])"
  have c: "c_str ?buf = message" using assms by (simp add: overwrite_def c_str_append_NUL)
  have "strlcpy junk message (length message + 2) = Inr (?buf, length message)"
    using assms by (simp add: strlcpy_eq)
  moreover have "strlcat ?buf [CHR 0x0A] (length message + 2) =
      Inr (overwrite ?buf (length message) [CHR 0x0A, NUL], length message + 1)"
    using assms c by (subst strlcat_eq) (auto simp: overwrite_def)
  moreover have "c_str (overwrite ?buf (length message) [CHR 0x0A, NUL]) = message @ [CHR 0x0A]"
    using assms c_str_append_NUL [of "message @ [CHR 0x0A]"] by (simp add: overwrite_def)
  ultimately show ?thesis by (simp add: debug_format_def)
qed

text \<open>
  \<^verbatim>\<open>vfprintf\<close> for the conversions of the debug messages: \<^verbatim>\<open>%s\<close>, \<^verbatim>\<open>%d\<close>, \<^verbatim>\<open>%lu\<close>, \<^verbatim>\<open>%04x\<close> and \<^verbatim>\<open>%%\<close>. A missing
  or wrong argument is undefined.
\<close>

datatype arg = Arg_str string | Arg_int int

fun conversion :: "string \<Rightarrow> arg \<Rightarrow> (nat \<times> string) option" where
  "conversion s (Arg_str x) = (if take 1 s = ''s'' then Some (1, x) else None)"
| "conversion s (Arg_int n) =
     (if take 1 s = ''d'' then Some (1, fmt_d n) else if take 2 s = ''lu'' then Some (2, fmt_d n)
      else if take 3 s = ''04x'' then Some (3, fmt_X False 4 n) else None)"

fun vformat :: "string \<Rightarrow> arg list \<Rightarrow> c_error + string" where
  "vformat [] args = Inr []"
| "vformat (c # s) args =
     (if c \<noteq> CHR ''%'' then bindE (vformat s args) (\<lambda>t. Inr (c # t))
      else if take 1 s = ''%'' then bindE (vformat (drop 1 s) args) (\<lambda>t. Inr (CHR ''%'' # t))
      else case args of
        [] \<Rightarrow> Inl Out_of_bounds
      | a # args \<Rightarrow>
          (case conversion s a of
             None \<Rightarrow> Inl Out_of_bounds
           | Some (n, x) \<Rightarrow> bindE (vformat (drop n s) args) (\<lambda>t. Inr (x @ t))))"

text \<open>The file \<^verbatim>\<open>debug_file\<close>: \<^verbatim>\<open>NULL\<close>, or open, or closed, with what has been written.\<close>

datatype log = Log_null | Log_open string | Log_closed string

fun log_write :: "string \<Rightarrow> log \<Rightarrow> c_error + log" where
  "log_write s Log_null = Inl Null_pointer"
| "log_write s (Log_open t) = Inr (Log_open (t @ s))"
| "log_write s (Log_closed t) = Inl Use_after_free"

text \<open>\<open>junk n\<close> are the contents of an undefined array of \<open>n\<close> bytes.\<close>

definition debug_msg ::
  "(nat \<Rightarrow> string) \<Rightarrow> tid \<Rightarrow> threads \<Rightarrow> string \<Rightarrow> arg list \<Rightarrow> log \<Rightarrow> c_error + log" where
  "debug_msg junk self ts message args l =
     bindE (log_write (debug_prefix self ts) l) (\<lambda>l.
     bindE (debug_format (junk (length message + 2)) message) (\<lambda>f.
     bindE (vformat f args) (\<lambda>s. log_write s l)))"

text \<open>The macro, in the function \<open>func\<close> of the file \<open>file\<close>.\<close>

definition DEBUG_MSG ::
  "string \<Rightarrow> string \<Rightarrow> (nat \<Rightarrow> string) \<Rightarrow> tid \<Rightarrow> threads \<Rightarrow> string \<Rightarrow> arg list \<Rightarrow> log \<Rightarrow> c_error + log" where
  "DEBUG_MSG file func junk self ts message args l =
     (if l = Log_null
      then Inl (Exit_process (''['' @ file @ ''::'' @ func @ ''] DEBUG_MSG called before initialization !!''))
      else debug_msg junk self ts message args l)"

text \<open>What the system and the compiler say about themselves; \<^term>\<open>None\<close> where they do not.\<close>

record platform =
  uname :: "(string \<times> string \<times> string) option"
  glibc :: "(int \<times> int) option"
  gcc :: "(int \<times> int) option"
  curses_version :: "string option"

definition platform_text :: "platform \<Rightarrow> string" where
  "platform_text pl =
     (case uname pl of None \<Rightarrow> []
      | Some (sys, rel, mach) \<Rightarrow> ''-> running on '' @ sys @ '' '' @ rel @ '' '' @ mach @ nl) @
     (case glibc pl of None \<Rightarrow> [] | Some (a, b) \<Rightarrow> ''-> glibc version '' @ fmt_d a @ ''.'' @ fmt_d b @ nl) @
     (case gcc pl of None \<Rightarrow> [] | Some (a, b) \<Rightarrow> ''-> compiled with gcc '' @ fmt_d a @ ''.'' @ fmt_d b @ nl) @
     (case curses_version pl of None \<Rightarrow> [] | Some v \<Rightarrow> ''-> '' @ v @ nl)"

text \<open>
  \<^verbatim>\<open>debug_init\<close>. When the file cannot be opened, \<^verbatim>\<open>error_msg\<close> is called; the first thing it does is
  \<^verbatim>\<open>ui_cleanup\<close>, which begins with a \<^verbatim>\<open>DEBUG_MSG\<close>.
\<close>

definition debug_init ::
  "bool \<Rightarrow> platform \<Rightarrow> string \<Rightarrow> string \<Rightarrow> string \<Rightarrow> (nat \<Rightarrow> string) \<Rightarrow> tid \<Rightarrow> threads \<Rightarrow> c_error + log" where
  "debug_init opens pl program version file junk self ts =
     (if \<not> opens
      then bindE (DEBUG_MSG ''lmap_ui.c'' ''ui_cleanup'' junk self ts ''ui_cleanup'' [] Log_null)
             (\<lambda>_. Inl (Exit_process (take 199 (''Couldn'' @ [CHR 0x27] @ ''t open for writing '' @ file))))
      else log_write
        (nl @ replicate 62 CHR ''='' @ nl @
         nl @ ''-> '' @ program @ '' '' @ version @ nl @ nl @ platform_text pl @
         nl @ nl @ ''DEVICE OPENED FOR '' @ program @ '' DEBUGGING'' @ nl @ nl) (Log_open []))"

definition debug_close :: "log \<Rightarrow> c_error + log" where
  "debug_close l =
     bindE (log_write (nl @ nl @ ''DEVICE CLOSED FOR DEBUGGING'' @ nl @ nl) l) (\<lambda>l.
     case l of Log_open t \<Rightarrow> Inr (Log_closed t) | _ \<Rightarrow> Inl Null_pointer)"

lemma vformat_plain: "CHR ''%'' \<notin> set s \<Longrightarrow> vformat s args = Inr s"
  by (induction s) auto

lemma debug_msg_plain:
  assumes "NUL \<notin> set message" and "CHR ''%'' \<notin> set message" and "\<And>n. length (junk n) = n"
  shows "debug_msg junk self ts message args (Log_open t) = Inr (Log_open (t @ debug_prefix self ts @ message @ nl))"
  using assms debug_format_eq [OF assms(1), of "junk (length message + 2)"] vformat_plain [of "message @ nl" args]
  by (simp add: debug_msg_def nl_def)

text \<open>
  The message that the log cannot be opened never appears: the program complains about a debug message before
  the initialization instead.
\<close>

lemma debug_init_failure:
  "debug_init False pl program version file junk self ts =
    Inl (Exit_process ''[lmap_ui.c::ui_cleanup] DEBUG_MSG called before initialization !!'')"
  by (simp add: debug_init_def DEBUG_MSG_def)

subsection \<open>The dump\<close>

text \<open>
  The text so far is in the array \<^verbatim>\<open>hexdata\<close> of \<open>dim\<close> bytes. \<^verbatim>\<open>sprintf(hexdata, "%s...", hexdata, ...)\<close> and
  \<^verbatim>\<open>strcat\<close> append to it; they do not look at its size. (That the array is both the source and the
  destination of \<^verbatim>\<open>sprintf\<close> is undefined in C; the model has the result that is meant.)
\<close>

definition put :: "nat \<Rightarrow> string \<Rightarrow> string \<Rightarrow> c_error + string" where
  "put dim s t = (if length t + length s + 1 \<le> dim then Inr (t @ s) else Inl Out_of_bounds)"

text \<open>The three inner loops, for the row that begins at byte \<open>i\<close>.\<close>

fun put_cells :: "nat \<Rightarrow> bytes \<Rightarrow> nat \<Rightarrow> nat list \<Rightarrow> string \<Rightarrow> c_error + string" where
  "put_cells dim b i [] t = Inr t"
| "put_cells dim b i (j # js) t =
     bindE (rd8 b (i + j)) (\<lambda>v.
     bindE (put dim (fmt_X False 2 (uint v) @ (if j mod 2 = 1 then '' '' else [])) t) (put_cells dim b i js))"

fun put_blanks :: "nat \<Rightarrow> nat list \<Rightarrow> string \<Rightarrow> c_error + string" where
  "put_blanks dim [] t = Inr t"
| "put_blanks dim (j # js) t = bindE (put dim (if j mod 2 = 1 then ''   '' else ''  '') t) (put_blanks dim js)"

definition printable :: "u_int8 \<Rightarrow> char" where
  "printable v = (if 32 \<le> v \<and> v \<le> 126 then char_of (unat v) else CHR ''.'')"

fun put_chars :: "nat \<Rightarrow> bytes \<Rightarrow> nat \<Rightarrow> nat list \<Rightarrow> string \<Rightarrow> c_error + string" where
  "put_chars dim b i [] t = Inr t"
| "put_chars dim b i (j # js) t =
     bindE (rd8 b (i + j)) (\<lambda>v. bindE (put dim [printable v] t) (put_chars dim b i js))"

definition put_row :: "nat \<Rightarrow> bytes \<Rightarrow> nat \<Rightarrow> nat \<Rightarrow> string \<Rightarrow> c_error + string" where
  "put_row dim b n i t =
     bindE (put dim ('' '' @ fmt_X False 4 (int i) @ '': '') t) (\<lambda>t.
     let jm = (if n - i > 16 then 16 else n - i) in
     bindE (put_cells dim b i [0..<jm] t) (\<lambda>t.
     bindE (put_blanks dim [jm..<16] t) (\<lambda>t.
     bindE (put dim '' '' t) (\<lambda>t.
     bindE (put_chars dim b i [0..<jm] t) (put dim [CHR 0x0A])))))"

fun put_rows :: "nat \<Rightarrow> bytes \<Rightarrow> nat \<Rightarrow> nat list \<Rightarrow> string \<Rightarrow> c_error + string" where
  "put_rows dim b n [] t = Inr t"
| "put_rows dim b n (i # is) t = bindE (put_row dim b n i t) (put_rows dim b n is)"

text \<open>The rows begin at 0, 16, 32, ...; \<open>dim\<close> is computed for a row of 75 characters for each, and one more.\<close>

definition row_starts :: "nat \<Rightarrow> nat list" where
  "row_starts n = filter (\<lambda>i. i mod 16 = 0) [0..<n]"

definition dump_size :: "nat \<Rightarrow> nat" where
  "dump_size n = foldl (\<lambda>dim i. if i mod 16 = 0 then dim + 75 else dim) 75 [0..<n]"

definition hex_format :: "bytes \<Rightarrow> int \<Rightarrow> c_error + string" where
  "hex_format b n =
     (if n = 0 then Inr []
      else let dim = dump_size (nat n) in
        checked [int dim] (bindE (put dim [CHR 0x0A] []) (put_rows dim b (nat n) (row_starts (nat n)))))"

subsection \<open>The text of a dump\<close>

definition cell :: "u_int8 \<Rightarrow> nat \<Rightarrow> string" where
  "cell v j = fmt_X False 2 (uint v) @ (if j mod 2 = 1 then '' '' else [])"

definition cells_text :: "bytes \<Rightarrow> nat \<Rightarrow> nat list \<Rightarrow> string" where
  "cells_text b i js = concat (map (\<lambda>j. cell (b ! (i + j)) j) js)"

definition blanks_text :: "nat list \<Rightarrow> string" where
  "blanks_text js = concat (map (\<lambda>j. if j mod 2 = 1 then ''   '' else ''  '') js)"

definition chars_text :: "bytes \<Rightarrow> nat \<Rightarrow> nat list \<Rightarrow> string" where
  "chars_text b i js = map (\<lambda>j. printable (b ! (i + j))) js"

definition row_bytes :: "nat \<Rightarrow> nat \<Rightarrow> nat" where
  "row_bytes n i = (if n - i > 16 then 16 else n - i)"

definition row_text :: "bytes \<Rightarrow> nat \<Rightarrow> nat \<Rightarrow> string" where
  "row_text b n i =
     '' '' @ fmt_X False 4 (int i) @ '': '' @ cells_text b i [0..<row_bytes n i] @ blanks_text [row_bytes n i..<16] @
     '' '' @ chars_text b i [0..<row_bytes n i]"

lemma put_ok: "length t + length s < dim \<Longrightarrow> put dim s t = Inr (t @ s)"
  by (simp add: put_def)

lemma put_cells_ok:
  "\<forall>j \<in> set js. i + j < length b \<Longrightarrow> length t + length (cells_text b i js) < dim \<Longrightarrow>
    put_cells dim b i js t = Inr (t @ cells_text b i js)"
  by (induction js arbitrary: t) (auto simp: cells_text_def cell_def put_ok rd8_ok)

lemma put_blanks_ok:
  "length t + length (blanks_text js) < dim \<Longrightarrow> put_blanks dim js t = Inr (t @ blanks_text js)"
  by (induction js arbitrary: t) (auto simp: blanks_text_def put_ok)

lemma put_chars_ok:
  "\<forall>j \<in> set js. i + j < length b \<Longrightarrow> length t + length js < dim \<Longrightarrow>
    put_chars dim b i js t = Inr (t @ chars_text b i js)"
  by (induction js arbitrary: t) (auto simp: chars_text_def put_ok rd8_ok)

lemma length_cells_blanks: "length (cells_text b i js) = length (blanks_text js)"
  by (induction js) (simp_all add: cells_text_def blanks_text_def cell_def length_fmt_byte)

lemma length_row_cells:
  assumes "m \<le> 16"
  shows "length (cells_text b i [0..<m] @ blanks_text [m..<16]) = 40"
proof -
  have "blanks_text [0..<m] @ blanks_text [m..<16] = blanks_text [0..<16]"
    using assms upt_add_eq_append [of 0 m "16 - m"] by (simp add: blanks_text_def flip: map_append concat_append)
  then have "length (cells_text b i [0..<m] @ blanks_text [m..<16]) = length (blanks_text [0..<16])"
    by (metis length_append length_cells_blanks)
  then show ?thesis by (simp add: blanks_text_def upt_conv_Cons)
qed

lemma row_bytes_le: "row_bytes n i \<le> 16" "i < n \<Longrightarrow> i + row_bytes n i \<le> n"
  by (auto simp: row_bytes_def)

lemma length_hex_offset: "length (fmt_X False 4 v) \<le> 8"
proof -
  have "nat (v mod 2 ^ 32) < 16 ^ 8" using pos_mod_bound [of "2 ^ 32" v] by simp
  then have "length (hexs False (nat (v mod 2 ^ 32))) \<le> 8" by (rule length_hexs_le) simp
  then show ?thesis by (simp add: fmt_X_def length_pad0)
qed

lemma length_row_text: "length (row_text b n i) < 75"
  using length_row_cells [OF row_bytes_le(1), of b i n i] length_hex_offset [of "int i"] row_bytes_le(1) [of n i]
  by (simp add: row_text_def chars_text_def)

lemma put_row_ok:
  assumes "n \<le> length b" and "i < n" and "length t + 75 < dim"
  shows "put_row dim b n i t = Inr (t @ row_text b n i @ [CHR 0x0A])"
proof -
  let ?m = "row_bytes n i"
  let ?a = "'' '' @ fmt_X False 4 (int i) @ '': ''" and ?c = "cells_text b i [0..<?m]" and ?l = "blanks_text [?m..<16]"
  let ?h = "chars_text b i [0..<?m]"
  have len: "length ?a \<le> 11" "length ?c + length ?l = 40" "length ?h \<le> 16"
    using length_hex_offset [of "int i"] length_row_cells [OF row_bytes_le(1), of b i n i] row_bytes_le(1) [of n i]
    by (simp_all add: chars_text_def)
  have le: "\<forall>j \<in> set [0..<?m]. i + j < length b"
    using row_bytes_le(2) [OF assms(2)] assms(1) by auto
  have "put dim ?a t = Inr (t @ ?a)" using assms(3) len by (intro put_ok) linarith
  moreover have "put_cells dim b i [0..<?m] (t @ ?a) = Inr ((t @ ?a) @ ?c)"
    using le assms(3) len by (intro put_cells_ok) auto
  moreover have "put_blanks dim [?m..<16] ((t @ ?a) @ ?c) = Inr (((t @ ?a) @ ?c) @ ?l)"
    using assms(3) len by (intro put_blanks_ok) auto
  moreover have "put dim '' '' (((t @ ?a) @ ?c) @ ?l) = Inr ((((t @ ?a) @ ?c) @ ?l) @ '' '')"
    using assms(3) len by (intro put_ok) auto
  moreover have "put_chars dim b i [0..<?m] ((((t @ ?a) @ ?c) @ ?l) @ '' '') = Inr (((((t @ ?a) @ ?c) @ ?l) @ '' '') @ ?h)"
    using le assms(3) len by (intro put_chars_ok) (auto simp: chars_text_def)
  moreover have "put dim [CHR 0x0A] (((((t @ ?a) @ ?c) @ ?l) @ '' '') @ ?h) = Inr ((((((t @ ?a) @ ?c) @ ?l) @ '' '') @ ?h) @ [CHR 0x0A])"
    using assms(3) len by (intro put_ok) auto
  ultimately show ?thesis
    by (simp only: put_row_def Let_def row_bytes_def [symmetric] bindE.simps row_text_def append_assoc)
qed

lemma put_rows_ok:
  assumes "n \<le> length b" and "\<forall>i \<in> set is. i < n" and "length t + 75 * length is < dim"
  shows "put_rows dim b n is t = Inr (t @ concat (map (\<lambda>i. row_text b n i @ [CHR 0x0A]) is))"
  using assms(2,3)
proof (induction "is" arbitrary: t)
  case (Cons i "is")
  have "put_row dim b n i t = Inr (t @ row_text b n i @ [CHR 0x0A])"
    using Cons.prems assms(1) by (intro put_row_ok) auto
  moreover have "put_rows dim b n is (t @ row_text b n i @ [CHR 0x0A]) =
      Inr ((t @ row_text b n i @ [CHR 0x0A]) @ concat (map (\<lambda>i. row_text b n i @ [CHR 0x0A]) is))"
    using Cons.prems length_row_text [of b n i] by (intro Cons.IH) auto
  ultimately show ?case by simp
qed simp

lemma ceil16: "r < 16 \<Longrightarrow> (16 * q + r + 15) div 16 = (if r = 0 then q else Suc q)" for q r :: nat
  by (auto intro: div_nat_eqI)

lemma row_starts_eq: "row_starts n = map (\<lambda>k. 16 * k) [0..<(n + 15) div 16]"
proof (induction n)
  case (Suc n)
  define q r where "q = n div 16" and "r = n mod 16"
  then have n: "n = 16 * q + r" "r < 16" by simp_all
  have "(n + 15) div 16 = (if r = 0 then q else Suc q)" and "(Suc n + 15) div 16 = Suc q"
    using n ceil16 [of r q] ceil16 [of "Suc r" q] ceil16 [of 0 "Suc q"] by (simp, cases "r = 15", auto)
  with Suc n show ?case by (simp add: row_starts_def)
qed (simp add: row_starts_def)

lemma dump_size_eq: "dump_size n = 75 + 75 * length (row_starts n)"
  by (induction n) (simp_all add: dump_size_def row_starts_def)

lemma hex_format_eq:
  assumes "0 < n" and "n \<le> length b" and "n < 2 ^ 28"
  shows "hex_format b (int n) = Inr (CHR 0x0A # concat (map (\<lambda>i. row_text b n i @ [CHR 0x0A]) (row_starts n)))"
proof -
  have "length (row_starts n) \<le> 2 ^ 24" using assms(3) by (simp add: row_starts_eq)
  then have "dump_size n < 2 ^ 31" by (simp add: dump_size_eq)
  moreover have "\<forall>i \<in> set (row_starts n). i < n" by (simp add: row_starts_def)
  ultimately show ?thesis
    using assms put_rows_ok [of n b "row_starts n" "[CHR 0x0A]" "dump_size n"]
    by (simp add: hex_format_def checked_def put_ok dump_size_eq)
qed

subsection \<open>Reading a dump\<close>

fun lines_of :: "string \<Rightarrow> string list" where
  "lines_of [] = [[]]"
| "lines_of (c # s) =
     (if c = CHR 0x0A then [] # lines_of s else (case lines_of s of [] \<Rightarrow> [[c]] | l # ls \<Rightarrow> (c # l) # ls))"

fun from_hex :: "string \<Rightarrow> bytes" where
  "from_hex (a # b # s) = of_nat (16 * the (hex_value a) + the (hex_value b)) # from_hex s"
| "from_hex _ = []"

text \<open>The digits stand in the 40 columns behind the colon.\<close>

definition read_row :: "string \<Rightarrow> bytes" where
  "read_row l = from_hex (filter (\<lambda>c. c \<noteq> CHR '' '') (take 40 (drop 2 (dropWhile (\<lambda>c. c \<noteq> CHR '':'') l))))"

definition read_dump :: "string \<Rightarrow> bytes" where
  "read_dump t = concat (map read_row (lines_of t))"

lemma lines_of_append: "CHR 0x0A \<notin> set l \<Longrightarrow> lines_of (l @ CHR 0x0A # t) = l # lines_of t"
  by (induction l) auto

lemma lines_of_rows:
  "\<forall>l \<in> set ls. CHR 0x0A \<notin> set l \<Longrightarrow> lines_of (concat (map (\<lambda>l. l @ [CHR 0x0A]) ls)) = ls @ [[]]"
  by (induction ls) (simp_all add: lines_of_append)

lemma from_hex_byte:
  "from_hex (fmt_X False 2 (uint (v :: u_int8)) @ s) = v # from_hex s"
proof -
  have v: "unat v < 256" using unsigned_less [of v, where ?'a = nat] by simp
  then have "unat v div 16 < 16" by simp
  moreover have "nat (uint v mod 2 ^ 32) = unat v"
    using unsigned_less [of v, where ?'a = int] by simp
  ultimately show ?thesis
    by (simp add: fmt_X_def pad2_hexs [OF v])
qed

lemma fmt_X_chars:
  assumes "c \<in> set (fmt_X u w v)"
  shows "c \<noteq> CHR '' ''" and "c \<noteq> CHR '':''" and "c \<noteq> CHR 0x0A"
proof -
  have "c = CHR ''0'' \<or> (\<exists>k < 16. c = hex_digit u k)"
    using assms hexs_digits by (fastforce simp: fmt_X_def pad0_def split: if_splits)
  then have "hex_value c \<noteq> None"
    by (elim disjE exE) (simp add: hex_value_def, simp)
  then show "c \<noteq> CHR '' ''" and "c \<noteq> CHR '':''" and "c \<noteq> CHR 0x0A" by (auto simp: hex_value_def)
qed

lemma digits_no_blank: "filter (\<lambda>c. c \<noteq> CHR '' '') (fmt_X u w v) = fmt_X u w v"
  using fmt_X_chars(1) by (simp add: filter_id_conv)

lemma filter_blanks: "filter (\<lambda>c. c \<noteq> CHR '' '') (blanks_text js) = []"
  by (induction js) (simp_all add: blanks_text_def)

lemma read_cells:
  "from_hex (filter (\<lambda>c. c \<noteq> CHR '' '') (cells_text b i js)) = map (\<lambda>j. b ! (i + j)) js"
  by (induction js) (simp_all add: cells_text_def cell_def digits_no_blank from_hex_byte)

lemma read_row_text:
  assumes "n \<le> length b" and "i < n"
  shows "read_row (row_text b n i) = take (row_bytes n i) (drop i b)"
proof -
  let ?m = "row_bytes n i" and ?r = "\<lambda>t. '': '' @ t"
  let ?t = "cells_text b i [0..<?m] @ blanks_text [?m..<16] @ '' '' @ chars_text b i [0..<?m]"
  have "\<forall>c \<in> set ('' '' @ fmt_X False 4 (int i)). c \<noteq> CHR '':''" using fmt_X_chars(2) by auto
  then have "dropWhile (\<lambda>c. c \<noteq> CHR '':'') (('' '' @ fmt_X False 4 (int i)) @ ?r ?t) = ?r ?t"
    by (subst dropWhile_append2) auto
  then have "take 40 (drop 2 (dropWhile (\<lambda>c. c \<noteq> CHR '':'') (row_text b n i))) = take 40 ?t"
    by (simp add: row_text_def)
  also have "\<dots> = cells_text b i [0..<?m] @ blanks_text [?m..<16]"
    using length_row_cells [OF row_bytes_le(1), of b i n i] by simp
  finally have "read_row (row_text b n i) = map (\<lambda>j. b ! (i + j)) [0..<?m]"
    by (simp add: read_row_def filter_blanks read_cells)
  also have "\<dots> = take ?m (drop i b)"
    using row_bytes_le(2) [OF assms(2)] assms(1) by (intro nth_equalityI) simp_all
  finally show ?thesis .
qed

lemma rows_cover:
  "n \<le> length b \<Longrightarrow> concat (map (\<lambda>k. take (row_bytes n (16 * k)) (drop (16 * k) b)) [0..<q]) = take (min n (16 * q)) b"
proof (induction q)
  case (Suc q)
  have "take (min n (16 * Suc q)) b = take (min n (16 * q)) b @ take (row_bytes n (16 * q)) (drop (16 * q) b)"
  proof (cases "n \<le> 16 * q")
    case True
    then show ?thesis by (simp add: row_bytes_def min_def)
  next
    case False
    then have "min n (16 * Suc q) = 16 * q + row_bytes n (16 * q)" "min n (16 * q) = 16 * q"
      by (auto simp: row_bytes_def)
    then show ?thesis by (simp add: take_add)
  qed
  with Suc show ?case by simp
qed simp

lemma printable_not_newline: "printable v \<noteq> CHR 0x0A"
proof
  assume a: "printable v = CHR 0x0A"
  then have v: "32 \<le> v" "char_of (unat v) = CHR 0x0A" by (auto simp: printable_def split: if_splits)
  then have "(of_char (char_of (unat v)) :: nat) = 10" by simp
  then have "unat v = 10" using unsigned_less [of v, where ?'a = nat] by simp
  with v(1) show False by (simp add: word_le_nat_alt)
qed

lemma row_text_line: "CHR 0x0A \<notin> set (row_text b n i)"
proof -
  have "CHR 0x0A \<notin> set (cells_text b i js)" for js
    by (induction js) (auto simp: cells_text_def cell_def dest: fmt_X_chars(3))
  moreover have "CHR 0x0A \<notin> set (blanks_text js)" for js
    by (induction js) (auto simp: blanks_text_def)
  moreover have "CHR 0x0A \<notin> set (chars_text b i js)" for js
    using printable_not_newline unfolding chars_text_def by (metis ex_map_conv)
  ultimately show ?thesis by (auto simp: row_text_def dest: fmt_X_chars(3))
qed



subsection \<open>The format of a message\<close>

lemma vformat_sample:
  "vformat ''lmap_thread_register -- [%d] %s'' [Arg_int 1, Arg_str ''main''] = Inr ''lmap_thread_register -- [1] main''"
  by (simp add: fmt_d_def decs.simps hex_digit_def)

end
