(* ===== verification/Debug_Log.thy ===== *)
theory Debug_Log
  imports Process Debug
begin

text \<open>
  The end of a process that has been compiled with \<^verbatim>\<open>DEBUG\<close>: the functions registered with \<^verbatim>\<open>atexit\<close> write
  to the log, and \<^verbatim>\<open>debug_close\<close> of \<^verbatim>\<open>src/lmap_debug.c\<close> is one of them.
\<close>

subsection \<open>The handlers\<close>

text \<open>\<^verbatim>\<open>main\<close> calls \<^verbatim>\<open>debug_init\<close>, which registers \<^verbatim>\<open>debug_close\<close>, directly behind \<^verbatim>\<open>globals_alloc\<close>.\<close>

datatype debug_handler = Handler exit_handler | Debug_close

definition debug_handlers :: "exit_handler list \<Rightarrow> debug_handler list" where
  "debug_handlers hl = concat (map (\<lambda>h. if h = Globals_free then [Debug_close, Handler h] else [Handler h]) hl)"

text \<open>What the functions write to the log; \<^verbatim>\<open>globals_free\<close> calls \<^verbatim>\<open>free_stats\<close>.\<close>

fun handler_says :: "exit_handler \<Rightarrow> 'k program \<Rightarrow> (string \<times> string \<times> string) list" where
  "handler_says Globals_free p = [(''lmap_stat.c'', ''free_stats'', ''free_stats'')]"
| "handler_says Run_ncurses_cleanup p =
     (if onscreen p
      then [(''lmap_ncurses.c'', ''ncurses_cleanup'', ''ncurses_cleanup''),
            (''lmap_ncurses.c'', ''ncurses_cleanup'', ''ncurses_cleanup -- cleaned !'')]
      else [])"
| "handler_says Capture_close p = [(''lmap_capture.c'', ''capture_close'', ''capture_closed'')]"
| "handler_says Discard_macdb p = [(''lmap_manuf.c'', ''discard_macdb'', ''discard_macdb'')]"
| "handler_says Fingerprint_discard p = [(''lmap_fingerprint.c'', ''fingerprint_discard'', ''fingerprint_discard'')]"

fun say :: "(nat \<Rightarrow> string) \<Rightarrow> tid \<Rightarrow> threads \<Rightarrow> (string \<times> string \<times> string) list \<Rightarrow> log \<Rightarrow> c_error + log" where
  "say junk self ts [] l = Inr l"
| "say junk self ts ((file, func, m) # ms) l = bindE (DEBUG_MSG file func junk self ts m [] l) (say junk self ts ms)"

fun run_debug_handlers ::
  "(nat \<Rightarrow> string) \<Rightarrow> tid \<Rightarrow> debug_handler list \<Rightarrow> log \<Rightarrow> 'k program \<Rightarrow> c_error + (log \<times> 'k program)" where
  "run_debug_handlers junk self [] l p = Inr (l, p)"
| "run_debug_handlers junk self (Debug_close # fs) l p = bindE (debug_close l) (\<lambda>l. run_debug_handlers junk self fs l p)"
| "run_debug_handlers junk self (Handler h # fs) l p =
     bindE (run_handler h p) (\<lambda>p'.
     bindE (say junk self (thread_tab p) (handler_says h p) l) (\<lambda>l.
     run_debug_handlers junk self fs l p'))"

definition debug_exit :: "(nat \<Rightarrow> string) \<Rightarrow> tid \<Rightarrow> log \<Rightarrow> 'k program \<Rightarrow> c_error + (log \<times> 'k program)" where
  "debug_exit junk self l p = run_debug_handlers junk self (debug_handlers (handlers p)) l (p\<lparr>handlers := []\<rparr>)"

subsection \<open>The order of the handlers\<close>

lemma DEBUG_MSG_open:
  assumes "NUL \<notin> set m" and "CHR ''%'' \<notin> set m" and "\<And>n. length (junk n) = n"
  shows "DEBUG_MSG file func junk self ts m [] (Log_open t) = Inr (Log_open (t @ debug_prefix self ts @ m @ nl))"
  using debug_msg_plain [OF assms] by (simp add: DEBUG_MSG_def nl_def)

lemma handler_says_open:
  assumes "\<And>n. length (junk n) = n"
  shows "\<exists>s. say junk self ts (handler_says h p) (Log_open t) = Inr (Log_open (t @ s))"
  by (cases h) (simp_all add: DEBUG_MSG_open [OF _ _ assms])

text \<open>The functions that run before \<^verbatim>\<open>debug_close\<close> can write.\<close>

lemma debug_handlers_open:
  assumes "\<And>n. length (junk n) = n" and "run_handlers fs p = Inr q" and "Globals_free \<notin> set fs"
  shows "\<exists>s. run_debug_handlers junk self (map Handler fs @ rest) (Log_open t) p = run_debug_handlers junk self rest (Log_open (t @ s)) q"
  using assms(2,3)
proof (induction fs arbitrary: p t)
  case Nil
  then show ?case by (auto intro: exI [of _ "[]"])
next
  case (Cons h fs)
  from Cons.prems obtain p' where p': "run_handler h p = Inr p'" "run_handlers fs p' = Inr q" "Globals_free \<notin> set fs"
    by (cases "run_handler h p") auto
  obtain s where "say junk self (thread_tab p) (handler_says h p) (Log_open t) = Inr (Log_open (t @ s))"
    using handler_says_open [OF assms(1)] by blast
  moreover obtain s' where "run_debug_handlers junk self (map Handler fs @ rest) (Log_open (t @ s)) p' =
      run_debug_handlers junk self rest (Log_open ((t @ s) @ s')) q"
    using Cons.IH [OF p'(2,3)] by blast
  ultimately show ?case using p'(1) by (intro exI [of _ "s @ s'"]) simp
qed

lemma run_handlers_append: "run_handlers (fs @ gs) p = bindE (run_handlers fs p) (run_handlers gs)"
proof (induction fs arbitrary: p)
  case (Cons h fs)
  then show ?case by (cases "run_handler h p") simp_all
qed simp



subsection \<open>A crash\<close>

text \<open>\<^verbatim>\<open>ui_cleanup\<close> with its messages, and the report of \<^verbatim>\<open>signal_SEGV\<close>.\<close>

definition cleanup_says :: "'k program \<Rightarrow> (string \<times> string \<times> string) list" where
  "cleanup_says p =
     (''lmap_ui.c'', ''ui_cleanup'', ''ui_cleanup'') #
     (case cleanup (ui_hooks p) of Ncurses_cleanup \<Rightarrow> handler_says Run_ncurses_cleanup p | _ \<Rightarrow> [])"

definition crash_report :: "string \<Rightarrow> string" where
  "crash_report name =
     nl @ [CHR 0x1B] @ ''[01m'' @ [CHR 0x1B] @ ''[1m Ooops !! This shouldn'' @ [CHR 0x27] @ ''t happen...'' @ nl @
     nl @
     ''Segmentation Fault...'' @ [CHR 0x1B] @ ''[0m'' @ nl @ nl @
     ''==========================================================================='' @ nl @
     '' To report this error follow these steps:'' @ nl @ nl @
     ''  1) recompile '' @ name @ '' in debug mode : '' @ nl @ ''  '' @ [CHR 0x09] @ [CHR 0x22] @
     ''configure --enable-debug && make clean && make'' @ [CHR 0x22] @ nl @ nl @
     ''  2) reproduce the critical situation'' @ nl @ nl @
     ''  3) make a report : '' @ [CHR 0x22] @ ''tar zcvf error.tar.gz '' @ name @ ''_debug.log '' @ [CHR 0x22] @
     nl @ nl @
     ''  4) get the gdb backtrace :'' @ nl @ ''  '' @ [CHR 0x09] @ '' - '' @ [CHR 0x22] @ ''gdb '' @ name @
     '' core'' @ [CHR 0x22] @ nl @ ''  '' @ [CHR 0x09] @ '' - at the gdb prompt '' @ [CHR 0x22] @ ''bt'' @
     [CHR 0x22] @ nl @ ''  '' @ [CHR 0x09] @ '' - at the gdb prompt '' @ [CHR 0x22] @ ''quit'' @ [CHR 0x22] @
     '' and return to the shell'' @ nl @ ''  '' @ [CHR 0x09] @ '' - copy and paste this output.'' @ nl @ nl @
     ''  5) mail me the output of gdb and the error.tar.gz'' @ nl @
     ''============================================================================'' @ nl @
     nl @ [CHR 0x1B] @ ''[01m'' @ [CHR 0x1B] @ ''[1m Overriding any '' @ [CHR 0x27] @ ''ulimit -c 0'' @
     [CHR 0x27] @ ''...'' @ nl @ '' Setting core size to RLIM_INFINITY...'' @ nl @ nl @
     '' Core dumping... (use the '' @ [CHR 0x27] @ ''core'' @ [CHR 0x27] @ '' file for gdb analysis)'' @
     [CHR 0x1B] @ ''[0m'' @ nl @ nl"

text \<open>
  \<^verbatim>\<open>signal_SEGV\<close> with \<^verbatim>\<open>DEBUG\<close>: the signal is raised again with its default action, which ends the process and writes
  the core file. The result has what is printed, the log and the state in which the process is killed.
\<close>

definition signal_SEGV_debug ::
  "(nat \<Rightarrow> string) \<Rightarrow> tid \<Rightarrow> log \<Rightarrow> 'k program \<Rightarrow> c_error + (string \<times> log \<times> halt option \<times> 'k program)" where
  "signal_SEGV_debug junk self l p =
     bindE (say junk self (thread_tab p) (cleanup_says p) l) (\<lambda>l.
     let p = run_ui_cleanup p in
     bindE (say junk self (thread_tab p) [(''lmap_signal.c'', ''signal_SEGV'', ''Segmentation Fault...'')] l) (\<lambda>l.
     case gbls p of
       None \<Rightarrow> Inl Null_pointer
     | Some g \<Rightarrow>
         Inr (crash_report (case gbl_name g of None \<Rightarrow> ''(null)'' | Some n \<Rightarrow> n), l, Some Killed, p)))"

text \<open>
  The terminal is restored and the report printed, but nothing that is registered with \<^verbatim>\<open>atexit\<close> runs; the log stays
  open with the crash as its last line.
\<close>

lemma crash_restores_terminal:
  assumes "cleanup (ui_hooks p) = Ncurses_cleanup" and "gbls p = Some g" and "gbl_name g = Some n"
    and "\<And>n. length (junk n) = n"
  shows "\<exists>t' q. signal_SEGV_debug junk self (Log_open t) p =
      Inr (crash_report n, Log_open (t @ t' @ debug_prefix self (thread_tab p) @ ''Segmentation Fault...'' @ nl), Some Killed, q) \<and>
    \<not> onscreen q \<and> handlers q = handlers p"
proof -
  let ?q = "run_ui_cleanup p"
  have q: "thread_tab ?q = thread_tab p" "gbls ?q = gbls p" "handlers ?q = handlers p" "\<not> onscreen ?q"
    using assms(1) by (auto simp: run_ui_cleanup_def do_cleanup_def ncurses_cleanup_def split: prod.splits)
  obtain t1 where "say junk self (thread_tab p) (cleanup_says p) (Log_open t) = Inr (Log_open (t @ t1))"
    using assms(1,4) by (cases "onscreen p") (auto simp: cleanup_says_def DEBUG_MSG_open)
  then show ?thesis
    using q assms(2-4) by (intro exI [of _ t1] exI [of _ ?q]) (simp add: signal_SEGV_debug_def DEBUG_MSG_open Let_def)
qed

end
