(* ===== verification/Queue.thy ===== *)
theory Queue
  imports Prelude
begin

text \<open>
  \<^verbatim>\<open>include/missing/queue.h\<close>: the lists and queues of every other component (\<^verbatim>\<open>SLIST\<close> for the hash tables,
  \<^verbatim>\<open>LIST\<close> for the counters, the threads and the recursive mutexes, \<^verbatim>\<open>SIMPLEQ\<close> for the messages), and the
  tail queues and circular queues. The macros are modelled on a heap of elements and links; that they
  implement lists is what allows the other theories to use lists.
\<close>

subsection \<open>The heap\<close>

text \<open>
  An element is a number; a pointer is one or \<^verbatim>\<open>NULL\<close>. A \<^verbatim>\<open>struct type **\<close> is the address of a variable
  that holds such a pointer: the \<^verbatim>\<open>first\<close> of the head, or the \<^verbatim>\<open>next\<close> of an element.
\<close>

type_synonym elem = nat
type_synonym ptr = "elem option"

datatype slot = First | Next elem

text \<open>The head (\<^verbatim>\<open>slh_first\<close>, \<^verbatim>\<open>lh_first\<close>, \<^verbatim>\<open>sqh_first\<close>, \<^verbatim>\<open>tqh_first\<close>; \<^verbatim>\<open>sqh_last\<close>, \<^verbatim>\<open>tqh_last\<close>) and the links of the elements.\<close>

record heap =
  h_first :: ptr
  h_last :: slot
  e_next :: "elem \<Rightarrow> ptr"
  e_prev :: "elem \<Rightarrow> slot"

definition set_next :: "elem \<Rightarrow> ptr \<Rightarrow> heap \<Rightarrow> heap" where
  "set_next e p h = h\<lparr>e_next := (e_next h)(e := p)\<rparr>"

definition set_prev :: "elem \<Rightarrow> slot \<Rightarrow> heap \<Rightarrow> heap" where
  "set_prev e s h = h\<lparr>e_prev := (e_prev h)(e := s)\<rparr>"

text \<open>\<^verbatim>\<open>*s\<close> and \<^verbatim>\<open>*s = p\<close>\<close>

fun load :: "slot \<Rightarrow> heap \<Rightarrow> ptr" where
  "load First h = h_first h"
| "load (Next e) h = e_next h e"

fun store_at :: "slot \<Rightarrow> ptr \<Rightarrow> heap \<Rightarrow> heap" where
  "store_at First p h = h\<lparr>h_first := p\<rparr>"
| "store_at (Next e) p h = set_next e p h"

text \<open>\<open>at_ptr p f\<close>: the element that \<open>p\<close> points to is used by \<open>f\<close>.\<close>

definition at_ptr :: "ptr \<Rightarrow> (elem \<Rightarrow> 'a) \<Rightarrow> c_error + 'a" where
  "at_ptr p f = (case p of None \<Rightarrow> Inl Null_pointer | Some e \<Rightarrow> Inr (f e))"

subsection \<open>Singly linked lists\<close>

definition SLIST_INIT :: "heap \<Rightarrow> heap" where
  "SLIST_INIT h = h\<lparr>h_first := None\<rparr>"

definition SLIST_INSERT_AFTER :: "elem \<Rightarrow> elem \<Rightarrow> heap \<Rightarrow> heap" where
  "SLIST_INSERT_AFTER l e h = set_next l (Some e) (set_next e (e_next h l) h)"

definition SLIST_INSERT_HEAD :: "elem \<Rightarrow> heap \<Rightarrow> heap" where
  "SLIST_INSERT_HEAD e h = (set_next e (h_first h) h)\<lparr>h_first := Some e\<rparr>"

definition SLIST_REMOVE_HEAD :: "heap \<Rightarrow> c_error + heap" where
  "SLIST_REMOVE_HEAD h = at_ptr (h_first h) (\<lambda>e. h\<lparr>h_first := e_next h e\<rparr>)"

text \<open>The search in \<^verbatim>\<open>SLIST_REMOVE\<close> for the element in front of \<open>e\<close>, with fuel for its steps.\<close>

fun slist_before :: "nat \<Rightarrow> elem \<Rightarrow> ptr \<Rightarrow> heap \<Rightarrow> c_error + elem" where
  "slist_before 0 e cur h = Inl Endless_loop"
| "slist_before (Suc n) e cur h =
     (case cur of
        None \<Rightarrow> Inl Null_pointer
      | Some c \<Rightarrow> if e_next h c \<noteq> Some e then slist_before n e (e_next h c) h else Inr c)"

definition SLIST_REMOVE :: "nat \<Rightarrow> elem \<Rightarrow> heap \<Rightarrow> c_error + heap" where
  "SLIST_REMOVE n e h =
     (if h_first h = Some e then SLIST_REMOVE_HEAD h
      else bindE (slist_before n e (h_first h) h) (\<lambda>c.
        at_ptr (e_next h c) (\<lambda>d. set_next c (e_next h d) h)))"

text \<open>\<^verbatim>\<open>SLIST_FOREACH\<close>, \<^verbatim>\<open>LIST_FOREACH\<close>, \<^verbatim>\<open>SIMPLEQ_FOREACH\<close>, \<^verbatim>\<open>TAILQ_FOREACH\<close>: the elements in turn.\<close>

fun foreach :: "nat \<Rightarrow> ptr \<Rightarrow> heap \<Rightarrow> c_error + elem list" where
  "foreach 0 p h = Inl Endless_loop"
| "foreach (Suc n) p h =
     (case p of None \<Rightarrow> Inr [] | Some e \<Rightarrow> bindE (foreach n (e_next h e) h) (\<lambda>es. Inr (e # es)))"

subsection \<open>Lists\<close>

definition LIST_INIT :: "heap \<Rightarrow> heap" where
  "LIST_INIT h = h\<lparr>h_first := None\<rparr>"

definition LIST_INSERT_AFTER :: "elem \<Rightarrow> elem \<Rightarrow> heap \<Rightarrow> c_error + heap" where
  "LIST_INSERT_AFTER l e h =
     (let h = set_next e (e_next h l) h in
      bindE (if e_next h e \<noteq> None then at_ptr (e_next h l) (\<lambda>n. set_prev n (Next e) h) else Inr h) (\<lambda>h.
      Inr (set_prev e (Next l) (set_next l (Some e) h))))"

definition LIST_INSERT_BEFORE :: "elem \<Rightarrow> elem \<Rightarrow> heap \<Rightarrow> c_error + heap" where
  "LIST_INSERT_BEFORE l e h =
     (let h = set_prev e (e_prev h l) h; h = set_next e (Some l) h; h = store_at (e_prev h l) (Some e) h in
      Inr (set_prev l (Next e) h))"

definition LIST_INSERT_HEAD :: "elem \<Rightarrow> heap \<Rightarrow> c_error + heap" where
  "LIST_INSERT_HEAD e h =
     (let h = set_next e (h_first h) h in
      bindE (if e_next h e \<noteq> None then at_ptr (h_first h) (\<lambda>n. set_prev n (Next e) h) else Inr h) (\<lambda>h.
      Inr (set_prev e First (h\<lparr>h_first := Some e\<rparr>))))"

definition LIST_REMOVE :: "elem \<Rightarrow> heap \<Rightarrow> c_error + heap" where
  "LIST_REMOVE e h =
     bindE (if e_next h e \<noteq> None then at_ptr (e_next h e) (\<lambda>n. set_prev n (e_prev h e) h) else Inr h) (\<lambda>h.
     Inr (store_at (e_prev h e) (e_next h e) h))"

definition LIST_REPLACE :: "elem \<Rightarrow> elem \<Rightarrow> heap \<Rightarrow> c_error + heap" where
  "LIST_REPLACE e e2 h =
     (let h = set_next e2 (e_next h e) h in
      bindE (if e_next h e2 \<noteq> None then at_ptr (e_next h e2) (\<lambda>n. set_prev n (Next e2) h) else Inr h) (\<lambda>h.
      let h = set_prev e2 (e_prev h e) h in
      Inr (store_at (e_prev h e2) (Some e2) h)))"

subsection \<open>Simple queues\<close>

definition SIMPLEQ_INIT :: "heap \<Rightarrow> heap" where
  "SIMPLEQ_INIT h = h\<lparr>h_first := None, h_last := First\<rparr>"

definition SIMPLEQ_INSERT_HEAD :: "elem \<Rightarrow> heap \<Rightarrow> heap" where
  "SIMPLEQ_INSERT_HEAD e h =
     (let h = set_next e (h_first h) h; h = (if e_next h e = None then h\<lparr>h_last := Next e\<rparr> else h) in
      h\<lparr>h_first := Some e\<rparr>)"

definition SIMPLEQ_INSERT_TAIL :: "elem \<Rightarrow> heap \<Rightarrow> heap" where
  "SIMPLEQ_INSERT_TAIL e h =
     (let h = set_next e None h; h = store_at (h_last h) (Some e) h in h\<lparr>h_last := Next e\<rparr>)"

definition SIMPLEQ_INSERT_AFTER :: "elem \<Rightarrow> elem \<Rightarrow> heap \<Rightarrow> heap" where
  "SIMPLEQ_INSERT_AFTER l e h =
     (let h = set_next e (e_next h l) h; h = (if e_next h e = None then h\<lparr>h_last := Next e\<rparr> else h) in
      set_next l (Some e) h)"

text \<open>The element is the argument; callers pass the first one.\<close>

definition SIMPLEQ_REMOVE_HEAD :: "elem \<Rightarrow> heap \<Rightarrow> heap" where
  "SIMPLEQ_REMOVE_HEAD e h =
     (let h = h\<lparr>h_first := e_next h e\<rparr> in if h_first h = None then h\<lparr>h_last := First\<rparr> else h)"

subsection \<open>Tail queues\<close>

text \<open>
  \<^verbatim>\<open>TAILQ_LAST\<close> and \<^verbatim>\<open>TAILQ_PREV\<close> take a \<^verbatim>\<open>struct type **\<close> for a head: behind the variable it points to
  lies the second field of the same structure, \<^verbatim>\<open>tqh_last\<close> or \<^verbatim>\<open>tqe_prev\<close>.
\<close>

fun second_field :: "slot \<Rightarrow> heap \<Rightarrow> slot" where
  "second_field First h = h_last h"
| "second_field (Next e) h = e_prev h e"

definition TAILQ_LAST :: "heap \<Rightarrow> ptr" where
  "TAILQ_LAST h = load (second_field (h_last h) h) h"

definition TAILQ_PREV :: "elem \<Rightarrow> heap \<Rightarrow> ptr" where
  "TAILQ_PREV e h = load (second_field (e_prev h e) h) h"

fun tailq_foreach_reverse :: "nat \<Rightarrow> ptr \<Rightarrow> heap \<Rightarrow> c_error + elem list" where
  "tailq_foreach_reverse 0 p h = Inl Endless_loop"
| "tailq_foreach_reverse (Suc n) p h =
     (case p of None \<Rightarrow> Inr []
      | Some e \<Rightarrow> bindE (tailq_foreach_reverse n (TAILQ_PREV e h) h) (\<lambda>es. Inr (e # es)))"

definition TAILQ_INIT :: "heap \<Rightarrow> heap" where
  "TAILQ_INIT h = h\<lparr>h_first := None, h_last := First\<rparr>"

definition TAILQ_INSERT_HEAD :: "elem \<Rightarrow> heap \<Rightarrow> c_error + heap" where
  "TAILQ_INSERT_HEAD e h =
     (let h = set_next e (h_first h) h in
      bindE (if e_next h e \<noteq> None then at_ptr (h_first h) (\<lambda>n. set_prev n (Next e) h)
             else Inr (h\<lparr>h_last := Next e\<rparr>)) (\<lambda>h.
      Inr (set_prev e First (h\<lparr>h_first := Some e\<rparr>))))"

definition TAILQ_INSERT_TAIL :: "elem \<Rightarrow> heap \<Rightarrow> c_error + heap" where
  "TAILQ_INSERT_TAIL e h =
     (let h = set_next e None h; h = set_prev e (h_last h) h; h = store_at (h_last h) (Some e) h in
      Inr (h\<lparr>h_last := Next e\<rparr>))"

definition TAILQ_INSERT_AFTER :: "elem \<Rightarrow> elem \<Rightarrow> heap \<Rightarrow> c_error + heap" where
  "TAILQ_INSERT_AFTER l e h =
     (let h = set_next e (e_next h l) h in
      bindE (if e_next h e \<noteq> None then at_ptr (e_next h e) (\<lambda>n. set_prev n (Next e) h)
             else Inr (h\<lparr>h_last := Next e\<rparr>)) (\<lambda>h.
      Inr (set_prev e (Next l) (set_next l (Some e) h))))"

definition TAILQ_INSERT_BEFORE :: "elem \<Rightarrow> elem \<Rightarrow> heap \<Rightarrow> c_error + heap" where
  "TAILQ_INSERT_BEFORE l e h =
     (let h = set_prev e (e_prev h l) h; h = set_next e (Some l) h; h = store_at (e_prev h l) (Some e) h in
      Inr (set_prev l (Next e) h))"

definition TAILQ_REMOVE :: "elem \<Rightarrow> heap \<Rightarrow> c_error + heap" where
  "TAILQ_REMOVE e h =
     bindE (if e_next h e \<noteq> None then at_ptr (e_next h e) (\<lambda>n. set_prev n (e_prev h e) h)
            else Inr (h\<lparr>h_last := e_prev h e\<rparr>)) (\<lambda>h.
     Inr (store_at (e_prev h e) (e_next h e) h))"

definition TAILQ_REPLACE :: "elem \<Rightarrow> elem \<Rightarrow> heap \<Rightarrow> c_error + heap" where
  "TAILQ_REPLACE e e2 h =
     (let h = set_next e2 (e_next h e) h in
      bindE (if e_next h e2 \<noteq> None then at_ptr (e_next h e2) (\<lambda>n. set_prev n (Next e2) h)
             else Inr (h\<lparr>h_last := Next e2\<rparr>)) (\<lambda>h.
      let h = set_prev e2 (e_prev h e) h in
      Inr (store_at (e_prev h e2) (Some e2) h)))"

subsection \<open>Circular queues\<close>

text \<open>Here a link that does not point to an element points to the head itself: \<^verbatim>\<open>CIRCLEQ_END(head)\<close>.\<close>

datatype link = End | Elem elem

record ring =
  c_first :: link
  c_last :: link
  c_next :: "elem \<Rightarrow> link"
  c_prev :: "elem \<Rightarrow> link"

text \<open>\<^verbatim>\<open>p->field.cqe_next = q\<close> and \<^verbatim>\<open>p->field.cqe_prev = q\<close>; the head has no such fields.\<close>

fun set_c_next :: "link \<Rightarrow> link \<Rightarrow> ring \<Rightarrow> c_error + ring" where
  "set_c_next End q r = Inl Out_of_bounds"
| "set_c_next (Elem e) q r = Inr (r\<lparr>c_next := (c_next r)(e := q)\<rparr>)"

fun set_c_prev :: "link \<Rightarrow> link \<Rightarrow> ring \<Rightarrow> c_error + ring" where
  "set_c_prev End q r = Inl Out_of_bounds"
| "set_c_prev (Elem e) q r = Inr (r\<lparr>c_prev := (c_prev r)(e := q)\<rparr>)"

definition CIRCLEQ_INIT :: "ring \<Rightarrow> ring" where
  "CIRCLEQ_INIT r = r\<lparr>c_first := End, c_last := End\<rparr>"

definition CIRCLEQ_INSERT_AFTER :: "elem \<Rightarrow> elem \<Rightarrow> ring \<Rightarrow> c_error + ring" where
  "CIRCLEQ_INSERT_AFTER l e r =
     bindE (set_c_next (Elem e) (c_next r l) r) (\<lambda>r.
     bindE (set_c_prev (Elem e) (Elem l) r) (\<lambda>r.
     bindE (if c_next r l = End then Inr (r\<lparr>c_last := Elem e\<rparr>) else set_c_prev (c_next r l) (Elem e) r) (\<lambda>r.
     set_c_next (Elem l) (Elem e) r)))"

definition CIRCLEQ_INSERT_BEFORE :: "elem \<Rightarrow> elem \<Rightarrow> ring \<Rightarrow> c_error + ring" where
  "CIRCLEQ_INSERT_BEFORE l e r =
     bindE (set_c_next (Elem e) (Elem l) r) (\<lambda>r.
     bindE (set_c_prev (Elem e) (c_prev r l) r) (\<lambda>r.
     bindE (if c_prev r l = End then Inr (r\<lparr>c_first := Elem e\<rparr>) else set_c_next (c_prev r l) (Elem e) r) (\<lambda>r.
     set_c_prev (Elem l) (Elem e) r)))"

definition CIRCLEQ_INSERT_HEAD :: "elem \<Rightarrow> ring \<Rightarrow> c_error + ring" where
  "CIRCLEQ_INSERT_HEAD e r =
     bindE (set_c_next (Elem e) (c_first r) r) (\<lambda>r.
     bindE (set_c_prev (Elem e) End r) (\<lambda>r.
     bindE (if c_last r = End then Inr (r\<lparr>c_last := Elem e\<rparr>) else set_c_prev (c_first r) (Elem e) r) (\<lambda>r.
     Inr (r\<lparr>c_first := Elem e\<rparr>))))"

definition CIRCLEQ_INSERT_TAIL :: "elem \<Rightarrow> ring \<Rightarrow> c_error + ring" where
  "CIRCLEQ_INSERT_TAIL e r =
     bindE (set_c_next (Elem e) End r) (\<lambda>r.
     bindE (set_c_prev (Elem e) (c_last r) r) (\<lambda>r.
     bindE (if c_first r = End then Inr (r\<lparr>c_first := Elem e\<rparr>) else set_c_next (c_last r) (Elem e) r) (\<lambda>r.
     Inr (r\<lparr>c_last := Elem e\<rparr>))))"

definition CIRCLEQ_REMOVE :: "elem \<Rightarrow> ring \<Rightarrow> c_error + ring" where
  "CIRCLEQ_REMOVE e r =
     bindE (if c_next r e = End then Inr (r\<lparr>c_last := c_prev r e\<rparr>) else set_c_prev (c_next r e) (c_prev r e) r) (\<lambda>r.
     if c_prev r e = End then Inr (r\<lparr>c_first := c_next r e\<rparr>) else set_c_next (c_prev r e) (c_next r e) r)"

fun circleq_foreach :: "nat \<Rightarrow> link \<Rightarrow> ring \<Rightarrow> c_error + elem list" where
  "circleq_foreach 0 p r = Inl Endless_loop"
| "circleq_foreach (Suc n) p r =
     (case p of End \<Rightarrow> Inr [] | Elem e \<Rightarrow> bindE (circleq_foreach n (c_next r e) r) (\<lambda>es. Inr (e # es)))"

fun circleq_foreach_reverse :: "nat \<Rightarrow> link \<Rightarrow> ring \<Rightarrow> c_error + elem list" where
  "circleq_foreach_reverse 0 p r = Inl Endless_loop"
| "circleq_foreach_reverse (Suc n) p r =
     (case p of End \<Rightarrow> Inr [] | Elem e \<Rightarrow> bindE (circleq_foreach_reverse n (c_prev r e) r) (\<lambda>es. Inr (e # es)))"

subsection \<open>Chains of links\<close>

text \<open>
  \<open>seg mk n p xs q\<close>: following the links \<open>n\<close> from \<open>p\<close> one meets the elements \<open>xs\<close> and then \<open>q\<close>.
  \<open>backs mk b s xs\<close>: the back links \<open>b\<close> of \<open>xs\<close> are the places in front of them, the first one \<open>s\<close>. \<open>mk\<close>
  makes the link or the place of an element.
\<close>

fun seg :: "(elem \<Rightarrow> 'p) \<Rightarrow> (elem \<Rightarrow> 'p) \<Rightarrow> 'p \<Rightarrow> elem list \<Rightarrow> 'p \<Rightarrow> bool" where
  "seg mk n p [] q \<longleftrightarrow> p = q"
| "seg mk n p (x # xs) q \<longleftrightarrow> p = mk x \<and> seg mk n (n x) xs q"

fun backs :: "(elem \<Rightarrow> 's) \<Rightarrow> (elem \<Rightarrow> 's) \<Rightarrow> 's \<Rightarrow> elem list \<Rightarrow> bool" where
  "backs mk b s [] \<longleftrightarrow> True"
| "backs mk b s (x # xs) \<longleftrightarrow> b x = s \<and> backs mk b (mk x) xs"

definition place_behind :: "(elem \<Rightarrow> 's) \<Rightarrow> 's \<Rightarrow> elem list \<Rightarrow> 's" where
  "place_behind mk s xs = (if xs = [] then s else mk (last xs))"

lemma place_behind_simps [simp]:
  "place_behind mk s [] = s" "place_behind mk s (xs @ [x]) = mk x" "place_behind mk s (x # xs) = place_behind mk (mk x) xs"
  "place_behind mk s (xs @ y # ys) = place_behind mk (mk y) ys"
  by (auto simp: place_behind_def)

lemma seg_append [simp]: "seg mk n p (xs @ ys) q \<longleftrightarrow> (\<exists>r. seg mk n p xs r \<and> seg mk n r ys q)"
  by (induction xs arbitrary: p) auto

lemma backs_append [simp]: "backs mk b s (xs @ ys) \<longleftrightarrow> backs mk b s xs \<and> backs mk b (place_behind mk s xs) ys"
  by (induction xs arbitrary: s) auto

lemma seg_upd [simp]: "a \<notin> set xs \<Longrightarrow> seg mk (n(a := v)) p xs q = seg mk n p xs q"
  by (induction xs arbitrary: p) auto

lemma backs_upd [simp]: "a \<notin> set xs \<Longrightarrow> backs mk (b(a := v)) s xs = backs mk b s xs"
  by (induction xs arbitrary: s) auto

text \<open>What the four kinds of lists and the ring look like in memory.\<close>

definition is_slist :: "heap \<Rightarrow> elem list \<Rightarrow> bool" where
  "is_slist h xs \<longleftrightarrow> distinct xs \<and> seg Some (e_next h) (h_first h) xs None"

definition is_list :: "heap \<Rightarrow> elem list \<Rightarrow> bool" where
  "is_list h xs \<longleftrightarrow> is_slist h xs \<and> backs Next (e_prev h) First xs"

definition is_simpleq :: "heap \<Rightarrow> elem list \<Rightarrow> bool" where
  "is_simpleq h xs \<longleftrightarrow> is_slist h xs \<and> h_last h = place_behind Next First xs"

definition is_tailq :: "heap \<Rightarrow> elem list \<Rightarrow> bool" where
  "is_tailq h xs \<longleftrightarrow> is_list h xs \<and> h_last h = place_behind Next First xs"

definition is_ring :: "ring \<Rightarrow> elem list \<Rightarrow> bool" where
  "is_ring r xs \<longleftrightarrow> distinct xs \<and> seg Elem (c_next r) (c_first r) xs End \<and> backs Elem (c_prev r) End xs \<and>
     c_last r = place_behind Elem End xs"

lemmas shape_defs = is_slist_def is_list_def is_simpleq_def is_tailq_def is_ring_def
lemmas link_defs = set_next_def set_prev_def at_ptr_def Let_def

text \<open>The operations on lists of elements.\<close>

datatype list_op = Insert_head elem | Insert_after elem elem | Insert_before elem elem | Remove elem

fun insert_at :: "bool \<Rightarrow> elem \<Rightarrow> elem \<Rightarrow> elem list \<Rightarrow> elem list" where
  "insert_at after l e [] = []"
| "insert_at after l e (x # xs) =
     (if x = l then (if after then x # e # xs else e # x # xs) else x # insert_at after l e xs)"

text \<open>The result, or \<^term>\<open>None\<close> when a new element is in the list or an old one is not.\<close>

fun list_spec :: "list_op \<Rightarrow> elem list \<Rightarrow> elem list option" where
  "list_spec (Insert_head e) xs = (if e \<in> set xs then None else Some (e # xs))"
| "list_spec (Insert_after l e) xs = (if e \<in> set xs \<or> l \<notin> set xs then None else Some (insert_at True l e xs))"
| "list_spec (Insert_before l e) xs = (if e \<in> set xs \<or> l \<notin> set xs then None else Some (insert_at False l e xs))"
| "list_spec (Remove e) xs = (if e \<notin> set xs then None else Some (remove1 e xs))"

lemma insert_at_split:
  "l \<notin> set ys \<Longrightarrow> insert_at True l e (ys @ l # zs) = ys @ l # e # zs"
  "l \<notin> set ys \<Longrightarrow> insert_at False l e (ys @ l # zs) = ys @ e # l # zs"
  by (induction ys) auto

lemma remove1_split: "e \<notin> set ys \<Longrightarrow> remove1 e (ys @ e # zs) = ys @ zs"
  by (simp add: remove1_append)

lemma distinct_split: "distinct xs \<Longrightarrow> l \<in> set xs \<Longrightarrow> \<exists>ys zs. xs = ys @ l # zs \<and> l \<notin> set ys"
  by (meson split_list_first)

text \<open>Lists.\<close>

lemma LIST_INSERT_HEAD_ok: "is_list h xs \<Longrightarrow> e \<notin> set xs \<Longrightarrow> \<exists>h'. LIST_INSERT_HEAD e h = Inr h' \<and> is_list h' (e # xs)"
  by (cases xs) (auto simp: shape_defs LIST_INSERT_HEAD_def link_defs)

lemma LIST_INSERT_AFTER_ok:
  "is_list h (ys @ l # zs) \<Longrightarrow> e \<notin> set (ys @ l # zs) \<Longrightarrow>
    \<exists>h'. LIST_INSERT_AFTER l e h = Inr h' \<and> is_list h' (ys @ l # e # zs)"
  by (cases zs) (auto simp: shape_defs LIST_INSERT_AFTER_def link_defs)

lemma LIST_INSERT_BEFORE_ok:
  "is_list h (ys @ l # zs) \<Longrightarrow> e \<notin> set (ys @ l # zs) \<Longrightarrow>
    \<exists>h'. LIST_INSERT_BEFORE l e h = Inr h' \<and> is_list h' (ys @ e # l # zs)"
  by (cases ys rule: rev_cases) (auto simp: shape_defs LIST_INSERT_BEFORE_def link_defs)

lemma LIST_REMOVE_ok:
  "is_list h (ys @ e # zs) \<Longrightarrow> \<exists>h'. LIST_REMOVE e h = Inr h' \<and> is_list h' (ys @ zs)"
  by (cases ys rule: rev_cases; cases zs) (auto simp: shape_defs LIST_REMOVE_def link_defs)

lemma LIST_REPLACE_ok:
  "is_list h (ys @ e # zs) \<Longrightarrow> e2 \<notin> set (ys @ e # zs) \<Longrightarrow> \<exists>h'. LIST_REPLACE e e2 h = Inr h' \<and> is_list h' (ys @ e2 # zs)"
  by (cases ys rule: rev_cases; cases zs) (auto simp: shape_defs LIST_REPLACE_def link_defs)

text \<open>Tail queues.\<close>

lemma TAILQ_INSERT_HEAD_ok: "is_tailq h xs \<Longrightarrow> e \<notin> set xs \<Longrightarrow> \<exists>h'. TAILQ_INSERT_HEAD e h = Inr h' \<and> is_tailq h' (e # xs)"
  by (cases xs) (auto simp: shape_defs TAILQ_INSERT_HEAD_def link_defs)

lemma TAILQ_INSERT_TAIL_ok: "is_tailq h xs \<Longrightarrow> e \<notin> set xs \<Longrightarrow> \<exists>h'. TAILQ_INSERT_TAIL e h = Inr h' \<and> is_tailq h' (xs @ [e])"
  by (cases xs rule: rev_cases) (auto simp: shape_defs TAILQ_INSERT_TAIL_def link_defs)

lemma TAILQ_INSERT_AFTER_ok:
  "is_tailq h (ys @ l # zs) \<Longrightarrow> e \<notin> set (ys @ l # zs) \<Longrightarrow>
    \<exists>h'. TAILQ_INSERT_AFTER l e h = Inr h' \<and> is_tailq h' (ys @ l # e # zs)"
  by (cases zs) (auto simp: shape_defs TAILQ_INSERT_AFTER_def link_defs)

lemma TAILQ_INSERT_BEFORE_ok:
  "is_tailq h (ys @ l # zs) \<Longrightarrow> e \<notin> set (ys @ l # zs) \<Longrightarrow>
    \<exists>h'. TAILQ_INSERT_BEFORE l e h = Inr h' \<and> is_tailq h' (ys @ e # l # zs)"
  by (cases ys rule: rev_cases) (auto simp: shape_defs TAILQ_INSERT_BEFORE_def link_defs)

lemma TAILQ_REMOVE_ok:
  "is_tailq h (ys @ e # zs) \<Longrightarrow> \<exists>h'. TAILQ_REMOVE e h = Inr h' \<and> is_tailq h' (ys @ zs)"
  by (cases ys rule: rev_cases; cases zs) (auto simp: shape_defs TAILQ_REMOVE_def link_defs)

lemma TAILQ_REPLACE_ok:
  "is_tailq h (ys @ e # zs) \<Longrightarrow> e2 \<notin> set (ys @ e # zs) \<Longrightarrow> \<exists>h'. TAILQ_REPLACE e e2 h = Inr h' \<and> is_tailq h' (ys @ e2 # zs)"
  by (cases ys rule: rev_cases; cases zs) (auto simp: shape_defs TAILQ_REPLACE_def link_defs)

text \<open>Circular queues.\<close>

lemma place_behind_not_End: "place_behind Elem (Elem a) xs \<noteq> End"
  by (simp add: place_behind_def)

lemma seg_End [simp]: "\<not> seg Elem n End ys (Elem y)"
  by (cases ys) auto

lemma CIRCLEQ_INSERT_HEAD_ok: "is_ring r xs \<Longrightarrow> e \<notin> set xs \<Longrightarrow> \<exists>r'. CIRCLEQ_INSERT_HEAD e r = Inr r' \<and> is_ring r' (e # xs)"
  by (cases xs) (auto simp: shape_defs CIRCLEQ_INSERT_HEAD_def place_behind_not_End)

lemma CIRCLEQ_INSERT_TAIL_ok: "is_ring r xs \<Longrightarrow> e \<notin> set xs \<Longrightarrow> \<exists>r'. CIRCLEQ_INSERT_TAIL e r = Inr r' \<and> is_ring r' (xs @ [e])"
  by (cases xs rule: rev_cases) (auto simp: shape_defs CIRCLEQ_INSERT_TAIL_def)

lemma CIRCLEQ_INSERT_AFTER_ok:
  "is_ring r (ys @ l # zs) \<Longrightarrow> e \<notin> set (ys @ l # zs) \<Longrightarrow>
    \<exists>r'. CIRCLEQ_INSERT_AFTER l e r = Inr r' \<and> is_ring r' (ys @ l # e # zs)"
  by (cases zs) (auto simp: shape_defs CIRCLEQ_INSERT_AFTER_def)

lemma CIRCLEQ_INSERT_BEFORE_ok:
  "is_ring r (ys @ l # zs) \<Longrightarrow> e \<notin> set (ys @ l # zs) \<Longrightarrow>
    \<exists>r'. CIRCLEQ_INSERT_BEFORE l e r = Inr r' \<and> is_ring r' (ys @ e # l # zs)"
  by (cases ys rule: rev_cases) (auto simp: shape_defs CIRCLEQ_INSERT_BEFORE_def)

lemma CIRCLEQ_REMOVE_ok:
  "is_ring r (ys @ e # zs) \<Longrightarrow> \<exists>r'. CIRCLEQ_REMOVE e r = Inr r' \<and> is_ring r' (ys @ zs)"
  by (cases ys rule: rev_cases; cases zs) (auto simp: shape_defs CIRCLEQ_REMOVE_def)

subsection \<open>The interface of a linked list\<close>

text \<open>
  What the macros of a doubly linked list promise: each of them returns and does to the list in memory
  what the operation on lists does. A list with a tail has one more.
\<close>

locale linked_list =
  fixes is_at :: "'h \<Rightarrow> elem list \<Rightarrow> bool"
    and insert_head :: "elem \<Rightarrow> 'h \<Rightarrow> c_error + 'h"
    and insert_after :: "elem \<Rightarrow> elem \<Rightarrow> 'h \<Rightarrow> c_error + 'h"
    and insert_before :: "elem \<Rightarrow> elem \<Rightarrow> 'h \<Rightarrow> c_error + 'h"
    and remove :: "elem \<Rightarrow> 'h \<Rightarrow> c_error + 'h"
  assumes at_distinct: "is_at h xs \<Longrightarrow> distinct xs"
    and head_ok: "is_at h xs \<Longrightarrow> e \<notin> set xs \<Longrightarrow> \<exists>h'. insert_head e h = Inr h' \<and> is_at h' (e # xs)"
    and after_ok: "is_at h (ys @ l # zs) \<Longrightarrow> e \<notin> set (ys @ l # zs) \<Longrightarrow>
      \<exists>h'. insert_after l e h = Inr h' \<and> is_at h' (ys @ l # e # zs)"
    and before_ok: "is_at h (ys @ l # zs) \<Longrightarrow> e \<notin> set (ys @ l # zs) \<Longrightarrow>
      \<exists>h'. insert_before l e h = Inr h' \<and> is_at h' (ys @ e # l # zs)"
    and remove_ok: "is_at h (ys @ e # zs) \<Longrightarrow> \<exists>h'. remove e h = Inr h' \<and> is_at h' (ys @ zs)"
begin

fun apply_op :: "list_op \<Rightarrow> 'h \<Rightarrow> c_error + 'h" where
  "apply_op (Insert_head e) h = insert_head e h"
| "apply_op (Insert_after l e) h = insert_after l e h"
| "apply_op (Insert_before l e) h = insert_before l e h"
| "apply_op (Remove e) h = remove e h"

fun run :: "list_op list \<Rightarrow> 'h \<Rightarrow> c_error + 'h" where
  "run [] h = Inr h"
| "run (q # qs) h = bindE (apply_op q h) (run qs)"

lemma apply_op_ok:
  assumes "is_at h xs" and "list_spec q xs = Some ys"
  shows "\<exists>h'. apply_op q h = Inr h' \<and> is_at h' ys"
proof (cases q)
  case (Insert_head e)
  with assms head_ok show ?thesis by (auto split: if_splits)
next
  case (Insert_after l e)
  with assms(2) have e: "e \<notin> set xs" "l \<in> set xs" "ys = insert_at True l e xs" by (auto split: if_splits)
  obtain as bs where "xs = as @ l # bs" "l \<notin> set as" using distinct_split at_distinct assms(1) e(2) by metis
  with Insert_after e after_ok [of h as l bs e] assms(1) show ?thesis by (simp add: insert_at_split)
next
  case (Insert_before l e)
  with assms(2) have e: "e \<notin> set xs" "l \<in> set xs" "ys = insert_at False l e xs" by (auto split: if_splits)
  obtain as bs where "xs = as @ l # bs" "l \<notin> set as" using distinct_split at_distinct assms(1) e(2) by metis
  with Insert_before e before_ok [of h as l bs e] assms(1) show ?thesis by (simp add: insert_at_split)
next
  case (Remove e)
  with assms(2) have e: "e \<in> set xs" "ys = remove1 e xs" by (auto split: if_splits)
  obtain as bs where "xs = as @ e # bs" "e \<notin> set as" using distinct_split at_distinct assms(1) e(1) by metis
  with Remove e remove_ok [of h as e bs] assms(1) show ?thesis by (simp add: remove1_split)
qed

end

text \<open>The operations one after the other on lists of elements.\<close>

fun list_specs :: "list_op list \<Rightarrow> elem list \<Rightarrow> elem list option" where
  "list_specs [] xs = Some xs"
| "list_specs (q # qs) xs = (case list_spec q xs of None \<Rightarrow> None | Some ys \<Rightarrow> list_specs qs ys)"

context linked_list begin

lemma run_refines:
  assumes "is_at h xs" and "list_specs qs xs = Some ys"
  shows "\<exists>h'. run qs h = Inr h' \<and> is_at h' ys"
  using assms
proof (induction qs arbitrary: h xs)
  case (Cons q qs)
  then obtain zs where zs: "list_spec q xs = Some zs" "list_specs qs zs = Some ys" by (auto split: option.splits)
  obtain h1 where "apply_op q h = Inr h1" "is_at h1 zs" using apply_op_ok [OF Cons.prems(1) zs(1)] by blast
  with Cons.IH [OF _ zs(2)] show ?case by simp
qed simp

end

locale linked_queue = linked_list +
  fixes insert_tail :: "elem \<Rightarrow> 'a \<Rightarrow> c_error + 'a"
  assumes tail_ok: "is_at h xs \<Longrightarrow> e \<notin> set xs \<Longrightarrow> \<exists>h'. insert_tail e h = Inr h' \<and> is_at h' (xs @ [e])"
begin

text \<open>A queue that is filled at its tail.\<close>

fun fill :: "elem list \<Rightarrow> 'a \<Rightarrow> c_error + 'a" where
  "fill [] h = Inr h"
| "fill (e # es) h = bindE (insert_tail e h) (fill es)"

lemma fill_ok: "is_at h xs \<Longrightarrow> distinct (xs @ es) \<Longrightarrow> \<exists>h'. fill es h = Inr h' \<and> is_at h' (xs @ es)"
proof (induction es arbitrary: h xs)
  case (Cons e es)
  obtain h1 where "insert_tail e h = Inr h1" "is_at h1 (xs @ [e])" using tail_ok [OF Cons.prems(1), of e] Cons.prems(2) by auto
  with Cons.IH [of h1 "xs @ [e]"] Cons.prems(2) show ?case by simp
qed simp

lemma fill_run_refines:
  assumes "is_at h []" and "distinct es" and "list_specs qs es = Some ys"
  shows "\<exists>h'. bindE (fill es h) (run qs) = Inr h' \<and> is_at h' ys"
  using fill_ok [OF assms(1), of es] run_refines [OF _ assms(3)] assms(2) by fastforce

end

interpretation llist: linked_list is_list LIST_INSERT_HEAD LIST_INSERT_AFTER LIST_INSERT_BEFORE LIST_REMOVE
  by unfold_locales
     (auto simp: LIST_INSERT_HEAD_ok LIST_INSERT_AFTER_ok LIST_INSERT_BEFORE_ok LIST_REMOVE_ok, simp add: is_list_def is_slist_def)

interpretation tailq: linked_queue is_tailq TAILQ_INSERT_HEAD TAILQ_INSERT_AFTER TAILQ_INSERT_BEFORE TAILQ_REMOVE TAILQ_INSERT_TAIL
  by unfold_locales
     (auto simp: TAILQ_INSERT_HEAD_ok TAILQ_INSERT_AFTER_ok TAILQ_INSERT_BEFORE_ok TAILQ_REMOVE_ok TAILQ_INSERT_TAIL_ok,
      simp add: is_tailq_def is_list_def is_slist_def)

interpretation circleq: linked_queue is_ring CIRCLEQ_INSERT_HEAD CIRCLEQ_INSERT_AFTER CIRCLEQ_INSERT_BEFORE CIRCLEQ_REMOVE CIRCLEQ_INSERT_TAIL
  by unfold_locales
     (auto simp: CIRCLEQ_INSERT_HEAD_ok CIRCLEQ_INSERT_AFTER_ok CIRCLEQ_INSERT_BEFORE_ok CIRCLEQ_REMOVE_ok CIRCLEQ_INSERT_TAIL_ok,
      simp add: is_ring_def)

subsection \<open>Walking through a list\<close>

lemma foreach_seg: "seg Some (e_next h) p xs None \<Longrightarrow> length xs < n \<Longrightarrow> foreach n p h = Inr xs"
proof (induction xs arbitrary: p n)
  case Nil
  then show ?case by (cases n) auto
next
  case (Cons x xs)
  then show ?case by (cases n) auto
qed

lemma circleq_foreach_seg: "seg Elem (c_next r) p xs End \<Longrightarrow> length xs < n \<Longrightarrow> circleq_foreach n p r = Inr xs"
proof (induction xs arbitrary: p n)
  case Nil
  then show ?case by (cases n) auto
next
  case (Cons x xs)
  then show ?case by (cases n) auto
qed

lemma circleq_reverse_backs:
  "backs Elem (c_prev r) End xs \<Longrightarrow> length xs < n \<Longrightarrow> circleq_foreach_reverse n (place_behind Elem End xs) r = Inr (rev xs)"
proof (induction xs arbitrary: n rule: rev_induct)
  case Nil
  then show ?case by (cases n) auto
next
  case (snoc x xs)
  then show ?case by (cases n) auto
qed

text \<open>
  \<^verbatim>\<open>TAILQ_PREV\<close> and \<^verbatim>\<open>TAILQ_LAST\<close> find the predecessor: the link in front of the link in front of an element
  points to it, and in front of the head stands the link of the last element, which is \<^verbatim>\<open>NULL\<close>.
\<close>

lemma load_last: "is_tailq h xs \<Longrightarrow> load (h_last h) h = None"
  by (cases xs rule: rev_cases) (auto simp: shape_defs)

lemma load_before:
  "is_tailq h (xs @ [b] @ ys) \<Longrightarrow> load (place_behind Next First xs) h = Some b"
  by (cases xs rule: rev_cases) (auto simp: shape_defs)

lemma TAILQ_PREV_eq: "is_tailq h (xs @ x # ys) \<Longrightarrow> TAILQ_PREV x h = (if xs = [] then None else Some (last xs))"
proof (cases xs rule: rev_cases)
  case Nil
  assume a: "is_tailq h (xs @ x # ys)"
  then have "e_prev h x = First" using Nil by (simp add: shape_defs)
  then show ?thesis using load_last [OF a] Nil by (simp add: TAILQ_PREV_def)
next
  case (snoc bs b)
  assume a: "is_tailq h (xs @ x # ys)"
  then have "e_prev h x = Next b" "e_prev h b = place_behind Next First bs" using snoc by (simp_all add: shape_defs)
  then show ?thesis using load_before [of h bs b "x # ys"] a snoc by (simp add: TAILQ_PREV_def)
qed

lemma TAILQ_LAST_eq: "is_tailq h xs \<Longrightarrow> TAILQ_LAST h = (if xs = [] then None else Some (last xs))"
proof (cases xs rule: rev_cases)
  case Nil
  assume a: "is_tailq h xs"
  with Nil show ?thesis by (simp add: TAILQ_LAST_def shape_defs)
next
  case (snoc bs b)
  assume a: "is_tailq h xs"
  then have "h_last h = Next b" "e_prev h b = place_behind Next First bs" using snoc by (simp_all add: shape_defs)
  then show ?thesis using load_before [of h bs b "[]"] a snoc by (simp add: TAILQ_LAST_def)
qed

lemma tailq_reverse_from:
  "is_tailq h (xs @ ys) \<Longrightarrow> length xs < n \<Longrightarrow>
    tailq_foreach_reverse n (if xs = [] then None else Some (last xs)) h = Inr (rev xs)"
proof (induction xs arbitrary: n ys rule: rev_induct)
  case Nil
  then show ?case by (cases n) auto
next
  case (snoc x xs)
  obtain k where k: "n = Suc k" "length xs < k" using snoc.prems(2) by (cases n) auto
  have "tailq_foreach_reverse k (if xs = [] then None else Some (last xs)) h = Inr (rev xs)"
    using snoc.prems(1) k(2) by (intro snoc.IH [of "x # ys"]) simp_all
  moreover have "TAILQ_PREV x h = (if xs = [] then None else Some (last xs))"
    using snoc.prems(1) by (intro TAILQ_PREV_eq [of h xs x ys]) simp
  ultimately show ?case by (simp add: k(1))
qed

lemma tailq_walks:
  assumes "is_tailq h xs"
  shows "foreach (length xs + 1) (h_first h) h = Inr xs"
    and "tailq_foreach_reverse (length xs + 1) (TAILQ_LAST h) h = Inr (rev xs)"
  using assms foreach_seg [of h "h_first h" xs] tailq_reverse_from [of h xs "[]"] TAILQ_LAST_eq [OF assms]
  by (simp_all add: shape_defs del: foreach.simps tailq_foreach_reverse.simps)

lemma circleq_walks:
  assumes "is_ring r xs"
  shows "circleq_foreach (length xs + 1) (c_first r) r = Inr xs"
    and "circleq_foreach_reverse (length xs + 1) (c_last r) r = Inr (rev xs)"
  using assms circleq_foreach_seg [of r "c_first r" xs] circleq_reverse_backs [of r xs]
  by (simp_all add: shape_defs del: circleq_foreach.simps circleq_foreach_reverse.simps)

subsection \<open>Singly linked lists and simple queues\<close>

lemma SLIST_INSERT_HEAD_ok: "is_slist h xs \<Longrightarrow> e \<notin> set xs \<Longrightarrow> is_slist (SLIST_INSERT_HEAD e h) (e # xs)"
  by (simp add: is_slist_def SLIST_INSERT_HEAD_def set_next_def)

lemma SLIST_INSERT_AFTER_ok:
  "is_slist h (ys @ l # zs) \<Longrightarrow> e \<notin> set (ys @ l # zs) \<Longrightarrow> is_slist (SLIST_INSERT_AFTER l e h) (ys @ l # e # zs)"
  by (auto simp: is_slist_def SLIST_INSERT_AFTER_def set_next_def)

lemma SLIST_REMOVE_HEAD_ok: "is_slist h (x # xs) \<Longrightarrow> \<exists>h'. SLIST_REMOVE_HEAD h = Inr h' \<and> is_slist h' xs"
  by (simp add: is_slist_def SLIST_REMOVE_HEAD_def at_ptr_def)

lemma slist_before_found:
  "seg Some (e_next h) p (ys @ [c, e] @ zs) None \<Longrightarrow> distinct (ys @ [c, e] @ zs) \<Longrightarrow> length ys < n \<Longrightarrow>
    slist_before n e p h = Inr c"
proof (induction ys arbitrary: p n)
  case Nil
  then show ?case by (cases n) auto
next
  case (Cons y ys)
  then obtain k where k: "n = Suc k" "length ys < k" by (cases n) auto
  have "e_next h y \<noteq> Some e" using Cons.prems(1,2) by (cases ys) auto
  with Cons k show ?case by auto
qed

lemma slist_before_missing:
  "seg Some (e_next h) p xs None \<Longrightarrow> e \<notin> set (tl xs) \<Longrightarrow> length xs < n \<Longrightarrow> slist_before n e p h = Inl Null_pointer"
proof (induction xs arbitrary: p n)
  case Nil
  then show ?case by (cases n) auto
next
  case (Cons y ys)
  then obtain k where k: "n = Suc k" "length ys < k" by (cases n) auto
  have "e_next h y \<noteq> Some e" using Cons.prems(1,2) by (cases ys) auto
  moreover have "e \<notin> set (tl ys)" using Cons.prems(2) by (cases ys) auto
  ultimately show ?case using Cons k by auto
qed

lemma SLIST_REMOVE_ok:
  assumes "is_slist h xs" and "length xs < n"
  shows "if e \<in> set xs then \<exists>h'. SLIST_REMOVE n e h = Inr h' \<and> is_slist h' (remove1 e xs)
    else SLIST_REMOVE n e h = Inl Null_pointer"
proof (cases "e \<in> set xs")
  case True
  then obtain ys zs where s: "xs = ys @ e # zs" "e \<notin> set ys" by (meson split_list_first)
  show ?thesis
  proof (cases ys rule: rev_cases)
    case Nil
    with s assms(1) SLIST_REMOVE_HEAD_ok [of h e zs] show ?thesis
      by (auto simp: SLIST_REMOVE_def is_slist_def)
  next
    case (snoc bs c)
    with s assms have q: "seg Some (e_next h) (h_first h) (bs @ [c, e] @ zs) None" "distinct (bs @ [c, e] @ zs)" "length bs < n"
      by (simp_all add: is_slist_def)
    have "h_first h \<noteq> Some e" using q(1,2) by (cases bs) auto
    with q slist_before_found [OF q] s snoc show ?thesis
      by (auto simp: SLIST_REMOVE_def at_ptr_def is_slist_def set_next_def remove1_append)
  qed
next
  case False
  then have "h_first h \<noteq> Some e" "e \<notin> set (tl xs)" using assms(1) by (cases xs; auto simp: is_slist_def)+
  with False assms slist_before_missing [of h "h_first h" xs e n] show ?thesis
    by (auto simp: SLIST_REMOVE_def is_slist_def)
qed

lemma SIMPLEQ_INSERT_HEAD_ok: "is_simpleq h xs \<Longrightarrow> e \<notin> set xs \<Longrightarrow> is_simpleq (SIMPLEQ_INSERT_HEAD e h) (e # xs)"
  by (cases xs) (auto simp: shape_defs SIMPLEQ_INSERT_HEAD_def link_defs)

lemma SIMPLEQ_INSERT_TAIL_ok: "is_simpleq h xs \<Longrightarrow> e \<notin> set xs \<Longrightarrow> is_simpleq (SIMPLEQ_INSERT_TAIL e h) (xs @ [e])"
  by (cases xs rule: rev_cases) (auto simp: shape_defs SIMPLEQ_INSERT_TAIL_def link_defs)

lemma SIMPLEQ_INSERT_AFTER_ok:
  "is_simpleq h (ys @ l # zs) \<Longrightarrow> e \<notin> set (ys @ l # zs) \<Longrightarrow> is_simpleq (SIMPLEQ_INSERT_AFTER l e h) (ys @ l # e # zs)"
  by (cases zs) (auto simp: shape_defs SIMPLEQ_INSERT_AFTER_def link_defs)

lemma SIMPLEQ_REMOVE_HEAD_ok: "is_simpleq h (x # xs) \<Longrightarrow> is_simpleq (SIMPLEQ_REMOVE_HEAD x h) xs"
  by (cases xs) (auto simp: shape_defs SIMPLEQ_REMOVE_HEAD_def Let_def)

text \<open>
  The use of the message queue: \<^term>\<open>Some e\<close> appends \<open>e\<close>, \<^term>\<open>None\<close> takes the first element, if there is one,
  and processes it.
\<close>

fun simpleq_run :: "elem option list \<Rightarrow> heap \<Rightarrow> elem list \<times> heap" where
  "simpleq_run [] h = ([], h)"
| "simpleq_run (Some e # es) h = simpleq_run es (SIMPLEQ_INSERT_TAIL e h)"
| "simpleq_run (None # es) h =
     (case h_first h of
        None \<Rightarrow> simpleq_run es h
      | Some x \<Rightarrow> (case simpleq_run es (SIMPLEQ_REMOVE_HEAD x h) of (out, h) \<Rightarrow> (x # out, h)))"

definition appended :: "elem option list \<Rightarrow> elem list" where
  "appended es = map the (filter (\<lambda>e. e \<noteq> None) es)"

lemma simpleq_run_ok:
  "is_simpleq h xs \<Longrightarrow> distinct (xs @ appended es) \<Longrightarrow>
    \<exists>out h' ys. simpleq_run es h = (out, h') \<and> is_simpleq h' ys \<and> out @ ys = xs @ appended es"
proof (induction es h arbitrary: xs rule: simpleq_run.induct)
  case (2 e es h)
  have "is_simpleq (SIMPLEQ_INSERT_TAIL e h) (xs @ [e])"
    using "2.prems" by (intro SIMPLEQ_INSERT_TAIL_ok) (auto simp: appended_def)
  from "2.IH" [OF this] "2.prems"(2) show ?case by (simp add: appended_def)
next
  case (3 es h)
  show ?case
  proof (cases xs)
    case Nil
    with "3.prems" have "h_first h = None" by (simp add: shape_defs)
    with "3.IH"(1) [OF this, of xs] "3.prems" show ?thesis by (simp add: appended_def)
  next
    case (Cons x ys)
    with "3.prems" have x: "h_first h = Some x" by (simp add: shape_defs)
    have "is_simpleq (SIMPLEQ_REMOVE_HEAD x h) ys" using "3.prems"(1) Cons by (intro SIMPLEQ_REMOVE_HEAD_ok) simp
    from "3.IH"(2) [OF x this] "3.prems"(2) Cons
    obtain out h' zs where "simpleq_run es (SIMPLEQ_REMOVE_HEAD x h) = (out, h')" "is_simpleq h' zs" "out @ zs = ys @ appended es"
      by (auto simp: appended_def)
    with x Cons show ?thesis by (auto simp: appended_def intro: exI [of _ zs])
  qed
qed (simp add: appended_def)

subsection \<open>Properties\<close>

text \<open>
  C26: The \<^verbatim>\<open>LIST\<close> macros implement lists: after any sequence of insertions and removals whose operations
  make sense one after the other, no link was \<^verbatim>\<open>NULL\<close> where the macros follow it, the links in memory
  again form a list with its back links, \<^verbatim>\<open>LIST_FOREACH\<close> visits exactly the elements the operations on
  lists give, in order, and \<^verbatim>\<open>LIST_REPLACE\<close> puts a new element in the place of any of them.
\<close>

theorem list_macros_refine:
  assumes "is_list h xs" and "list_specs qs xs = Some (ys @ e # zs)" and "e2 \<notin> set (ys @ e # zs)"
  shows "\<exists>h' h''. llist.run qs h = Inr h' \<and> foreach (length (ys @ e # zs) + 1) (h_first h') h' = Inr (ys @ e # zs) \<and>
    LIST_REPLACE e e2 h' = Inr h'' \<and> foreach (length (ys @ e # zs) + 1) (h_first h'') h'' = Inr (ys @ e2 # zs)"
proof -
  obtain h' where h': "llist.run qs h = Inr h'" "is_list h' (ys @ e # zs)"
    using llist.run_refines [OF assms(1,2)] by blast
  obtain h'' where h'': "LIST_REPLACE e e2 h' = Inr h''" "is_list h'' (ys @ e2 # zs)"
    using LIST_REPLACE_ok [OF h'(2) assms(3)] by blast
  show ?thesis
    using h' h'' foreach_seg [of h' "h_first h'" "ys @ e # zs"] foreach_seg [of h'' "h_first h''" "ys @ e2 # zs"]
    by (auto simp: is_list_def is_slist_def simp del: foreach.simps seg_append)
qed

definition empty_heap :: heap where
  "empty_heap = LIST_INIT \<lparr>h_first = Some 0, h_last = First, e_next = (\<lambda>_. Some 0), e_prev = (\<lambda>_. Next 0)\<rparr>"

lemma list_macros_refine_witness:
  "\<exists>h' h''. llist.run [Insert_head 1, Insert_after 1 2, Insert_before 2 3, Remove 1] empty_heap = Inr h' \<and>
    foreach 3 (h_first h') h' = Inr [3, 2] \<and> LIST_REPLACE 2 4 h' = Inr h'' \<and> foreach 3 (h_first h'') h'' = Inr [3, 4]"
proof -
  have "is_list empty_heap []" by (simp add: empty_heap_def LIST_INIT_def is_list_def is_slist_def)
  from list_macros_refine [OF this, of "[Insert_head 1, Insert_after 1 2, Insert_before 2 3, Remove 1]" "[3]" 2 "[]" 4]
  show ?thesis by (simp add: eval_nat_numeral del: llist.run.simps foreach.simps)
qed

text \<open>
  C27: Every sequence of \<^verbatim>\<open>TAILQ\<close> operations on a queue filled at its tail leaves a well formed tail queue:
  each element points to its successor, to the link that leads to it, and the head to the last link. So
  \<^verbatim>\<open>TAILQ_FOREACH\<close> and \<^verbatim>\<open>TAILQ_FOREACH_REVERSE\<close>, which takes the link in front of an element for a head,
  visit the same elements in opposite orders.
\<close>

theorem tailq_operations_wellformed:
  assumes "is_tailq h []" and "distinct es" and "list_specs qs es = Some ys"
  shows "\<exists>h'. bindE (tailq.fill es h) (tailq.run qs) = Inr h' \<and> is_tailq h' ys \<and>
    foreach (length ys + 1) (h_first h') h' = Inr ys \<and>
    tailq_foreach_reverse (length ys + 1) (TAILQ_LAST h') h' = Inr (rev ys)"
  using tailq.fill_run_refines [OF assms] tailq_walks by blast

lemma tailq_operations_wellformed_witness:
  "\<exists>h'. bindE (tailq.fill [1, 2, 3] (TAILQ_INIT empty_heap)) (tailq.run [Insert_before 2 5, Remove 3]) = Inr h' \<and>
    tailq_foreach_reverse 4 (TAILQ_LAST h') h' = Inr [2, 5, 1]"
proof -
  have "is_tailq (TAILQ_INIT empty_heap) []"
    by (simp add: TAILQ_INIT_def empty_heap_def LIST_INIT_def is_tailq_def is_list_def is_slist_def)
  from tailq_operations_wellformed [OF this, of "[1, 2, 3]" "[Insert_before 2 5, Remove 3]" "[1, 5, 2]"]
  show ?thesis by (auto simp: eval_nat_numeral simp del: tailq.run.simps tailq.fill.simps tailq_foreach_reverse.simps)
qed

text \<open>
  The same for the \<^verbatim>\<open>CIRCLEQ\<close> operations, whose last element points to the head.
\<close>

theorem circleq_operations_wellformed:
  assumes "is_ring r []" and "distinct es" and "list_specs qs es = Some ys"
  shows "\<exists>r'. bindE (circleq.fill es r) (circleq.run qs) = Inr r' \<and> is_ring r' ys \<and>
    circleq_foreach (length ys + 1) (c_first r') r' = Inr ys \<and>
    circleq_foreach_reverse (length ys + 1) (c_last r') r' = Inr (rev ys)"
  using circleq.fill_run_refines [OF assms] circleq_walks by blast

lemma circleq_operations_wellformed_witness:
  "\<exists>r'. bindE (circleq.fill [1, 2, 3] (CIRCLEQ_INIT \<lparr>c_first = Elem 0, c_last = Elem 0, c_next = Elem, c_prev = Elem\<rparr>))
      (circleq.run [Insert_after 3 5, Remove 1]) = Inr r' \<and>
    circleq_foreach_reverse 4 (c_last r') r' = Inr [5, 3, 2]"
proof -
  have "is_ring (CIRCLEQ_INIT \<lparr>c_first = Elem 0, c_last = Elem 0, c_next = Elem, c_prev = Elem\<rparr>) []"
    by (simp add: CIRCLEQ_INIT_def is_ring_def)
  from circleq_operations_wellformed [OF this, of "[1, 2, 3]" "[Insert_after 3 5, Remove 1]" "[2, 3, 5]"]
  show ?thesis by (auto simp: eval_nat_numeral simp del: circleq.run.simps circleq.fill.simps circleq_foreach_reverse.simps)
qed

text \<open>
  A \<^verbatim>\<open>SIMPLEQ\<close> that is filled at its tail and emptied at its head, in any order of the two, hands the
  elements out in the order in which they came: none is lost, and none comes twice.
\<close>

theorem simpleq_first_in_first_out:
  assumes "is_simpleq h xs" and "distinct (xs @ appended es)"
  shows "\<exists>out h' ys. simpleq_run es h = (out, h') \<and> is_simpleq h' ys \<and> out @ ys = xs @ appended es"
  by (rule simpleq_run_ok [OF assms])

lemma simpleq_first_in_first_out_witness:
  "\<exists>h' ys. simpleq_run [Some 1, None, None, Some 2, Some 3, None] (SIMPLEQ_INIT empty_heap) = ([1, 2], h') \<and>
    is_simpleq h' ys \<and> [1, 2] @ ys = [1, 2, 3]"
proof -
  let ?es = "[Some 1, None, None, Some 2, Some (3 :: nat), None]"
  have "is_simpleq (SIMPLEQ_INIT empty_heap) []" by (simp add: SIMPLEQ_INIT_def is_simpleq_def is_slist_def)
  moreover have "fst (simpleq_run ?es (SIMPLEQ_INIT empty_heap)) = [1, 2]"
    by (simp add: SIMPLEQ_INIT_def SIMPLEQ_INSERT_TAIL_def SIMPLEQ_REMOVE_HEAD_def set_next_def empty_heap_def LIST_INIT_def)
  ultimately show ?thesis
    using simpleq_first_in_first_out [of "SIMPLEQ_INIT empty_heap" "[]" ?es] by (auto simp: appended_def simp del: simpleq_run.simps)
qed

end
