(* ===== verification/Ui_Threads.thy ===== *)
theory Ui_Threads
  imports Ui Queue Locks
begin

text \<open>
  \<^verbatim>\<open>ui_msg\<close> and \<^verbatim>\<open>ui_msg_flush\<close> of \<^verbatim>\<open>src/lmap_ui.c\<close> as several threads run them: every access to the shared
  queue, a \<^verbatim>\<open>SIMPLEQ\<close> in memory, is a step of its own, and the steps of the threads interleave. They behave as
  the operations of the theory Ui, one after the other.
\<close>

subsection \<open>Threads at the queue\<close>

text \<open>
  Where a thread is. In \<^verbatim>\<open>ui_msg\<close>: with a message, in front of the lock; in front of each of the three
  assignments of \<^verbatim>\<open>SIMPLEQ_INSERT_TAIL\<close>. In \<^verbatim>\<open>ui_msg_flush(mx)\<close>: in front of the lock; at the condition of the
  loop, with the counter; behind the display of the first element; behind the first assignment of
  \<^verbatim>\<open>SIMPLEQ_REMOVE_HEAD\<close>. In both: in front of the unlock.
\<close>

datatype ui_pc =
    Away
  | Msg_ready elem
  | Insert_next elem
  | Insert_link elem
  | Insert_last elem
  | Flush_enter int
  | Flush_test int int
  | Flush_displayed int int elem
  | Flush_removed int int elem
  | Unlock

text \<open>
  The memory of the queue, the texts of its elements, the elements that are allocated, the mutex, and what has
  been displayed. \<open>events\<close> is a history variable: the operations in the order in which they are done.
\<close>

record ui_threads =
  mem :: heap
  texts :: "elem \<Rightarrow> string"
  live :: "elem set"
  ui_mx :: "tid option"
  place :: "tid \<Rightarrow> ui_pc"
  printed :: "string list"
  events :: "(string + int) list"

definition goes :: "tid \<Rightarrow> ui_pc \<Rightarrow> ui_threads \<Rightarrow> ui_threads" where
  "goes t p s = s\<lparr>place := (place s)(t := p)\<rparr>"

definition done_with :: "string + int \<Rightarrow> ui_threads \<Rightarrow> ui_threads" where
  "done_with ev s = s\<lparr>events := events s @ [ev]\<rparr>"

text \<open>
  \<^verbatim>\<open>ui_msg_flush\<close> looks at the queue once without the lock; when it is empty there, it returns, which changes nothing.
\<close>

inductive ui_step :: "ui_threads \<Rightarrow> ui_threads \<Rightarrow> bool" where
  message: "place s t = Away \<Longrightarrow> e \<notin> live s \<Longrightarrow>
    ui_step s (goes t (Msg_ready e) (s\<lparr>texts := (texts s)(e := m), live := insert e (live s)\<rparr>))"
| msg_lock: "place s t = Msg_ready e \<Longrightarrow> ui_mx s = None \<Longrightarrow>
    ui_step s (goes t (Insert_next e) (s\<lparr>ui_mx := Some t\<rparr>))"
| insert_next: "place s t = Insert_next e \<Longrightarrow>
    ui_step s (goes t (Insert_link e) (s\<lparr>mem := set_next e None (mem s)\<rparr>))"
| insert_link: "place s t = Insert_link e \<Longrightarrow>
    ui_step s (goes t (Insert_last e) (s\<lparr>mem := store_at (h_last (mem s)) (Some e) (mem s)\<rparr>))"
| insert_last: "place s t = Insert_last e \<Longrightarrow>
    ui_step s (goes t Unlock (done_with (Inl (texts s e)) (s\<lparr>mem := (mem s)\<lparr>h_last := Next e\<rparr>\<rparr>)))"
| flush_call: "place s t = Away \<Longrightarrow> h_first (mem s) \<noteq> None \<Longrightarrow> ui_step s (goes t (Flush_enter mx) s)"
| flush_lock: "place s t = Flush_enter mx \<Longrightarrow> ui_mx s = None \<Longrightarrow>
    ui_step s (goes t (Flush_test mx 0) (s\<lparr>ui_mx := Some t\<rparr>))"
| flush_empty: "place s t = Flush_test mx i \<Longrightarrow> h_first (mem s) = None \<Longrightarrow>
    ui_step s (goes t Unlock (done_with (Inr mx) s))"
| flush_display: "place s t = Flush_test mx i \<Longrightarrow> h_first (mem s) = Some e \<Longrightarrow>
    ui_step s (goes t (Flush_displayed mx i e) (s\<lparr>printed := printed s @ [texts s e]\<rparr>))"
| flush_remove: "place s t = Flush_displayed mx i e \<Longrightarrow>
    ui_step s (goes t (Flush_removed mx i e) (s\<lparr>mem := (mem s)\<lparr>h_first := e_next (mem s) e\<rparr>\<rparr>))"
| flush_free: "place s t = Flush_removed mx i e \<Longrightarrow>
    s1 = s\<lparr>mem := (if h_first (mem s) = None then (mem s)\<lparr>h_last := First\<rparr> else mem s), live := live s - {e}\<rparr> \<Longrightarrow>
    ui_step s (if i + 1 = mx then goes t Unlock (done_with (Inr mx) s1) else goes t (Flush_test mx (i + 1)) s1)"
| unlock: "place s t = Unlock \<Longrightarrow> ui_step s (goes t Away (s\<lparr>ui_mx := None\<rparr>))"

definition ui_begin :: "ui_threads \<Rightarrow> bool" where
  "ui_begin s \<longleftrightarrow> is_simpleq (mem s) [] \<and> live s = {} \<and> ui_mx s = None \<and> place s = (\<lambda>_. Away) \<and>
     printed s = [] \<and> events s = []"

subsection \<open>The invariant\<close>

fun inside_ui :: "ui_pc \<Rightarrow> bool" where
  "inside_ui Away = False"
| "inside_ui (Msg_ready e) = False"
| "inside_ui (Flush_enter mx) = False"
| "inside_ui p = True"

text \<open>The element that a thread has and that is not in the queue.\<close>

fun owned :: "ui_pc \<Rightarrow> elem option" where
  "owned (Msg_ready e) = Some e"
| "owned (Insert_next e) = Some e"
| "owned (Insert_link e) = Some e"
| "owned (Insert_last e) = Some e"
| "owned p = None"

definition unowned :: "elem list \<Rightarrow> ui_threads \<Rightarrow> bool" where
  "unowned xs s \<longleftrightarrow> set xs \<subseteq> live s \<and> (\<forall>t e. owned (place s t) = Some e \<longrightarrow> e \<notin> set xs)"

text \<open>The operations that are done, on lists of texts.\<close>

definition atomic :: "(string + int) list \<Rightarrow> ui_state" where
  "atomic es = ui.run Glibc_2_1 es \<lparr>messages_queue = [], shown = []\<rparr>"

definition settled :: "heap \<Rightarrow> elem list \<Rightarrow> ui_threads \<Rightarrow> bool" where
  "settled h xs s \<longleftrightarrow> is_simpleq h xs \<and> unowned xs s \<and>
     atomic (events s) = \<lparr>messages_queue = map (texts s) xs, shown = printed s\<rparr>"

text \<open>The flush that is going on does with the rest of the queue what the loop of Ui would do from the start.\<close>

definition flushing :: "int \<Rightarrow> heap \<Rightarrow> elem list \<Rightarrow> ui_threads \<Rightarrow> int \<times> string list \<times> string list \<Rightarrow> bool" where
  "flushing mx h xs s r \<longleftrightarrow> is_simpleq h xs \<and> unowned xs s \<and>
     flush_loop mx 0 (messages_queue (atomic (events s))) (shown (atomic (events s))) = r"

definition loop_rest :: "int \<Rightarrow> int \<Rightarrow> elem list \<Rightarrow> ui_threads \<Rightarrow> int \<times> string list \<times> string list" where
  "loop_rest mx i xs s =
     (if i + 1 = mx then (i + 1, map (texts s) xs, printed s) else flush_loop mx (i + 1) (map (texts s) xs) (printed s))"

fun phase :: "ui_pc \<Rightarrow> ui_threads \<Rightarrow> bool" where
  "phase (Insert_link e) s \<longleftrightarrow> (\<exists>h xs. settled h xs s \<and> mem s = set_next e None h)"
| "phase (Insert_last e) s \<longleftrightarrow>
     (\<exists>h xs. settled h xs s \<and> mem s = store_at (h_last (set_next e None h)) (Some e) (set_next e None h))"
| "phase (Flush_test mx i) s \<longleftrightarrow>
     (\<exists>xs. flushing mx (mem s) xs s (flush_loop mx i (map (texts s) xs) (printed s)))"
| "phase (Flush_displayed mx i e) s \<longleftrightarrow>
     (\<exists>xs. flushing mx (mem s) (e # xs) s (loop_rest mx i xs s))"
| "phase (Flush_removed mx i e) s \<longleftrightarrow>
     (\<exists>h xs. mem s = h\<lparr>h_first := e_next h e\<rparr> \<and> flushing mx h (e # xs) s (loop_rest mx i xs s))"
| "phase p s \<longleftrightarrow> (\<exists>xs. settled (mem s) xs s)"

declare phase.simps [simp del]

definition apart :: "ui_threads \<Rightarrow> bool" where
  "apart s \<longleftrightarrow> (\<forall>t e. owned (place s t) = Some e \<longrightarrow> e \<in> live s \<and> (\<forall>u. owned (place s u) = Some e \<longrightarrow> u = t))"

definition ui_inv :: "ui_threads \<Rightarrow> bool" where
  "ui_inv s \<longleftrightarrow> apart s \<and> (\<forall>t. inside_ui (place s t) \<longleftrightarrow> ui_mx s = Some t) \<and>
     phase (case ui_mx s of None \<Rightarrow> Away | Some t \<Rightarrow> place s t) s"

lemmas ui_changes = goes_def done_with_def

lemma SIMPLEQ_INSERT_TAIL_steps:
  "SIMPLEQ_INSERT_TAIL e h = (store_at (h_last (set_next e None h)) (Some e) (set_next e None h))\<lparr>h_last := Next e\<rparr>"
  by (simp add: SIMPLEQ_INSERT_TAIL_def Let_def)

lemma atomic_send: "atomic (es @ [Inl m]) = (atomic es)\<lparr>messages_queue := messages_queue (atomic es) @ [m]\<rparr>"
  by (simp add: atomic_def ui.run_append send_msg_def ui_msg_eq)

lemma atomic_flush:
  "atomic (es @ [Inr mx]) = (case flush_loop mx 0 (messages_queue (atomic es)) (shown (atomic es)) of
     (i, q, out) \<Rightarrow> \<lparr>messages_queue = q, shown = out\<rparr>)"
  by (cases "atomic es") (auto simp: atomic_def ui.run_append ui_msg_flush_def split: prod.splits)

subsection \<open>What other threads may do\<close>

text \<open>Whatever a thread does without the lock, and most of what it does with it, only allocates an element or moves.\<close>

definition keeps :: "ui_threads \<Rightarrow> ui_threads \<Rightarrow> bool" where
  "keeps s s' \<longleftrightarrow> printed s' = printed s \<and> events s' = events s \<and>
     live s \<subseteq> live s' \<and> (\<forall>e \<in> live s. texts s' e = texts s e) \<and>
     (\<forall>t e. owned (place s' t) = Some e \<longrightarrow> e \<in> live s \<longrightarrow> (\<exists>u. owned (place s u) = Some e))"

lemma unowned_keeps: "keeps s s' \<Longrightarrow> unowned xs s \<Longrightarrow> unowned xs s'"
  unfolding keeps_def unowned_def by blast

lemma texts_keeps: "keeps s s' \<Longrightarrow> unowned xs s \<Longrightarrow> map (texts s') xs = map (texts s) xs"
  by (auto simp: keeps_def unowned_def)

lemma keeps_same: "keeps s s' \<Longrightarrow> printed s' = printed s" "keeps s s' \<Longrightarrow> events s' = events s"
  by (simp_all add: keeps_def)

lemma settled_keeps:
  assumes k: "keeps s s'" and "settled h xs s"
  shows "settled h xs s'"
proof -
  have "unowned xs s" using assms(2) by (simp add: settled_def)
  note unowned_keeps [OF k this] texts_keeps [OF k this] keeps_same [OF k]
  then show ?thesis using assms(2) by (simp only: settled_def)
qed

lemma flushing_keeps:
  assumes k: "keeps s s'" and "flushing mx h xs s r"
  shows "flushing mx h xs s' r"
  using assms(2) unowned_keeps [OF k] keeps_same [OF k] by (simp add: flushing_def)

lemma flushing_texts:
  assumes k: "keeps s s'" and "flushing mx h (ys @ xs) s r"
  shows "map (texts s') xs = map (texts s) xs"
proof -
  have "unowned xs s" using assms(2) by (auto simp: flushing_def unowned_def)
  then show ?thesis by (rule texts_keeps [OF k])
qed

lemma phase_keeps:
  assumes k: "keeps s s'" and m: "mem s' = mem s" and "phase p s"
  shows "phase p s'"
proof -
  note same = m keeps_same [OF k]
  have tx: "flushing mx h (e # xs) s r \<Longrightarrow> map (texts s') xs = map (texts s) xs"
    "flushing mx h xs s r \<Longrightarrow> map (texts s') xs = map (texts s) xs" for mx h e xs r
    using flushing_texts [OF k, of mx h "[e]" xs r] flushing_texts [OF k, of mx h "[]" xs r]
    by (simp_all only: append.simps)
  show ?thesis
    using assms(3)
  proof (cases "(p, s)" rule: phase.cases)
    case (3 mx i)
    with assms(3) obtain xs where f: "flushing mx (mem s) xs s (flush_loop mx i (map (texts s) xs) (printed s))"
      by (auto simp: phase.simps)
    have "flushing mx (mem s') xs s' (flush_loop mx i (map (texts s') xs) (printed s'))"
      unfolding same(1,2) tx(2) [OF f] by (rule flushing_keeps [OF k f])
    then show ?thesis using 3 by (auto simp: phase.simps)
  next
    case (4 mx i e)
    with assms(3) obtain xs where f: "flushing mx (mem s) (e # xs) s (loop_rest mx i xs s)"
      by (auto simp: phase.simps)
    have "loop_rest mx i xs s' = loop_rest mx i xs s" unfolding loop_rest_def same(2) tx(1) [OF f] ..
    then have "\<exists>xs. flushing mx (mem s') (e # xs) s' (loop_rest mx i xs s')"
      using flushing_keeps [OF k f] same(1) by (intro exI [of _ xs]) simp
    then show ?thesis using 4 by (simp add: phase.simps)
  next
    case (5 mx i e)
    with assms(3) obtain h xs where h: "mem s = h\<lparr>h_first := e_next h e\<rparr>"
      and f: "flushing mx h (e # xs) s (loop_rest mx i xs s)" by (auto simp: phase.simps)
    have "loop_rest mx i xs s' = loop_rest mx i xs s" unfolding loop_rest_def same(2) tx(1) [OF f] ..
    then have "\<exists>h xs. mem s' = h\<lparr>h_first := e_next h e\<rparr> \<and> flushing mx h (e # xs) s' (loop_rest mx i xs s')"
      using h flushing_keeps [OF k f] same(1) by (intro exI [of _ h] exI [of _ xs]) simp
    then show ?thesis using 5 by (simp add: phase.simps)
  qed (use settled_keeps [OF k] same in \<open>auto simp: phase.simps\<close>)
qed

subsection \<open>Every step keeps the invariant\<close>

definition holder_phase :: "ui_threads \<Rightarrow> bool" where
  "holder_phase s \<longleftrightarrow> phase (case ui_mx s of None \<Rightarrow> Away | Some t \<Rightarrow> place s t) s"

lemma ui_invD:
  assumes "ui_inv s"
  shows "apart s" and "inside_ui (place s t) \<longleftrightarrow> ui_mx s = Some t"
    and "ui_mx s = Some t \<Longrightarrow> phase (place s t) s" and "ui_mx s = None \<Longrightarrow> \<exists>xs. settled (mem s) xs s"
  using assms by (auto simp: ui_inv_def phase.simps)

text \<open>A step of a thread that is not inside and does not lock.\<close>

lemma ui_inv_outside:
  assumes inv: "ui_inv s" and k: "keeps s s'" "mem s' = mem s" and "apart s'" and "ui_mx s' = ui_mx s"
    and "\<not> inside_ui (place s t)" and "\<not> inside_ui (place s' t)" and "\<forall>u. u \<noteq> t \<longrightarrow> place s' u = place s u"
  shows "ui_inv s'"
proof -
  have "phase (case ui_mx s of None \<Rightarrow> Away | Some u \<Rightarrow> place s u) s'"
    by (rule phase_keeps [OF k]) (use inv in \<open>simp add: ui_inv_def\<close>)
  moreover have "ui_mx s = Some u \<Longrightarrow> u \<noteq> t" for u using ui_invD(2) [OF inv, of t] assms(6) by auto
  ultimately have "phase (case ui_mx s' of None \<Rightarrow> Away | Some u \<Rightarrow> place s' u) s'"
    using assms(5,8) by (auto split: option.splits)
  moreover have "inside_ui (place s' u) \<longleftrightarrow> ui_mx s' = Some u" for u
    using ui_invD(2) [OF inv, of u] assms(5-8) by (cases "u = t") auto
  ultimately show ?thesis using assms(4) by (auto simp: ui_inv_def)
qed

text \<open>A step of the thread that is inside, behind which it is inside or has given the mutex back.\<close>

lemma ui_inv_inside:
  assumes inv: "ui_inv s" and "apart s'" and "ui_mx s = Some t" and "\<forall>u. u \<noteq> t \<longrightarrow> place s' u = place s u"
    and "ui_mx s' = (if inside_ui (place s' t) then Some t else None)" and "phase (place s' t) s'"
    and "\<not> inside_ui (place s' t) \<Longrightarrow> place s' t = Away"
  shows "ui_inv s'"
proof -
  have in_u: "inside_ui (place s' u) \<longleftrightarrow> ui_mx s' = Some u" for u
  proof (cases "u = t")
    case False
    then have "\<not> inside_ui (place s u)" using ui_invD(2) [OF inv, of u] assms(3) by simp
    with False show ?thesis using assms(4,5) by simp
  qed (use assms(5) in simp)
  have "phase (case ui_mx s' of None \<Rightarrow> Away | Some u \<Rightarrow> place s' u) s'"
    using assms(5-7) by (cases "inside_ui (place s' t)") simp_all
  then show ?thesis unfolding ui_inv_def using assms(2) in_u by blast
qed

lemma ui_inv_locks:
  assumes inv: "ui_inv s" and "apart s'" and "ui_mx s = None" and "\<forall>u. u \<noteq> t \<longrightarrow> place s' u = place s u"
    and "ui_mx s' = Some t" and "inside_ui (place s' t)" and "phase (place s' t) s'"
  shows "ui_inv s'"
proof -
  have "inside_ui (place s' u) \<longleftrightarrow> ui_mx s' = Some u" for u
    using ui_invD(2) [OF inv, of u] assms(3-6) by (cases "u = t") simp_all
  then show ?thesis unfolding ui_inv_def using assms(2,5,7) by simp
qed

lemma apart_keeps:
  "apart s \<Longrightarrow> live s \<subseteq> live s' \<Longrightarrow> (\<And>t e. owned (place s' t) = Some e \<Longrightarrow> owned (place s t) = Some e) \<Longrightarrow> apart s'"
  unfolding apart_def by blast

lemma keeps_by_owned:
  "printed s' = printed s \<Longrightarrow> events s' = events s \<Longrightarrow> live s \<subseteq> live s' \<Longrightarrow> (\<forall>e \<in> live s. texts s' e = texts s e) \<Longrightarrow>
    (\<And>t e. owned (place s' t) = Some e \<Longrightarrow> e \<in> live s \<Longrightarrow> owned (place s t) = Some e) \<Longrightarrow> keeps s s'"
  unfolding keeps_def by blast

text \<open>The two steps that complete an operation on the queue.\<close>

lemma insert_last_phase:
  assumes "ui_inv s" and t: "place s t = Insert_last e" and "ui_mx s = Some t"
  shows "\<exists>xs. settled ((mem s)\<lparr>h_last := Next e\<rparr>) xs
    (goes t Unlock (done_with (Inl (texts s e)) (s\<lparr>mem := (mem s)\<lparr>h_last := Next e\<rparr>\<rparr>)))"
proof -
  obtain h xs where h: "settled h xs s" "mem s = store_at (h_last (set_next e None h)) (Some e) (set_next e None h)"
    using ui_invD(3) [OF assms(1,3)] t by (auto simp: phase.simps)
  have e: "e \<notin> set xs" "e \<in> live s" "\<And>u. owned (place s u) = Some e \<Longrightarrow> u = t"
  proof -
    have own: "owned (place s t) = Some e" by (simp add: t)
    show "e \<notin> set xs" using h(1) own unfolding settled_def unowned_def by blast
    show "e \<in> live s" "\<And>u. owned (place s u) = Some e \<Longrightarrow> u = t"
      using ui_invD(1) [OF assms(1)] own unfolding apart_def by blast+
  qed
  have "is_simpleq ((mem s)\<lparr>h_last := Next e\<rparr>) (xs @ [e])"
    unfolding h(2) SIMPLEQ_INSERT_TAIL_steps [symmetric] using h(1) e(1) by (intro SIMPLEQ_INSERT_TAIL_ok) (auto simp: settled_def)
  then show ?thesis
    using h(1) e by (intro exI [of _ "xs @ [e]"]) (auto simp: settled_def unowned_def ui_changes atomic_send)
qed

lemma flush_free_phase:
  assumes "ui_inv s" and t: "place s t = Flush_removed mx i e" and "ui_mx s = Some t"
    and s1: "s1 = s\<lparr>mem := (if h_first (mem s) = None then (mem s)\<lparr>h_last := First\<rparr> else mem s), live := live s - {e}\<rparr>"
  shows "phase (if i + 1 = mx then Unlock else Flush_test mx (i + 1))
    (if i + 1 = mx then goes t Unlock (done_with (Inr mx) s1) else goes t (Flush_test mx (i + 1)) s1)"
proof -
  obtain h xs where h: "mem s = h\<lparr>h_first := e_next h e\<rparr>" "flushing mx h (e # xs) s (loop_rest mx i xs s)"
    using ui_invD(3) [OF assms(1,3)] t by (auto simp: phase.simps)
  have m: "mem s1 = SIMPLEQ_REMOVE_HEAD e h" by (simp add: s1 h(1) SIMPLEQ_REMOVE_HEAD_def Let_def)
  have q: "is_simpleq (mem s1) xs" "e \<notin> set xs"
    using h(2) SIMPLEQ_REMOVE_HEAD_ok [of h e xs] m by (auto simp: flushing_def is_simpleq_def is_slist_def)
  have u: "unowned xs (goes t p s1)" if "owned p = None" for p
    using h(2) q(2) that by (auto simp: flushing_def unowned_def s1 goes_def)
  have loop: "flush_loop mx 0 (messages_queue (atomic (events s))) (shown (atomic (events s))) = loop_rest mx i xs s"
    using h(2) by (simp add: flushing_def)
  show ?thesis
  proof (cases "i + 1 = mx")
    case True
    then have "settled (mem s1) xs (goes t Unlock (done_with (Inr mx) s1))"
      using q(1) u [of Unlock] loop by (simp add: settled_def atomic_flush loop_rest_def s1 ui_changes unowned_def)
    with True show ?thesis by (auto simp: phase.simps ui_changes)
  next
    case False
    then have "flushing mx (mem s1) xs (goes t (Flush_test mx (i + 1)) s1) (flush_loop mx (i + 1) (map (texts s1) xs) (printed s1))"
      using q(1) u [of "Flush_test mx (i + 1)"] loop by (simp add: flushing_def loop_rest_def s1 goes_def)
    with False show ?thesis by (auto simp: phase.simps goes_def)
  qed
qed

text \<open>A step of the thread inside.\<close>

lemma ui_inv_goes:
  assumes inv: "ui_inv s" and t: "inside_ui (place s t)" and "place s1 = place s"
    and "ui_mx s1 = (if inside_ui p then ui_mx s else None)" and "inside_ui p \<or> p = Away"
    and "\<And>e. owned p = Some e \<Longrightarrow> owned (place s t) = Some e"
    and "\<And>u e. owned (place s u) = Some e \<Longrightarrow> e \<in> live s1" and "phase p (goes t p s1)"
  shows "ui_inv (goes t p s1)"
proof (rule ui_inv_inside [OF inv, of _ t])
  show "ui_mx s = Some t" using ui_invD(2) [OF inv] t by simp
  then show "ui_mx (goes t p s1) = (if inside_ui (place (goes t p s1) t) then Some t else None)"
    using assms(4) by (simp add: goes_def)
  show "apart (goes t p s1)"
    using ui_invD(1) [OF inv] assms(3,6,7) unfolding apart_def by (auto simp: goes_def split: if_splits)
qed (use assms(3,5,8) in \<open>auto simp: goes_def\<close>)

lemma owned_live: "ui_inv s \<Longrightarrow> owned (place s u) = Some e \<Longrightarrow> e \<in> live s"
  using ui_invD(1) unfolding apart_def by blast

lemma keeps_goes:
  assumes "place s1 = place s" and "printed s1 = printed s" and "events s1 = events s" and "live s1 = live s" and "texts s1 = texts s"
    and "owned p = owned (place s t) \<or> owned p = None"
  shows "keeps s (goes t p s1)"
  using assms by (intro keeps_by_owned) (auto simp: goes_def split: if_splits)

lemma phase_intros:
  "settled h xs s \<Longrightarrow> mem s = set_next e None h \<Longrightarrow> phase (Insert_link e) s"
  "settled h xs s \<Longrightarrow> mem s = store_at (h_last (set_next e None h)) (Some e) (set_next e None h) \<Longrightarrow> phase (Insert_last e) s"
  "settled (mem s) xs s \<Longrightarrow> phase Away s" "settled (mem s) xs s \<Longrightarrow> phase Unlock s" "settled (mem s) xs s \<Longrightarrow> phase (Insert_next e) s"
  "flushing mx (mem s) xs s (flush_loop mx i (map (texts s) xs) (printed s)) \<Longrightarrow> phase (Flush_test mx i) s"
  "flushing mx (mem s) (e # xs) s (loop_rest mx i xs s) \<Longrightarrow> phase (Flush_displayed mx i e) s"
  "flushing mx h (e # xs) s (loop_rest mx i xs s) \<Longrightarrow> mem s = h\<lparr>h_first := e_next h e\<rparr> \<Longrightarrow> phase (Flush_removed mx i e) s"
  unfolding phase.simps by blast+

lemma mem_goes [simp]: "mem (goes t p s) = mem s" "mem (done_with ev s) = mem s"
  by (simp_all add: ui_changes)

lemma ui_inv_msg_inside:
  assumes inv: "ui_inv s"
  shows "place s t = Insert_next e \<Longrightarrow> ui_inv (goes t (Insert_link e) (s\<lparr>mem := set_next e None (mem s)\<rparr>))"
    and "place s t = Insert_link e \<Longrightarrow> ui_inv (goes t (Insert_last e) (s\<lparr>mem := store_at (h_last (mem s)) (Some e) (mem s)\<rparr>))"
    and "place s t = Insert_last e \<Longrightarrow>
      ui_inv (goes t Unlock (done_with (Inl (texts s e)) (s\<lparr>mem := (mem s)\<lparr>h_last := Next e\<rparr>\<rparr>)))"
    and "place s t = Unlock \<Longrightarrow> ui_inv (goes t Away (s\<lparr>ui_mx := None\<rparr>))"
proof -
  have mx: "ui_mx s = Some t" if "inside_ui (place s t)" using ui_invD(2) [OF inv] that by simp
  note ph = ui_invD(3) [OF inv mx] and goes = ui_inv_goes [OF inv] and live = owned_live [OF inv]
  have st: "settled h xs s \<Longrightarrow> owned p = owned (place s t) \<or> owned p = None \<Longrightarrow>
      settled h xs (goes t p (s\<lparr>mem := m\<rparr>)) \<and> settled h xs (goes t p (s\<lparr>ui_mx := n\<rparr>))" for h xs p m n
    using settled_keeps [OF keeps_goes, of "s\<lparr>mem := m\<rparr>"] settled_keeps [OF keeps_goes, of "s\<lparr>ui_mx := n\<rparr>"] by simp
  show "ui_inv (goes t (Insert_link e) (s\<lparr>mem := set_next e None (mem s)\<rparr>))" if p: "place s t = Insert_next e"
  proof -
    obtain xs where xs: "settled (mem s) xs s" using ph p by (auto simp: phase.simps)
    show ?thesis using p live st [OF xs] by (intro goes phase_intros(1) [of "mem s" xs]) simp_all
  qed
  show "ui_inv (goes t (Insert_last e) (s\<lparr>mem := store_at (h_last (mem s)) (Some e) (mem s)\<rparr>))" if p: "place s t = Insert_link e"
  proof -
    obtain h xs where h: "settled h xs s" "mem s = set_next e None h" using ph p by (auto simp: phase.simps)
    show ?thesis using p live st [OF h(1)] h(2) by (intro goes phase_intros(2) [of h xs]) simp_all
  qed
  show "ui_inv (goes t Unlock (done_with (Inl (texts s e)) (s\<lparr>mem := (mem s)\<lparr>h_last := Next e\<rparr>\<rparr>)))" if p: "place s t = Insert_last e"
    using insert_last_phase [OF inv p mx] p live
    by (intro goes) (auto simp: phase.simps done_with_def)
  show "ui_inv (goes t Away (s\<lparr>ui_mx := None\<rparr>))" if p: "place s t = Unlock"
  proof -
    obtain xs where xs: "settled (mem s) xs s" using ph p by (auto simp: phase.simps)
    show ?thesis using p live st [OF xs] by (intro goes phase_intros(3) [of _ xs]) simp_all
  qed
qed

lemma ui_inv_flush_inside:
  assumes inv: "ui_inv s"
  shows "place s t = Flush_test mx i \<Longrightarrow> h_first (mem s) = None \<Longrightarrow> ui_inv (goes t Unlock (done_with (Inr mx) s))"
    and "place s t = Flush_test mx i \<Longrightarrow> h_first (mem s) = Some e \<Longrightarrow>
      ui_inv (goes t (Flush_displayed mx i e) (s\<lparr>printed := printed s @ [texts s e]\<rparr>))"
    and "place s t = Flush_displayed mx i e \<Longrightarrow>
      ui_inv (goes t (Flush_removed mx i e) (s\<lparr>mem := (mem s)\<lparr>h_first := e_next (mem s) e\<rparr>\<rparr>))"
proof -
  have mx: "ui_mx s = Some t" if "inside_ui (place s t)" using ui_invD(2) [OF inv] that by simp
  note ph = ui_invD(3) [OF inv mx] and goes = ui_inv_goes [OF inv] and live = owned_live [OF inv]
  show "ui_inv (goes t Unlock (done_with (Inr mx) s))" if p: "place s t = Flush_test mx i" "h_first (mem s) = None"
  proof -
    obtain xs where "flushing mx (mem s) xs s (flush_loop mx i (map (texts s) xs) (printed s))"
      using ph p(1) by (auto simp: phase.simps)
    moreover from this p(2) have "xs = []" by (cases xs) (auto simp: flushing_def is_simpleq_def is_slist_def)
    ultimately have "settled (mem s) [] (goes t Unlock (done_with (Inr mx) s))"
      by (simp add: settled_def flushing_def atomic_flush done_with_def goes_def unowned_def)
    then show ?thesis using p(1) live by (intro goes phase_intros(4)) (simp_all add: done_with_def)
  qed
  show "ui_inv (goes t (Flush_displayed mx i e) (s\<lparr>printed := printed s @ [texts s e]\<rparr>))"
    if p: "place s t = Flush_test mx i" "h_first (mem s) = Some e"
  proof -
    obtain xs where f: "flushing mx (mem s) xs s (flush_loop mx i (map (texts s) xs) (printed s))"
      using ph p(1) by (auto simp: phase.simps)
    with p(2) obtain ys where "xs = e # ys" by (cases xs) (auto simp: flushing_def is_simpleq_def is_slist_def)
    with f have "flushing mx (mem s) (e # ys) (goes t (Flush_displayed mx i e) (s\<lparr>printed := printed s @ [texts s e]\<rparr>))
        (loop_rest mx i ys (goes t (Flush_displayed mx i e) (s\<lparr>printed := printed s @ [texts s e]\<rparr>)))"
      by (simp add: flushing_def loop_rest_def simpleq_remove_head_def unowned_def goes_def)
    then show ?thesis using p(1) live by (intro goes phase_intros(7)) simp_all
  qed
  show "ui_inv (goes t (Flush_removed mx i e) (s\<lparr>mem := (mem s)\<lparr>h_first := e_next (mem s) e\<rparr>\<rparr>))"
    if p: "place s t = Flush_displayed mx i e"
  proof -
    let ?s = "goes t (Flush_removed mx i e) (s\<lparr>mem := (mem s)\<lparr>h_first := e_next (mem s) e\<rparr>\<rparr>)"
    obtain xs where f: "flushing mx (mem s) (e # xs) s (loop_rest mx i xs s)"
      using ph p(1) by (auto simp: phase.simps)
    have "flushing mx (mem s) (e # xs) ?s (loop_rest mx i xs s)"
      using p by (intro flushing_keeps [OF _ f] keeps_goes) simp_all
    moreover have "loop_rest mx i xs ?s = loop_rest mx i xs s" by (simp add: loop_rest_def goes_def)
    ultimately show ?thesis using p live by (intro goes phase_intros(8) [of mx "mem s" e xs]) simp_all
  qed
qed

lemma ui_inv_lock:
  assumes inv: "ui_inv s" and p: "place s t = Msg_ready e \<and> q = Insert_next e \<or> place s t = Flush_enter mx \<and> q = Flush_test mx 0"
    and mx: "ui_mx s = None"
  shows "ui_inv (goes t q (s\<lparr>ui_mx := Some t\<rparr>))"
proof -
  let ?s = "goes t q (s\<lparr>ui_mx := Some t\<rparr>)"
  obtain xs where xs: "settled (mem s) xs s" using ui_invD(4) [OF inv mx] by blast
  have "settled (mem s) xs ?s" using p by (intro settled_keeps [OF _ xs] keeps_goes) auto
  moreover from this have "flushing mx (mem s) xs ?s (flush_loop mx 0 (map (texts ?s) xs) (printed ?s))"
    by (simp add: settled_def flushing_def)
  moreover have "apart ?s"
    by (rule apart_keeps [OF ui_invD(1) [OF inv]]) (use p in \<open>auto simp: goes_def split: if_splits\<close>)
  ultimately show ?thesis
    by (intro ui_inv_locks [OF inv _ mx, of _ t])
      (use p in \<open>auto simp: goes_def intro: phase_intros(5) [of _ xs] phase_intros(6) [of mx _ xs]\<close>)
qed

lemma ui_inv_free:
  assumes inv: "ui_inv s" and p: "place s t = Flush_removed mx i e"
    and s1: "s1 = s\<lparr>mem := (if h_first (mem s) = None then (mem s)\<lparr>h_last := First\<rparr> else mem s), live := live s - {e}\<rparr>"
  shows "ui_inv (if i + 1 = mx then goes t Unlock (done_with (Inr mx) s1) else goes t (Flush_test mx (i + 1)) s1)"
proof -
  have mx: "ui_mx s = Some t" using ui_invD(2) [OF inv, of t] p by simp
  obtain h xs where "flushing mx h (e # xs) s (loop_rest mx i xs s)"
    using ui_invD(3) [OF inv mx] p by (auto simp: phase.simps)
  then have live: "e' \<in> live s1" if "owned (place s u) = Some e'" for u e'
    using that owned_live [OF inv that] by (auto simp: s1 flushing_def unowned_def)
  show ?thesis
    using flush_free_phase [OF inv p mx s1] live p
    by (auto simp: s1 done_with_def intro!: ui_inv_goes [OF inv])
qed

lemma ui_inv_step:
  assumes inv: "ui_inv s" and "ui_step s s'"
  shows "ui_inv s'"
  using assms(2)
proof cases
  case (message t e m)
  have "apart s'" using message ui_invD(1) [OF inv] by (auto simp: apart_def goes_def)
  then show ?thesis using message
    by (intro ui_inv_outside [OF inv, of _ t] keeps_by_owned) (auto simp: goes_def split: if_splits)
next
  case (flush_call t mx)
  have "apart s'" using ui_invD(1) [OF inv] flush_call by (elim apart_keeps) (auto simp: goes_def split: if_splits)
  then show ?thesis using flush_call
    by (intro ui_inv_outside [OF inv, of _ t] keeps_by_owned) (auto simp: goes_def split: if_splits)
next
  case (msg_lock t e)
  then show ?thesis using ui_inv_lock [OF inv, of t e "Insert_next e"] by simp
next
  case (flush_lock t mx)
  then show ?thesis using ui_inv_lock [OF inv, of t _ "Flush_test mx 0" mx] by simp
next
  case (flush_free t mx i e s1)
  then show ?thesis using ui_inv_free [OF inv flush_free(2,3)] by simp
qed (simp_all add: ui_inv_msg_inside [OF inv] ui_inv_flush_inside [OF inv])

lemma ui_inv_begin: "ui_begin s \<Longrightarrow> ui_inv s"
  by (auto simp: ui_begin_def ui_inv_def apart_def phase.simps settled_def unowned_def atomic_def)

interpretation ui_mutex: lock_protocol ui_begin ui_step ui_inv "\<lambda>s t. inside_ui (place s t)" ui_mx
  by unfold_locales (use ui_inv_begin ui_inv_step ui_invD(2) in blast)+

subsection \<open>Properties\<close>

lemma run_atomic: "ui.run lib es \<lparr>messages_queue = [], shown = []\<rparr> = atomic es"
proof -
  have "send_msg lib = send_msg Glibc_2_1" by (simp add: fun_eq_iff send_msg_def ui_msg_eq)
  then show ?thesis by (simp add: atomic_def)
qed

text \<open>
  C20: However the steps of any number of threads in \<^verbatim>\<open>ui_msg\<close> and \<^verbatim>\<open>ui_msg_flush\<close> interleave, whenever the mutex
  is free the \<^verbatim>\<open>SIMPLEQ\<close> in memory is well formed, and it and the display hold exactly what the operations
  leave when they are done one after the other, in the order in which they have had the mutex: no message is
  lost, doubled or displayed out of this order. At no time are two threads inside.
\<close>

theorem concurrent_messages_refine_queue:
  assumes "ui_begin s0" and "ui_step\<^sup>*\<^sup>* s0 s"
  shows "(ui_mx s = None \<longrightarrow>
      (\<exists>xs. is_simpleq (mem s) xs \<and> printed s @ map (texts s) xs = ui.sent (events s) \<and>
        ui.run lib (events s) \<lparr>messages_queue = [], shown = []\<rparr> = \<lparr>messages_queue = map (texts s) xs, shown = printed s\<rparr>)) \<and>
    (\<forall>t u. inside_ui (place s t) \<longrightarrow> inside_ui (place s u) \<longrightarrow> t = u)"
proof (intro conjI impI allI)
  assume "ui_mx s = None"
  with ui_invD(4) [OF ui_mutex.inv_reachable [OF assms]] obtain xs where xs: "settled (mem s) xs s" by blast
  have "printed s @ map (texts s) xs = ui.sent (events s)"
    using ui.run_order [of Glibc_2_1 "events s" "\<lparr>messages_queue = [], shown = []\<rparr>"] xs
    by (simp add: settled_def run_atomic)
  with xs show "\<exists>xs. is_simpleq (mem s) xs \<and> printed s @ map (texts s) xs = ui.sent (events s) \<and>
      ui.run lib (events s) \<lparr>messages_queue = [], shown = []\<rparr> = \<lparr>messages_queue = map (texts s) xs, shown = printed s\<rparr>"
    by (auto simp: settled_def run_atomic)
qed (use ui_mutex.exclusion [OF assms] in blast)

definition no_messages :: ui_threads where
  "no_messages = \<lparr>mem = \<lparr>h_first = None, h_last = First, e_next = (\<lambda>_. None), e_prev = (\<lambda>_. First)\<rparr>, texts = (\<lambda>_. []),
     live = {}, ui_mx = None, place = (\<lambda>_. Away), printed = [], events = []\<rparr>"

text \<open>Two threads have a message; the one that came second has the mutex first.\<close>

lemma concurrent_messages_refine_queue_witness:
  "\<exists>s xs. ui_step\<^sup>*\<^sup>* no_messages s \<and> place s 1 = Msg_ready 7 \<and> is_simpleq (mem s) xs \<and> map (texts s) xs = [''b'']"
proof -
  define s1 where "s1 = goes 1 (Msg_ready 7) (no_messages\<lparr>texts := (texts no_messages)(7 := ''a''), live := insert 7 (live no_messages)\<rparr>)"
  define s2 where "s2 = goes 2 (Msg_ready 8) (s1\<lparr>texts := (texts s1)(8 := ''b''), live := insert 8 (live s1)\<rparr>)"
  define s3 where "s3 = goes 2 (Insert_next 8) (s2\<lparr>ui_mx := Some 2\<rparr>)"
  define s4 where "s4 = goes 2 (Insert_link 8) (s3\<lparr>mem := set_next 8 None (mem s3)\<rparr>)"
  define s5 where "s5 = goes 2 (Insert_last 8) (s4\<lparr>mem := store_at (h_last (mem s4)) (Some 8) (mem s4)\<rparr>)"
  define s6 where "s6 = goes 2 Unlock (done_with (Inl (texts s5 8)) (s5\<lparr>mem := (mem s5)\<lparr>h_last := Next 8\<rparr>\<rparr>))"
  define s7 where "s7 = goes 2 Away (s6\<lparr>ui_mx := None\<rparr>)"
  note d = no_messages_def goes_def s1_def s2_def s3_def s4_def s5_def s6_def s7_def
  have "ui_step\<^sup>*\<^sup>* no_messages s1" unfolding s1_def by (rule r_into_rtranclp, rule message) (simp_all add: d)
  also have "ui_step\<^sup>*\<^sup>* s1 s2" unfolding s2_def by (rule r_into_rtranclp, rule message) (simp_all add: d)
  also have "ui_step\<^sup>*\<^sup>* s2 s3" unfolding s3_def by (rule r_into_rtranclp, rule msg_lock) (simp_all add: d)
  also have "ui_step\<^sup>*\<^sup>* s3 s4" unfolding s4_def by (rule r_into_rtranclp, rule insert_next) (simp add: d)
  also have "ui_step\<^sup>*\<^sup>* s4 s5" unfolding s5_def by (rule r_into_rtranclp, rule insert_link) (simp add: d)
  also have "ui_step\<^sup>*\<^sup>* s5 s6" unfolding s6_def by (rule r_into_rtranclp, rule insert_last) (simp add: d)
  also have "ui_step\<^sup>*\<^sup>* s6 s7" unfolding s7_def by (rule r_into_rtranclp, rule unlock) (simp add: d)
  finally have run: "ui_step\<^sup>*\<^sup>* no_messages s7" .
  have "ui_begin no_messages" by (simp add: ui_begin_def no_messages_def is_simpleq_def is_slist_def)
  moreover have "ui_mx s7 = None" by (simp add: s7_def goes_def)
  ultimately obtain xs where "is_simpleq (mem s7) xs" "printed s7 @ map (texts s7) xs = ui.sent (events s7)"
    using concurrent_messages_refine_queue [OF _ run, of Glibc_2_1] by blast
  moreover have "printed s7 = []" "events s7 = [Inl ''b'']" "place s7 1 = Msg_ready 7" by (simp_all add: d done_with_def)
  ultimately show ?thesis using run by (intro exI [of _ s7] exI [of _ xs]) simp
qed

end
