(* ===== verification/Platforms.thy ===== *)
theory Platforms
  imports Iface "HOL-Library.Sublist"
begin

text \<open>
  The link layer address of an interface on the other systems: the BSD and Solaris branches of
  \<^verbatim>\<open>get_iface_ll\<close> in \<^verbatim>\<open>src/lmap_if.c\<close>, with \<^verbatim>\<open>include/lmap_if_solaris.h\<close>, which opens an interface of Solaris
  by messages of the data link provider interface (DLPI). The header is modelled as it is compiled without
  \<^verbatim>\<open>HAVE_DEV_DLPI\<close>, \<^verbatim>\<open>HAVE_SYS_BUFMOD_H\<close> and the extensions of HP-UX, and without \<^verbatim>\<open>DEBUG\<close>.
\<close>

subsection \<open>BSD\<close>

text \<open>
  What \<^verbatim>\<open>sysctl(NET_RT_IFLIST)\<close> gives: routing messages, of which those of type \<^verbatim>\<open>RTM_IFINFO\<close> have a
  \<^verbatim>\<open>sockaddr_dl\<close>: the name of \<^verbatim>\<open>sdl_nlen\<close> characters, without a NUL, and behind it the address;
  \<open>sdl_data\<close> is what the buffer holds from the name on.
\<close>

record if_message =
  ifm_info :: bool
  sdl_nlen :: nat
  sdl_data :: bytes

definition chars :: "bytes \<Rightarrow> string" where
  "chars b = map (\<lambda>v. char_of (unat v)) b"

text \<open>\<^verbatim>\<open>strncmp(a, b, n) == 0\<close>\<close>

definition strncmp_equal :: "string \<Rightarrow> string \<Rightarrow> nat \<Rightarrow> bool" where
  "strncmp_equal a b n \<longleftrightarrow> take n (c_str a) = take n (c_str b)"

text \<open>\<^verbatim>\<open>memcpy\<close> of the six bytes of an address; \<open>ll\<close> is the array behind \<^verbatim>\<open>ll_addr\<close>.\<close>

definition copy_ll :: "bytes \<Rightarrow> nat \<Rightarrow> bytes \<Rightarrow> c_error + bytes" where
  "copy_ll from i ll =
     bindE (rd_bytes from i 6) (\<lambda>a. if length ll < 6 then Inl Out_of_bounds else Inr (overwrite ll 0 a))"

fun bsd_scan :: "string \<Rightarrow> if_message list \<Rightarrow> bytes \<Rightarrow> c_error + bytes" where
  "bsd_scan iface [] ll = Inr ll"
| "bsd_scan iface (m # ms) ll =
     (if ifm_info m \<and> strncmp_equal (chars (sdl_data m)) iface (sdl_nlen m)
      then copy_ll (sdl_data m) (sdl_nlen m) ll
      else bsd_scan iface ms ll)"

text \<open>The results of the two calls of \<^verbatim>\<open>sysctl\<close> are parameters, and whether \<^verbatim>\<open>malloc\<close> succeeds.\<close>

definition get_iface_ll_bsd ::
  "int \<Rightarrow> bool \<Rightarrow> if_message list option \<Rightarrow> string \<Rightarrow> bytes \<Rightarrow> c_error + (int \<times> bytes)" where
  "get_iface_ll_bsd rc mem list iface ll =
     (if rc < 0 then Inl (Exit_process ''sysctl()'')
      else if \<not> mem then Inl (Exit_process ''malloc()'')
      else case list of
        None \<Rightarrow> Inl (Exit_process ''sysctl()'')
      | Some ms \<Rightarrow> bindE (bsd_scan iface ms ll) (\<lambda>ll. Inr (ESUCCESS, ll)))"

text \<open>The other two functions of the file do nothing on these systems.\<close>

definition set_iface_ll_other :: int where
  "set_iface_ll_other = - EINVALID"

definition get_default_gw_other :: int where
  "get_default_gw_other = ENOTFOUND"

subsection \<open>Solaris: requests and messages\<close>

datatype level = DL_PROMISC_PHYS | DL_PROMISC_MULTI | DL_PROMISC_SAP

datatype dl_request =
    Dl_info_req
  | Dl_attach_req u_int32
  | Dl_bind_req u_int32
  | Dl_promiscon_req level
  | Dl_phys_addr_req

datatype primitive =
    DL_INFO_ACK | DL_PHYS_ADDR_ACK | DL_BIND_ACK | DL_OK_ACK | DL_ERROR_ACK | Other_primitive u_int32

datatype dl_errno = DL_BADPPA | DL_SYSERR | DL_UNSUPPORTED | Other_errno u_int32

datatype mac_type = DL_CSMACD | DL_ETHER | Other_mac int

text \<open>
  A message of the provider: \<^verbatim>\<open>union DL_primitives\<close>, with those fields of its members that the code looks at,
  each as it reads the bytes of the message, and its length, \<^verbatim>\<open>ctl.len\<close>.
\<close>

record dl_message =
  dl_primitive :: primitive
  dl_errno :: dl_errno
  dl_unix_errno :: int
  dl_style2 :: bool
  dl_mac_type :: mac_type
  dl_addr_offset :: nat
  dl_bytes :: bytes

text \<open>
  The system calls on a state \<open>'k\<close> of the system, the sizes of the acknowledgements, whether the system
  defines \<^verbatim>\<open>DLIOCRAW\<close>, and \<^verbatim>\<open>strerror\<close>. A call that fails gives its \<^verbatim>\<open>errno\<close> (\<^verbatim>\<open>Inl\<close>, or \<^term>\<open>Some\<close> for
  \<^verbatim>\<open>putmsg\<close>); \<^verbatim>\<open>ioctl(I_STR)\<close> gives its result and the new \<^verbatim>\<open>ic_len\<close>.
\<close>

record 'k streams =
  open_dev :: "string \<Rightarrow> 'k \<Rightarrow> (int + int) \<times> 'k"
  putmsg :: "int \<Rightarrow> dl_request \<Rightarrow> 'k \<Rightarrow> int option \<times> 'k"
  getmsg :: "int \<Rightarrow> 'k \<Rightarrow> (int + dl_message) \<times> 'k"
  ioctl_str :: "int \<Rightarrow> 'k \<Rightarrow> (int \<times> int) \<times> 'k"
  ioctl_flush :: "int \<Rightarrow> 'k \<Rightarrow> int \<times> 'k"
  has_DLIOCRAW :: bool
  strerror :: "int \<Rightarrow> string"
  DL_INFO_ACK_SIZE :: nat
  DL_BIND_ACK_SIZE :: nat
  DL_OK_ACK_SIZE :: nat
  DL_PHYS_ADDR_ACK_SIZE :: nat

text \<open>The global variables of the header, and the system.\<close>

record 'k solaris =
  os :: 'k
  ebuf :: string
  dlpi_in_use :: int
  dl_offset :: int
  bufsize :: int

abbreviation (input) MAXDLBUF :: nat where "MAXDLBUF \<equiv> 8192"
abbreviation (input) ENOENT :: int where "ENOENT \<equiv> 2"

text \<open>\<^verbatim>\<open>sprintf(ebuf, ...)\<close> into 100 bytes.\<close>

definition put_ebuf :: "string \<Rightarrow> 'k solaris \<Rightarrow> c_error + 'k solaris" where
  "put_ebuf t s = bindE (store (ebuf s) 0 (t @ [NUL])) (\<lambda>b. Inr (s\<lparr>ebuf := b\<rparr>))"

text \<open>The function fails with the text in \<^verbatim>\<open>ebuf\<close> and the result -1.\<close>

definition complain :: "string \<Rightarrow> 'k solaris \<Rightarrow> c_error + ('a option \<times> 'k solaris)" where
  "complain t s = bindE (put_ebuf t s) (\<lambda>s. Inr (None, s))"

definition send_request ::
  "'k streams \<Rightarrow> int \<Rightarrow> dl_request \<Rightarrow> string \<Rightarrow> 'k solaris \<Rightarrow> c_error + (unit option \<times> 'k solaris)" where
  "send_request P fd rq what s =
     (case putmsg P fd rq (os s) of
        (None, k) \<Rightarrow> Inr (Some (), s\<lparr>os := k\<rparr>)
      | (Some e, k) \<Rightarrow>
          complain (''send_request: putmsg '' @ [CHR 0x22] @ what @ [CHR 0x22] @ '': '' @ strerror P e) (s\<lparr>os := k\<rparr>))"

definition ack_error :: "'k streams \<Rightarrow> dl_message \<Rightarrow> string" where
  "ack_error P m =
     (case dl_errno m of
        DL_BADPPA \<Rightarrow> '' bad ppa (device unit)''
      | DL_SYSERR \<Rightarrow> '': '' @ strerror P (dl_unix_errno m)
      | DL_UNSUPPORTED \<Rightarrow> '': Service not supplied by provider''
      | Other_errno n \<Rightarrow> '' error 0x'' @ fmt_X False 0 (uint n))"

text \<open>
  \<^verbatim>\<open>recv_ack\<close> into a buffer of \<open>cap\<close> bytes: \<^verbatim>\<open>getmsg\<close> is told that it has \<^verbatim>\<open>MAXDLBUF\<close> bytes. The result is the
  acknowledgement that the buffer holds, or \<^term>\<open>None\<close> for -1. Every primitive that acknowledges anything
  is taken.
\<close>

definition recv_ack ::
  "'k streams \<Rightarrow> nat \<Rightarrow> int \<Rightarrow> nat \<Rightarrow> string \<Rightarrow> 'k solaris \<Rightarrow> c_error + (dl_message option \<times> 'k solaris)" where
  "recv_ack P cap fd sz what s =
     (case getmsg P fd (os s) of
        (Inl e, k) \<Rightarrow> complain (''recv_ack: '' @ what @ '' getmsg: '' @ strerror P e) (s\<lparr>os := k\<rparr>)
      | (Inr m, k) \<Rightarrow>
          let s = s\<lparr>os := k\<rparr>; len = length (dl_bytes m) in
          if len > cap then Inl Out_of_bounds
          else if dl_primitive m = DL_ERROR_ACK then complain (''recv_ack: '' @ what @ ack_error P m) s
          else case dl_primitive m of
            Other_primitive n \<Rightarrow>
              complain (''recv_ack: '' @ what @ '' unexpected primitive ack 0x'' @ fmt_X False 0 (uint n) @ '' '') s
          | _ \<Rightarrow>
              if len < sz
              then complain (''recv_ack: '' @ what @ '' ack too small ('' @ fmt_d (int len) @ '' < '' @ fmt_d (int sz) @ '')'') s
              else Inr (Some m, s))"

definition dlpromisconreq where
  "dlpromisconreq P fd l = send_request P fd (Dl_promiscon_req l) ''promiscon''"

definition dlattachreq where
  "dlattachreq P fd ppa = send_request P fd (Dl_attach_req ppa) ''attach''"

definition dlbindreq where
  "dlbindreq P fd sap = send_request P fd (Dl_bind_req sap) ''bind''"

definition dlinforeq where
  "dlinforeq P fd = send_request P fd Dl_info_req ''info''"

definition dlbindack where
  "dlbindack P cap fd = recv_ack P cap fd (DL_BIND_ACK_SIZE P) ''bind''"

definition dlokack where
  "dlokack P cap fd what = recv_ack P cap fd (DL_OK_ACK_SIZE P) what"

definition dlinfoack where
  "dlinfoack P cap fd = recv_ack P cap fd (DL_INFO_ACK_SIZE P) ''info''"

text \<open>\<^verbatim>\<open>strioctl\<close> with the only command it is called with.\<close>

definition strioctl :: "'k streams \<Rightarrow> int \<Rightarrow> 'k solaris \<Rightarrow> int \<times> 'k solaris" where
  "strioctl P fd s = (case ioctl_str P fd (os s) of ((rc, len), k) \<Rightarrow> (if rc < 0 then rc else len, s\<lparr>os := k\<rparr>))"

subsection \<open>Solaris: the name of a device\<close>

definition is_digit :: "char \<Rightarrow> bool" where
  "is_digit c \<longleftrightarrow> 48 \<le> (of_char c :: nat) \<and> (of_char c :: nat) \<le> 57"

definition decimal :: "string \<Rightarrow> nat" where
  "decimal s = foldl (\<lambda>n c. 10 * n + (of_char c - 48)) 0 s"

text \<open>
  \<^verbatim>\<open>strtol\<close> gives a \<^verbatim>\<open>long\<close> of \<open>w\<close> bits, the largest one for a number that is too large; it is assigned to
  an \<^verbatim>\<open>int\<close>. For the empty name the character in front of the string is read.
\<close>

definition split_dname :: "nat \<Rightarrow> string \<Rightarrow> c_error + (string \<times> u_int32) option" where
  "split_dname w device =
     (if device = [] then Inl Out_of_bounds
      else if \<not> is_digit (last device) then Inr None
      else
        let cp = rev (takeWhile is_digit (rev device)) in
        Inr (Some (cp, word_of_int (min (int (decimal cp)) (2 ^ (w - 1) - 1)))))"

text \<open>The name without its unit and the name with it, \<^verbatim>\<open>dname\<close> and \<^verbatim>\<open>dname2\<close>, arrays of 100 bytes.\<close>

definition device_names :: "string \<Rightarrow> string \<Rightarrow> c_error + (string \<times> string)" where
  "device_names iface cp =
     (let full = take 99 (if take 1 iface = ''/'' then iface else ''/dev'' @ ''/'' @ iface) in
      if length full < length cp then Inl Out_of_bounds
      else Inr (take (length full - length cp) full, full))"

subsection \<open>Solaris: opening an interface\<close>

abbreviation (input) die :: "string \<Rightarrow> c_error + 'a" where
  "die t \<equiv> Inl (Exit_process t)"

text \<open>\<^verbatim>\<open>req(...) < 0 || ack(...) < 0\<close>: the acknowledgement, or \<^term>\<open>None\<close> when one of the two fails.\<close>

definition transact ::
  "('s \<Rightarrow> c_error + (unit option \<times> 's)) \<Rightarrow> ('s \<Rightarrow> c_error + (dl_message option \<times> 's)) \<Rightarrow> 's \<Rightarrow>
     c_error + (dl_message option \<times> 's)" where
  "transact req ack s =
     bindE (req s) (\<lambda>(r, s). case r of None \<Rightarrow> Inr (None, s) | Some _ \<Rightarrow> ack s)"

definition demand ::
  "string \<Rightarrow> c_error + (dl_message option \<times> 's) \<Rightarrow> (dl_message \<Rightarrow> 's \<Rightarrow> c_error + 'b) \<Rightarrow> c_error + 'b" where
  "demand t r f = bindE r (\<lambda>(m, s). case m of None \<Rightarrow> die t | Some m \<Rightarrow> f m s)"

text \<open>Lines 155 to 171: the device without the unit, or with it; then the unit is 0.\<close>

definition open_device ::
  "'k streams \<Rightarrow> string \<Rightarrow> string \<Rightarrow> u_int32 \<Rightarrow> 'k solaris \<Rightarrow> c_error + (int \<times> u_int32 \<times> 'k solaris)" where
  "open_device P dname dname2 ppa s =
     (case open_dev P dname (os s) of
        (Inr fd, k) \<Rightarrow> Inr (fd, ppa, s\<lparr>os := k\<rparr>)
      | (Inl e, k) \<Rightarrow>
          if e \<noteq> ENOENT then die ''open()''
          else case open_dev P dname2 k of
            (Inr fd, k) \<Rightarrow> Inr (fd, 0, s\<lparr>os := k\<rparr>)
          | (Inl e, k) \<Rightarrow> die ''open()'')"

text \<open>Lines 186 to 207: bind, the three promiscuous modes, the information. The buffer has 8192 longs.\<close>

definition bind_stream :: "'k streams \<Rightarrow> int \<Rightarrow> 'k solaris \<Rightarrow> c_error + (dl_message \<times> 'k solaris)" where
  "bind_stream P fd s =
     (let cap = 4 * MAXDLBUF in
      demand ''dlbindreq()'' (transact (dlbindreq P fd 0) (dlbindack P cap fd) s) (\<lambda>_ s.
      demand ''dlpromisconreq(DL_PROMISC_PHYS)''
        (transact (dlpromisconreq P fd DL_PROMISC_PHYS) (dlokack P cap fd ''promisc_phys'') s) (\<lambda>_ s.
      bindE (transact (dlpromisconreq P fd DL_PROMISC_MULTI) (dlokack P cap fd ''promisc_multi'') s) (\<lambda>(_, s).
      demand ''dlpromisconreq(DL_PROMISC_SAP)''
        (transact (dlpromisconreq P fd DL_PROMISC_SAP) (dlokack P cap fd ''promisc_sap'') s) (\<lambda>_ s.
      demand ''dlinforeq()'' (transact (dlinforeq P fd) (dlinfoack P cap fd) s) (\<lambda>infop s.
        Inr (infop, s)))))))"

text \<open>Lines 174 to 184: a provider of style 2 has to be attached to the unit.\<close>

definition attach_stream :: "'k streams \<Rightarrow> int \<Rightarrow> u_int32 \<Rightarrow> 'k solaris \<Rightarrow> c_error + 'k solaris" where
  "attach_stream P fd ppa s =
     (let cap = 4 * MAXDLBUF in
      demand ''dlinforeq() || dlinfoack()'' (transact (dlinforeq P fd) (dlinfoack P cap fd) s) (\<lambda>infop s.
        if dl_style2 infop
        then demand ''dlattachreq()'' (transact (dlattachreq P fd ppa) (dlokack P cap fd ''attach'') s) (\<lambda>_ s. Inr s)
        else Inr s))"

text \<open>Lines 208 to 228: only Ethernet is supported, and the frames are to be given with their headers.\<close>

definition raw_ethernet :: "'k streams \<Rightarrow> int \<Rightarrow> dl_message \<Rightarrow> 'k solaris \<Rightarrow> c_error + 'k solaris" where
  "raw_ethernet P fd infop s =
     (case dl_mac_type infop of
        Other_mac n \<Rightarrow> die (''Interface not supported ( only DLT_EN10MB) | '' @ fmt_d n)
      | _ \<Rightarrow>
          let s = s\<lparr>dl_offset := 2\<rparr>;
              (rc, s) = (if has_DLIOCRAW P then strioctl P fd s else (0, s)) in
          if rc < 0 then die ''strioctl(DLIOCRAW)'' else Inr s)"

text \<open>Lines 281 to 293.\<close>

definition flush_stream :: "'k streams \<Rightarrow> int \<Rightarrow> 'k solaris \<Rightarrow> c_error + (int \<times> 'k solaris)" where
  "flush_stream P fd s =
     (case ioctl_flush P fd (os s) of (rc, k) \<Rightarrow>
        if rc \<noteq> 0 then die ''ioctl(I_FLUSH)''
        else Inr (fd, s\<lparr>os := k, bufsize := int MAXDLBUF * 4, dlpi_in_use := fd\<rparr>))"

definition if_open_raw ::
  "'k streams \<Rightarrow> nat \<Rightarrow> string \<Rightarrow> 'k solaris \<Rightarrow> c_error + (int \<times> 'k solaris)" where
  "if_open_raw P w iface s =
     (if dlpi_in_use s \<noteq> 0 then Inr (dlpi_in_use s, s)
      else bindE (split_dname w iface) (\<lambda>u. case u of
        None \<Rightarrow> die (''ec_inet_solaris:145 dlpi: '' @ iface @ '' missing or bad unit number'' @ nl)
      | Some (cp, ppa) \<Rightarrow>
          bindE (device_names iface cp) (\<lambda>(dname, dname2).
          bindE (open_device P dname dname2 ppa s) (\<lambda>(fd, ppa, s).
          bindE (attach_stream P fd ppa s) (\<lambda>s.
          bindE (bind_stream P fd s) (\<lambda>(infop, s).
          bindE (raw_ethernet P fd infop s) (flush_stream P fd)))))))"

text \<open>
  The Solaris branch of \<^verbatim>\<open>get_iface_ll\<close>. What lies in the buffer behind the message is not initialised, so
  an address there is the error \<^term>\<open>Out_of_bounds\<close>.
\<close>

definition get_iface_ll_solaris ::
  "'k streams \<Rightarrow> nat \<Rightarrow> string \<Rightarrow> bytes \<Rightarrow> 'k solaris \<Rightarrow> c_error + (int \<times> bytes \<times> 'k solaris)" where
  "get_iface_ll_solaris P w iface ll s =
     bindE (if_open_raw P w iface s) (\<lambda>(dlpi, s).
     bindE (send_request P dlpi Dl_phys_addr_req ''physaddr'' s) (\<lambda>(r, s).
       case r of None \<Rightarrow> die (''send_request(DL_PHYS_ADDR_REQ_SIZE) | '' @ c_str (ebuf s) @ '' '' @ nl)
       | Some _ \<Rightarrow>
           bindE (recv_ack P 2048 dlpi (DL_PHYS_ADDR_ACK_SIZE P) ''physaddr'' s) (\<lambda>(m, s).
             case m of None \<Rightarrow> die (''recv_ack(DL_PHYS_ADDR_ACK_SIZE) | '' @ c_str (ebuf s) @ '' '' @ nl)
             | Some m \<Rightarrow> bindE (copy_ll (dl_bytes m) (dl_addr_offset m) ll) (\<lambda>ll. Inr (ESUCCESS, ll, s)))))"

subsection \<open>What a provider does\<close>

text \<open>
  A stream as a provider of the data link provider interface keeps it: the node that was opened, whether it is
  of style 2, the medium, the unit it is attached to, the service access point it is bound to, the
  promiscuous modes that are on, whether it gives raw frames, and the messages nobody has read yet.
\<close>

record dlpi_stream =
  node :: string
  style2 :: bool
  mac :: mac_type
  attached :: "u_int32 option"
  bound :: "u_int32 option"
  modes :: "level set"
  raw :: bool
  replies :: "dl_message list"

fun grant :: "dl_request \<Rightarrow> dlpi_stream \<Rightarrow> dlpi_stream" where
  "grant Dl_info_req st = st"
| "grant (Dl_attach_req ppa) st = st\<lparr>attached := Some ppa\<rparr>"
| "grant (Dl_bind_req sap) st = st\<lparr>bound := Some sap\<rparr>"
| "grant (Dl_promiscon_req l) st = st\<lparr>modes := insert l (modes st)\<rparr>"
| "grant Dl_phys_addr_req st = st"

fun ack_of :: "dl_request \<Rightarrow> primitive" where
  "ack_of Dl_info_req = DL_INFO_ACK"
| "ack_of (Dl_attach_req ppa) = DL_OK_ACK"
| "ack_of (Dl_bind_req sap) = DL_BIND_ACK"
| "ack_of (Dl_promiscon_req l) = DL_OK_ACK"
| "ack_of Dl_phys_addr_req = DL_PHYS_ADDR_ACK"

fun tells :: "(string \<Rightarrow> u_int32 option \<Rightarrow> bytes) \<Rightarrow> dl_request \<Rightarrow> dlpi_stream \<Rightarrow> dl_message \<Rightarrow> bool" where
  "tells hw Dl_info_req st m \<longleftrightarrow> dl_style2 m = style2 st \<and> dl_mac_type m = mac st"
| "tells hw Dl_phys_addr_req st m \<longleftrightarrow>
     dl_addr_offset m + 6 \<le> length (dl_bytes m) \<and>
     take 6 (drop (dl_addr_offset m) (dl_bytes m)) = hw (node st) (attached st)"
| "tells hw rq st m \<longleftrightarrow> True"

text \<open>
  The documented behaviour: \<open>view\<close> is the stream behind a descriptor, \<open>hw\<close> the address of a unit of a
  device. A request is granted and acknowledged, or refused with \<^verbatim>\<open>DL_ERROR_ACK\<close>, or not sent at all.
\<close>

definition answered ::
  "(string \<Rightarrow> u_int32 option \<Rightarrow> bytes) \<Rightarrow> dl_request \<Rightarrow> dlpi_stream \<Rightarrow> dl_message \<Rightarrow> dlpi_stream \<Rightarrow> bool" where
  "answered hw rq st m st' \<longleftrightarrow>
     (if dl_primitive m = DL_ERROR_ACK then st' = st\<lparr>replies := replies st @ [m]\<rparr>
      else dl_primitive m = ack_of rq \<and> tells hw rq st m \<and> st' = (grant rq st)\<lparr>replies := replies st @ [m]\<rparr>)"

definition dlpi_provider ::
  "'k streams \<Rightarrow> (string \<Rightarrow> u_int32 option \<Rightarrow> bytes) \<Rightarrow> ('k \<Rightarrow> int \<Rightarrow> dlpi_stream option) \<Rightarrow> bool" where
  "dlpi_provider P hw view \<longleftrightarrow>
     (\<forall>d k fd k'. open_dev P d k = (Inr fd, k') \<longrightarrow>
        (\<exists>st. view k' fd = Some st \<and> node st = d \<and> attached st = None \<and> replies st = [])) \<and>
     (\<forall>fd rq k e k' st. putmsg P fd rq k = (Some e, k') \<longrightarrow> view k fd = Some st \<longrightarrow> view k' fd = Some st) \<and>
     (\<forall>fd rq k k' st. putmsg P fd rq k = (None, k') \<longrightarrow> view k fd = Some st \<longrightarrow>
        (\<exists>m st'. answered hw rq st m st' \<and> view k' fd = Some st')) \<and>
     (\<forall>fd k st m ms. view k fd = Some st \<longrightarrow> replies st = m # ms \<longrightarrow>
        (\<exists>k'. getmsg P fd k = (Inr m, k') \<and> view k' fd = Some (st\<lparr>replies := ms\<rparr>))) \<and>
     (\<forall>fd k rc len k' st. ioctl_str P fd k = ((rc, len), k') \<longrightarrow> 0 \<le> rc \<longrightarrow> view k fd = Some st \<longrightarrow>
        view k' fd = Some (st\<lparr>raw := True\<rparr>)) \<and>
     (\<forall>fd k k' st. ioctl_flush P fd k = (0, k') \<longrightarrow> view k fd = Some st \<longrightarrow>
        view k' fd = Some (st\<lparr>replies := []\<rparr>))"

text \<open>A provider of Ethernet that refuses nothing.\<close>

definition obliging :: "'k streams \<Rightarrow> ('k \<Rightarrow> int \<Rightarrow> dlpi_stream option) \<Rightarrow> bool" where
  "obliging P view \<longleftrightarrow>
     (\<forall>d k. \<exists>fd k'. open_dev P d k = (Inr fd, k')) \<and>
     (\<forall>fd rq k. \<exists>k'. putmsg P fd rq k = (None, k')) \<and>
     (\<forall>fd rq k k' st st' m. putmsg P fd rq k = (None, k') \<longrightarrow> view k fd = Some st \<longrightarrow> replies st = [] \<longrightarrow>
        view k' fd = Some st' \<longrightarrow> m \<in> set (replies st') \<longrightarrow>
        dl_primitive m \<noteq> DL_ERROR_ACK \<and> length (dl_bytes m) \<le> 2048 \<and>
        (\<forall>n \<in> {DL_INFO_ACK_SIZE P, DL_BIND_ACK_SIZE P, DL_OK_ACK_SIZE P, DL_PHYS_ADDR_ACK_SIZE P}. n \<le> length (dl_bytes m))) \<and>
     (\<forall>fd k st. view k fd = Some st \<longrightarrow> mac st \<in> {DL_CSMACD, DL_ETHER}) \<and>
     (\<forall>fd k. \<exists>len k'. ioctl_str P fd k = ((0, len), k') \<and> 0 \<le> len) \<and>
     (\<forall>fd k. \<exists>k'. ioctl_flush P fd k = (0, k'))"

definition stream_at ::
  "('k \<Rightarrow> int \<Rightarrow> dlpi_stream option) \<Rightarrow> int \<Rightarrow> dlpi_stream \<Rightarrow> 'k solaris \<Rightarrow> bool" where
  "stream_at view fd st s \<longleftrightarrow> view (os s) fd = Some st \<and> replies st = []"

lemma grant_pending [simp]: "replies (grant rq st) = replies st"
  by (cases rq) simp_all

lemma clear_pending [simp]: "replies (st :: dlpi_stream) = [] \<Longrightarrow> st\<lparr>replies := []\<rparr> = st"
  by (cases st) simp

lemma stream_at_frame [simp]:
  "stream_at view fd st (s\<lparr>ebuf := b\<rparr>) = stream_at view fd st s"
  "stream_at view fd st (s\<lparr>dl_offset := i\<rparr>) = stream_at view fd st s"
  "stream_at view fd st (s\<lparr>bufsize := i\<rparr>) = stream_at view fd st s"
  "stream_at view fd st (s\<lparr>dlpi_in_use := i\<rparr>) = stream_at view fd st s"
  by (simp_all add: stream_at_def)

lemma provider_put:
  "dlpi_provider P hw view \<Longrightarrow> putmsg P fd rq k = (None, k') \<Longrightarrow> view k fd = Some st \<Longrightarrow>
    \<exists>m st'. answered hw rq st m st' \<and> view k' fd = Some st'"
  "dlpi_provider P hw view \<Longrightarrow> putmsg P fd rq k = (Some e, k') \<Longrightarrow> view k fd = Some st \<Longrightarrow> view k' fd = Some st"
  unfolding dlpi_provider_def by (elim conjE, metis)+

lemma provider_get:
  "dlpi_provider P hw view \<Longrightarrow> view k fd = Some st \<Longrightarrow> replies st = m # ms \<Longrightarrow>
    \<exists>k'. getmsg P fd k = (Inr m, k') \<and> view k' fd = Some (st\<lparr>replies := ms\<rparr>)"
  unfolding dlpi_provider_def by (elim conjE, metis)

lemma provider_open:
  "dlpi_provider P hw view \<Longrightarrow> open_dev P d k = (Inr fd, k') \<Longrightarrow>
    \<exists>st. view k' fd = Some st \<and> node st = d \<and> attached st = None \<and> replies st = []"
  unfolding dlpi_provider_def by (elim conjE, metis)

lemma provider_ioctl:
  "dlpi_provider P hw view \<Longrightarrow> ioctl_str P fd k = ((rc, len), k') \<Longrightarrow> 0 \<le> rc \<Longrightarrow> view k fd = Some st \<Longrightarrow>
    view k' fd = Some (st\<lparr>raw := True\<rparr>)"
  "dlpi_provider P hw view \<Longrightarrow> ioctl_flush P fd k = (0, k') \<Longrightarrow> view k fd = Some st \<Longrightarrow>
    view k' fd = Some (st\<lparr>replies := []\<rparr>)"
  unfolding dlpi_provider_def by (elim conjE, metis)+

subsection \<open>Requests and their answers\<close>

lemma ensures_complain:
  "(\<And>b. Q None (s\<lparr>ebuf := b\<rparr>)) \<Longrightarrow> ensures (\<lambda>(r, s'). Q r s') (complain t s)"
  by (auto simp: complain_def put_ebuf_def intro!: ensures_bindE_any)

lemma ensures_recv_ack:
  assumes "getmsg P fd (os s) = (Inr m, k)"
    and none: "\<And>b. Q None (s\<lparr>os := k, ebuf := b\<rparr>)"
    and some: "dl_primitive m \<noteq> DL_ERROR_ACK \<Longrightarrow> Q (Some m) (s\<lparr>os := k\<rparr>)"
  shows "ensures (\<lambda>(r, s'). Q r s') (recv_ack P cap fd sz what s)"
  using assms(1) none some
  by (auto simp: recv_ack_def Let_def split: primitive.split intro!: ensures_complain)

text \<open>
  A request and the wait for its answer: the stream has no message left over, it has changed only as the
  request says, and it has done so when there is an acknowledgement.
\<close>

definition after where
  "after hw view fd rq st r s' \<longleftrightarrow>
     (\<exists>st'. stream_at view fd st' s' \<and> st' \<in> {st, grant rq st} \<and>
        (\<forall>m. r = Some m \<longrightarrow> st' = grant rq st \<and> tells hw rq st m))"

text \<open>\<open>yields ob Q r\<close>: a result satisfies \<open>Q\<close>, and there is one when \<open>ob\<close> holds.\<close>

definition yields :: "bool \<Rightarrow> ('a \<Rightarrow> bool) \<Rightarrow> c_error + 'a \<Rightarrow> bool" where
  "yields ob Q r \<longleftrightarrow> ensures Q r \<and> (ob \<longrightarrow> (\<exists>x. r = Inr x))"

lemma yields_Inr [simp]: "yields ob Q (Inr x) \<longleftrightarrow> Q x"
  by (simp add: yields_def)

lemma yields_Inl [simp]: "yields ob Q (Inl e) \<longleftrightarrow> \<not> ob"
  by (simp add: yields_def)

lemma yields_bindE:
  "yields ob R r \<Longrightarrow> (\<And>x. R x \<Longrightarrow> yields ob Q (f x)) \<Longrightarrow> yields ob Q (bindE r f)"
  by (cases r) simp_all

lemma yields_mono: "yields ob Q r \<Longrightarrow> (\<And>x. Q x \<Longrightarrow> R x) \<Longrightarrow> yields ob R r"
  by (auto simp: yields_def ensures_def)

lemma yields_demand:
  "yields ob (\<lambda>(m, s). R m s \<and> (ob \<longrightarrow> m \<noteq> None)) r \<Longrightarrow> (\<And>m s. R (Some m) s \<Longrightarrow> yields ob Q (f m s)) \<Longrightarrow>
    yields ob Q (demand t r f)"
  unfolding demand_def by (erule yields_bindE) (auto split: option.split)

lemma transact_yields:
  assumes P: "dlpi_provider P hw view" and at: "stream_at view fd st s" and cap: "2048 \<le> cap"
    and sz: "sz \<in> {DL_INFO_ACK_SIZE P, DL_BIND_ACK_SIZE P, DL_OK_ACK_SIZE P, DL_PHYS_ADDR_ACK_SIZE P}"
  shows "yields (obliging P view) (\<lambda>(r, s'). after hw view fd rq st r s' \<and> (obliging P view \<longrightarrow> r \<noteq> None))
    (transact (send_request P fd rq t1) (recv_ack P cap fd sz t2) s)"
proof (cases "putmsg P fd rq (os s)")
  case (Pair e k)
  note st = at [unfolded stream_at_def]
  show ?thesis
  proof (cases e)
    case (Some n)
    then have ob: "\<not> obliging P view" using Pair unfolding obliging_def by (metis fst_conv option.distinct(1))
    have "view k fd = Some st" using provider_put(2) [OF P] Pair Some st by blast
    then have "ensures (\<lambda>(r, s'). r = None \<and> after hw view fd rq st None s') (send_request P fd rq t1 s)"
      using Pair Some st unfolding send_request_def
      by (auto intro!: ensures_complain simp: after_def) (auto simp: stream_at_def)
    then show ?thesis unfolding transact_def yields_def
      by (auto simp: ob intro!: ensures_bindE elim!: ensures_mono)
  next
    case None
    obtain m st' where a: "answered hw rq st m st'" and v: "view k fd = Some st'"
      using provider_put(1) [OF P] Pair None st by blast
    have m: "replies st' = [m]" using a st by (auto simp: answered_def split: if_splits)
    then obtain k' where g: "getmsg P fd k = (Inr m, k')" and v': "view k' fd = Some (st'\<lparr>replies := []\<rparr>)"
      using provider_get [OF P v] by blast
    have "st'\<lparr>replies := []\<rparr> = (if dl_primitive m = DL_ERROR_ACK then st else grant rq st)"
      using a st by (auto simp: answered_def split: if_splits)
    with a v' st have "ensures (\<lambda>(r, s'). after hw view fd rq st r s') (recv_ack P cap fd sz t2 (s\<lparr>os := k\<rparr>))"
      by (auto intro!: ensures_recv_ack [where k = k' and m = m] simp: g after_def stream_at_def answered_def
          split: if_splits)
    moreover have "recv_ack P cap fd sz t2 (s\<lparr>os := k\<rparr>) = Inr (Some m, s\<lparr>os := k'\<rparr>)" if ob: "obliging P view"
    proof -
      have "m \<in> set (replies st')" using m by simp
      then have "dl_primitive m \<noteq> DL_ERROR_ACK \<and> length (dl_bytes m) \<le> 2048 \<and> sz \<le> length (dl_bytes m)"
        using ob Pair None st v sz unfolding obliging_def by blast
      moreover from this a have "dl_primitive m = ack_of rq" by (simp add: answered_def)
      ultimately show ?thesis using cap g by (cases rq) (simp_all add: recv_ack_def)
    qed
    ultimately show ?thesis unfolding transact_def send_request_def Pair None yields_def
      by (cases "obliging P view") auto
  qed
qed

lemma demand_yields:
  assumes "dlpi_provider P hw view" and "stream_at view fd st s" and "2048 \<le> cap"
    and "sz \<in> {DL_INFO_ACK_SIZE P, DL_BIND_ACK_SIZE P, DL_OK_ACK_SIZE P, DL_PHYS_ADDR_ACK_SIZE P}"
    and "\<And>m s'. stream_at view fd (grant rq st) s' \<Longrightarrow> tells hw rq st m \<Longrightarrow> yields (obliging P view) Q (f m s')"
  shows "yields (obliging P view) Q
    (demand t (transact (send_request P fd rq t1) (recv_ack P cap fd sz t2) s) f)"
  by (rule yields_demand, rule transact_yields [OF assms(1-4)]) (auto simp: after_def intro: assms(5))

lemma optional_yields:
  assumes "dlpi_provider P hw view" and "stream_at view fd st s" and "2048 \<le> cap"
    and "sz \<in> {DL_INFO_ACK_SIZE P, DL_BIND_ACK_SIZE P, DL_OK_ACK_SIZE P, DL_PHYS_ADDR_ACK_SIZE P}"
    and "\<And>m st' s'. stream_at view fd st' s' \<Longrightarrow> st' \<in> {st, grant rq st} \<Longrightarrow> yields (obliging P view) Q (f (m, s'))"
  shows "yields (obliging P view) Q
    (bindE (transact (send_request P fd rq t1) (recv_ack P cap fd sz t2) s) f)"
  by (rule yields_bindE, rule transact_yields [OF assms(1-4)]) (auto simp: after_def intro: assms(5))

lemmas dl_requests = dlinforeq_def dlattachreq_def dlbindreq_def dlpromisconreq_def
  dlinfoack_def dlbindack_def dlokack_def

lemma attach_stream_yields:
  assumes "dlpi_provider P hw view" and "stream_at view fd st s"
  shows "yields (obliging P view)
    (stream_at view fd (if style2 st then st\<lparr>attached := Some ppa\<rparr> else st)) (attach_stream P fd ppa s)"
  unfolding attach_stream_def Let_def dl_requests
  by (rule demand_yields [OF assms(1,2)]) (auto intro!: demand_yields [OF assms(1)])

definition listening :: "dlpi_stream \<Rightarrow> dlpi_stream \<Rightarrow> bool" where
  "listening st st' \<longleftrightarrow>
     node st' = node st \<and> style2 st' = style2 st \<and> mac st' = mac st \<and> attached st' = attached st \<and>
     bound st' = Some 0 \<and> {DL_PROMISC_PHYS, DL_PROMISC_SAP} \<subseteq> modes st'"

lemma bind_stream_yields:
  assumes "dlpi_provider P hw view" and "stream_at view fd st s"
  shows "yields (obliging P view)
    (\<lambda>(m, s'). \<exists>st'. stream_at view fd st' s' \<and> listening st st' \<and> dl_mac_type m = mac st') (bind_stream P fd s)"
  unfolding bind_stream_def Let_def dl_requests
  apply (rule demand_yields [OF assms], simp, simp)
  apply (rule demand_yields [OF assms(1)], assumption, simp, simp)
  apply (rule optional_yields [OF assms(1)], assumption, simp, simp)
  apply (simp only: prod.case insert_iff empty_iff simp_thms)
  apply (rule demand_yields [OF assms(1)], assumption, simp, simp)
  apply (rule demand_yields [OF assms(1)], assumption, simp, simp)
  apply (simp only: yields_Inr prod.case)
  apply (rule exI, rule conjI, assumption)
  apply (auto simp: listening_def)
  done

lemma finish_stream_yields:
  assumes P: "dlpi_provider P hw view" and at: "stream_at view fd st s" and "dl_mac_type m = mac st"
  shows "yields (obliging P view)
    (\<lambda>(fd', s'). fd' = fd \<and> dlpi_in_use s' = fd \<and> dl_offset s' = 2 \<and> mac st \<in> {DL_CSMACD, DL_ETHER} \<and>
      stream_at view fd (if has_DLIOCRAW P then st\<lparr>raw := True\<rparr> else st) s') (bindE (raw_ethernet P fd m s) (flush_stream P fd))"
proof -
  let ?ob = "obliging P view" and ?st = "if has_DLIOCRAW P then st\<lparr>raw := True\<rparr> else st"
  obtain rc len k where i: "ioctl_str P fd (os s) = ((rc, len), k)" by (metis prod.exhaust)
  have st: "view (os s) fd = Some st" "replies st = []" using at by (simp_all add: stream_at_def)
  define k' where "k' = (if has_DLIOCRAW P then k else os s)"
  obtain rc' k'' where f: "ioctl_flush P fd k' = (rc', k'')" by (metis prod.exhaust)
  have raw: "view k' fd = Some ?st" if "has_DLIOCRAW P \<longrightarrow> 0 \<le> rc"
    using that provider_ioctl(1) [OF P i _ st(1)] st(1) by (simp add: k'_def)
  have flush: "view k'' fd = Some ?st" if "has_DLIOCRAW P \<longrightarrow> 0 \<le> rc" and "rc' = 0"
    using provider_ioctl(2) [OF P f [unfolded that(2)] raw [OF that(1)]] st(2) by auto
  have ob: "mac st \<in> {DL_CSMACD, DL_ETHER} \<and> rc = 0 \<and> 0 \<le> len \<and> rc' = 0" if "?ob"
    using that st(1) i f unfolding obliging_def by (metis Pair_inject)
  have "fd' = fd \<and> dlpi_in_use s' = fd \<and> dl_offset s' = 2 \<and> mac st \<in> {DL_CSMACD, DL_ETHER} \<and>
      stream_at view fd ?st s'" if "bindE (raw_ethernet P fd m s) (flush_stream P fd) = Inr (fd', s')" for fd' s'
    using that flush assms(3) st(2) f i unfolding k'_def
    by (auto simp: raw_ethernet_def flush_stream_def strioctl_def stream_at_def Let_def split: mac_type.splits if_splits)
  moreover have "\<exists>x. bindE (raw_ethernet P fd m s) (flush_stream P fd) = Inr x" if "?ob"
    using ob [OF that] assms(3) f i unfolding k'_def
    by (auto simp: raw_ethernet_def flush_stream_def strioctl_def Let_def split: mac_type.splits if_splits)
  ultimately show ?thesis unfolding yields_def ensures_def by auto
qed

lemma open_device_yields:
  assumes P: "dlpi_provider P hw view"
  shows "yields (obliging P view)
    (\<lambda>(fd, ppa', s'). \<exists>st. stream_at view fd st s' \<and> attached st = None \<and>
       (node st = dname \<and> ppa' = ppa \<or> node st = dname2 \<and> ppa' = 0))
    (open_device P dname dname2 ppa s)"
proof -
  have "\<exists>fd k'. open_dev P d k = (Inr fd, k')" if "obliging P view" for d k
    using that unfolding obliging_def by blast
  then show ?thesis
    unfolding open_device_def yields_def ensures_def stream_at_def
    by (auto split: prod.splits sum.splits dest!: provider_open [OF P]) (metis Inl_Inr_False fst_conv)+
qed

text \<open>The stream of a device and a unit as the program uses it.\<close>

definition prepared :: "'k streams \<Rightarrow> string \<Rightarrow> u_int32 \<Rightarrow> dlpi_stream \<Rightarrow> bool" where
  "prepared P d ppa st \<longleftrightarrow>
     node st = d \<and> attached st = (if style2 st then Some ppa else None) \<and> bound st = Some 0 \<and>
     {DL_PROMISC_PHYS, DL_PROMISC_SAP} \<subseteq> modes st \<and> (has_DLIOCRAW P \<longrightarrow> raw st) \<and>
     mac st \<in> {DL_CSMACD, DL_ETHER}"

lemma if_open_raw_yields:
  assumes P: "dlpi_provider P hw view" and "dlpi_in_use s = 0"
    and "split_dname w iface = Inr (Some (cp, ppa))" and "device_names iface cp = Inr (dname, dname2)"
  shows "yields (obliging P view)
    (\<lambda>(fd, s'). dlpi_in_use s' = fd \<and> dl_offset s' = 2 \<and>
       (\<exists>st. stream_at view fd st s' \<and> (prepared P dname ppa st \<or> prepared P dname2 0 st)))
    (if_open_raw P w iface s)"
  using assms(2-4) unfolding if_open_raw_def
  apply (simp del: not_None_eq)
  apply (rule yields_bindE, rule open_device_yields [OF P])
  apply clarify
  apply (rule yields_bindE, rule attach_stream_yields [OF P], assumption)
  apply (rule yields_bindE, rule bind_stream_yields [OF P], assumption)
  apply clarify
  apply (rule yields_mono, rule finish_stream_yields [OF P], assumption, assumption)
  apply clarify
  apply (rule conjI, rule refl)
  apply (rule conjI, assumption)
  apply (rule exI, rule conjI, assumption)
  apply (auto simp: prepared_def listening_def)
  done

subsection \<open>The name of a device\<close>

lemma of_char_hex_digit: "k < 10 \<Longrightarrow> (of_char (hex_digit True k) :: nat) = 48 + k"
  by (auto simp: hex_digit_def nth_Cons' less_Suc_eq_0_disj numeral_eq_Suc)

lemma is_digit_hex_digit: "k < 10 \<Longrightarrow> is_digit (hex_digit True k)"
  by (simp add: is_digit_def of_char_hex_digit)

lemma decs_is_digit: "\<forall>c \<in> set (decs n). is_digit c"
  by (induction n rule: decs.induct) (subst decs.simps, auto simp: is_digit_hex_digit)

lemma decimal_decs: "decimal (decs n) = n"
proof (induction n rule: decs.induct)
  case (1 n)
  then show ?case
    by (subst decs.simps) (auto simp: decimal_def of_char_hex_digit)
qed

lemma split_dname_unit:
  assumes "name \<noteq> []" and "\<not> is_digit (last name)" and "n < 2 ^ 31" and "32 \<le> w"
  shows "split_dname w (name @ decs n) = Inr (Some (decs n, of_nat n))"
proof -
  have "takeWhile is_digit (rev name) = []"
    using assms(1,2) by (cases "rev name") (auto simp: hd_rev [symmetric])
  then have "takeWhile is_digit (rev (name @ decs n)) = rev (decs n)"
    using decs_is_digit by (simp add: takeWhile_append)
  moreover have "min (int n) (2 ^ (w - 1) - 1) = int n"
  proof -
    have "(2 :: int) ^ 31 \<le> 2 ^ (w - 1)" using assms(4) by (intro power_increasing) auto
    moreover have "int n < 2 ^ 31" using assms(3) by simp
    ultimately show ?thesis by (intro min.absorb1) linarith
  qed
  moreover have "is_digit (last (name @ decs n))"
    using decs_is_digit [of n] last_in_set [of "decs n"] by simp
  ultimately show ?thesis by (simp add: split_dname_def decimal_decs)
qed

lemma take_in_front: "take (length (a @ b) - length b) (a @ b) = a"
  by simp

lemma device_names_unit:
  assumes "take 1 name \<noteq> ''/''" and "name \<noteq> []" and "length name \<le> 84" and "n < 2 ^ 31"
  shows "device_names (name @ decs n) (decs n) = Inr (''/dev/'' @ name, ''/dev/'' @ name @ decs n)"
proof -
  have "length (decs n) \<le> 10" using assms(4) by (intro length_decs_le) simp_all
  with assms(1-3) have full: "take 99 (if take 1 (name @ decs n) = ''/'' then name @ decs n
      else ''/dev'' @ ''/'' @ name @ decs n) = (''/dev/'' @ name) @ decs n"
    by (cases name) simp_all
  show ?thesis unfolding device_names_def full Let_def take_in_front by simp
qed

subsection \<open>The addresses\<close>

lemma send_request_in_use: "send_request P fd rq t s = Inr (r, s') \<Longrightarrow> dlpi_in_use s' = dlpi_in_use s"
  by (auto simp: send_request_def complain_def put_ebuf_def bindE_eq_Inr split: prod.splits option.splits)

lemma recv_ack_in_use: "recv_ack P cap fd sz t s = Inr (r, s') \<Longrightarrow> dlpi_in_use s' = dlpi_in_use s"
  by (auto simp: recv_ack_def Let_def complain_def put_ebuf_def bindE_eq_Inr
      split: prod.splits sum.splits if_splits primitive.splits)

lemma yields_transact_die:
  assumes "yields ob (\<lambda>(m, s). R m s \<and> (ob \<longrightarrow> m \<noteq> None)) (transact req ack s)"
    and "\<And>m s' s1 r. R (Some m) s' \<Longrightarrow> req s = Inr (r, s1) \<Longrightarrow> ack s1 = Inr (Some m, s') \<Longrightarrow> yields ob Q (f m s')"
  shows "yields ob Q (bindE (req s) (\<lambda>(r, s). case r of None \<Rightarrow> die (t1 s) | Some _ \<Rightarrow>
    bindE (ack s) (\<lambda>(m, s). case m of None \<Rightarrow> die (t2 s) | Some m \<Rightarrow> f m s)))"
proof (cases "req s")
  case (Inl e)
  with assms(1) show ?thesis by (simp add: transact_def)
next
  case (Inr x)
  obtain r s1 where x: "x = (r, s1)" by (cases x)
  show ?thesis
  proof (cases "ack s1")
    case (Inl e)
    with assms(1) Inr x show ?thesis by (simp add: transact_def split: option.splits)
  next
    case ack: (Inr y)
    obtain m s' where "y = (m, s')" by (cases y)
    with assms Inr x ack show ?thesis by (auto simp: transact_def split: option.splits)
  qed
qed

lemma copy_ll_ok:
  "i + 6 \<le> length b \<Longrightarrow> 6 \<le> length ll \<Longrightarrow> copy_ll b i ll = Inr (overwrite ll 0 (take 6 (drop i b)))"
  by (simp add: copy_ll_def rd_bytes_ok)

lemma take_overwrite_start: "length a = n \<Longrightarrow> n \<le> length b \<Longrightarrow> take n (overwrite b 0 a) = a"
  by (simp add: overwrite_def)

text \<open>Once a stream is open its address is the answer, whatever interface is asked for.\<close>

lemma address_of_open_stream:
  assumes P: "dlpi_provider P hw view" and at: "stream_at view (dlpi_in_use s) st s"
    and "dlpi_in_use s \<noteq> 0" and "6 \<le> length ll"
  shows "yields (obliging P view)
    (\<lambda>(r, ll', s'). r = ESUCCESS \<and> take 6 ll' = hw (node st) (attached st) \<and>
       stream_at view (dlpi_in_use s') st s' \<and> dlpi_in_use s' = dlpi_in_use s)
    (get_iface_ll_solaris P w iface ll s)"
proof -
  have "yields (obliging P view)
    (\<lambda>(r, ll', s'). r = ESUCCESS \<and> take 6 ll' = hw (node st) (attached st) \<and>
       stream_at view (dlpi_in_use s') st s' \<and> dlpi_in_use s' = dlpi_in_use s)
    (bindE (copy_ll (dl_bytes m) (dl_addr_offset m) ll) (\<lambda>ll. Inr (ESUCCESS, ll, s')))"
    if "after hw view (dlpi_in_use s) Dl_phys_addr_req st (Some m) s'" and "dlpi_in_use s' = dlpi_in_use s" for m s'
  proof -
    from that(1) have a: "stream_at view (dlpi_in_use s) st s'" "dl_addr_offset m + 6 \<le> length (dl_bytes m)"
        "take 6 (drop (dl_addr_offset m) (dl_bytes m)) = hw (node st) (attached st)"
      by (auto simp: after_def)
    then have "length (hw (node st) (attached st)) = 6" by (auto dest!: arg_cong [where f = length])
    with a that(2) assms(4) show ?thesis by (simp add: copy_ll_ok take_overwrite_start)
  qed
  then show ?thesis
    using assms(3) unfolding get_iface_ll_solaris_def if_open_raw_def
    by simp (rule yields_transact_die [OF transact_yields [OF P at]];
      fastforce dest: send_request_in_use recv_ack_in_use)
qed

lemma get_iface_ll_open:
  assumes "get_iface_ll_solaris P w iface ll s = Inr (r, ll1, s1)"
  obtains fd s0 where "if_open_raw P w iface s = Inr (fd, s0)" and "dlpi_in_use s1 = dlpi_in_use s0" and "6 \<le> length ll"
  using assms
  by (auto simp: get_iface_ll_solaris_def bindE_eq_Inr copy_ll_def split: option.splits if_splits
      dest!: send_request_in_use recv_ack_in_use)

text \<open>The call that opens the stream gives the address of the stream as well.\<close>

lemma first_address:
  assumes P: "dlpi_provider P hw view" and "dlpi_in_use s = 0"
    and get: "get_iface_ll_solaris P w iface ll s = Inr (r, ll1, s1)" and "dlpi_in_use s1 \<noteq> 0"
  shows "\<exists>st. stream_at view (dlpi_in_use s1) st s1 \<and> take 6 ll1 = hw (node st) (attached st)"
proof -
  obtain fd s0 where s0: "if_open_raw P w iface s = Inr (fd, s0)" "dlpi_in_use s1 = dlpi_in_use s0" "6 \<le> length ll"
    by (rule get_iface_ll_open [OF get])
  obtain cp ppa d d2 where "split_dname w iface = Inr (Some (cp, ppa))" "device_names iface cp = Inr (d, d2)"
    using s0(1) assms(2) unfolding if_open_raw_def by (auto simp: bindE_eq_Inr split: option.splits)
  from if_open_raw_yields [OF P assms(2) this] s0(1) obtain st where st: "dlpi_in_use s0 = fd" "stream_at view fd st s0"
    by auto
  then have "get_iface_ll_solaris P w iface ll s = get_iface_ll_solaris P w iface ll s0"
    using s0(1,2) assms(4) by (simp add: get_iface_ll_solaris_def if_open_raw_def)
  with address_of_open_stream [OF P, of s0 st ll w iface] st s0(2,3) assms(4) get show ?thesis by auto
qed

subsection \<open>An example of a provider\<close>

definition sample_hw :: "string \<Rightarrow> u_int32 option \<Rightarrow> bytes" where
  "sample_hw d u = [0, 3, 0xBA, 0, 0, case u of None \<Rightarrow> 0xFF | Some n \<Rightarrow> ucast n]"

definition sample_ack :: "dl_request \<Rightarrow> dlpi_stream \<Rightarrow> dl_message" where
  "sample_ack rq st =
     \<lparr>dl_primitive = ack_of rq, dl_errno = Other_errno 0, dl_unix_errno = 0, dl_style2 = style2 st,
      dl_mac_type = mac st, dl_addr_offset = 24, dl_bytes = replicate 24 0 @ sample_hw (node st) (attached st) @ replicate 34 0\<rparr>"

definition sample_streams :: "dlpi_stream option streams" where
  "sample_streams =
     \<lparr>open_dev = \<lambda>d k. (Inr 3, Some \<lparr>node = d, style2 = True, mac = DL_ETHER, attached = None, bound = None,
        modes = {}, raw = False, replies = []\<rparr>),
      putmsg = \<lambda>fd rq k. (None, map_option (\<lambda>st. (grant rq st)\<lparr>replies := replies st @ [sample_ack rq st]\<rparr>) k),
      getmsg = \<lambda>fd k. (case k of None \<Rightarrow> (Inl 9, k) | Some st \<Rightarrow>
        (case replies st of [] \<Rightarrow> (Inl 11, k) | m # ms \<Rightarrow> (Inr m, Some (st\<lparr>replies := ms\<rparr>)))),
      ioctl_str = \<lambda>fd k. ((0, 0), map_option (\<lambda>st. st\<lparr>raw := True\<rparr>) k),
      ioctl_flush = \<lambda>fd k. (0, map_option (\<lambda>st. st\<lparr>replies := []\<rparr>) k),
      has_DLIOCRAW = True, strerror = (\<lambda>n. ''error''),
      DL_INFO_ACK_SIZE = 60, DL_BIND_ACK_SIZE = 20, DL_OK_ACK_SIZE = 8, DL_PHYS_ADDR_ACK_SIZE = 12\<rparr>"

definition sample_view :: "dlpi_stream option \<Rightarrow> int \<Rightarrow> dlpi_stream option" where
  "sample_view k fd =
     (case k of None \<Rightarrow> None | Some st \<Rightarrow> if fd = 3 \<and> mac st = DL_ETHER then Some st else None)"

lemma sample_ack_ok [simp]:
  "dl_primitive (sample_ack rq st) = ack_of rq" "tells sample_hw rq st (sample_ack rq st)"
  "length (dl_bytes (sample_ack rq st)) = 64" "ack_of rq \<noteq> DL_ERROR_ACK"
  by (cases rq; simp add: sample_ack_def sample_hw_def)+

lemma grant_mac [simp]: "mac (grant rq st) = mac st"
  by (cases rq) simp_all

lemma sample_provider: "dlpi_provider sample_streams sample_hw sample_view"
  unfolding dlpi_provider_def sample_streams_def answered_def
  apply (auto simp: sample_view_def split: option.splits if_splits)
  subgoal for rq st by (rule exI [of _ "sample_ack rq st"]) simp
  done

lemma sample_obliging: "obliging sample_streams sample_view"
  unfolding obliging_def sample_streams_def
  by (auto simp: sample_view_def split: option.splits if_splits)

definition sample_solaris :: "dlpi_stream option solaris" where
  "sample_solaris = \<lparr>os = None, ebuf = replicate 100 NUL, dlpi_in_use = 0, dl_offset = 0, bufsize = 0\<rparr>"

subsection \<open>Properties\<close>



text \<open>
  C38: After the first call of \<^verbatim>\<open>get_iface_ll\<close> on Solaris every other interface has the address of the first
  one, even one that does not exist, since \<^verbatim>\<open>if_open_raw\<close> gives the stream that is open; the call ends the
  program only when the provider refuses to tell the address.
\<close>

theorem every_interface_has_first_address:
  assumes "dlpi_provider P hw view" and "dlpi_in_use s = 0"
    and "get_iface_ll_solaris P w first ll s = Inr (r, ll1, s1)" and "dlpi_in_use s1 \<noteq> 0" and "6 \<le> length ll2"
  shows "yields (obliging P view) (\<lambda>(r', ll', s'). r' = ESUCCESS \<and> take 6 ll' = take 6 ll1)
    (get_iface_ll_solaris P w other ll2 s1)"
proof -
  obtain st where st: "stream_at view (dlpi_in_use s1) st s1" "take 6 ll1 = hw (node st) (attached st)"
    using first_address [OF assms(1-4)] by blast
  show ?thesis
    by (rule yields_mono, rule address_of_open_stream [OF assms(1) st(1) assms(4,5)]) (auto simp: st(2))
qed

text \<open>The unit of \<open>hme0\<close> has another address than the one of \<open>hme1\<close>, which is the answer for both.\<close>

definition sample_opened :: "dlpi_stream option solaris" where
  "sample_opened = sample_solaris
     \<lparr>os := Some \<lparr>node = ''/dev/hme'', style2 = True, mac = DL_ETHER, attached = Some 1, bound = Some 0,
        modes = {DL_PROMISC_SAP, DL_PROMISC_MULTI, DL_PROMISC_PHYS}, raw = True, replies = []\<rparr>,
      dl_offset := 2, bufsize := 32768, dlpi_in_use := 3\<rparr>"

lemma sample_split: "split_dname 32 ''hme1'' = Inr (Some (''1'', 1))"
  by (simp add: split_dname_def is_digit_def decimal_def)

lemma sample_put:
  "os s = Some st \<Longrightarrow> send_request sample_streams fd rq t s =
     Inr (Some (), s\<lparr>os := Some ((grant rq st)\<lparr>replies := replies st @ [sample_ack rq st]\<rparr>)\<rparr>)"
  by (simp add: send_request_def sample_streams_def)

lemma sample_get:
  "os s = Some st \<Longrightarrow> replies st = m # ms \<Longrightarrow> dl_primitive m = ack_of rq \<Longrightarrow> length (dl_bytes m) = 64 \<Longrightarrow>
     64 \<le> cap \<Longrightarrow> sz \<le> 64 \<Longrightarrow>
     recv_ack sample_streams cap fd sz t s = Inr (Some m, s\<lparr>os := Some (st\<lparr>replies := ms\<rparr>)\<rparr>)"
  by (cases rq) (simp_all add: recv_ack_def sample_streams_def)

lemma sample_transact:
  "os s = Some st \<Longrightarrow> replies st = [] \<Longrightarrow> 64 \<le> cap \<Longrightarrow> sz \<le> 64 \<Longrightarrow>
     transact (send_request sample_streams fd rq t1) (recv_ack sample_streams cap fd sz t2) s =
     Inr (Some (sample_ack rq st), s\<lparr>os := Some (grant rq st)\<rparr>)"
  by (simp add: transact_def sample_put sample_get [where rq = rq])

lemma sample_fields [simp]:
  "dlpi_in_use sample_solaris = 0" "os sample_solaris = None"
  "DL_INFO_ACK_SIZE sample_streams = 60" "DL_BIND_ACK_SIZE sample_streams = 20"
  "DL_OK_ACK_SIZE sample_streams = 8" "DL_PHYS_ADDR_ACK_SIZE sample_streams = 12" "has_DLIOCRAW sample_streams"
  by (simp_all add: sample_solaris_def sample_streams_def)

lemma sample_calls [simp]:
  "open_dev sample_streams d k = (Inr 3, Some \<lparr>node = d, style2 = True, mac = DL_ETHER, attached = None,
     bound = None, modes = {}, raw = False, replies = []\<rparr>)"
  "ioctl_str sample_streams fd k = ((0, 0), map_option (\<lambda>st. st\<lparr>raw := True\<rparr>) k)"
  "ioctl_flush sample_streams fd k = (0, map_option (\<lambda>st. st\<lparr>replies := []\<rparr>) k)"
  "dl_style2 (sample_ack rq st) = style2 st" "dl_mac_type (sample_ack rq st) = mac st"
  "dl_addr_offset (sample_ack rq st) = 24"
  "drop 24 (dl_bytes (sample_ack rq st)) = sample_hw (node st) (attached st) @ replicate 34 0"
  by (simp_all add: sample_streams_def sample_ack_def)

lemma sample_open: "if_open_raw sample_streams 32 ''hme1'' sample_solaris = Inr (3, sample_opened)"
  by (simp add: if_open_raw_def sample_split device_names_def Let_def open_device_def attach_stream_def
    bind_stream_def dl_requests demand_def sample_transact raw_ethernet_def flush_stream_def strioctl_def sample_opened_def)

lemma sample_first:
  "get_iface_ll_solaris sample_streams 32 ''hme1'' (replicate 6 0) sample_solaris =
     Inr (0, [0, 3, 0xBA, 0, 0, 1], sample_opened)"
  by (simp add: get_iface_ll_solaris_def sample_open sample_opened_def sample_put sample_get [where rq = Dl_phys_addr_req]
    copy_ll_ok sample_hw_def overwrite_def)

theorem every_interface_has_first_address_witness:
  "yields True (\<lambda>(r', ll', s'). r' = ESUCCESS \<and> take 6 ll' = [0, 3, 0xBA, 0, 0, 1])
    (get_iface_ll_solaris sample_streams 32 ''hme0'' (replicate 6 0) sample_opened)"
  using every_interface_has_first_address [OF sample_provider _ sample_first, of "replicate 6 0" "''hme0''"]
  by (simp add: sample_obliging sample_opened_def)

subsection \<open>BSD: names that begin alike\<close>

definition ifname :: "if_message \<Rightarrow> string" where
  "ifname m = take (sdl_nlen m) (chars (sdl_data m))"

definition if_message_wf :: "if_message \<Rightarrow> bool" where
  "if_message_wf m \<longleftrightarrow> sdl_nlen m + 6 \<le> length (sdl_data m) \<and> NUL \<notin> set (ifname m)"

lemma strncmp_equal_prefix:
  assumes "if_message_wf m" and "NUL \<notin> set iface"
  shows "strncmp_equal (chars (sdl_data m)) iface (sdl_nlen m) \<longleftrightarrow> prefix (ifname m) iface"
proof -
  let ?n = "sdl_nlen m" and ?d = "chars (sdl_data m)"
  have "c_str ?d = c_str (ifname m @ drop ?n ?d)" by (simp add: ifname_def)
  also have "\<dots> = ifname m @ c_str (drop ?n ?d)"
    using assms(1) by (auto simp: if_message_wf_def c_str_def takeWhile_append)
  finally have "take ?n (c_str ?d) = ifname m"
    using assms(1) by (simp add: ifname_def if_message_wf_def chars_def)
  moreover have "c_str iface = iface" using assms(2) by (auto simp: c_str_def takeWhile_eq_all_conv)
  moreover have "length (ifname m) = ?n" using assms(1) by (simp add: ifname_def if_message_wf_def chars_def)
  ultimately show ?thesis
    unfolding strncmp_equal_def by (metis append_eq_conv_conj prefix_def take_is_prefix)
qed

text \<open>
  \<^verbatim>\<open>get_iface_ll\<close> on BSD gives the address of the first interface in the list of the system whose name
  is a prefix of the name that is asked for, and when there is none it succeeds with the array as it was.
\<close>

theorem bsd_address_is_of_a_prefix:
  assumes "\<forall>m \<in> set ms. if_message_wf m" and "NUL \<notin> set iface" and "6 \<le> length ll"
  shows "get_iface_ll_bsd 0 True (Some ms) iface ll =
    Inr (ESUCCESS, case find (\<lambda>m. ifm_info m \<and> prefix (ifname m) iface) ms of
      None \<Rightarrow> ll
    | Some m \<Rightarrow> overwrite ll 0 (take 6 (drop (sdl_nlen m) (sdl_data m))))"
  using assms by (induction ms) (auto simp: get_iface_ll_bsd_def strncmp_equal_prefix copy_ll_ok if_message_wf_def)

text \<open>\<open>em10\<close> gets the address of \<open>em1\<close>, which stands in front of it.\<close>

definition em :: "string \<Rightarrow> u_int8 \<Rightarrow> if_message" where
  "em name v = \<lparr>ifm_info = True, sdl_nlen = length name,
     sdl_data = map (\<lambda>c. of_nat (of_char c)) name @ [0, 0x1B, 0x21, 0, 0, v]\<rparr>"

lemma em_facts [simp]: "ifm_info (em name v)" "ifname (em name v) = name"
    "drop (sdl_nlen (em name v)) (sdl_data (em name v)) = [0, 0x1B, 0x21, 0, 0, v]"
    "if_message_wf (em name v) \<longleftrightarrow> NUL \<notin> set name"
proof -
  have "unat (of_nat (of_char c) :: u_int8) = of_char c" for c
    using nat_of_char_less_256 [of c] by (simp add: unsigned_of_nat take_bit_nat_eq_self)
  then show name: "ifname (em name v) = name"
    by (simp add: em_def ifname_def chars_def comp_def)
  show "if_message_wf (em name v) \<longleftrightarrow> NUL \<notin> set name"
    unfolding if_message_wf_def name by (simp add: em_def)
qed (simp_all add: em_def)

theorem bsd_address_is_of_a_prefix_witness:
  "get_iface_ll_bsd 0 True (Some [em ''em1'' 1, em ''em10'' 10]) ''em10'' (replicate 6 0) =
     Inr (ESUCCESS, [0, 0x1B, 0x21, 0, 0, 1])"
  using bsd_address_is_of_a_prefix [of "[em ''em1'' 1, em ''em10'' 10]" "''em10''" "replicate 6 0"]
  by (simp add: overwrite_def)

end
