(* ===== verification/Memory.thy ===== *)
theory Memory
  imports Queue
begin

text \<open>
  Lists of allocated structures. The counters (\<^verbatim>\<open>lmap_stat.c\<close>), the threads (\<^verbatim>\<open>lmap_threads.c\<close>) and the recursive
  mutexes (\<^verbatim>\<open>lmap_recursive_mutex.c\<close>) keep structures from \<^verbatim>\<open>calloc\<close> in a \<^verbatim>\<open>LIST\<close>. Here are the steps that
  their operations are made of, on the memory that the macros of Queue change: every use of a structure
  checks that it has not been freed. The rules say what the steps do to the list of the contents.
\<close>

subsection \<open>Structures in memory\<close>

text \<open>
  The links of the list and its head, the other members of each structure, and the structures that are allocated.
\<close>

record 'a memory =
  links :: heap
  content :: "elem \<Rightarrow> 'a"
  allocated :: "elem set"

text \<open>
  \<^verbatim>\<open>calloc\<close> is a parameter: the structure it returns when these are allocated, or \<^term>\<open>None\<close> for \<^verbatim>\<open>NULL\<close>.
  It may use the memory of a freed structure again.
\<close>

type_synonym allocator = "elem set \<Rightarrow> elem option"

definition fresh_allocator :: "allocator \<Rightarrow> bool" where
  "fresh_allocator calloc \<longleftrightarrow> (\<forall>A. finite A \<longrightarrow> (\<exists>e. calloc A = Some e \<and> e \<notin> A))"

text \<open>An allocator: the number behind the greatest one in use.\<close>

definition next_free :: allocator where
  "next_free A = Some (if A = {} then 0 else Suc (Max A))"

lemma fresh_next_free: "fresh_allocator next_free"
proof -
  have "Suc (Max A) \<notin> A" if "finite A" for A
    using Max_ge [OF that, of "Suc (Max A)"] by auto
  then show ?thesis by (auto simp: fresh_allocator_def next_free_def)
qed

text \<open>A new structure with the given members; without memory \<^verbatim>\<open>ON_ERROR\<close> ends the process.\<close>

definition new_elem :: "allocator \<Rightarrow> string \<Rightarrow> 'a \<Rightarrow> 'a memory \<Rightarrow> c_error + (elem \<times> 'a memory)" where
  "new_elem calloc complaint v m =
     (case calloc (allocated m) of
        None \<Rightarrow> Inl (Exit_process complaint)
      | Some e \<Rightarrow> Inr (e, m\<lparr>content := (content m)(e := v), allocated := insert e (allocated m)\<rparr>))"

definition free_elem :: "elem \<Rightarrow> 'a memory \<Rightarrow> c_error + 'a memory" where
  "free_elem e m =
     (if e \<in> allocated m then Inr (m\<lparr>allocated := allocated m - {e}\<rparr>) else Inl Use_after_free)"

definition read_elem :: "elem \<Rightarrow> 'a memory \<Rightarrow> c_error + 'a" where
  "read_elem e m = (if e \<in> allocated m then Inr (content m e) else Inl Use_after_free)"

definition write_elem :: "elem \<Rightarrow> 'a \<Rightarrow> 'a memory \<Rightarrow> c_error + 'a memory" where
  "write_elem e v m = (if e \<in> allocated m then Inr (m\<lparr>content := (content m)(e := v)\<rparr>) else Inl Use_after_free)"

text \<open>\<^verbatim>\<open>LIST_NEXT\<close>\<close>

definition next_elem :: "elem \<Rightarrow> 'a memory \<Rightarrow> c_error + ptr" where
  "next_elem e m = (if e \<in> allocated m then Inr (e_next (links m) e) else Inl Use_after_free)"

text \<open>
  A macro that changes the links, and the structures that it uses: the element itself, and those that its two
  links point to.
\<close>

definition relink :: "elem set \<Rightarrow> (heap \<Rightarrow> c_error + heap) \<Rightarrow> 'a memory \<Rightarrow> c_error + 'a memory" where
  "relink S f m =
     (if S \<subseteq> allocated m then bindE (f (links m)) (\<lambda>h. Inr (m\<lparr>links := h\<rparr>)) else Inl Use_after_free)"

definition neighbours :: "elem \<Rightarrow> heap \<Rightarrow> elem set" where
  "neighbours e h =
     insert e (set_option (e_next h e) \<union> (case e_prev h e of First \<Rightarrow> {} | Next x \<Rightarrow> {x}))"

definition insert_head_in :: "elem \<Rightarrow> 'a memory \<Rightarrow> c_error + 'a memory" where
  "insert_head_in e m = relink (insert e (set_option (h_first (links m)))) (LIST_INSERT_HEAD e) m"

definition replace_in :: "elem \<Rightarrow> elem \<Rightarrow> 'a memory \<Rightarrow> c_error + 'a memory" where
  "replace_in c e m = relink (insert e (neighbours c (links m))) (LIST_REPLACE c e) m"

definition remove_in :: "elem \<Rightarrow> 'a memory \<Rightarrow> c_error + 'a memory" where
  "remove_in c m = relink (neighbours c (links m)) (LIST_REMOVE c) m"

text \<open>
  A walk along the list comes to every allocated structure at most once, so one step more than there are
  structures is enough for it.
\<close>

definition steps :: "'a memory \<Rightarrow> nat" where
  "steps m = Suc (card (allocated m))"

subsection \<open>Loops over the list\<close>

text \<open>\<^verbatim>\<open>LIST_FOREACH\<close> that leaves at the first structure with the property.\<close>

fun search_list :: "nat \<Rightarrow> ('a \<Rightarrow> bool) \<Rightarrow> ptr \<Rightarrow> 'a memory \<Rightarrow> c_error + ptr" where
  "search_list 0 P p m = Inl Endless_loop"
| "search_list (Suc n) P None m = Inr None"
| "search_list (Suc n) P (Some e) m =
     bindE (read_elem e m) (\<lambda>v.
       if P v then Inr (Some e) else bindE (next_elem e m) (\<lambda>p. search_list n P p m))"

text \<open>
  The shape of \<^verbatim>\<open>register_stat\<close> and \<^verbatim>\<open>lmap_thread_register\<close>: the new structure replaces the first one with the
  property, which is freed; without such a one it becomes the first. The flag says that it was inserted.
\<close>

definition replace_or_insert :: "allocator \<Rightarrow> string \<Rightarrow> ('a \<Rightarrow> bool) \<Rightarrow> 'a \<Rightarrow> 'a memory \<Rightarrow> c_error + (bool \<times> 'a memory)" where
  "replace_or_insert calloc complaint P v m =
     bindE (new_elem calloc complaint v m) (\<lambda>(e, m).
     bindE (search_list (steps m) P (h_first (links m)) m) (\<lambda>r.
       case r of
         Some c \<Rightarrow> bindE (replace_in c e m) (\<lambda>m. bindE (free_elem c m) (\<lambda>m. Inr (False, m)))
       | None \<Rightarrow> bindE (insert_head_in e m) (\<lambda>m. Inr (True, m))))"

text \<open>\<^verbatim>\<open>lmap_thread_destroy\<close>, \<^verbatim>\<open>recursive_mutex_unlock\<close>: the first structure with the property is removed and freed.\<close>

definition remove_first :: "('a \<Rightarrow> bool) \<Rightarrow> 'a memory \<Rightarrow> c_error + 'a memory" where
  "remove_first P m =
     bindE (search_list (steps m) P (h_first (links m)) m) (\<lambda>r.
       case r of
         Some c \<Rightarrow> bindE (remove_in c m) (free_elem c)
       | None \<Rightarrow> Inr m)"

subsection \<open>Rules\<close>

text \<open>The list is in memory, and nothing but its structures is allocated.\<close>

definition in_memory :: "'a memory \<Rightarrow> elem list \<Rightarrow> bool" where
  "in_memory m xs \<longleftrightarrow> is_list (links m) xs \<and> allocated m = set xs"

definition values_of :: "'a memory \<Rightarrow> elem list \<Rightarrow> 'a list" where
  "values_of m xs = map (content m) xs"

lemma in_memoryD:
  assumes "in_memory m xs"
  shows "is_list (links m) xs" "allocated m = set xs" "distinct xs" "seg Some (e_next (links m)) (h_first (links m)) xs None"
    and "length xs < steps m" and "e \<in> set xs \<Longrightarrow> read_elem e m = Inr (content m e)"
    and "e \<in> set xs \<Longrightarrow> next_elem e m = Inr (e_next (links m) e)"
  using assms by (auto simp: in_memory_def is_list_def is_slist_def steps_def distinct_card read_elem_def next_elem_def)

lemma search_from:
  assumes "seg Some (e_next (links m)) p xs None" and "set xs \<subseteq> allocated m" and "length xs < n"
  shows "search_list n P p m = Inr (find (P \<circ> content m) xs)"
  using assms
proof (induction xs arbitrary: n p)
  case Nil
  then show ?case by (cases n) auto
next
  case (Cons x xs)
  then show ?case by (cases n) (auto simp: read_elem_def next_elem_def)
qed

lemma search_in_memory:
  "in_memory m xs \<Longrightarrow> search_list (steps m) P (h_first (links m)) m = Inr (find (P \<circ> content m) xs)"
  by (rule search_from) (auto dest: in_memoryD)

lemma find_split: "find P xs = Some x \<Longrightarrow> \<exists>ys zs. xs = ys @ x # zs \<and> P x \<and> (\<forall>y \<in> set ys. \<not> P y)"
  by (induction xs) (auto split: if_splits intro: exI [of _ "[]"], metis append_Cons set_ConsD)

lemma find_values: "find P (map f xs) = map_option f (find (P \<circ> f) xs)"
  by (induction xs) auto

lemma finite_allocated: "in_memory m xs \<Longrightarrow> finite (allocated m)"
  by (simp add: in_memory_def)

lemma fresh_elem:
  assumes "fresh_allocator calloc" and "in_memory m xs"
  obtains e where "calloc (allocated m) = Some e" and "e \<notin> set xs"
  using assms by (auto simp: fresh_allocator_def in_memory_def)

text \<open>The macros in memory.\<close>

lemma first_in_list: "is_list h xs \<Longrightarrow> set_option (h_first h) \<subseteq> set xs"
  by (cases xs) (auto simp: shape_defs)

lemma neighbours_in_list: "is_list h (ys @ c # zs) \<Longrightarrow> neighbours c h \<subseteq> set (ys @ c # zs)"
  by (cases zs; cases ys rule: rev_cases) (auto simp: shape_defs neighbours_def)

lemma insert_head_in_ok:
  assumes "is_list (links m) xs" and "insert e (set xs) \<subseteq> allocated m" and "e \<notin> set xs"
  shows "\<exists>h. insert_head_in e m = Inr (m\<lparr>links := h\<rparr>) \<and> is_list h (e # xs)"
  using LIST_INSERT_HEAD_ok [OF assms(1,3)] first_in_list [OF assms(1)] assms(2)
  by (auto simp: insert_head_in_def relink_def)

lemma replace_in_ok:
  assumes "is_list (links m) (ys @ c # zs)" and "insert e (set (ys @ c # zs)) \<subseteq> allocated m" and "e \<notin> set (ys @ c # zs)"
  shows "\<exists>h. replace_in c e m = Inr (m\<lparr>links := h\<rparr>) \<and> is_list h (ys @ e # zs)"
proof -
  have "insert e (neighbours c (links m)) \<subseteq> allocated m" using neighbours_in_list [OF assms(1)] assms(2) by auto
  then show ?thesis using LIST_REPLACE_ok [OF assms(1,3)] by (auto simp: replace_in_def relink_def)
qed

lemma remove_in_ok:
  assumes "is_list (links m) (ys @ c # zs)" and "set (ys @ c # zs) \<subseteq> allocated m"
  shows "\<exists>h. remove_in c m = Inr (m\<lparr>links := h\<rparr>) \<and> is_list h (ys @ zs)"
proof -
  have "neighbours c (links m) \<subseteq> allocated m" using neighbours_in_list [OF assms(1)] assms(2) by auto
  then show ?thesis using LIST_REMOVE_ok [OF assms(1)] by (auto simp: remove_in_def relink_def)
qed

text \<open>The search of \<open>replace_or_insert\<close> takes place when the new structure exists but is not yet linked.\<close>

lemma search_with_new:
  assumes "in_memory m xs" and "e \<notin> set xs" and "m1 = m\<lparr>content := (content m)(e := v), allocated := insert e (allocated m)\<rparr>"
  shows "search_list (steps m1) P (h_first (links m1)) m1 = Inr (find (P \<circ> content m) xs)"
proof -
  have "find (P \<circ> content m1) xs = find (P \<circ> content m) xs"
    using assms(2,3) by (induction xs) auto
  moreover have "length xs < steps m1"
    using in_memoryD(5) [OF assms(1)] assms by (simp add: steps_def in_memory_def)
  ultimately show ?thesis
    using search_from [of m1 "h_first (links m1)" xs "steps m1" P] in_memoryD(2,4) [OF assms(1)] assms(3) by auto
qed

lemma replace_or_insert_new:
  assumes m: "in_memory m xs" and e: "calloc (allocated m) = Some e" "e \<notin> set xs" and "find (P \<circ> content m) xs = None"
  shows "\<exists>m'. replace_or_insert calloc complaint P v m = Inr (True, m') \<and> in_memory m' (e # xs) \<and>
    content m' = (content m)(e := v)"
proof -
  let ?m1 = "m\<lparr>content := (content m)(e := v), allocated := insert e (allocated m)\<rparr>"
  have "is_list (links ?m1) xs" "insert e (set xs) \<subseteq> allocated ?m1" using in_memoryD(1,2) [OF m] by auto
  then obtain h where "insert_head_in e ?m1 = Inr (?m1\<lparr>links := h\<rparr>)" "is_list h (e # xs)"
    using insert_head_in_ok [of ?m1 xs e] e(2) by blast
  moreover have "search_list (steps ?m1) P (h_first (links ?m1)) ?m1 = Inr None"
    using search_with_new [OF m e(2) refl] assms(4) by simp
  moreover have "new_elem calloc complaint v m = Inr (e, ?m1)" by (simp add: new_elem_def e(1))
  ultimately show ?thesis
    using in_memoryD(2) [OF m] by (simp add: replace_or_insert_def in_memory_def)
qed

lemma replace_or_insert_old:
  assumes m: "in_memory m (ys @ c # zs)" and e: "calloc (allocated m) = Some e" "e \<notin> set (ys @ c # zs)"
    and "find (P \<circ> content m) (ys @ c # zs) = Some c"
  shows "\<exists>m'. replace_or_insert calloc complaint P v m = Inr (False, m') \<and> in_memory m' (ys @ e # zs) \<and>
    content m' = (content m)(e := v)"
proof -
  let ?m1 = "m\<lparr>content := (content m)(e := v), allocated := insert e (allocated m)\<rparr>"
  have al: "allocated m = set (ys @ c # zs)" and d: "distinct (ys @ c # zs)" using in_memoryD(2,3) [OF m] by simp_all
  have "is_list (links ?m1) (ys @ c # zs)" "insert e (set (ys @ c # zs)) \<subseteq> allocated ?m1" using in_memoryD(1) [OF m] al by auto
  then obtain h where h: "replace_in c e ?m1 = Inr (?m1\<lparr>links := h\<rparr>)" "is_list h (ys @ e # zs)"
    using replace_in_ok [of ?m1 ys c zs e] e(2) by blast
  have "insert e (allocated m) - {c} = set (ys @ e # zs)" using al e(2) d by auto
  moreover have "search_list (steps ?m1) P (h_first (links ?m1)) ?m1 = Inr (Some c)"
    using search_with_new [OF m e(2) refl] assms(4) by simp
  moreover have "new_elem calloc complaint v m = Inr (e, ?m1)" by (simp add: new_elem_def e(1))
  ultimately show ?thesis
    using al h by (simp add: replace_or_insert_def in_memory_def free_elem_def)
qed

lemma remove_first_none:
  "in_memory m xs \<Longrightarrow> find (P \<circ> content m) xs = None \<Longrightarrow> remove_first P m = Inr m"
  by (simp add: remove_first_def search_in_memory)

lemma remove_first_some:
  assumes m: "in_memory m (ys @ c # zs)" and "find (P \<circ> content m) (ys @ c # zs) = Some c"
  shows "\<exists>m'. remove_first P m = Inr m' \<and> in_memory m' (ys @ zs) \<and> content m' = content m"
proof -
  have al: "allocated m = set (ys @ c # zs)" and d: "distinct (ys @ c # zs)" using in_memoryD(2,3) [OF m] by simp_all
  obtain h where h: "remove_in c m = Inr (m\<lparr>links := h\<rparr>)" "is_list h (ys @ zs)"
    using remove_in_ok [OF in_memoryD(1) [OF m]] al by blast
  have "allocated m - {c} = set (ys @ zs)" using al d by auto
  with h show ?thesis
    using al assms(2) by (simp add: remove_first_def search_in_memory [OF m] free_elem_def in_memory_def)
qed

subsection \<open>The contents\<close>

text \<open>What the rules say of the list of the contents.\<close>

fun replace_first :: "('a \<Rightarrow> bool) \<Rightarrow> 'a \<Rightarrow> 'a list \<Rightarrow> 'a list option" where
  "replace_first P v [] = None"
| "replace_first P v (x # xs) = (if P x then Some (v # xs) else map_option (Cons x) (replace_first P v xs))"

fun drop_first :: "('a \<Rightarrow> bool) \<Rightarrow> 'a list \<Rightarrow> 'a list" where
  "drop_first P [] = []"
| "drop_first P (x # xs) = (if P x then xs else x # drop_first P xs)"

lemma replace_first_None: "replace_first P v xs = None \<longleftrightarrow> find P xs = None"
  by (induction xs) auto

lemma replace_first_split: "P x \<Longrightarrow> \<forall>y \<in> set ys. \<not> P y \<Longrightarrow> replace_first P v (ys @ x # zs) = Some (ys @ v # zs)"
  by (induction ys) auto

lemma drop_first_split: "P x \<Longrightarrow> \<forall>y \<in> set ys. \<not> P y \<Longrightarrow> drop_first P (ys @ x # zs) = ys @ zs"
  by (induction ys) auto

lemma drop_first_None: "find P xs = None \<Longrightarrow> drop_first P xs = xs"
  by (induction xs) (auto split: if_splits)

text \<open>\<open>holds_list m vs\<close>: the list with these contents is in memory.\<close>

definition holds_list :: "'a memory \<Rightarrow> 'a list \<Rightarrow> bool" where
  "holds_list m vs \<longleftrightarrow> (\<exists>xs. in_memory m xs \<and> values_of m xs = vs)"

lemma holds_listI: "in_memory m xs \<Longrightarrow> map (content m) xs = vs \<Longrightarrow> holds_list m vs"
  by (auto simp: holds_list_def values_of_def)

lemma holds_listE:
  assumes "holds_list m vs"
  obtains xs where "in_memory m xs" and "vs = map (content m) xs"
  using assms by (auto simp: holds_list_def values_of_def)

theorem replace_or_insert_contents:
  assumes "fresh_allocator calloc" and "holds_list m vs"
  shows "\<exists>m'. replace_or_insert calloc complaint P v m = Inr (replace_first P v vs = None, m') \<and>
    holds_list m' (case replace_first P v vs of Some ws \<Rightarrow> ws | None \<Rightarrow> v # vs)"
proof -
  obtain xs where m: "in_memory m xs" and vs: "vs = map (content m) xs"
    using assms(2) by (rule holds_listE)
  obtain e where e: "calloc (allocated m) = Some e" "e \<notin> set xs" using fresh_elem [OF assms(1) m] .
  have upd: "set ys \<subseteq> set xs \<Longrightarrow> map ((content m)(e := v)) ys = map (content m) ys" for ys using e(2) by auto
  show ?thesis
  proof (cases "find (P \<circ> content m) xs")
    case None
    then have "replace_first P v vs = None" by (simp add: replace_first_None vs find_values)
    moreover obtain m' where "replace_or_insert calloc complaint P v m = Inr (True, m')" "in_memory m' (e # xs)"
      "content m' = (content m)(e := v)"
      using replace_or_insert_new [where calloc = calloc, OF m e None] by blast
    moreover from this have "holds_list m' (v # vs)"
      using upd [of xs] by (intro holds_listI [of _ "e # xs"]) (simp_all add: vs)
    ultimately show ?thesis by simp
  next
    case (Some c)
    then obtain ys zs where xs: "xs = ys @ c # zs" "(P \<circ> content m) c" "\<forall>y \<in> set ys. \<not> (P \<circ> content m) y"
      using find_split by metis
    then have "replace_first P v vs = Some (map (content m) ys @ v # map (content m) zs)"
      unfolding vs by (simp add: replace_first_split)
    moreover obtain m' where "replace_or_insert calloc complaint P v m = Inr (False, m')" "in_memory m' (ys @ e # zs)"
      "content m' = (content m)(e := v)"
      using replace_or_insert_old [where calloc = calloc, OF m [unfolded xs(1)] e(1) e(2) [unfolded xs(1)] Some [unfolded xs(1)]] by blast
    moreover from this have "holds_list m' (map (content m) ys @ v # map (content m) zs)"
      using e(2) xs(1) by (intro holds_listI [of _ "ys @ e # zs"]) auto
    ultimately show ?thesis by simp
  qed
qed

theorem remove_first_contents:
  assumes "holds_list m vs"
  shows "\<exists>m'. remove_first P m = Inr m' \<and> holds_list m' (drop_first P vs)"
proof -
  obtain xs where m: "in_memory m xs" and vs: "vs = map (content m) xs"
    using assms by (rule holds_listE)
  show ?thesis
  proof (cases "find (P \<circ> content m) xs")
    case None
    then show ?thesis
      using m by (auto simp: remove_first_none vs find_values drop_first_None intro: holds_listI)
  next
    case (Some c)
    then obtain ys zs where xs: "xs = ys @ c # zs" "(P \<circ> content m) c" "\<forall>y \<in> set ys. \<not> (P \<circ> content m) y"
      using find_split by metis
    then have "drop_first P vs = map (content m) (ys @ zs)" unfolding vs by (simp add: drop_first_split)
    moreover obtain m' where "remove_first P m = Inr m'" "in_memory m' (ys @ zs)" "content m' = content m"
      using remove_first_some [OF m [unfolded xs(1)] Some [unfolded xs(1)]] by blast
    moreover from this have "holds_list m' (map (content m) (ys @ zs))"
      by (intro holds_listI [of _ "ys @ zs"]) simp_all
    ultimately show ?thesis by simp
  qed
qed

subsection \<open>Programs on memory and their models\<close>

text \<open>A sequence of calls, each with its answer, until one fails.\<close>

fun calls :: "('op \<Rightarrow> 's \<Rightarrow> c_error + ('r \<times> 's)) \<Rightarrow> 'op list \<Rightarrow> 's \<Rightarrow> c_error + ('r list \<times> 's)" where
  "calls f [] s = Inr ([], s)"
| "calls f (c # cs) s =
     bindE (f c s) (\<lambda>(r, s). bindE (calls f cs s) (\<lambda>(rs, s). Inr (r # rs, s)))"

text \<open>
  The result of the code agrees with that of the model: it is the same value, in related states, or the same
  error. For the errors outside \<open>E\<close> the model makes no claim about the code.
\<close>

definition agrees :: "c_error set \<Rightarrow> ('m \<Rightarrow> 's \<Rightarrow> bool) \<Rightarrow> c_error + ('r \<times> 's) \<Rightarrow> c_error + ('r \<times> 'm) \<Rightarrow> bool" where
  "agrees E R x y \<longleftrightarrow>
     (case x of
        Inr (r, s) \<Rightarrow> (\<exists>m. y = Inr (r, m) \<and> R m s)
      | Inl e \<Rightarrow> e \<in> E \<longrightarrow> y = Inl e)"

locale memory_refinement =
  fixes model :: "'op \<Rightarrow> 's \<Rightarrow> c_error + ('r \<times> 's)"
    and code :: "'op \<Rightarrow> 'm \<Rightarrow> c_error + ('r \<times> 'm)"
    and R :: "'m \<Rightarrow> 's \<Rightarrow> bool"
    and E :: "c_error set"
  assumes call_agrees: "R m s \<Longrightarrow> agrees E R (model c s) (code c m)"
begin

lemma calls_agree: "R m s \<Longrightarrow> agrees E R (calls model cs s) (calls code cs m)"
proof (induction cs arbitrary: m s)
  case Nil
  then show ?case by (simp add: agrees_def)
next
  case (Cons c cs)
  note one = call_agrees [OF Cons.prems, of c]
  show ?case
  proof (cases "model c s")
    case (Inl e)
    with one show ?thesis by (simp add: agrees_def)
  next
    case (Inr a)
    obtain r s' where a: "a = (r, s')" by (cases a)
    with one Inr obtain m' where m': "code c m = Inr (r, m')" "R m' s'" by (auto simp: agrees_def)
    from Cons.IH [OF m'(2)] show ?thesis
      using Inr a m'(1) by (cases "calls model cs s'") (auto simp: agrees_def)
  qed
qed

lemma calls_answer:
  assumes "R m s" and "calls model cs s = Inr (rs, s')"
  shows "\<exists>m'. calls code cs m = Inr (rs, m') \<and> R m' s'"
  using calls_agree [OF assms(1), of cs] assms(2) by (simp add: agrees_def)

end

end
