(* ===== verification/Thread_Memory.thy ===== *)
theory Thread_Memory
  imports Memory Threads
begin

text \<open>
  \<^verbatim>\<open>src/lmap_threads.c\<close> in memory: the operations on the list of threads on its structures and links. They agree
  with the theory Threads, in the freed structure that \<^verbatim>\<open>lmap_thread_kill_all\<close> reads, too.
\<close>

subsection \<open>The operations\<close>

text \<open>The list, and the threads that have been cancelled and joined.\<close>

record threads_memory =
  thread_table :: "thread memory"
  joined :: "tid list"

definition find_in :: "tid \<Rightarrow> threads_memory \<Rightarrow> c_error + ptr" where
  "find_in i s =
     search_list (steps (thread_table s)) (\<lambda>t. thread_id t = i) (h_first (links (thread_table s))) (thread_table s)"

definition lmap_thread_getname_in :: "tid \<Rightarrow> tid \<Rightarrow> threads_memory \<Rightarrow> c_error + string" where
  "lmap_thread_getname_in me i s =
     bindE (find_in (resolve me i) s) (\<lambda>r.
       case r of None \<Rightarrow> Inr ''NR_THREAD'' | Some e \<Rightarrow> bindE (read_elem e (thread_table s)) (\<lambda>t. Inr (thread_name t)))"

definition lmap_thread_getdesc_in :: "tid \<Rightarrow> tid \<Rightarrow> threads_memory \<Rightarrow> c_error + string" where
  "lmap_thread_getdesc_in me i s =
     bindE (find_in (resolve me i) s) (\<lambda>r.
       case r of None \<Rightarrow> Inr '''' | Some e \<Rightarrow> bindE (read_elem e (thread_table s)) (\<lambda>t. Inr (description t)))"

definition lmap_thread_register_in :: "allocator \<Rightarrow> tid \<Rightarrow> tid \<Rightarrow> string \<Rightarrow> string \<Rightarrow> threads_memory \<Rightarrow> c_error + threads_memory" where
  "lmap_thread_register_in calloc me i name desc s =
     bindE (replace_or_insert calloc ''cant allocate memory'' (\<lambda>t. thread_id t = resolve me i)
         \<lparr>thread_id = resolve me i, thread_name = name, description = desc\<rparr> (thread_table s)) (\<lambda>(new, m).
       Inr (s\<lparr>thread_table := m\<rparr>))"

definition lmap_thread_destroy_in :: "tid \<Rightarrow> threads_memory \<Rightarrow> c_error + threads_memory" where
  "lmap_thread_destroy_in i s =
     (let s = s\<lparr>joined := joined s @ [i]\<rparr> in
      bindE (remove_first (\<lambda>t. thread_id t = i) (thread_table s)) (\<lambda>m. Inr (s\<lparr>thread_table := m\<rparr>)))"

fun kill_loop :: "nat \<Rightarrow> tid \<Rightarrow> ptr \<Rightarrow> threads_memory \<Rightarrow> c_error + threads_memory" where
  "kill_loop 0 me p s = Inl Endless_loop"
| "kill_loop (Suc n) me None s = Inr s"
| "kill_loop (Suc n) me (Some e) s =
     bindE (read_elem e (thread_table s)) (\<lambda>t.
     bindE (if thread_id t \<noteq> me then lmap_thread_destroy_in (thread_id t) s else Inr s) (\<lambda>s.
     bindE (next_elem e (thread_table s)) (\<lambda>p. kill_loop n me p s)))"

definition lmap_thread_kill_all_in :: "tid \<Rightarrow> threads_memory \<Rightarrow> c_error + threads_memory" where
  "lmap_thread_kill_all_in me s = kill_loop (steps (thread_table s)) me (h_first (links (thread_table s))) s"

subsection \<open>The relation to the model\<close>

definition threads_refine :: "threads_memory \<Rightarrow> threads \<Rightarrow> bool" where
  "threads_refine m s \<longleftrightarrow> threads_wf s \<and> holds_list (thread_table m) (thread_list s) \<and> joined m = cancelled s"

lemma find_thread_eq: "find_thread i ts = find (\<lambda>t. thread_id t = i) ts"
  by (induction ts) auto

lemma replace_thread_eq: "replace_thread t ts = replace_first (\<lambda>u. thread_id u = thread_id t) t ts"
  by (induction ts) auto

lemma remove_thread_drop: "remove_thread i ts = drop_first (\<lambda>t. thread_id t = i) ts"
  by (induction ts) auto

lemma find_in_refines:
  assumes "threads_refine m s"
  shows "\<exists>r. find_in i m = Inr r \<and> (case r of None \<Rightarrow> find_thread i (thread_list s) = None
    | Some e \<Rightarrow> \<exists>t. find_thread i (thread_list s) = Some t \<and> read_elem e (thread_table m) = Inr t)"
proof -
  obtain xs where xs: "in_memory (thread_table m) xs" "thread_list s = map (content (thread_table m)) xs"
    using assms unfolding threads_refine_def by (auto elim: holds_listE)
  show ?thesis
    using search_in_memory [OF xs(1), of "\<lambda>t. thread_id t = i"] in_memoryD(6) [OF xs(1)]
    by (auto simp: find_in_def find_thread_eq xs(2) find_values dest: find_split split: option.splits)
qed

lemma names_in_refine:
  assumes "threads_refine m s"
  shows "lmap_thread_getname_in me i m = Inr (lmap_thread_getname me i s)"
    and "lmap_thread_getdesc_in me i m = Inr (lmap_thread_getdesc me i s)"
  using find_in_refines [OF assms, of "resolve me i"]
  by (auto simp: lmap_thread_getname_in_def lmap_thread_getname_def lmap_thread_getdesc_in_def lmap_thread_getdesc_def split: option.splits)

lemma register_in_refines:
  assumes "fresh_allocator calloc" and "threads_refine m s"
  shows "\<exists>m'. lmap_thread_register_in calloc me i n d m = Inr m' \<and> threads_refine m' (lmap_thread_register me i n d s)"
proof -
  let ?t = "\<lparr>thread_id = resolve me i, thread_name = n, description = d\<rparr>"
  have s: "threads_wf s" "holds_list (thread_table m) (thread_list s)" "joined m = cancelled s"
    using assms(2) by (simp_all add: threads_refine_def)
  obtain t' where "replace_or_insert calloc ''cant allocate memory'' (\<lambda>t. thread_id t = resolve me i) ?t (thread_table m) =
      Inr (replace_thread ?t (thread_list s) = None, t')"
    "holds_list t' (case replace_thread ?t (thread_list s) of Some l \<Rightarrow> l | None \<Rightarrow> ?t # thread_list s)"
    using replace_or_insert_contents [OF assms(1) s(2), of "''cant allocate memory''" "\<lambda>t. thread_id t = resolve me i" ?t]
    by (auto simp: replace_thread_eq)
  then show ?thesis
    using threads_wf_register [OF s(1), of me i n d] s(3)
    by (auto simp: lmap_thread_register_in_def lmap_thread_register_def threads_refine_def Let_def split: option.splits)
qed

lemma destroy_in_refines:
  assumes "threads_refine m s"
  shows "\<exists>m'. lmap_thread_destroy_in i m = Inr m' \<and> threads_refine m' (lmap_thread_destroy i s)"
proof -
  have s: "threads_wf s" "holds_list (thread_table m) (thread_list s)" "joined m = cancelled s"
    using assms by (simp_all add: threads_refine_def)
  show ?thesis
    using remove_first_contents [OF s(2), of "\<lambda>t. thread_id t = i"] threads_wf_destroy [OF s(1), of i] s(3)
    by (auto simp: lmap_thread_destroy_in_def lmap_thread_destroy_def threads_refine_def Let_def remove_thread_drop)
qed

text \<open>The loop at the structures \<open>zs\<close>: it comes to a thread other than its own, whose structure is freed, or ends.\<close>

lemma kill_loop_eq:
  assumes "in_memory (thread_table m) (ys @ zs)" and "distinct (map (thread_id \<circ> content (thread_table m)) (ys @ zs))"
    and "seg Some (e_next (links (thread_table m))) p zs None" and "length zs < n"
  shows "kill_loop n me p m =
    (if \<exists>z \<in> set zs. thread_id (content (thread_table m) z) \<noteq> me then Inl Use_after_free else Inr m)"
  using assms
proof (induction zs arbitrary: ys p n)
  case Nil
  then show ?case by (cases n) auto
next
  case (Cons z zs)
  let ?t = "thread_table m"
  obtain n' where n: "n = Suc n'" using Cons.prems(4) by (cases n) auto
  note mem = in_memoryD(6,7) [OF Cons.prems(1), of z]
  show ?case
  proof (cases "thread_id (content ?t z) = me")
    case True
    have "kill_loop n' me (e_next (links ?t) z) m =
        (if \<exists>z \<in> set zs. thread_id (content ?t z) \<noteq> me then Inl Use_after_free else Inr m)"
      using Cons.prems n by (intro Cons.IH [of "ys @ [z]"]) simp_all
    then show ?thesis using True n mem Cons.prems(3) by simp
  next
    case False
    let ?P = "\<lambda>t. thread_id t = thread_id (content ?t z)"
    have "find (?P \<circ> content ?t) (ys @ z # zs) = Some z"
      using Cons.prems(2) by (induction ys) (auto simp: image_iff)
    from remove_first_some [OF Cons.prems(1) this] obtain t' where
      t': "remove_first ?P ?t = Inr t'" "in_memory t' (ys @ zs)" by blast
    moreover have "z \<notin> allocated t'"
      using t'(2) in_memoryD(3) [OF Cons.prems(1)] by (auto simp: in_memory_def)
    ultimately show ?thesis using False n mem Cons.prems(3)
      by (simp add: lmap_thread_destroy_in_def next_elem_def [of z t'])
  qed
qed

lemma kill_all_in_agrees:
  assumes "threads_refine m s"
  shows "agrees UNIV threads_refine (map_sum id (Pair ()) (lmap_thread_kill_all me s))
    (map_sum id (Pair ()) (lmap_thread_kill_all_in me m))"
proof -
  obtain xs where xs: "in_memory (thread_table m) xs" "thread_list s = map (content (thread_table m)) xs"
    using assms unfolding threads_refine_def by (auto elim: holds_listE)
  have "threads_wf s" using assms by (simp add: threads_refine_def)
  moreover from this have "lmap_thread_kill_all me s = (if \<exists>t \<in> set (thread_list s). thread_id t \<noteq> me then Inl Use_after_free else Inr s)"
    unfolding lmap_thread_kill_all_def by (rule kill_from_eq) simp
  moreover have "lmap_thread_kill_all_in me m =
      (if \<exists>z \<in> set xs. thread_id (content (thread_table m) z) \<noteq> me then Inl Use_after_free else Inr m)"
    unfolding lmap_thread_kill_all_in_def
    using xs in_memoryD(4,5) [OF xs(1)] \<open>threads_wf s\<close>
    by (intro kill_loop_eq [of _ "[]"]) (simp_all add: threads_wf_def)
  ultimately show ?thesis using assms xs(2) by (auto simp: agrees_def)
qed

subsection \<open>Sequences of calls\<close>

datatype table_call =
    Call_getname tid tid
  | Call_getdesc tid tid
  | Call_register tid tid string string
  | Call_destroy tid
  | Call_kill_all tid

fun table_model :: "table_call \<Rightarrow> threads \<Rightarrow> c_error + (string option \<times> threads)" where
  "table_model (Call_getname me i) s = Inr (Some (lmap_thread_getname me i s), s)"
| "table_model (Call_getdesc me i) s = Inr (Some (lmap_thread_getdesc me i s), s)"
| "table_model (Call_register me i n d) s = Inr (None, lmap_thread_register me i n d s)"
| "table_model (Call_destroy i) s = Inr (None, lmap_thread_destroy i s)"
| "table_model (Call_kill_all me) s = bindE (lmap_thread_kill_all me s) (\<lambda>s. Inr (None, s))"

fun table_code :: "allocator \<Rightarrow> table_call \<Rightarrow> threads_memory \<Rightarrow> c_error + (string option \<times> threads_memory)" where
  "table_code calloc (Call_getname me i) m = bindE (lmap_thread_getname_in me i m) (\<lambda>n. Inr (Some n, m))"
| "table_code calloc (Call_getdesc me i) m = bindE (lmap_thread_getdesc_in me i m) (\<lambda>n. Inr (Some n, m))"
| "table_code calloc (Call_register me i n d) m = bindE (lmap_thread_register_in calloc me i n d m) (\<lambda>m. Inr (None, m))"
| "table_code calloc (Call_destroy i) m = bindE (lmap_thread_destroy_in i m) (\<lambda>m. Inr (None, m))"
| "table_code calloc (Call_kill_all me) m = bindE (lmap_thread_kill_all_in me m) (\<lambda>m. Inr (None, m))"

interpretation thread_memory: memory_refinement table_model "table_code calloc"
    "\<lambda>m s. fresh_allocator calloc \<and> threads_refine m s" UNIV for calloc
proof unfold_locales
  fix m s c assume R: "fresh_allocator calloc \<and> threads_refine m s"
  show "agrees UNIV (\<lambda>m s. fresh_allocator calloc \<and> threads_refine m s) (table_model c s) (table_code calloc c m)"
  proof (cases c)
    case (Call_register me i n d)
    then show ?thesis using R register_in_refines [of calloc m s me i n d] by (auto simp: agrees_def)
  next
    case (Call_destroy i)
    then show ?thesis using R destroy_in_refines [of m s i] by (auto simp: agrees_def)
  next
    case (Call_kill_all me)
    then show ?thesis using R kill_all_in_agrees [of m s me]
      by (cases "lmap_thread_kill_all me s"; cases "lmap_thread_kill_all_in me m") (auto simp: agrees_def)
  qed (use R names_in_refine [of m s] in \<open>auto simp: agrees_def\<close>)
qed

definition threads_memory_start :: "heap \<Rightarrow> (elem \<Rightarrow> thread) \<Rightarrow> threads_memory" where
  "threads_memory_start h c = \<lparr>thread_table = \<lparr>links = h\<lparr>h_first := None\<rparr>, content = c, allocated = {}\<rparr>, joined = []\<rparr>"

lemma threads_refine_start: "threads_refine (threads_memory_start h c) no_threads"
  by (auto simp: threads_refine_def threads_memory_start_def no_threads_def in_memory_def shape_defs threads_wf_def
      intro: holds_listI [of _ "[]"])

text \<open>
  C12: On the structures in memory, whatever memory the allocator returns, every sequence of operations on the
  list of threads gives the answers of the model, or the same error: the only one is that
  \<^verbatim>\<open>lmap_thread_kill_all\<close> reads \<^verbatim>\<open>current->next\<close> of the structure that \<^verbatim>\<open>lmap_thread_destroy\<close> has just freed.
\<close>

theorem threads_in_memory:
  assumes "fresh_allocator calloc"
  shows "map_sum id fst (calls (table_code calloc) cs (threads_memory_start h c)) = map_sum id fst (calls table_model cs no_threads)"
proof -
  have "agrees UNIV (\<lambda>m s. fresh_allocator calloc \<and> threads_refine m s) (calls table_model cs no_threads)
      (calls (table_code calloc) cs (threads_memory_start h c))"
    using assms threads_refine_start by (intro thread_memory.calls_agree) simp
  then show ?thesis by (auto simp: agrees_def split: sum.splits)
qed

lemma threads_in_memory_witness:
  "map_sum id fst (calls (table_code next_free)
      [Call_register 1 0 ''main'' '''', Call_register 1 2 ''capture'' '''', Call_getname 2 0, Call_kill_all 1]
      (threads_memory_start empty_heap (\<lambda>_. \<lparr>thread_id = 0, thread_name = '''', description = ''''\<rparr>))) = Inl Use_after_free"
  by (subst threads_in_memory [OF fresh_next_free])
    (simp add: lmap_thread_register_def lmap_thread_getname_def resolve_def no_threads_def
      lmap_thread_kill_all_def lmap_thread_destroy_def Let_def)

end
