(* ===== verification/RecMutex_Memory.thy ===== *)
theory RecMutex_Memory
  imports Memory RecMutex
begin

text \<open>
  \<^verbatim>\<open>src/lmap_recursive_mutex.c\<close> in memory: what the two functions do to the list while they have its mutex, on
  its structures and links. They agree with the scans of the theory RecMutex.
\<close>

subsection \<open>The operations\<close>

datatype lock_answer = Counted | Inserted | No_memory

definition recursive_mutex_lock_in :: "allocator \<Rightarrow> nat \<Rightarrow> tid \<Rightarrow> rm_entry memory \<Rightarrow> c_error + (lock_answer \<times> rm_entry memory)" where
  "recursive_mutex_lock_in malloc mutex me m =
     bindE (search_list (steps m) (rm_match mutex me) (h_first (links m)) m) (\<lambda>r.
       case r of
         Some current \<Rightarrow>
           bindE (read_elem current m) (\<lambda>v.
           bindE (write_elem current (v\<lparr>rm_count := rm_count v + 1\<rparr>) m) (\<lambda>m. Inr (Counted, m)))
       | None \<Rightarrow>
           if malloc (allocated m) = None then Inr (No_memory, m)
           else
             bindE (new_elem malloc '''' \<lparr>mx = mutex, rm_id = me, rm_count = 1\<rparr> m) (\<lambda>(e, m).
             bindE (insert_head_in e m) (\<lambda>m. Inr (Inserted, m))))"

text \<open>The loop of \<^verbatim>\<open>recursive_mutex_unlock\<close>; the flag says that the plain mutex has been unlocked.\<close>

fun unlock_loop :: "nat \<Rightarrow> nat \<Rightarrow> tid \<Rightarrow> ptr \<Rightarrow> rm_entry memory \<Rightarrow> c_error + (bool \<times> rm_entry memory)" where
  "unlock_loop 0 mutex me p m = Inl Endless_loop"
| "unlock_loop (Suc n) mutex me None m = Inr (False, m)"
| "unlock_loop (Suc n) mutex me (Some e) m =
     bindE (read_elem e m) (\<lambda>v.
       if rm_match mutex me v then
         if rm_count v = 1 then
           bindE (remove_in e m) (\<lambda>m. bindE (free_elem e m) (\<lambda>m. Inr (True, m)))
         else
           bindE (write_elem e (v\<lparr>rm_count := rm_count v - 1\<rparr>) m) (\<lambda>m.
           bindE (next_elem e m) (\<lambda>p. unlock_loop n mutex me p m))
       else bindE (next_elem e m) (\<lambda>p. unlock_loop n mutex me p m))"

definition recursive_mutex_unlock_in :: "nat \<Rightarrow> tid \<Rightarrow> rm_entry memory \<Rightarrow> c_error + (bool \<times> rm_entry memory)" where
  "recursive_mutex_unlock_in mutex me m = unlock_loop (steps m) mutex me (h_first (links m)) m"

subsection \<open>They agree with the scans\<close>

lemma lock_scan_find:
  "lock_scan mutex me es =
    (case find (rm_match mutex me) es of None \<Rightarrow> None | Some e \<Rightarrow> replace_first (rm_match mutex me) (e\<lparr>rm_count := rm_count e + 1\<rparr>) es)"
  by (induction es) (auto split: option.splits)

lemma write_in_list:
  assumes m: "in_memory m (ys @ x # zs)"
  shows "\<exists>m'. write_elem x v m = Inr m' \<and> in_memory m' (ys @ x # zs) \<and> links m' = links m \<and>
    map (content m') ys = map (content m) ys \<and> content m' x = v \<and> map (content m') zs = map (content m) zs"
  using in_memoryD(2,3) [OF m] m by (auto simp: write_elem_def in_memory_def)

lemma lock_in_agrees:
  assumes f: "fresh_allocator malloc" and "holds_list m es"
  shows "\<exists>m'. recursive_mutex_lock_in malloc mutex me m = Inr (if lock_scan mutex me es = None then Inserted else Counted, m') \<and>
    holds_list m' (case lock_scan mutex me es of Some es' \<Rightarrow> es' | None \<Rightarrow> \<lparr>mx = mutex, rm_id = me, rm_count = 1\<rparr> # es)"
proof -
  let ?P = "rm_match mutex me" and ?new = "\<lparr>mx = mutex, rm_id = me, rm_count = 1\<rparr>"
  obtain xs where m: "in_memory m xs" and es: "es = map (content m) xs" using assms(2) by (rule holds_listE)
  show ?thesis
  proof (cases "find (?P \<circ> content m) xs")
    case None
    obtain e where e: "malloc (allocated m) = Some e" "e \<notin> set xs" using fresh_elem [OF f m] .
    let ?m = "m\<lparr>content := (content m)(e := ?new), allocated := insert e (allocated m)\<rparr>"
    obtain h where h: "insert_head_in e ?m = Inr (?m\<lparr>links := h\<rparr>)" "is_list h (e # xs)"
      using insert_head_in_ok [of ?m xs e] in_memoryD(1,2) [OF m] e(2) by auto
    then have "holds_list (?m\<lparr>links := h\<rparr>) (?new # es)"
      using e(2) in_memoryD(2) [OF m] by (intro holds_listI [of _ "e # xs"]) (auto simp: in_memory_def es)
    with h(1) show ?thesis
      using None e(1) search_in_memory [OF m, of ?P]
      by (simp add: recursive_mutex_lock_in_def new_elem_def lock_scan_find es find_values)
  next
    case (Some x)
    then obtain ys zs where xs: "xs = ys @ x # zs" "?P (content m x)" "\<forall>y \<in> set ys. \<not> ?P (content m y)"
      using find_split by (metis comp_apply)
    let ?v = "(content m x)\<lparr>rm_count := rm_count (content m x) + 1\<rparr>"
    obtain m' where m': "write_elem x ?v m = Inr m'" "in_memory m' (ys @ x # zs)" "map (content m') ys = map (content m) ys"
      "content m' x = ?v" "map (content m') zs = map (content m) zs"
      using write_in_list [OF m [unfolded xs(1)]] by blast
    then have "holds_list m' (map (content m) ys @ ?v # map (content m) zs)" by (intro holds_listI [of _ "ys @ x # zs"]) simp_all
    moreover have "find ?P es = Some (content m x)" using Some by (simp add: es find_values)
    then have "lock_scan mutex me es = Some (map (content m) ys @ ?v # map (content m) zs)"
      using xs by (simp add: lock_scan_find) (simp add: es replace_first_split)
    ultimately show ?thesis
      using Some m'(1) search_in_memory [OF m, of ?P] in_memoryD(6) [OF m, of x] xs(1)
      by (simp add: recursive_mutex_lock_in_def)
  qed
qed

lemma unlock_loop_agrees:
  assumes "in_memory m (ys @ xs)" and "seg Some (e_next (links m)) p xs None" and "length xs < n"
    and "unlock_scan mutex me (map (content m) xs) = (es, free)"
  shows "\<exists>m'. unlock_loop n mutex me p m = Inr (free, m') \<and> holds_list m' (map (content m) ys @ es)"
  using assms
proof (induction xs arbitrary: ys m p n es)
  case Nil
  then show ?case by (cases n) (auto intro!: holds_listI)
next
  case (Cons x xs)
  let ?v = "content m x"
  obtain n' where n: "n = Suc n'" using Cons.prems(3) by (cases n) auto
  note mem = in_memoryD(6,7) [OF Cons.prems(1), of x]
  have pos: "p = Some x" "seg Some (e_next (links m)) (e_next (links m) x) xs None" using Cons.prems(2) by simp_all
  show ?case
  proof (cases "rm_match mutex me ?v \<and> rm_count ?v = 1")
    case True
    obtain h where h: "remove_in x m = Inr (m\<lparr>links := h\<rparr>)" "is_list h (ys @ xs)"
      using remove_in_ok [OF in_memoryD(1) [OF Cons.prems(1)]] in_memoryD(2) [OF Cons.prems(1)] by auto
    let ?m = "m\<lparr>links := h, allocated := allocated m - {x}\<rparr>"
    have "in_memory ?m (ys @ xs)" using h(2) in_memoryD(2,3) [OF Cons.prems(1)] by (auto simp: in_memory_def)
    then have "holds_list ?m (map (content m) (ys @ xs))" by (rule holds_listI) simp
    then show ?thesis
      using True h(1) mem pos(1) n Cons.prems(4) in_memoryD(2) [OF Cons.prems(1)] by (auto simp: free_elem_def)
  next
    case False
    let ?w = "if rm_match mutex me ?v then ?v\<lparr>rm_count := rm_count ?v - 1\<rparr> else ?v"
    obtain es' where es': "unlock_scan mutex me (map (content m) xs) = (es', free)" "es = ?w # es'"
      using Cons.prems(4) False by (cases "unlock_scan mutex me (map (content m) xs)") auto
    obtain m' where m': "write_elem x ?w m = Inr m'" "in_memory m' (ys @ x # xs)" "links m' = links m"
      "map (content m') ys = map (content m) ys" "content m' x = ?w" "map (content m') xs = map (content m) xs"
      using write_in_list [OF Cons.prems(1)] by blast
    have "\<exists>m''. unlock_loop n' mutex me (e_next (links m') x) m' = Inr (free, m'') \<and>
        holds_list m'' (map (content m') (ys @ [x]) @ es')"
    proof (rule Cons.IH [where ys = "ys @ [x]" and m = m'])
      show "unlock_scan mutex me (map (content m') xs) = (es', free)" using es'(1) unfolding m'(6) .
    qed (use m'(2,3) pos(2) Cons.prems(3) n in simp_all)
    moreover have "unlock_loop n mutex me p m = unlock_loop n' mutex me (e_next (links m') x) m'"
    proof (cases "rm_match mutex me ?v")
      case True
      have "next_elem x m' = Inr (e_next (links m') x)" using in_memoryD(7) [OF m'(2), of x] by simp
      with True False show ?thesis using n pos(1) mem m'(1) by simp
    next
      case no: False
      then have "m' = m" using m'(1) mem in_memoryD(2) [OF Cons.prems(1)] by (auto simp: write_elem_def)
      with no show ?thesis using n pos(1) mem by simp
    qed
    ultimately show ?thesis using m'(4,5) es'(2) by simp
  qed
qed

subsection \<open>Sequences of operations\<close>

datatype rm_call = Call_lock nat tid | Call_unlock nat tid

datatype rm_answer = Locked lock_answer | Unlocked bool

fun rm_model :: "rm_call \<Rightarrow> rm_entry list \<Rightarrow> c_error + (rm_answer \<times> rm_entry list)" where
  "rm_model (Call_lock mutex me) es =
     (case lock_scan mutex me es of
        Some es' \<Rightarrow> Inr (Locked Counted, es')
      | None \<Rightarrow> Inr (Locked Inserted, \<lparr>mx = mutex, rm_id = me, rm_count = 1\<rparr> # es))"
| "rm_model (Call_unlock mutex me) es = (case unlock_scan mutex me es of (es', free) \<Rightarrow> Inr (Unlocked free, es'))"

fun rm_code :: "allocator \<Rightarrow> rm_call \<Rightarrow> rm_entry memory \<Rightarrow> c_error + (rm_answer \<times> rm_entry memory)" where
  "rm_code malloc (Call_lock mutex me) m = bindE (recursive_mutex_lock_in malloc mutex me m) (\<lambda>(a, m). Inr (Locked a, m))"
| "rm_code malloc (Call_unlock mutex me) m = bindE (recursive_mutex_unlock_in mutex me m) (\<lambda>(b, m). Inr (Unlocked b, m))"

interpretation rm_memory: memory_refinement rm_model "rm_code malloc"
    "\<lambda>m es. fresh_allocator malloc \<and> holds_list m es" UNIV for malloc
proof unfold_locales
  fix m and es :: "rm_entry list" and c assume R: "fresh_allocator malloc \<and> holds_list m es"
  show "agrees UNIV (\<lambda>m es. fresh_allocator malloc \<and> holds_list m es) (rm_model c es) (rm_code malloc c m)"
  proof (cases c)
    case (Call_lock mutex me)
    then show ?thesis using R lock_in_agrees [of malloc m es mutex me]
      by (auto simp: agrees_def split: option.splits)
  next
    case (Call_unlock mutex me)
    obtain es' free where u: "unlock_scan mutex me es = (es', free)" by (cases "unlock_scan mutex me es")
    obtain xs where xs: "in_memory m xs" "es = map (content m) xs" using R by (auto elim: holds_listE)
    show ?thesis
      using unlock_loop_agrees [of m "[]" xs "h_first (links m)" "steps m" mutex me es' free] in_memoryD(4,5) [OF xs(1)] xs u R Call_unlock
      by (auto simp: agrees_def recursive_mutex_unlock_in_def)
  qed
qed

text \<open>
  Whatever memory \<^verbatim>\<open>malloc\<close> returns, a sequence of locks and unlocks has the results of the scans on the list of
  the entries; no freed entry is used.
\<close>

theorem recursive_mutexes_in_memory:
  assumes "fresh_allocator malloc" and "holds_list m es"
  shows "map_sum id fst (calls (rm_code malloc) cs m) = map_sum id fst (calls rm_model cs es)"
proof -
  have "agrees UNIV (\<lambda>m es. fresh_allocator malloc \<and> holds_list m es) (calls rm_model cs es) (calls (rm_code malloc) cs m)"
    using assms by (intro rm_memory.calls_agree) simp
  then show ?thesis by (auto simp: agrees_def split: sum.splits)
qed

end
