(* ===== verification/Table_Memory.thy ===== *)
theory Table_Memory
  imports Memory Manuf Fingerprint "HOL-Library.Multiset"
begin

text \<open>
  The two hash tables in memory (\<^verbatim>\<open>src/lmap_manuf.c\<close>, \<^verbatim>\<open>lmap_fingerprint.c\<close>): an array of heads of \<^verbatim>\<open>SLIST\<close>s, whose
  entries come from \<^verbatim>\<open>malloc\<close> while the data files are loaded, and are freed at the exit. The functions agree
  with those of the theories Manuf and Fingerprint, use no freed entry and leave none behind.
\<close>

subsection \<open>An array of chains\<close>

text \<open>The heads, and the entries with their links. The first element of \<open>cells\<close> is that of the chain in use.\<close>

record 'a table_memory =
  heads :: "ptr list"
  cells :: "'a memory"

definition empty_table :: "nat \<Rightarrow> heap \<Rightarrow> (elem \<Rightarrow> 'a) \<Rightarrow> 'a table_memory" where
  "empty_table n h c = \<lparr>heads = replicate n None, cells = \<lparr>links = h, content = c, allocated = {}\<rparr>\<rparr>"

text \<open>A macro of Queue on the chain \<open>i\<close>; it uses the entries \<open>S\<close>.\<close>

definition on_chain :: "nat \<Rightarrow> elem set \<Rightarrow> (heap \<Rightarrow> c_error + heap) \<Rightarrow> 'a table_memory \<Rightarrow> c_error + 'a table_memory" where
  "on_chain i S f t =
     (if i < length (heads t) then
        if S \<subseteq> allocated (cells t) then
          bindE (f ((links (cells t))\<lparr>h_first := heads t ! i\<rparr>)) (\<lambda>h.
          Inr \<lparr>heads = (heads t)[i := h_first h], cells = (cells t)\<lparr>links := h\<rparr>\<rparr>)
        else Inl Use_after_free
      else Inl Out_of_bounds)"

text \<open>\<^verbatim>\<open>LOAD_ENTRY\<close> and \<^verbatim>\<open>SLIST_INSERT_HEAD\<close>\<close>

definition insert_entry :: "allocator \<Rightarrow> nat \<Rightarrow> 'a \<Rightarrow> 'a table_memory \<Rightarrow> c_error + 'a table_memory" where
  "insert_entry malloc i v t =
     bindE (new_elem malloc ''malloc() virtual memory exhausted'' v (cells t)) (\<lambda>(p, m).
     on_chain i {p} (\<lambda>h. Inr (SLIST_INSERT_HEAD p h)) (t\<lparr>cells := m\<rparr>))"

text \<open>\<^verbatim>\<open>SLIST_FOREACH\<close> that returns at the first entry with the property\<close>

definition find_entry :: "nat \<Rightarrow> ('a \<Rightarrow> bool) \<Rightarrow> 'a table_memory \<Rightarrow> c_error + 'a option" where
  "find_entry i P t =
     (if i < length (heads t) then
        bindE (search_list (steps (cells t)) P (heads t ! i) (cells t)) (\<lambda>r.
          case r of None \<Rightarrow> Inr None | Some l \<Rightarrow> bindE (read_elem l (cells t)) (\<lambda>v. Inr (Some v)))
      else Inl Out_of_bounds)"

text \<open>The loop over a chain that takes its first entry off and frees it, and the one over the chains.\<close>

fun discard_chain_in :: "nat \<Rightarrow> nat \<Rightarrow> 'a table_memory \<Rightarrow> c_error + 'a table_memory" where
  "discard_chain_in 0 i t = Inl Endless_loop"
| "discard_chain_in (Suc n) i t =
     (if i < length (heads t) then
        (case heads t ! i of
           None \<Rightarrow> Inr t
         | Some l \<Rightarrow>
             bindE (on_chain i {l} SLIST_REMOVE_HEAD t) (\<lambda>t.
             bindE (read_elem l (cells t)) (\<lambda>v.
             bindE (free_elem l (cells t)) (\<lambda>m. discard_chain_in n i (t\<lparr>cells := m\<rparr>)))))
      else Inl Out_of_bounds)"

fun discard_chains :: "nat list \<Rightarrow> 'a table_memory \<Rightarrow> c_error + 'a table_memory" where
  "discard_chains [] t = Inr t"
| "discard_chains (i # is) t = bindE (discard_chain_in (steps (cells t)) i t) (discard_chains is)"

definition discard_all_in :: "'a table_memory \<Rightarrow> c_error + 'a table_memory" where
  "discard_all_in t = discard_chains [0..<length (heads t)] t"

subsection \<open>The chains in memory\<close>

text \<open>Every chain is a list of entries; they share none, and nothing else is allocated.\<close>

definition table_invar :: "'a table_memory \<Rightarrow> elem list list \<Rightarrow> bool" where
  "table_invar t xss \<longleftrightarrow> length (heads t) = length xss \<and> distinct (concat xss) \<and> allocated (cells t) = set (concat xss) \<and>
     (\<forall>i < length xss. seg Some (e_next (links (cells t))) (heads t ! i) (xss ! i) None)"

definition holds_table :: "'a table_memory \<Rightarrow> 'a chains \<Rightarrow> bool" where
  "holds_table t tab \<longleftrightarrow> (\<exists>xss. table_invar t xss \<and> map (map (content (cells t))) xss = tab)"

lemma holds_tableI: "table_invar t xss \<Longrightarrow> map (map (content (cells t))) xss = tab \<Longrightarrow> holds_table t tab"
  by (auto simp: holds_table_def)

lemma holds_tableE:
  assumes "holds_table t tab"
  obtains xss where "table_invar t xss" and "tab = map (map (content (cells t))) xss"
  using assms by (auto simp: holds_table_def)

lemma empty_table_holds: "holds_table (empty_table n h c) (replicate n [])"
  by (rule holds_tableI [of _ "replicate n []"]) (simp_all add: table_invar_def empty_table_def)

lemma table_invarD:
  assumes "table_invar t xss" and "i < length xss"
  shows "seg Some (e_next (links (cells t))) (heads t ! i) (xss ! i) None" and "i < length (heads t)"
    and "set (xss ! i) \<subseteq> allocated (cells t)" and "length (xss ! i) < steps (cells t)"
proof -
  show "seg Some (e_next (links (cells t))) (heads t ! i) (xss ! i) None" "i < length (heads t)"
    using assms by (simp_all add: table_invar_def)
  show s: "set (xss ! i) \<subseteq> allocated (cells t)" using assms by (auto simp: table_invar_def)
  have "distinct (xss ! i)" using assms by (auto simp: table_invar_def distinct_concat_iff)
  then have "length (xss ! i) = card (set (xss ! i))" by (rule distinct_card [symmetric])
  also have "\<dots> \<le> card (allocated (cells t))" using s assms(1) by (intro card_mono) (auto simp: table_invar_def)
  finally show "length (xss ! i) < steps (cells t)" by (simp add: steps_def)
qed

lemma concat_update_Cons: "i < length xss \<Longrightarrow> mset (concat (xss[i := x # xss ! i])) = add_mset x (mset (concat xss))"
  by (induction xss arbitrary: i) (auto split: nat.splits)

lemma concat_update_tl: "i < length xss \<Longrightarrow> xss ! i = x # xs \<Longrightarrow> mset (concat xss) = add_mset x (mset (concat (xss[i := xs])))"
  by (induction xss arbitrary: i) (auto split: nat.splits)

lemma distinct_mset_add: "mset ys = add_mset x (mset xs) \<Longrightarrow> distinct ys \<longleftrightarrow> x \<notin> set xs \<and> distinct xs"
  using mset_eq_imp_distinct_iff [of ys "x # xs"] by simp

lemma set_mset_add: "mset ys = add_mset x (mset xs) \<Longrightarrow> set ys = insert x (set xs)"
  using mset_eq_setD [of ys "x # xs"] by simp

text \<open>The operations on the contents.\<close>

lemma insert_entry_ok:
  assumes "fresh_allocator malloc" and "holds_table t tab" and "i < length tab"
  shows "\<exists>t'. insert_entry malloc i v t = Inr t' \<and> holds_table t' (slist_insert_head tab i v)"
proof -
  obtain xss where t: "table_invar t xss" and tab: "tab = map (map (content (cells t))) xss"
    using assms(2) by (rule holds_tableE)
  have i: "i < length xss" using assms(3) tab by simp
  have "finite (allocated (cells t))" using t by (simp add: table_invar_def)
  then obtain p where "malloc (allocated (cells t)) = Some p" "p \<notin> allocated (cells t)"
    using assms(1) unfolding fresh_allocator_def by blast
  with t have p: "malloc (allocated (cells t)) = Some p" "p \<notin> set (concat xss)" by (simp_all add: table_invar_def)
  let ?h = "SLIST_INSERT_HEAD p ((links (cells t))\<lparr>h_first := heads t ! i\<rparr>)"
  let ?t = "\<lparr>heads = (heads t)[i := h_first ?h],
    cells = (cells t)\<lparr>content := (content (cells t))(p := v), allocated := insert p (allocated (cells t)), links := ?h\<rparr>\<rparr>"
  have run: "insert_entry malloc i v t = Inr ?t"
    using p(1) table_invarD(2) [OF t i] by (simp add: insert_entry_def new_elem_def on_chain_def)
  note more = concat_update_Cons [OF i, of p]
  have out: "p \<notin> set (xss ! j)" if "j < length xss" for j using p(2) that by auto
  have inv: "table_invar ?t (xss[i := p # xss ! i])"
    unfolding table_invar_def
  proof (intro conjI allI impI)
    show "distinct (concat (xss[i := p # xss ! i]))" using distinct_mset_add [OF more] p(2) t by (simp add: table_invar_def)
    show "allocated (cells ?t) = set (concat (xss[i := p # xss ! i]))" using set_mset_add [OF more] t by (simp add: table_invar_def)
    show "length (heads ?t) = length (xss[i := p # xss ! i])" using t by (simp add: table_invar_def)
    fix j assume "j < length (xss[i := p # xss ! i])"
    then show "seg Some (e_next (links (cells ?t))) (heads ?t ! j) (xss[i := p # xss ! i] ! j) None"
      using table_invarD(1,2) [OF t, of j] table_invarD(1,2) [OF t i] out [of j] out [OF i]
      by (cases "j = i") (simp_all add: SLIST_INSERT_HEAD_def set_next_def)
  qed
  have same: "map ((content (cells t))(p := v)) xs = map (content (cells t)) xs" if "xs \<in> set xss" for xs
    using p(2) that by auto
  then have "map (map ((content (cells t))(p := v))) xss = tab" unfolding tab by (rule map_cong [OF refl])
  moreover have "map ((content (cells t))(p := v)) (xss ! i) = map (content (cells t)) (xss ! i)" by (rule same) (use i in simp)
  ultimately have "(map (map ((content (cells t))(p := v))) xss)[i := v # map ((content (cells t))(p := v)) (xss ! i)] =
      slist_insert_head tab i v"
    unfolding slist_insert_head_def using i by (simp only: tab nth_map)
  then have "map (map (content (cells ?t))) (xss[i := p # xss ! i]) = slist_insert_head tab i v" by (simp add: map_update)
  with inv show ?thesis using run by (blast intro: holds_tableI)
qed

lemma slist_find_eq: "slist_find P ls = find P ls"
  by (induction ls) auto

lemma find_entry_ok:
  assumes "holds_table t tab" and "i < length tab"
  shows "find_entry i P t = Inr (slist_find P (tab ! i))"
proof -
  obtain xss where t: "table_invar t xss" and tab: "tab = map (map (content (cells t))) xss"
    using assms(1) by (rule holds_tableE)
  have i: "i < length xss" using assms(2) tab by simp
  note d = table_invarD [OF t i]
  show ?thesis
    using search_from [OF d(1,3,4), of P] d(2,3) i
    by (auto simp: find_entry_def slist_find_eq tab find_values read_elem_def dest: find_split split: option.splits)
qed

lemma discard_chain_ok:
  assumes "table_invar t xss" and "i < length xss" and "length (xss ! i) < n"
  shows "\<exists>t'. discard_chain_in n i t = Inr t' \<and> table_invar t' (xss[i := []])"
  using assms
proof (induction "xss ! i" arbitrary: t xss n)
  case Nil
  then have "xss[i := []] = xss" by (metis list_update_id)
  moreover obtain n' where "n = Suc n'" using Nil.prems(3) by (cases n) auto
  moreover have "heads t ! i = None" using table_invarD(1) [OF Nil.prems(1,2)] Nil.hyps by (metis seg.simps(1))
  ultimately show ?case using Nil.prems(1) table_invarD(2) [OF Nil.prems(1,2)] by simp
next
  case (Cons x xs)
  note d = table_invarD [OF Cons.prems(1,2)]
  obtain n' where n: "n = Suc n'" using Cons.prems(3) by (cases n) auto
  have x: "heads t ! i = Some x" "seg Some (e_next (links (cells t))) (e_next (links (cells t)) x) xs None" "x \<in> allocated (cells t)"
    using d(1,3) unfolding Cons.hyps(2) [symmetric] by simp_all
  let ?h = "(links (cells t))\<lparr>h_first := e_next (links (cells t)) x\<rparr>"
  let ?t = "\<lparr>heads = (heads t)[i := e_next (links (cells t)) x],
    cells = (cells t)\<lparr>links := ?h, allocated := allocated (cells t) - {x}\<rparr>\<rparr>"
  have run: "discard_chain_in n i t = discard_chain_in n' i ?t"
    using n x d(2) by (simp add: on_chain_def SLIST_REMOVE_HEAD_def at_ptr_def read_elem_def free_elem_def)
  note less = concat_update_tl [OF Cons.prems(2) Cons.hyps(2) [symmetric]]
  have "table_invar ?t (xss[i := xs])"
    unfolding table_invar_def
  proof (intro conjI allI impI)
    show "distinct (concat (xss[i := xs]))" using distinct_mset_add [OF less] Cons.prems(1) by (simp add: table_invar_def)
    show "allocated (cells ?t) = set (concat (xss[i := xs]))"
      using distinct_mset_add [OF less] set_mset_add [OF less] Cons.prems(1) by (simp add: table_invar_def)
    show "length (heads ?t) = length (xss[i := xs])" using Cons.prems(1) by (simp add: table_invar_def)
    fix j assume "j < length (xss[i := xs])"
    then show "seg Some (e_next (links (cells ?t))) (heads ?t ! j) (xss[i := xs] ! j) None"
      using table_invarD(1,2) [OF Cons.prems(1), of j] x(2) d(2) by (cases "j = i") simp_all
  qed
  moreover have "length xs < n'" using Cons.prems(3) n unfolding Cons.hyps(2) [symmetric] by simp
  ultimately have "\<exists>t'. discard_chain_in n' i ?t = Inr t' \<and> table_invar t' (xss[i := xs, i := []])"
    using Cons.prems(2) by (intro Cons.hyps(1)) simp_all
  then show ?case unfolding run by simp
qed

lemma discard_chains_ok:
  assumes "table_invar t xss" and "set is \<subseteq> {..<length xss}"
  shows "\<exists>t' yss. discard_chains is t = Inr t' \<and> table_invar t' yss \<and> length yss = length xss \<and>
    (\<forall>j < length xss. yss ! j = (if j \<in> set is then [] else xss ! j))"
  using assms
proof (induction "is" arbitrary: t xss)
  case Nil
  then show ?case by auto
next
  case (Cons i "is")
  have i: "i < length xss" using Cons.prems(2) by simp
  obtain t1 where t1: "discard_chain_in (steps (cells t)) i t = Inr t1" "table_invar t1 (xss[i := []])"
    using discard_chain_ok [OF Cons.prems(1) i table_invarD(4) [OF Cons.prems(1) i]] by blast
  obtain t' yss where "discard_chains is t1 = Inr t'" "table_invar t' yss" "length yss = length xss"
    "\<forall>j < length xss. yss ! j = (if j \<in> set is then [] else xss[i := []] ! j)"
    using Cons.IH [OF t1(2)] Cons.prems(2) by auto
  then show ?case using t1(1) i by (intro exI [of _ t'] exI [of _ yss]) (auto simp: nth_list_update)
qed

lemma discard_all_ok:
  assumes "holds_table t tab"
  shows "\<exists>t'. discard_all_in t = Inr t' \<and> allocated (cells t') = {} \<and> heads t' = replicate (length tab) None"
proof -
  obtain xss where t: "table_invar t xss" and tab: "tab = map (map (content (cells t))) xss"
    using assms by (rule holds_tableE)
  have len: "length (heads t) = length xss" using t by (simp add: table_invar_def)
  obtain t' yss where t': "discard_all_in t = Inr t'" "table_invar t' yss" "length yss = length xss"
    "\<forall>j < length xss. yss ! j = []"
    using discard_chains_ok [OF t, of "[0..<length xss]"] len unfolding discard_all_in_def by fastforce
  then have "yss = replicate (length tab) []" by (intro nth_equalityI) (simp_all add: tab)
  with t'(2) have "allocated (cells t') = {} \<and> length (heads t') = length tab \<and> (\<forall>j < length tab. heads t' ! j = None)"
    by (auto simp: table_invar_def)
  then have "heads t' = replicate (length tab) None" "allocated (cells t') = {}" by (auto intro: nth_equalityI)
  with t'(1) show ?thesis by blast
qed

subsection \<open>The vendor table\<close>

definition manuf_insert_in :: "allocator \<Rightarrow> endian \<Rightarrow> oui \<Rightarrow> string \<Rightarrow> mac_entry table_memory \<Rightarrow> c_error + mac_entry table_memory" where
  "manuf_insert_in malloc en k name t = insert_entry malloc (mac_index k) \<lparr>mac = mac_int en k, vendor = name\<rparr> t"

fun manuf_load_in :: "allocator \<Rightarrow> endian \<Rightarrow> string list \<Rightarrow> mac_entry table_memory \<times> nat \<Rightarrow> c_error + (mac_entry table_memory \<times> nat)" where
  "manuf_load_in malloc en [] (t, i) = Inr (t, i)"
| "manuf_load_in malloc en (line # lines) (t, i) =
     (case scan_line (c_str line) of
        None \<Rightarrow> manuf_load_in malloc en lines (t, i)
      | Some (m1, m2, m3, name) \<Rightarrow>
          if length name + 1 \<le> 80 then
            bindE (manuf_insert_in malloc en (word_of_int m1, word_of_int m2, word_of_int m3) name t) (\<lambda>t.
            manuf_load_in malloc en lines (t, i + 1))
          else Inl Out_of_bounds)"

definition manuf_init_in :: "allocator \<Rightarrow> endian \<Rightarrow> file_system \<Rightarrow> string \<Rightarrow> string \<Rightarrow> mac_entry table_memory \<Rightarrow>
    c_error + (mac_entry table_memory \<times> nat)" where
  "manuf_init_in malloc en fs prefix program t =
     bindE (open_data fs prefix program ''mac-fingerprints'') (\<lambda>content.
     manuf_load_in malloc en (file_lines 80 content) (t, 0))"

definition manuf_search_in :: "endian \<Rightarrow> mac_entry table_memory \<Rightarrow> bytes \<Rightarrow> c_error + string option" where
  "manuf_search_in en t m =
     bindE (rd8 m 0) (\<lambda>a. bindE (rd8 m 1) (\<lambda>b. bindE (rd8 m 2) (\<lambda>c.
     bindE (find_entry (mac_index (a, b, c)) (\<lambda>l. mac l = mac_int en (a, b, c)) t) (\<lambda>r. Inr (map_option vendor r)))))"

definition discard_macdb_in :: "mac_entry table_memory \<Rightarrow> c_error + mac_entry table_memory" where
  "discard_macdb_in t = discard_all_in t"

subsection \<open>The fingerprints\<close>

definition finger_insert_in :: "allocator \<Rightarrow> string \<Rightarrow> string \<Rightarrow> finger_entry table_memory \<Rightarrow> c_error + finger_entry table_memory" where
  "finger_insert_in malloc f name t = insert_entry malloc (finger_index f) \<lparr>finger = take FINGER_LEN f, os = name\<rparr> t"

text \<open>The loop of \<^verbatim>\<open>fingerprint_init\<close>; \<open>fb\<close> and \<open>ob\<close> are the arrays \<^verbatim>\<open>finger\<close> and \<^verbatim>\<open>os\<close>.\<close>

fun load_lines_in :: "allocator \<Rightarrow> string list \<Rightarrow> string \<Rightarrow> string \<Rightarrow> finger_entry table_memory \<times> nat \<Rightarrow>
    c_error + (finger_entry table_memory \<times> nat)" where
  "load_lines_in malloc [] fb ob (t, i) = Inr (t, i)"
| "load_lines_in malloc (line # lines) fb ob (t, i) =
     (let text = takeWhile (\<lambda>c. c \<noteq> CHR ''#'') (c_str line) in
      if length text = 0 then load_lines_in malloc lines fb ob (t, i)
      else
        bindE (strlcpy fb text FINGER_LEN) (\<lambda>(fb, _).
        bindE (strlcpy ob text OS_LEN) (\<lambda>(ob, _).
        bindE (finger_insert_in malloc fb (c_str ob) t) (\<lambda>t.
        load_lines_in malloc lines fb ob (t, i + 1)))))"

definition fingerprint_init_in :: "allocator \<Rightarrow> string \<Rightarrow> string \<Rightarrow> file_system \<Rightarrow> string \<Rightarrow> string \<Rightarrow> finger_entry table_memory \<Rightarrow>
    c_error + (finger_entry table_memory \<times> nat)" where
  "fingerprint_init_in malloc finger0 os0 fs prefix program t =
     bindE (open_data fs prefix program ''tcp-fingerprints'') (\<lambda>content.
     load_lines_in malloc (file_lines 128 content) finger0 os0 (t, 0))"

definition fingerprint_search_in :: "finger_entry table_memory \<Rightarrow> string \<Rightarrow> c_error + string option" where
  "fingerprint_search_in t f =
     (if FINGER_LEN \<le> length f then
        bindE (find_entry (finger_index f) (\<lambda>l. memcmp (str_bytes (finger l)) (str_bytes f) FINGER_LEN = Inr 0) t) (\<lambda>r.
        Inr (map_option os r))
      else Inl Out_of_bounds)"

definition fingerprint_discard_in :: "finger_entry table_memory \<Rightarrow> c_error + finger_entry table_memory" where
  "fingerprint_discard_in t = discard_all_in t"

subsection \<open>They agree with the tables\<close>

definition holds_tables :: "nat \<Rightarrow> 'a table_memory \<times> nat \<Rightarrow> 'a chains \<times> nat \<Rightarrow> bool" where
  "holds_tables k x y \<longleftrightarrow> holds_table (fst x) (fst y) \<and> length (fst y) = k \<and> snd x = snd y"

lemma manuf_load_agrees:
  assumes "fresh_allocator malloc"
  shows "holds_tables MAC_TABSIZE s (tab, i) \<Longrightarrow>
    rel_sum (=) (holds_tables MAC_TABSIZE) (manuf_load_in malloc en lines s) (manuf_load en lines (tab, i))"
proof (induction lines arbitrary: s tab i)
  case Nil
  then show ?case by (cases s) simp
next
  case (Cons line lines)
  obtain t where s: "s = (t, i)" "holds_table t tab" "length tab = MAC_TABSIZE"
    using Cons.prems by (cases s) (auto simp: holds_tables_def)
  show ?case
  proof (cases "scan_line (c_str line)")
    case None
    then show ?thesis using Cons s(1) by simp
  next
    case (Some p)
    obtain m1 m2 m3 name where p: "p = (m1, m2, m3, name)" by (cases p) auto
    let ?k = "(word_of_int m1, word_of_int m2, word_of_int m3) :: oui"
    have "mac_index ?k < length tab" using mac_index_less s(3) by metis
    then obtain t' where "manuf_insert_in malloc en ?k name t = Inr t'" "holds_table t' (manuf_insert en ?k name tab)"
      using insert_entry_ok [OF assms s(2)] unfolding manuf_insert_in_def manuf_insert_def by blast
    then show ?thesis
      using Cons.IH [of "(t', i + 1)" "manuf_insert en ?k name tab" "i + 1"] Some p s(1,3)
      by (simp add: holds_tables_def manuf_insert_def)
  qed
qed

lemma load_lines_agrees:
  assumes "fresh_allocator malloc"
  shows "holds_tables FINGER_TABSIZE x (l_tab s, l_count s) \<Longrightarrow>
    rel_sum (=) (\<lambda>x s. holds_tables FINGER_TABSIZE x (l_tab s, l_count s))
      (load_lines_in malloc lines (l_finger s) (l_os s) x) (load_lines lines s)"
proof (induction lines arbitrary: x s)
  case Nil
  then show ?case by (cases x) simp
next
  case (Cons line lines)
  obtain t where s: "x = (t, l_count s)" "holds_table t (l_tab s)" "length (l_tab s) = FINGER_TABSIZE"
    using Cons.prems by (cases x) (auto simp: holds_tables_def)
  let ?text = "takeWhile (\<lambda>c. c \<noteq> CHR ''#'') (c_str line)"
  show ?case
  proof (cases "?text = []")
    case True
    then show ?thesis using Cons s(1) by (simp add: load_line_def)
  next
    case False
    show ?thesis
    proof (cases "strlcpy (l_finger s) ?text FINGER_LEN")
      case (Inl e)
      then show ?thesis using False s(1) by (simp add: load_line_def)
    next
      case fb: (Inr a)
      show ?thesis
      proof (cases "strlcpy (l_os s) ?text OS_LEN")
        case (Inl e)
        then show ?thesis using False s(1) fb by (simp add: load_line_def split: prod.splits)
      next
        case ob: (Inr b)
        have "finger_index (fst a) < length (l_tab s)" using finger_index_less s(3) by metis
        then obtain t' where t': "finger_insert_in malloc (fst a) (c_str (fst b)) t = Inr t'"
          "holds_table t' (finger_insert (fst a) (c_str (fst b)) (l_tab s))"
          using insert_entry_ok [OF assms s(2)] unfolding finger_insert_in_def finger_insert_def by blast
        let ?s = "s\<lparr>l_tab := finger_insert (fst a) (c_str (fst b)) (l_tab s), l_finger := fst a, l_os := fst b, l_count := l_count s + 1\<rparr>"
        have "holds_tables FINGER_TABSIZE (t', l_count s + 1) (l_tab ?s, l_count ?s)"
          using t'(2) s(3) by (simp add: holds_tables_def finger_insert_def)
        from Cons.IH [OF this] show ?thesis
          using False s(1) fb ob t'(1) by (simp add: load_line_def split_beta)
      qed
    qed
  qed
qed

lemma manuf_search_agrees:
  "holds_table t tab \<Longrightarrow> length tab = MAC_TABSIZE \<Longrightarrow> manuf_search_in en t m = manuf_search en tab m"
  using mac_index_less
  by (auto simp: manuf_search_in_def manuf_search_def manuf_lookup_def find_entry_ok intro!: arg_cong2 [where f = bindE])

lemma memcmp_take: "memcmp a (take n b) n = memcmp a b n"
proof -
  have "memcmp_loop a (take n b) n = memcmp_loop a b n" by (induction a b n rule: memcmp_loop.induct) auto
  then show ?thesis by (simp add: memcmp_def)
qed

lemma fingerprint_search_agrees:
  assumes "holds_table t tab" and "length tab = FINGER_TABSIZE"
  shows "fingerprint_search_in t f = fingerprint_search tab f"
proof -
  have "memcmp a (str_bytes (take FINGER_LEN f)) FINGER_LEN = memcmp a (str_bytes f) FINGER_LEN" for a
    using memcmp_take [of a FINGER_LEN "str_bytes f"] by (simp add: str_bytes_def take_map)
  then show ?thesis using assms finger_index_less [of f]
    by (auto simp: fingerprint_search_in_def fingerprint_search_def finger_lookup_def find_entry_ok finger_index_def)
qed

text \<open>What a use of the loaded tables relies on: the searches of the tables agree, and the exit frees every entry.\<close>

definition vendors_refine :: "endian \<Rightarrow> mac_entry table_memory \<times> nat \<Rightarrow> mac_entry chains \<times> nat \<Rightarrow> bool" where
  "vendors_refine en x y \<longleftrightarrow> snd x = snd y \<and> (\<forall>m. manuf_search_in en (fst x) m = manuf_search en (fst y) m) \<and>
     (\<exists>t. discard_macdb_in (fst x) = Inr t \<and> allocated (cells t) = {} \<and> set (heads t) \<subseteq> {None})"

definition fingers_refine :: "finger_entry table_memory \<times> nat \<Rightarrow> finger_entry chains \<times> nat \<Rightarrow> bool" where
  "fingers_refine x y \<longleftrightarrow> snd x = snd y \<and> (\<forall>f. fingerprint_search_in (fst x) f = fingerprint_search (fst y) f) \<and>
     (\<exists>t. fingerprint_discard_in (fst x) = Inr t \<and> allocated (cells t) = {} \<and> set (heads t) \<subseteq> {None})"

lemma discard_loaded:
  "holds_table t tab \<Longrightarrow> \<exists>t'. discard_all_in t = Inr t' \<and> allocated (cells t') = {} \<and> set (heads t') \<subseteq> {None}"
  using discard_all_ok [of t tab] by fastforce

lemma vendors_hold: "holds_tables MAC_TABSIZE x y \<Longrightarrow> vendors_refine en x y"
  unfolding holds_tables_def vendors_refine_def discard_macdb_in_def using manuf_search_agrees discard_loaded by blast

lemma fingers_hold: "holds_tables FINGER_TABSIZE x y \<Longrightarrow> fingers_refine x y"
  unfolding holds_tables_def fingers_refine_def fingerprint_discard_in_def using fingerprint_search_agrees discard_loaded by blast

lemma manuf_init_agrees:
  assumes "fresh_allocator malloc"
  shows "rel_sum (=) (vendors_refine en) (manuf_init_in malloc en fs prefix program (empty_table MAC_TABSIZE h c))
    (manuf_init en fs prefix program)"
proof (cases "open_data fs prefix program ''mac-fingerprints''")
  case (Inr content)
  have "holds_tables MAC_TABSIZE (empty_table MAC_TABSIZE h c, 0) (manuf_empty, 0)"
    using empty_table_holds [of MAC_TABSIZE h c] by (simp add: holds_tables_def manuf_empty_def)
  from manuf_load_agrees [OF assms this] show ?thesis
    unfolding manuf_init_in_def manuf_init_def Inr bindE.simps
    by (rule sum.rel_mono_strong) (auto intro: vendors_hold)
qed (simp add: manuf_init_in_def manuf_init_def)

lemma fingerprint_init_agrees:
  assumes "fresh_allocator malloc"
  shows "rel_sum (=) fingers_refine (fingerprint_init_in malloc f0 o0 fs prefix program (empty_table FINGER_TABSIZE h c))
    (fingerprint_init f0 o0 fs prefix program)"
proof (cases "open_data fs prefix program ''tcp-fingerprints''")
  case (Inr content)
  let ?s = "\<lparr>l_tab = finger_empty, l_finger = f0, l_os = o0, l_count = 0\<rparr>"
  let ?r = "load_lines (file_lines 128 content) ?s"
  have "holds_tables FINGER_TABSIZE (empty_table FINGER_TABSIZE h c, 0) (l_tab ?s, l_count ?s)"
    using empty_table_holds [of FINGER_TABSIZE h c] by (simp add: holds_tables_def finger_empty_def)
  from load_lines_agrees [OF assms this, of "file_lines 128 content"] show ?thesis
    unfolding fingerprint_init_in_def fingerprint_init_def Inr bindE.simps
    by (cases ?r) (auto simp: rel_sum_sel intro: fingers_hold elim!: rel_sum.cases)
qed (simp add: fingerprint_init_in_def fingerprint_init_def)

text \<open>
  C13: Whatever memory \<^verbatim>\<open>malloc\<close> returns and whatever the two data files say, the loading of the tables in memory,
  chained by the \<^verbatim>\<open>SLIST\<close> macros, ends like that of the models: with the same error, or with the same number of
  entries, and then every search has the answer of the model, and \<^verbatim>\<open>discard_macdb\<close> and \<^verbatim>\<open>fingerprint_discard\<close>
  free each entry once, leave none, and use none behind its end.
\<close>

theorem data_tables_in_memory:
  assumes "fresh_allocator malloc"
  shows "rel_sum (=) (vendors_refine en) (manuf_init_in malloc en fs prefix program (empty_table MAC_TABSIZE h c))
      (manuf_init en fs prefix program) \<and>
    rel_sum (=) fingers_refine (fingerprint_init_in malloc finger0 os0 fs prefix program (empty_table FINGER_TABSIZE h' c'))
      (fingerprint_init finger0 os0 fs prefix program)"
  using manuf_init_agrees [OF assms] fingerprint_init_agrees [OF assms] by blast

lemma manuf_sample_loaded:
  "\<exists>tab. manuf_init Little manuf_sample_fs ''/usr/share'' ''lmap'' = Inr (tab, 1) \<and>
    manuf_search Little tab [0, 0, 0x0c, 1, 2, 3] = Inr (Some ''Cisco'')"
proof -
  let ?ls = "file_lines 80 ''00:00:0C Cisco,''"
  have "\<forall>l \<in> set ?ls. length l < 80" using file_lines_length by blast
  then have "manuf_init Little manuf_sample_fs ''/usr/share'' ''lmap'' = Inr (manuf.load Little [((0, 0, 0x0c), ''Cisco'')] manuf_empty, 1)"
    by (simp add: manuf_init_def manuf_sample_open manuf_load_eq manuf_sample_entries)
  moreover have "manuf_search Little (manuf.load Little [((0, 0, 0x0c), ''Cisco'')] manuf_empty) [0, 0, 0x0c, 1, 2, 3] = Inr (Some ''Cisco'')"
    using manuf.search_load_empty [where kvs = "[((0, 0, 0x0c), ''Cisco'')]" and j = "(0, 0, 0x0c)" and en = Little]
    by (simp add: manuf_search_def rd8_def)
  ultimately show ?thesis by blast
qed

lemma data_tables_in_memory_witness:
  "\<exists>t t'. manuf_init_in next_free Little manuf_sample_fs ''/usr/share'' ''lmap'' (empty_table MAC_TABSIZE empty_heap (\<lambda>_. \<lparr>mac = 0, vendor = []\<rparr>)) = Inr (t, 1) \<and>
    manuf_search_in Little t [0, 0, 0x0c, 1, 2, 3] = Inr (Some ''Cisco'') \<and>
    discard_macdb_in t = Inr t' \<and> allocated (cells t') = {}"
proof -
  obtain tab where tab: "manuf_init Little manuf_sample_fs ''/usr/share'' ''lmap'' = Inr (tab, 1)"
    "manuf_search Little tab [0, 0, 0x0c, 1, 2, 3] = Inr (Some ''Cisco'')"
    using manuf_sample_loaded by blast
  have "rel_sum (=) (vendors_refine Little)
    (manuf_init_in next_free Little manuf_sample_fs ''/usr/share'' ''lmap'' (empty_table MAC_TABSIZE empty_heap (\<lambda>_. \<lparr>mac = 0, vendor = []\<rparr>)))
    (manuf_init Little manuf_sample_fs ''/usr/share'' ''lmap'')"
    by (rule data_tables_in_memory [OF fresh_next_free, THEN conjunct1])
  then show ?thesis
    using tab by (auto simp: vendors_refine_def elim!: rel_sum.cases)
qed

end
