(* ===== verification/Stat_Memory.thy ===== *)
theory Stat_Memory
  imports Memory Stat
begin

text \<open>
  \<^verbatim>\<open>src/lmap_stat.c\<close> in memory: the operations of the theory Stat on the structures and links that the code
  uses. They give the answers of Stat, and use no freed structure where Stat says so.
\<close>

subsection \<open>The operations\<close>

text \<open>A structure has its name and its number; \<open>cursor\<close> is the static pointer of \<^verbatim>\<open>get_all_stats\<close>.\<close>

record stats_memory =
  table :: "(string \<times> u_int32) memory"
  entries :: u_int32
  cursor :: stat_cursor

abbreviation stat_first :: "stats_memory \<Rightarrow> ptr" where
  "stat_first s \<equiv> h_first (links (table s))"

definition register_stat_in :: "allocator \<Rightarrow> string \<Rightarrow> stats_memory \<Rightarrow> c_error + stats_memory" where
  "register_stat_in calloc t s =
     bindE (replace_or_insert calloc ''can't allocate memory'' (\<lambda>v. fst v = t) (t, 0) (table s)) (\<lambda>(new, m).
       Inr (s\<lparr>table := m, entries := (if new then entries s + 1 else entries s)\<rparr>))"

fun update_loop :: "nat \<Rightarrow> string \<Rightarrow> u_int32 \<Rightarrow> ptr \<Rightarrow> (string \<times> u_int32) memory \<Rightarrow> c_error + (string \<times> u_int32) memory" where
  "update_loop 0 t k p m = Inl Endless_loop"
| "update_loop (Suc n) t k None m = Inr m"
| "update_loop (Suc n) t k (Some e) m =
     bindE (read_elem e m) (\<lambda>(u, v).
     bindE (if u = t then write_elem e (u, v + k) m else Inr m) (\<lambda>m.
     bindE (next_elem e m) (\<lambda>p. update_loop n t k p m)))"

definition update_stat_in :: "string \<Rightarrow> u_int32 \<Rightarrow> stats_memory \<Rightarrow> c_error + stats_memory" where
  "update_stat_in t k s =
     bindE (update_loop (steps (table s)) t k (stat_first s) (table s)) (\<lambda>m. Inr (s\<lparr>table := m\<rparr>))"

definition get_stat_in :: "string \<Rightarrow> stats_memory \<Rightarrow> c_error + u_int32" where
  "get_stat_in t s =
     bindE (search_list (steps (table s)) (\<lambda>v. fst v = t) (stat_first s) (table s)) (\<lambda>r.
       case r of None \<Rightarrow> Inr 0 | Some e \<Rightarrow> bindE (read_elem e (table s)) (\<lambda>v. Inr (snd v)))"

definition take_current_in :: "ptr \<Rightarrow> stats_memory \<Rightarrow> c_error + ((string \<times> u_int32) option \<times> stats_memory)" where
  "take_current_in p s =
     (case p of
        None \<Rightarrow> Inl Null_pointer
      | Some e \<Rightarrow>
          bindE (read_elem e (table s)) (\<lambda>v.
          bindE (next_elem e (table s)) (\<lambda>q. Inr (Some v, s\<lparr>cursor := Cursor_at q\<rparr>))))"

definition get_all_stats_in :: "stats_memory \<Rightarrow> c_error + ((string \<times> u_int32) option \<times> stats_memory)" where
  "get_all_stats_in s =
     (case cursor s of
        Cursor_unset \<Rightarrow> take_current_in (stat_first s) s
      | Cursor_at None \<Rightarrow> Inr (None, s\<lparr>cursor := Cursor_at (stat_first s)\<rparr>)
      | Cursor_at (Some e) \<Rightarrow> take_current_in (Some e) s)"

fun free_loop :: "nat \<Rightarrow> (string \<times> u_int32) memory \<Rightarrow> c_error + (string \<times> u_int32) memory" where
  "free_loop 0 m = Inl Endless_loop"
| "free_loop (Suc n) m =
     (case h_first (links m) of
        None \<Rightarrow> Inr m
      | Some e \<Rightarrow>
          bindE (remove_in e m) (\<lambda>m.
          bindE (read_elem e m) (\<lambda>v.
          bindE (free_elem e m) (\<lambda>m. free_loop n m))))"

definition free_stats_in :: "stats_memory \<Rightarrow> c_error + stats_memory" where
  "free_stats_in s = bindE (free_loop (steps (table s)) (table s)) (\<lambda>m. Inr (s\<lparr>table := m\<rparr>))"

subsection \<open>The relation to the model\<close>

definition same_elem :: "(string \<times> u_int32) memory \<Rightarrow> elem \<Rightarrow> stat_elem \<Rightarrow> bool" where
  "same_elem m x c \<longleftrightarrow> content m x = (stat_type c, num c)"

text \<open>
  The two static pointers. When the structure that the one in Stat points to has been freed, nothing is said
  about the other one: its memory may be in use again.
\<close>

fun same_cursor :: "elem list \<Rightarrow> stat_elem list \<Rightarrow> stat_cursor \<Rightarrow> stat_cursor \<Rightarrow> bool" where
  "same_cursor xs cs Cursor_unset Cursor_unset \<longleftrightarrow> True"
| "same_cursor xs cs (Cursor_at None) (Cursor_at None) \<longleftrightarrow> True"
| "same_cursor xs cs (Cursor_at (Some e)) (Cursor_at (Some a)) \<longleftrightarrow> (\<forall>(x, b) \<in> set (zip xs (map addr cs)). b = a \<longrightarrow> x = e)"
| "same_cursor xs cs _ _ \<longleftrightarrow> False"

definition old_cursor :: "stats \<Rightarrow> bool" where
  "old_cursor s \<longleftrightarrow> (\<forall>a. current s = Cursor_at (Some a) \<longrightarrow> a < next_addr s)"

definition stats_refine :: "stats_memory \<Rightarrow> stats \<Rightarrow> bool" where
  "stats_refine m s \<longleftrightarrow> stats_invar s \<and> old_cursor s \<and> entries m = stat_entries s \<and>
     (\<exists>xs. in_memory (table m) xs \<and> list_all2 (same_elem (table m)) xs (stat_list s) \<and>
        same_cursor xs (stat_list s) (cursor m) (current s))"

lemma find_at: "P x \<Longrightarrow> \<forall>y \<in> set ys. \<not> P y \<Longrightarrow> find P (ys @ x # zs) = Some x"
  by (induction ys) auto

lemma all_same_ids: "list_all2 (same_elem m) xs cs \<Longrightarrow> (fst \<circ> content m) ` set xs = stat_type ` set cs"
  by (induction rule: list_all2_induct) (auto simp: same_elem_def)

lemma all_same_upd:
  "e \<notin> set xs \<Longrightarrow> content m' = (content m)(e := v) \<Longrightarrow> list_all2 (same_elem m) xs cs \<Longrightarrow> list_all2 (same_elem m') xs cs"
  by (erule list.rel_mono_strong) (auto simp: same_elem_def)

lemma all_same_other: "list_all2 (same_elem m) xs cs \<Longrightarrow> t \<notin> stat_type ` set cs \<Longrightarrow> \<forall>y \<in> set xs. fst (content m y) \<noteq> t"
  using all_same_ids [of m xs cs] by (force simp: image_iff set_eq_iff)

lemma find_same: "list_all2 (same_elem m) xs cs \<Longrightarrow>
    find ((\<lambda>v. fst v = t) \<circ> content m) xs = None \<longleftrightarrow> t \<notin> stat_type ` set cs"
  by (induction rule: list_all2_induct) (auto simp: same_elem_def)

lemma stats_refineE:
  assumes "stats_refine m s"
  obtains xs where "stats_invar s" "old_cursor s" "entries m = stat_entries s" "in_memory (table m) xs"
    "list_all2 (same_elem (table m)) xs (stat_list s)" "same_cursor xs (stat_list s) (cursor m) (current s)"
  using assms by (auto simp: stats_refine_def)

lemma stats_refineI:
  "stats_invar s \<Longrightarrow> old_cursor s \<Longrightarrow> entries m = stat_entries s \<Longrightarrow> in_memory (table m) xs \<Longrightarrow>
    list_all2 (same_elem (table m)) xs (stat_list s) \<Longrightarrow> same_cursor xs (stat_list s) (cursor m) (current s) \<Longrightarrow> stats_refine m s"
  unfolding stats_refine_def by blast

lemma same_cursor_mono:
  assumes "same_cursor xs cs c d" and "\<And>x a. d = Cursor_at (Some a) \<Longrightarrow> (x, a) \<in> set (zip ys (map addr es)) \<Longrightarrow> (x, a) \<in> set (zip xs (map addr cs))"
  shows "same_cursor ys es c d"
  using assms by (cases "(xs, cs, c, d)" rule: same_cursor.cases) fastforce+

lemma old_cursor_register: "old_cursor s \<Longrightarrow> old_cursor (register_stat t s)"
  by (auto simp: old_cursor_def register_stat_def Let_def less_Suc_eq split: option.splits)

lemma register_stat_in_refines:
  assumes "fresh_allocator calloc" and "stats_refine m s"
  shows "\<exists>m'. register_stat_in calloc t m = Inr m' \<and> stats_refine m' (register_stat t s)"
proof -
  from assms(2) obtain xs where inv: "stats_invar s" "old_cursor s" and en: "entries m = stat_entries s"
    and xs: "in_memory (table m) xs" "list_all2 (same_elem (table m)) xs (stat_list s)" "same_cursor xs (stat_list s) (cursor m) (current s)"
    by (rule stats_refineE)
  obtain e where e: "calloc (allocated (table m)) = Some e" "e \<notin> set xs" using fresh_elem [OF assms(1) xs(1)] .
  let ?c = "\<lparr>addr = next_addr s, stat_type = t, num = 0\<rparr>"
  let ?P = "\<lambda>v :: string \<times> u_int32. fst v = t"
  note inv' = stats_invar_register [OF inv(1)] old_cursor_register [OF inv(2)]
  show ?thesis
  proof (cases "list_replace t ?c (stat_list s)")
    case None
    then have "find (?P \<circ> content (table m)) xs = None" by (simp add: find_same [OF xs(2)] list_replace_None)
    from replace_or_insert_new [where calloc = calloc, OF xs(1) e this] obtain m' where
      m': "replace_or_insert calloc ''can't allocate memory'' ?P (t, 0) (table m) = Inr (True, m')"
        "in_memory m' (e # xs)" "content m' = (content (table m))(e := (t, 0))" by blast
    have "stats_refine (m\<lparr>table := m', entries := entries m + 1\<rparr>) (register_stat t s)"
    proof (rule stats_refineI [OF inv'])
      show "list_all2 (same_elem (table (m\<lparr>table := m', entries := entries m + 1\<rparr>))) (e # xs) (stat_list (register_stat t s))"
        using None all_same_upd [OF e(2) m'(3) xs(2)] m'(3) by (simp add: register_stat_def Let_def same_elem_def)
      show "same_cursor (e # xs) (stat_list (register_stat t s)) (cursor (m\<lparr>table := m', entries := entries m + 1\<rparr>)) (current (register_stat t s))"
        using None inv(2) by (auto simp: register_stat_def Let_def old_cursor_def intro!: same_cursor_mono [OF xs(3)])
    qed (use None en m'(2) in \<open>auto simp: register_stat_def Let_def\<close>)
    with m'(1) show ?thesis by (simp add: register_stat_in_def)
  next
    case (Some l)
    then obtain cs1 d cs2 where cs: "stat_list s = cs1 @ d # cs2" "stat_type d = t" "t \<notin> stat_type ` set cs1" "l = cs1 @ ?c # cs2"
      using list_replace_split by blast
    from xs(2) obtain ys x zs where ys: "xs = ys @ x # zs" "list_all2 (same_elem (table m)) ys cs1"
      "same_elem (table m) x d" "list_all2 (same_elem (table m)) zs cs2"
      unfolding cs(1) by (auto simp: list_all2_append2 list_all2_Cons2)
    have f: "find (?P \<circ> content (table m)) (ys @ x # zs) = Some x"
      using all_same_other [OF ys(2) cs(3)] ys(3) cs(2) by (intro find_at) (auto simp: same_elem_def)
    from replace_or_insert_old [where calloc = calloc, OF xs(1) [unfolded ys(1)] e [unfolded ys(1)] f] obtain m' where
      m': "replace_or_insert calloc ''can't allocate memory'' ?P (t, 0) (table m) = Inr (False, m')"
        "in_memory m' (ys @ e # zs)" "content m' = (content (table m))(e := (t, 0))" by blast
    have len: "length ys = length cs1" using ys(2) by (rule list_all2_lengthD)
    have "stats_refine (m\<lparr>table := m'\<rparr>) (register_stat t s)"
    proof (rule stats_refineI [OF inv'])
      show "list_all2 (same_elem (table (m\<lparr>table := m'\<rparr>))) (ys @ e # zs) (stat_list (register_stat t s))"
        using Some cs(4) e(2) m'(3) ys all_same_upd [OF _ m'(3) ys(2)] all_same_upd [OF _ m'(3) ys(4)]
        by (auto simp: register_stat_def Let_def same_elem_def intro!: list_all2_appendI)
      show "same_cursor (ys @ e # zs) (stat_list (register_stat t s)) (cursor (m\<lparr>table := m'\<rparr>)) (current (register_stat t s))"
        using Some cs(4) len inv(2)
        by (auto simp: register_stat_def Let_def old_cursor_def intro!: same_cursor_mono [OF xs(3) [unfolded ys(1) cs(1)]])
    qed (use Some en m'(2) in \<open>auto simp: register_stat_def Let_def\<close>)
    with m'(1) show ?thesis by (simp add: register_stat_in_def)
  qed
qed

lemma update_loop_ok:
  assumes "seg Some (e_next (links m)) p xs None" and "set xs \<subseteq> allocated m" and "distinct xs" and "length xs < n"
  shows "\<exists>m'. update_loop n t k p m = Inr m' \<and> links m' = links m \<and> allocated m' = allocated m \<and>
    content m' = (\<lambda>x. if x \<in> set xs \<and> fst (content m x) = t then (t, snd (content m x) + k) else content m x)"
  using assms
proof (induction xs arbitrary: n p m)
  case Nil
  then show ?case by (cases n) auto
next
  case (Cons x xs)
  let ?m = "if fst (content m x) = t then m\<lparr>content := (content m)(x := (t, snd (content m x) + k))\<rparr> else m"
  obtain n' where n: "n = Suc n'" using Cons.prems(4) by (cases n) auto
  have step: "update_loop n t k p m = update_loop n' t k (e_next (links ?m) x) ?m"
    using Cons.prems n by (cases "content m x") (auto simp: read_elem_def write_elem_def next_elem_def)
  have "\<exists>m'. update_loop n' t k (e_next (links ?m) x) ?m = Inr m' \<and> links m' = links ?m \<and> allocated m' = allocated ?m \<and>
    content m' = (\<lambda>y. if y \<in> set xs \<and> fst (content ?m y) = t then (t, snd (content ?m y) + k) else content ?m y)"
    using Cons.prems n by (intro Cons.IH) auto
  then show ?case
    unfolding step using Cons.prems(3) by (auto simp: fun_eq_iff)
qed

lemma all_same_update:
  "list_all2 (same_elem m) xs cs \<Longrightarrow>
    \<forall>x \<in> set xs. content m' x = (if fst (content m x) = t then (t, snd (content m x) + k) else content m x) \<Longrightarrow>
    list_all2 (same_elem m') xs (update_elems t k cs)"
  by (induction rule: list_all2_induct) (auto simp: same_elem_def)

lemma same_cursor_update: "same_cursor xs (update_elems t k cs) c d = same_cursor xs cs c d"
  by (cases "(xs, cs, c, d)" rule: same_cursor.cases) simp_all

lemma update_stat_in_refines:
  assumes "stats_refine m s"
  shows "\<exists>m'. update_stat_in t k m = Inr m' \<and> stats_refine m' (update_stat t k s)"
proof -
  from assms obtain xs where inv: "stats_invar s" "old_cursor s" and en: "entries m = stat_entries s"
    and xs: "in_memory (table m) xs" "list_all2 (same_elem (table m)) xs (stat_list s)" "same_cursor xs (stat_list s) (cursor m) (current s)"
    by (rule stats_refineE)
  obtain m' where m': "update_loop (steps (table m)) t k (stat_first m) (table m) = Inr m'" "links m' = links (table m)"
      "allocated m' = allocated (table m)"
      "content m' = (\<lambda>x. if x \<in> set xs \<and> fst (content (table m) x) = t then (t, snd (content (table m) x) + k) else content (table m) x)"
    using update_loop_ok [OF in_memoryD(4) [OF xs(1)] _ in_memoryD(3,5) [OF xs(1)], of t k]
    in_memoryD(2) [OF xs(1)] by auto
  have "stats_refine (m\<lparr>table := m'\<rparr>) (update_stat t k s)"
  proof (rule stats_refineI [of _ _ xs], rule stats_invar_update [OF inv(1)])
    show "list_all2 (same_elem (table (m\<lparr>table := m'\<rparr>))) xs (stat_list (update_stat t k s))"
      using all_same_update [OF xs(2)] m'(4) by (simp add: update_stat_def)
  qed (use inv en xs(1,3) m'(2,3) in \<open>auto simp: update_stat_def same_cursor_update old_cursor_def in_memory_def\<close>)
  with m'(1) show ?thesis by (simp add: update_stat_in_def)
qed

lemma get_num_find: "list_all2 (same_elem m) xs cs \<Longrightarrow>
    get_num t cs = (case find ((\<lambda>v. fst v = t) \<circ> content m) xs of None \<Rightarrow> 0 | Some e \<Rightarrow> snd (content m e))"
  by (induction rule: list_all2_induct) (auto simp: same_elem_def)

lemma find_mem: "find P xs = Some x \<Longrightarrow> x \<in> set xs"
  by (induction xs) (auto split: if_splits)

lemma get_stat_in_refines: "stats_refine m s \<Longrightarrow> get_stat_in t m = Inr (get_stat s t)"
  by (erule stats_refineE)
     (auto simp: get_stat_in_def get_stat_def search_in_memory get_num_find in_memoryD(6) dest: find_mem split: option.splits)

text \<open>The pointer to a position of the list, in both models.\<close>

definition first_elem :: "elem list \<Rightarrow> ptr" where
  "first_elem xs = (case xs of [] \<Rightarrow> None | x # _ \<Rightarrow> Some x)"

lemma seg_first: "seg Some nx p xs None \<Longrightarrow> p = first_elem xs"
  by (cases xs) (auto simp: first_elem_def)

lemma same_cursor_at:
  assumes "distinct (map addr (cs1 @ cs2))" and "length ys = length cs1" and "length zs = length cs2"
  shows "same_cursor (ys @ zs) (cs1 @ cs2) (Cursor_at (first_elem zs)) (Cursor_at (first_addr cs2))"
proof (cases zs)
  case (Cons z zs')
  then obtain c cs' where cs2: "cs2 = c # cs'" using assms(3) by (cases cs2) auto
  have "x = z" if "(x, addr c) \<in> set (zip (ys @ zs) (map addr (cs1 @ cs2)))" for x
  proof -
    from that have "(x, addr c) \<in> set (zip ys (map addr cs1)) \<or> x = z \<or> (x, addr c) \<in> set (zip zs' (map addr cs'))"
      using assms(2) Cons cs2 by auto
    then show ?thesis using assms(1) cs2 by (auto dest!: set_zip_rightD)
  qed
  with Cons cs2 show ?thesis by (auto simp: first_elem_def first_addr_def simp del: zip_append)
qed (use assms(3) in \<open>simp add: first_elem_def first_addr_def\<close>)

lemma elem_at_some:
  "elem_at a cs = Inr (c, n) \<Longrightarrow> \<exists>cs1 cs2. cs = cs1 @ c # cs2 \<and> addr c = a \<and> n = first_addr cs2"
proof (induction cs)
  case (Cons d cs)
  show ?case
  proof (cases "addr d = a")
    case True
    with Cons.prems show ?thesis by (intro exI [of _ "[]"] exI [of _ cs]) (auto simp: first_addr_def)
  next
    case False
    with Cons obtain cs1 cs2 where "cs = cs1 @ c # cs2 \<and> addr c = a \<and> n = first_addr cs2" by auto
    then show ?thesis by (intro exI [of _ "d # cs1"] exI [of _ cs2]) simp
  qed
qed simp

lemma elem_at_none: "elem_at a cs = Inl e \<Longrightarrow> e = Use_after_free"
  by (induction cs) (auto split: if_splits)

text \<open>One call of \<^verbatim>\<open>get_all_stats\<close>: related, or the pointer in the model is to a freed structure.\<close>

lemma take_current_in_refines:
  assumes "stats_refine m s" and "in_memory (table m) (ys @ x # zs)" and "list_all2 (same_elem (table m)) (ys @ x # zs) (stat_list s)"
    and "stat_list s = cs1 @ c # cs2" and "length ys = length cs1"
  shows "\<exists>m'. take_current_in (Some x) m = Inr (Some (stat_type c, num c), m') \<and>
    stats_refine m' (s\<lparr>current := Cursor_at (first_addr cs2)\<rparr>)"
proof -
  let ?m = "m\<lparr>cursor := Cursor_at (first_elem zs)\<rparr>"
  have inv: "stats_invar s" "entries m = stat_entries s" using assms(1) by (auto elim: stats_refineE)
  have d: "distinct (map addr (stat_list s))" "\<forall>c \<in> set (stat_list s). addr c < next_addr s"
    using inv(1) by (auto simp: stats_invar_def)
  have x: "e_next (links (table m)) x = first_elem zs"
    using in_memoryD(4) [OF assms(2)] by (auto dest: seg_first)
  have c: "content (table m) x = (stat_type c, num c)" and "length zs = length cs2"
    using assms(3,5) list_all2_lengthD [OF assms(3)] by (auto simp: assms(4) list_all2_append same_elem_def)
  have "take_current_in (Some x) m = Inr (Some (stat_type c, num c), ?m)"
    using in_memoryD(6,7) [OF assms(2), of x] x c by (simp add: take_current_in_def)
  moreover have "stats_refine ?m (s\<lparr>current := Cursor_at (first_addr cs2)\<rparr>)"
  proof (rule stats_refineI [of _ _ "ys @ x # zs"])
    show "same_cursor (ys @ x # zs) (stat_list (s\<lparr>current := Cursor_at (first_addr cs2)\<rparr>)) (cursor ?m)
        (current (s\<lparr>current := Cursor_at (first_addr cs2)\<rparr>))"
      using same_cursor_at [of "cs1 @ [c]" cs2 "ys @ [x]" zs] d(1) assms(4,5) \<open>length zs = length cs2\<close> by simp
    show "old_cursor (s\<lparr>current := Cursor_at (first_addr cs2)\<rparr>)"
      using d(2) assms(4) by (auto simp: old_cursor_def first_addr_def split: list.splits)
  qed (use inv assms(2,3) in \<open>simp_all add: stats_invar_def\<close>)
  ultimately show ?thesis by blast
qed

lemma list_first_eq: "list_first s = first_addr (stat_list s)"
  by (simp add: list_first_def first_addr_def)

lemma get_all_stats_in_refines:
  assumes "stats_refine m s"
  shows "agrees {Null_pointer} stats_refine (get_all_stats s) (get_all_stats_in m)"
proof -
  from assms obtain xs where inv: "stats_invar s" and en: "entries m = stat_entries s"
    and xs: "in_memory (table m) xs" "list_all2 (same_elem (table m)) xs (stat_list s)" "same_cursor xs (stat_list s) (cursor m) (current s)"
    by (rule stats_refineE)
  have first: "stat_first m = first_elem xs" using in_memoryD(4) [OF xs(1)] by (rule seg_first)
  have at: "agrees {Null_pointer} stats_refine (take_current (Some (addr c)) s) (take_current_in (Some x) m)"
    if "xs = ys @ x # zs" "stat_list s = cs1 @ c # cs2" "length ys = length cs1" for ys x zs cs1 c cs2
  proof -
    have "elem_at (addr c) (stat_list s) = Inr (c, first_addr cs2)"
      using elem_at_split [of cs1 c cs2] inv that(2) by (simp add: stats_invar_def first_addr_def)
    then show ?thesis
      using take_current_in_refines [OF assms xs(1,2) [unfolded that(1)] that(2,3)]
      by (simp add: agrees_def take_current_def)
  qed
  show ?thesis
  proof (cases "(xs, stat_list s, cursor m, current s)" rule: same_cursor.cases)
    case 1
    show ?thesis
    proof (cases xs)
      case Nil
      then show ?thesis using 1 xs(2) first
        by (simp add: get_all_stats_def get_all_stats_in_def take_current_def take_current_in_def list_first_eq first_elem_def first_addr_def agrees_def)
    next
      case (Cons x zs)
      then obtain c cs2 where cs: "stat_list s = c # cs2" using xs(2) by (cases "stat_list s") auto
      have "cursor m = Cursor_unset" "current s = Cursor_unset" using 1 by simp_all
      then show ?thesis using at [of "[]" x zs "[]" c cs2] Cons cs first
        by (simp add: get_all_stats_def get_all_stats_in_def list_first_eq first_elem_def first_addr_def)
    qed
  next
    case 2
    have "stats_refine (m\<lparr>cursor := Cursor_at (stat_first m)\<rparr>) (s\<lparr>current := Cursor_at (list_first s)\<rparr>)"
    proof (rule stats_refineI [of _ _ xs])
      show "same_cursor xs (stat_list (s\<lparr>current := Cursor_at (list_first s)\<rparr>)) (cursor (m\<lparr>cursor := Cursor_at (stat_first m)\<rparr>))
          (current (s\<lparr>current := Cursor_at (list_first s)\<rparr>))"
        using same_cursor_at [of "[]" "stat_list s" "[]" xs] inv list_all2_lengthD [OF xs(2)] first
        by (simp add: stats_invar_def list_first_eq)
      show "old_cursor (s\<lparr>current := Cursor_at (list_first s)\<rparr>)"
        using inv by (auto simp: old_cursor_def list_first_def stats_invar_def split: list.splits)
    qed (use inv en xs(1,2) in \<open>simp_all add: stats_invar_def\<close>)
    with 2 show ?thesis by (simp add: get_all_stats_def get_all_stats_in_def agrees_def)
  next
    case (3 _ _ e a)
    then have get: "get_all_stats s = take_current (Some a) s" "get_all_stats_in m = take_current_in (Some e) m"
      by (simp_all add: get_all_stats_def get_all_stats_in_def)
    show ?thesis
    proof (cases "elem_at a (stat_list s)")
      case (Inl err)
      then show ?thesis using elem_at_none [OF Inl] by (simp add: get take_current_def agrees_def)
    next
      case (Inr r)
      then obtain c n cs1 cs2 where c: "stat_list s = cs1 @ c # cs2" "addr c = a"
        using elem_at_some [of a "stat_list s"] by (cases r) blast
      from xs(2) obtain ys x zs where ys: "xs = ys @ x # zs" "length ys = length cs1"
        unfolding c(1) by (auto simp: list_all2_append2 list_all2_Cons2)
      have "same_cursor xs (stat_list s) (Cursor_at (Some e)) (Cursor_at (Some a))" using xs(3) 3 by simp
      then have "x = e" using c ys by simp
      with at [OF ys(1) c(1) ys(2)] c(2) show ?thesis by (simp add: get)
    qed
  qed (use xs(3) in auto)
qed

text \<open>\<^verbatim>\<open>free_stats\<close> frees every structure, each once.\<close>

lemma free_loop_ok: "in_memory m xs \<Longrightarrow> length xs < n \<Longrightarrow> \<exists>m'. free_loop n m = Inr m' \<and> in_memory m' []"
proof (induction xs arbitrary: n m)
  case Nil
  then show ?case using in_memoryD(4) [OF Nil(1)] by (cases n) auto
next
  case (Cons x xs)
  obtain n' where n: "n = Suc n'" using Cons.prems(2) by (cases n) auto
  obtain h where h: "remove_in x m = Inr (m\<lparr>links := h\<rparr>)" "is_list h xs"
    using remove_in_ok [of m "[]" x xs] in_memoryD(1,2) [OF Cons.prems(1)] by auto
  let ?m = "m\<lparr>links := h, allocated := allocated m - {x}\<rparr>"
  have "in_memory ?m xs" using h(2) in_memoryD(2,3) [OF Cons.prems(1)] by (auto simp: in_memory_def)
  then have "\<exists>m'. free_loop n' ?m = Inr m' \<and> in_memory m' []" using Cons.prems(2) n by (intro Cons.IH) auto
  moreover have "h_first (links m) = Some x" using in_memoryD(4) [OF Cons.prems(1)] by simp
  ultimately show ?case
    using h(1) n in_memoryD(2) [OF Cons.prems(1)] by (simp add: read_elem_def free_elem_def)
qed

lemma free_elems_Nil: "free_elems cs = []"
  by (induction cs) simp_all

lemma free_stats_in_ok:
  assumes "stats_refine m s"
  shows "\<exists>m'. free_stats_in m = Inr m' \<and> allocated (table m') = {} \<and> stat_list (free_stats s) = []"
proof -
  from assms obtain xs where xs: "in_memory (table m) xs" by (auto elim: stats_refineE)
  show ?thesis using free_loop_ok [OF xs in_memoryD(5) [OF xs]]
    by (auto simp: free_stats_in_def free_stats_def free_elems_Nil in_memory_def)
qed

subsection \<open>Sequences of calls\<close>

datatype stat_call = Register string | Update string u_int32 | Get string | Get_all

datatype stat_answer = Done | Number u_int32 | Entry "(string \<times> u_int32) option"

fun stat_model :: "stat_call \<Rightarrow> stats \<Rightarrow> c_error + (stat_answer \<times> stats)" where
  "stat_model (Register t) s = Inr (Done, register_stat t s)"
| "stat_model (Update t k) s = Inr (Done, update_stat t k s)"
| "stat_model (Get t) s = Inr (Number (get_stat s t), s)"
| "stat_model Get_all s = bindE (get_all_stats s) (\<lambda>(r, s). Inr (Entry r, s))"

fun stat_code :: "allocator \<Rightarrow> stat_call \<Rightarrow> stats_memory \<Rightarrow> c_error + (stat_answer \<times> stats_memory)" where
  "stat_code calloc (Register t) m = bindE (register_stat_in calloc t m) (\<lambda>m. Inr (Done, m))"
| "stat_code calloc (Update t k) m = bindE (update_stat_in t k m) (\<lambda>m. Inr (Done, m))"
| "stat_code calloc (Get t) m = bindE (get_stat_in t m) (\<lambda>v. Inr (Number v, m))"
| "stat_code calloc Get_all m = bindE (get_all_stats_in m) (\<lambda>(r, m). Inr (Entry r, m))"

interpretation stat_memory: memory_refinement stat_model "stat_code calloc"
    "\<lambda>m s. fresh_allocator calloc \<and> stats_refine m s" "{Null_pointer}" for calloc
proof unfold_locales
  fix m s c assume R: "fresh_allocator calloc \<and> stats_refine m s"
  show "agrees {Null_pointer} (\<lambda>m s. fresh_allocator calloc \<and> stats_refine m s) (stat_model c s) (stat_code calloc c m)"
  proof (cases c)
    case (Register t)
    then show ?thesis using R register_stat_in_refines [of calloc m s t] by (auto simp: agrees_def)
  next
    case (Update t k)
    then show ?thesis using R update_stat_in_refines [of m s t k] by (auto simp: agrees_def)
  next
    case (Get t)
    then show ?thesis using R get_stat_in_refines [of m s t] by (auto simp: agrees_def)
  next
    case Get_all
    then show ?thesis using R get_all_stats_in_refines [of m s]
      by (auto simp: agrees_def split: sum.splits)
  qed
qed

definition stats_memory_start :: "heap \<Rightarrow> (elem \<Rightarrow> string \<times> u_int32) \<Rightarrow> stats_memory" where
  "stats_memory_start h c =
     \<lparr>table = \<lparr>links = h\<lparr>h_first := None\<rparr>, content = c, allocated = {}\<rparr>, entries = 0, cursor = Cursor_unset\<rparr>"

lemma stats_refine_start: "stats_refine (stats_memory_start h c) stats_start"
proof (rule stats_refineI)
  show "in_memory (table (stats_memory_start h c)) []"
    by (simp add: stats_memory_start_def in_memory_def shape_defs)
qed (simp_all add: stats_invar_start, simp_all add: stats_memory_start_def stats_start_def old_cursor_def)



end
