(* ===== verification/Stat_Threads.thy ===== *)
theory Stat_Threads
  imports Stat_Memory
begin

text \<open>
  The counters while the program runs: the capture thread counts in \<^verbatim>\<open>update_stat\<close> (\<^verbatim>\<open>src/lmap_stat.c\<close>) and the
  interface reads in \<^verbatim>\<open>get_stat\<close> and \<^verbatim>\<open>get_all_stats\<close>, without a mutex. Every access to a counter is a step, and
  the steps of the two threads interleave.
\<close>

subsection \<open>The two threads\<close>

text \<open>
  The capture thread: outside; in front of a structure of the list; with the number it has read, in front of the
  store of \<^verbatim>\<open>current->num += count\<close>. The interface: outside; in front of a structure in \<^verbatim>\<open>get_stat\<close>.
\<close>

datatype count_pc = Count_idle | Count_at string u_int32 ptr | Count_add string u_int32 elem u_int32

datatype read_pc = Read_idle | Read_at string ptr

text \<open>
  \<open>begun\<close> and \<open>history\<close> are history variables: the calls of \<^verbatim>\<open>update_stat\<close>, and the accesses that have changed or
  read a counter, in their order, as operations of the theory Stat with their answers.
\<close>

record counting =
  now :: stats_memory
  counter_pc :: count_pc
  reader_pc :: read_pc
  begun :: "(string \<times> u_int32) list"
  history :: "(stat_call \<times> stat_answer) list"

definition set_num :: "elem \<Rightarrow> string \<Rightarrow> u_int32 \<Rightarrow> stats_memory \<Rightarrow> stats_memory" where
  "set_num e t v m = m\<lparr>table := (table m)\<lparr>content := (content (table m))(e := (t, v))\<rparr>\<rparr>"

abbreviation elem_after :: "elem \<Rightarrow> stats_memory \<Rightarrow> ptr" where
  "elem_after e m \<equiv> e_next (links (table m)) e"

abbreviation elem_value :: "elem \<Rightarrow> stats_memory \<Rightarrow> string \<times> u_int32" where
  "elem_value e m \<equiv> content (table m) e"

inductive count_step :: "counting \<Rightarrow> counting \<Rightarrow> bool" where
  update_call: "counter_pc s = Count_idle \<Longrightarrow>
    count_step s (s\<lparr>counter_pc := Count_at t k (stat_first (now s)), begun := begun s @ [(t, k)]\<rparr>)"
| update_skip: "counter_pc s = Count_at t k (Some e) \<Longrightarrow> fst (elem_value e (now s)) \<noteq> t \<Longrightarrow>
    count_step s (s\<lparr>counter_pc := Count_at t k (elem_after e (now s))\<rparr>)"
| update_load: "counter_pc s = Count_at t k (Some e) \<Longrightarrow> elem_value e (now s) = (t, v) \<Longrightarrow>
    count_step s (s\<lparr>counter_pc := Count_add t k e v\<rparr>)"
| update_store: "counter_pc s = Count_add t k e v \<Longrightarrow>
    count_step s (s\<lparr>now := set_num e t (v + k) (now s), counter_pc := Count_at t k (elem_after e (now s)),
      history := history s @ [(Update t k, Done)]\<rparr>)"
| update_return: "counter_pc s = Count_at t k None \<Longrightarrow> count_step s (s\<lparr>counter_pc := Count_idle\<rparr>)"
| get_call: "reader_pc s = Read_idle \<Longrightarrow> count_step s (s\<lparr>reader_pc := Read_at t (stat_first (now s))\<rparr>)"
| get_skip: "reader_pc s = Read_at t (Some e) \<Longrightarrow> fst (elem_value e (now s)) \<noteq> t \<Longrightarrow>
    count_step s (s\<lparr>reader_pc := Read_at t (elem_after e (now s))\<rparr>)"
| get_found: "reader_pc s = Read_at t (Some e) \<Longrightarrow> elem_value e (now s) = (t, v) \<Longrightarrow>
    count_step s (s\<lparr>reader_pc := Read_idle, history := history s @ [(Get t, Number v)]\<rparr>)"
| get_none: "reader_pc s = Read_at t None \<Longrightarrow>
    count_step s (s\<lparr>reader_pc := Read_idle, history := history s @ [(Get t, Number 0)]\<rparr>)"
| get_entry: "reader_pc s = Read_idle \<Longrightarrow> get_all_stats_in (now s) = Inr (a, m) \<Longrightarrow>
    count_step s (s\<lparr>now := m, history := history s @ [(Get_all, Entry a)]\<rparr>)"

definition counting_start :: "stats_memory \<Rightarrow> counting" where
  "counting_start m = \<lparr>now = m, counter_pc = Count_idle, reader_pc = Read_idle, begun = [], history = []\<rparr>"

text \<open>The updates of a history.\<close>

fun updates_of :: "(stat_call \<times> stat_answer) list \<Rightarrow> (string \<times> u_int32) list" where
  "updates_of [] = []"
| "updates_of ((Update t k, a) # h) = (t, k) # updates_of h"
| "updates_of (c # h) = updates_of h"

subsection \<open>The invariant\<close>

text \<open>\<open>xs\<close> are the structures, \<open>s'\<close> is the state of the model behind the history.\<close>

definition refines_at :: "elem list \<Rightarrow> stats_memory \<Rightarrow> stats \<Rightarrow> bool" where
  "refines_at xs m s \<longleftrightarrow> stats_refine m s \<and> in_memory (table m) xs \<and> list_all2 (same_elem (table m)) xs (stat_list s)"

definition names_at :: "stats_memory \<Rightarrow> elem list \<Rightarrow> string set" where
  "names_at m xs = (\<lambda>x. fst (elem_value x m)) ` set xs"

text \<open>A thread at the pointer \<open>p\<close> has passed structures with the names \<open>N\<close>.\<close>

definition passed :: "elem list \<Rightarrow> stats_memory \<Rightarrow> ptr \<Rightarrow> string set \<Rightarrow> bool" where
  "passed xs m p N \<longleftrightarrow> (\<exists>ys zs. xs = ys @ zs \<and> p = first_elem zs \<and> N = names_at m ys)"

fun counted :: "elem list \<Rightarrow> counting \<Rightarrow> count_pc \<Rightarrow> (string \<times> u_int32) list \<Rightarrow> bool" where
  "counted xs s Count_idle us \<longleftrightarrow> us = filter (\<lambda>(t, k). t \<in> names_at (now s) xs) (begun s)"
| "counted xs s (Count_at t k p) us \<longleftrightarrow> (\<exists>b N. begun s = b @ [(t, k)] \<and> passed xs (now s) p N \<and>
     us = filter (\<lambda>(t, k). t \<in> names_at (now s) xs) b @ (if t \<in> N then [(t, k)] else []))"
| "counted xs s (Count_add t k e v) us \<longleftrightarrow> (\<exists>b N. begun s = b @ [(t, k)] \<and> passed xs (now s) (Some e) N \<and> t \<notin> N \<and>
     elem_value e (now s) = (t, v) \<and> us = filter (\<lambda>(t, k). t \<in> names_at (now s) xs) b)"

fun reading :: "elem list \<Rightarrow> counting \<Rightarrow> read_pc \<Rightarrow> bool" where
  "reading xs s Read_idle \<longleftrightarrow> True"
| "reading xs s (Read_at t p) \<longleftrightarrow> (\<exists>N. passed xs (now s) p N \<and> t \<notin> N)"

text \<open>The pointer of \<^verbatim>\<open>get_all_stats\<close> is not to a freed structure.\<close>

definition live_cursor :: "stats \<Rightarrow> bool" where
  "live_cursor s \<longleftrightarrow> (\<forall>a. current s = Cursor_at (Some a) \<longrightarrow> a \<in> addr ` set (stat_list s))"

definition counting_inv :: "stats \<Rightarrow> elem list \<Rightarrow> counting \<Rightarrow> bool" where
  "counting_inv s0 xs s \<longleftrightarrow>
     (\<exists>s'. calls stat_model (map fst (history s)) s0 = Inr (map snd (history s), s') \<and>
        refines_at xs (now s) s' \<and> live_cursor s') \<and>
     names_at (now s) xs = dom (counters s0) \<and> counted xs s (counter_pc s) (updates_of (history s)) \<and> reading xs s (reader_pc s)"

lemma calls_snoc:
  "calls f cs s = Inr (rs, s1) \<Longrightarrow> f c s1 = Inr (r, s2) \<Longrightarrow> calls f (cs @ [c]) s = Inr (rs @ [r], s2)"
proof (induction cs arbitrary: s rs)
  case (Cons d cs)
  from Cons.prems(1) obtain q t qs where "f d s = Inr (q, t)" "calls f cs t = Inr (qs, s1)" "rs = q # qs"
    by (auto simp: bindE_eq_Inr)
  with Cons.IH [OF _ Cons.prems(2)] show ?case by simp
qed simp

lemma first_elem_eq: "first_elem xs = None \<longleftrightarrow> xs = []" "first_elem xs = Some e \<longleftrightarrow> (\<exists>zs. xs = e # zs)"
  by (cases xs; simp add: first_elem_def)+

lemma updates_of_append: "updates_of (g @ h) = updates_of g @ updates_of h"
  by (induction g rule: updates_of.induct) simp_all

text \<open>What a step of one thread leaves of the position of the other.\<close>

lemma names_at_cong: "(\<And>x. x \<in> set xs \<Longrightarrow> fst (elem_value x m') = fst (elem_value x m)) \<Longrightarrow> names_at m' xs = names_at m xs"
  by (auto simp: names_at_def intro!: image_cong)

lemma passed_cong:
  "(\<And>x. x \<in> set xs \<Longrightarrow> fst (elem_value x m') = fst (elem_value x m)) \<Longrightarrow> passed xs m' p N = passed xs m p N"
  unfolding passed_def by (metis names_at_cong Un_iff set_append)

lemma passed_first:
  assumes "in_memory (table m) xs"
  shows "passed xs m (stat_first m) {}"
proof -
  have "stat_first m = first_elem xs" using in_memoryD(4) [OF assms] by (rule seg_first)
  then show ?thesis by (auto simp: passed_def names_at_def intro: exI [of _ "[]"])
qed

lemma passed_split:
  assumes "in_memory (table m) xs" and "passed xs m (Some e) N"
  shows "e \<in> set xs" and "passed xs m (elem_after e m) (insert (fst (elem_value e m)) N)"
proof -
  obtain ys zs where s: "xs = ys @ e # zs" "N = names_at m ys"
    using assms(2) by (auto simp: passed_def first_elem_eq eq_commute [of "Some e"])
  then have n: "elem_after e m = first_elem zs"
    using in_memoryD(4) [OF assms(1)] by (auto dest: seg_first)
  show "e \<in> set xs" using s(1) by simp
  show "passed xs m (elem_after e m) (insert (fst (elem_value e m)) N)"
    unfolding passed_def n using s by (intro exI [of _ "ys @ [e]"] exI [of _ zs]) (simp add: names_at_def)
qed

lemma passed_end: "passed xs m None N \<Longrightarrow> N = names_at m xs"
  by (auto simp: passed_def first_elem_eq eq_commute [of None])

subsection \<open>The steps\<close>

text \<open>A store of the capture thread is an update of the model.\<close>

lemma refines_distinct:
  assumes "refines_at xs m s"
  shows "distinct (map (\<lambda>x. fst (elem_value x m)) xs)"
proof -
  have "list_all2 (same_elem (table m)) xs (stat_list s)" "stats_invar s"
    using assms by (auto simp: refines_at_def elim: stats_refineE)
  then have "map (\<lambda>x. fst (elem_value x m)) xs = map stat_type (stat_list s)"
    by (intro nth_equalityI) (auto simp: list_all2_conv_all_nth same_elem_def)
  with \<open>stats_invar s\<close> show ?thesis by (simp add: stats_invar_def)
qed

lemma set_num_simps [simp]:
  "links (table (set_num e t v m)) = links (table m)" "allocated (table (set_num e t v m)) = allocated (table m)"
  "content (table (set_num e t v m)) = (content (table m))(e := (t, v))" "entries (set_num e t v m) = entries m"
  "cursor (set_num e t v m) = cursor m"
  by (simp_all add: set_num_def)

lemma is_list_unique: "is_list h xs \<Longrightarrow> is_list h ys \<Longrightarrow> xs = ys"
proof -
  have "seg Some nx p xs None \<Longrightarrow> seg Some nx p ys None \<Longrightarrow> xs = ys" for nx p
  proof (induction xs arbitrary: p ys)
    case Nil
    then show ?case by (cases ys) auto
  next
    case (Cons x xs)
    then show ?case by (cases ys) auto
  qed
  then show "is_list h xs \<Longrightarrow> is_list h ys \<Longrightarrow> xs = ys" by (auto simp: is_list_def is_slist_def)
qed

lemma refines_atE:
  assumes "refines_at xs m s"
  shows "stats_invar s" "old_cursor s" "entries m = stat_entries s" "in_memory (table m) xs"
    "list_all2 (same_elem (table m)) xs (stat_list s)" "same_cursor xs (stat_list s) (cursor m) (current s)"
proof -
  have "stats_refine m s" and x: "in_memory (table m) xs" "list_all2 (same_elem (table m)) xs (stat_list s)"
    using assms by (simp_all add: refines_at_def)
  from this(1) obtain ys where "stats_invar s" "old_cursor s" "entries m = stat_entries s" "in_memory (table m) ys"
    "same_cursor ys (stat_list s) (cursor m) (current s)" by (rule stats_refineE)
  moreover have "ys = xs" using x(1) calculation(4) by (auto simp: in_memory_def intro: is_list_unique)
  ultimately show "stats_invar s" "old_cursor s" "entries m = stat_entries s" "in_memory (table m) xs"
    "list_all2 (same_elem (table m)) xs (stat_list s)" "same_cursor xs (stat_list s) (cursor m) (current s)"
    using x by simp_all
qed

lemma store_refines:
  assumes r: "refines_at xs m s" and e: "e \<in> set xs" "elem_value e m = (t, v)"
  shows "refines_at xs (set_num e t (v + k) m) (update_stat t k s)"
proof -
  note f = refines_atE [OF r]
  have "fst (elem_value x m) \<noteq> t" if "x \<in> set xs" "x \<noteq> e" for x
    using refines_distinct [OF r] e that by (auto simp: distinct_map inj_on_def)
  then have "\<forall>x \<in> set xs. content (table (set_num e t (v + k) m)) x =
      (if fst (content (table m) x) = t then (t, snd (content (table m) x) + k) else content (table m) x)"
    using e by auto
  from all_same_update [OF f(5) this]
  have same: "list_all2 (same_elem (table (set_num e t (v + k) m))) xs (stat_list (update_stat t k s))"
    by (simp add: update_stat_def)
  have mem: "in_memory (table (set_num e t (v + k) m)) xs" using f(4) by (simp add: in_memory_def)
  have "stats_refine (set_num e t (v + k) m) (update_stat t k s)"
    by (rule stats_refineI [OF stats_invar_update [OF f(1)] _ _ mem same])
      (use f in \<open>auto simp: update_stat_def same_cursor_update old_cursor_def\<close>)
  with mem same show ?thesis by (simp add: refines_at_def)
qed

lemma elem_at_live: "a \<in> addr ` set cs \<Longrightarrow> \<exists>r. elem_at a cs = Inr r"
  by (induction cs) auto

lemma first_addr_live: "first_addr cs = Some a \<Longrightarrow> a \<in> addr ` set cs"
  by (cases cs) (auto simp: first_addr_def)

lemma get_all_stats_live:
  assumes "live_cursor s"
  shows "get_all_stats s = Inl e \<Longrightarrow> e = Null_pointer" and "get_all_stats s = Inr (a, s') \<Longrightarrow> live_cursor s'"
proof -
  have list: "get_all_stats s = Inr (a, s') \<Longrightarrow> stat_list s' = stat_list s"
    by (auto simp: get_all_stats_def take_current_def bindE_eq_Inr split: stat_cursor.splits option.splits)
  have at: "p = Some b \<Longrightarrow> b \<in> addr ` set (stat_list s)" if "p = list_first s \<or> current s = Cursor_at p" for p b
    using that assms first_addr_live by (auto simp: live_cursor_def list_first_eq)
  show "get_all_stats s = Inl e \<Longrightarrow> e = Null_pointer"
    using at elem_at_live [of _ "stat_list s"]
    by (force simp: get_all_stats_def take_current_def bindE_eq_Inl split: stat_cursor.splits option.splits)
  show "live_cursor s'" if "get_all_stats s = Inr (a, s')"
  proof -
    have "c = Some b \<Longrightarrow> b \<in> addr ` set (stat_list s)" if "elem_at d (stat_list s) = Inr (x, c)" for b c d x
    proof -
      from elem_at_some [OF that] obtain cs1 cs2 where "stat_list s = cs1 @ x # cs2" "c = first_addr cs2" by blast
      then show "c = Some b \<Longrightarrow> b \<in> addr ` set (stat_list s)" using first_addr_live [of cs2 b] by auto
    qed
    then show ?thesis
      using that list [OF that] at
      by (auto simp: live_cursor_def get_all_stats_def take_current_def bindE_eq_Inr split: stat_cursor.splits option.splits)
  qed
qed

lemma entry_table: "get_all_stats_in m = Inr (a, m') \<Longrightarrow> table m' = table m"
  by (auto simp: get_all_stats_in_def take_current_in_def bindE_eq_Inr split: stat_cursor.splits option.splits)

lemma entry_refines:
  assumes r: "refines_at xs m s" and "get_all_stats_in m = Inr (a, m')" and "live_cursor s"
  shows "\<exists>s'. get_all_stats s = Inr (a, s') \<and> refines_at xs m' s' \<and> live_cursor s'"
proof (cases "get_all_stats s")
  case (Inl e)
  then have "get_all_stats s = Inl Null_pointer" using get_all_stats_live(1) [OF assms(3)] by simp
  then show ?thesis
    using get_all_stats_in_refines [of m s] r assms(2) by (simp add: agrees_def refines_at_def)
next
  case (Inr b)
  obtain a' s' where b: "b = (a', s')" by (cases b)
  with Inr get_all_stats_in_refines [of m s] r assms(2) have "a' = a" "stats_refine m' s'"
    by (auto simp: agrees_def refines_at_def)
  moreover have "stat_list s' = stat_list s"
    using Inr b by (auto simp: get_all_stats_def take_current_def bindE_eq_Inr split: stat_cursor.splits option.splits)
  ultimately show ?thesis
    using Inr b r get_all_stats_live(2) [OF assms(3), of a s'] entry_table [OF assms(2)] by (auto simp: refines_at_def)
qed

lemma get_refines:
  assumes "refines_at xs m s" and "e \<in> set xs" and "elem_value e m = (t, v)"
  shows "get_stat s t = v"
proof -
  have "\<exists>c \<in> set (stat_list s). stat_type c = t \<and> num c = v"
    using refines_atE(5) [OF assms(1)] assms(2,3) by (fastforce simp: list_all2_conv_all_nth same_elem_def in_set_conv_nth)
  moreover have "distinct (map stat_type (stat_list s))" using refines_atE(1) [OF assms(1)] by (simp add: stats_invar_def)
  moreover have "c \<in> set l \<Longrightarrow> distinct (map stat_type l) \<Longrightarrow> get_num (stat_type c) l = num c" for c l
    by (induction l) auto
  ultimately show ?thesis by (auto simp: get_stat_def)
qed

lemma get_refines_none:
  assumes "refines_at xs m s" and "t \<notin> names_at m xs"
  shows "get_stat s t = 0"
proof -
  have "t \<notin> stat_type ` set (stat_list s)"
    using all_same_ids [OF refines_atE(5) [OF assms(1)]] assms(2) by (auto simp: names_at_def comp_def)
  moreover have "t \<notin> stat_type ` set l \<Longrightarrow> get_num t l = 0" for l by (induction l) auto
  ultimately show ?thesis by (simp add: get_stat_def)
qed

text \<open>Steps that change neither the counters nor the history.\<close>

lemma counting_inv_quiet:
  assumes "counting_inv s0 xs s" and "now s' = now s" and "history s' = history s"
    and "counted xs s' (counter_pc s') (updates_of (history s))" and "reading xs s' (reader_pc s')"
  shows "counting_inv s0 xs s'"
  using assms by (auto simp: counting_inv_def)

lemma counted_cong:
  "now s' = now s \<Longrightarrow> begun s' = begun s \<Longrightarrow> counted xs s' p us = counted xs s p us"
  by (cases p) simp_all

lemma reading_cong: "now s' = now s \<Longrightarrow> reading xs s' p = reading xs s p"
  by (cases p) simp_all

lemma reading_names:
  "(\<And>x. x \<in> set xs \<Longrightarrow> fst (elem_value x (now s')) = fst (elem_value x (now s))) \<Longrightarrow> reading xs s' p = reading xs s p"
  using passed_cong [of xs "now s'" "now s"] by (cases p) simp_all

lemma counting_invE:
  assumes "counting_inv s0 xs s"
  obtains s' where "calls stat_model (map fst (history s)) s0 = Inr (map snd (history s), s')" "refines_at xs (now s) s'" "live_cursor s'"
    "in_memory (table (now s)) xs" "counted xs s (counter_pc s) (updates_of (history s))" "reading xs s (reader_pc s)"
    "names_at (now s) xs = dom (counters s0)"
  using assms by (auto simp: counting_inv_def refines_at_def)

text \<open>Steps that an operation of the model answers for.\<close>

lemma counting_inv_event:
  assumes "calls stat_model (map fst (history s)) s0 = Inr (map snd (history s), s1)"
    and "stat_model c s1 = Inr (a, s2)" and "history s' = history s @ [(c, a)]"
    and "refines_at xs (now s') s2" and "live_cursor s2" and "names_at (now s') xs = dom (counters s0)"
    and "counted xs s' (counter_pc s') (updates_of (history s'))" and "reading xs s' (reader_pc s')"
  shows "counting_inv s0 xs s'"
  using calls_snoc [OF assms(1,2)] assms(3-8) by (auto simp: counting_inv_def)

lemma live_update: "live_cursor s \<Longrightarrow> live_cursor (update_stat t k s)"
proof -
  have "addr ` set (update_elems t k l) = addr ` set l" for l by (induction l) auto
  then show "live_cursor s \<Longrightarrow> live_cursor (update_stat t k s)" by (simp add: live_cursor_def update_stat_def)
qed

text \<open>A thread that moves, and the other one stays where it is.\<close>

lemma counter_moves:
  assumes "counting_inv s0 xs s" and "now s' = now s" and "history s' = history s" and "reader_pc s' = reader_pc s"
    and "counted xs s' (counter_pc s') (updates_of (history s))"
  shows "counting_inv s0 xs s'"
proof (rule counting_inv_quiet [OF assms(1-3,5)])
  from assms(1) have "reading xs s (reader_pc s)" by (rule counting_invE)
  then show "reading xs s' (reader_pc s')"
    using assms(2,4) reading_cong [of s' s xs "reader_pc s"] by simp
qed

lemma reader_moves:
  assumes "counting_inv s0 xs s" and "reading xs s p"
  shows "counting_inv s0 xs (s\<lparr>reader_pc := p\<rparr>)"
  using assms counted_cong [of "s\<lparr>reader_pc := p\<rparr>" s xs "counter_pc s"] reading_cong [of "s\<lparr>reader_pc := p\<rparr>" s xs p]
  by (auto simp: counting_inv_def)

lemma counted_at:
  assumes "counting_inv s0 xs s" and "counter_pc s = Count_at t k p"
  obtains b N where "begun s = b @ [(t, k)]" "passed xs (now s) p N"
    "updates_of (history s) = filter (\<lambda>(t, k). t \<in> names_at (now s) xs) b @ (if t \<in> N then [(t, k)] else [])"
proof -
  from assms(1) have "counted xs s (counter_pc s) (updates_of (history s))" by (rule counting_invE)
  then show thesis using assms(2) that by auto
qed

lemma update_call_inv:
  assumes inv: "counting_inv s0 xs s" and "counter_pc s = Count_idle"
  shows "counting_inv s0 xs (s\<lparr>counter_pc := Count_at t k (stat_first (now s)), begun := begun s @ [(t, k)]\<rparr>)"
proof (rule counter_moves [OF inv])
  from inv have "in_memory (table (now s)) xs" "updates_of (history s) = filter (\<lambda>(t, k). t \<in> names_at (now s) xs) (begun s)"
    using assms(2) by (auto elim: counting_invE)
  then show "counted xs (s\<lparr>counter_pc := Count_at t k (stat_first (now s)), begun := begun s @ [(t, k)]\<rparr>)
      (counter_pc (s\<lparr>counter_pc := Count_at t k (stat_first (now s)), begun := begun s @ [(t, k)]\<rparr>)) (updates_of (history s))"
    using passed_first by (auto intro!: exI [of _ "{}"])
qed simp_all

lemma update_walk_inv:
  assumes inv: "counting_inv s0 xs s" and pc: "counter_pc s = Count_at t k (Some e)"
  shows "fst (elem_value e (now s)) \<noteq> t \<Longrightarrow> counting_inv s0 xs (s\<lparr>counter_pc := Count_at t k (elem_after e (now s))\<rparr>)"
    and "elem_value e (now s) = (t, v) \<Longrightarrow> counting_inv s0 xs (s\<lparr>counter_pc := Count_add t k e v\<rparr>)"
proof -
  from inv obtain m where r: "refines_at xs (now s) m" and mem: "in_memory (table (now s)) xs" by (rule counting_invE)
  from inv pc obtain b N where b: "begun s = b @ [(t, k)]" "passed xs (now s) (Some e) N"
    "updates_of (history s) = filter (\<lambda>(t, k). t \<in> names_at (now s) xs) b @ (if t \<in> N then [(t, k)] else [])"
    by (rule counted_at)
  show "counting_inv s0 xs (s\<lparr>counter_pc := Count_at t k (elem_after e (now s))\<rparr>)" if "fst (elem_value e (now s)) \<noteq> t"
    using that b passed_split(2) [OF mem b(2)]
    by (intro counter_moves [OF inv]) (auto intro!: exI [of _ "insert (fst (elem_value e (now s))) N"])
  show "counting_inv s0 xs (s\<lparr>counter_pc := Count_add t k e v\<rparr>)" if v: "elem_value e (now s) = (t, v)"
  proof -
    have "t \<notin> N"
      using v refines_distinct [OF r] b(2)
      by (auto simp: passed_def first_elem_eq eq_commute [of "Some e"] names_at_def image_iff)
    then show ?thesis using v b by (intro counter_moves [OF inv]) (auto intro!: exI [of _ N])
  qed
qed

lemma update_return_inv:
  assumes inv: "counting_inv s0 xs s" and pc: "counter_pc s = Count_at t k None"
  shows "counting_inv s0 xs (s\<lparr>counter_pc := Count_idle\<rparr>)"
proof (rule counter_moves [OF inv])
  from inv pc obtain b N where b: "begun s = b @ [(t, k)]" "passed xs (now s) None N"
    "updates_of (history s) = filter (\<lambda>(t, k). t \<in> names_at (now s) xs) b @ (if t \<in> N then [(t, k)] else [])"
    by (rule counted_at)
  then show "counted xs (s\<lparr>counter_pc := Count_idle\<rparr>) (counter_pc (s\<lparr>counter_pc := Count_idle\<rparr>)) (updates_of (history s))"
    using passed_end [OF b(2)] by auto
qed simp_all

lemma update_store_inv:
  assumes inv: "counting_inv s0 xs s" and pc: "counter_pc s = Count_add t k e v"
    and s': "s' = s\<lparr>now := set_num e t (v + k) (now s), counter_pc := Count_at t k (elem_after e (now s)),
      history := history s @ [(Update t k, Done)]\<rparr>"
  shows "counting_inv s0 xs s'"
proof -
  from inv obtain m where h: "calls stat_model (map fst (history s)) s0 = Inr (map snd (history s), m)"
    and r: "refines_at xs (now s) m" and live: "live_cursor m" and mem: "in_memory (table (now s)) xs"
    and c: "counted xs s (counter_pc s) (updates_of (history s))" and rd: "reading xs s (reader_pc s)"
    and dom: "names_at (now s) xs = dom (counters s0)"
    by (rule counting_invE)
  from c pc obtain b N where e: "begun s = b @ [(t, k)]" "passed xs (now s) (Some e) N" "t \<notin> N" "elem_value e (now s) = (t, v)"
    "updates_of (history s) = filter (\<lambda>(t, k). t \<in> names_at (now s) xs) b" by auto
  let ?m = "set_num e t (v + k) (now s)"
  note here = passed_split [OF mem e(2)]
  have same: "fst (elem_value x ?m) = fst (elem_value x (now s))" for x using e(4) by simp
  have names: "names_at ?m ys = names_at (now s) ys" for ys by (rule names_at_cong) (rule same)
  have p: "passed xs ?m (elem_after e ?m) (insert t N)"
    using here(2) e(4) passed_cong [of xs ?m "now s"] same by simp
  have "t \<in> names_at ?m xs"
    using names here(1) e(4) by (auto simp: names_at_def image_iff intro!: bexI [of _ e])
  then have "counted xs s' (counter_pc s') (updates_of (history s'))"
    using s' e(1,3,5) p names [of xs] by (auto simp: updates_of_append intro!: exI [of _ "insert t N"])
  moreover have "reading xs s' (reader_pc s')"
    using s' rd reading_names [of xs s' s "reader_pc s"] same by simp
  moreover have "refines_at xs (now s') (update_stat t k m)" using s' store_refines [OF r here(1) e(4)] by simp
  ultimately show ?thesis
    using s' live_update [OF live] names dom by (intro counting_inv_event [OF h, of "Update t k" Done "update_stat t k m"]) simp_all
qed

lemma get_answer_inv:
  assumes inv: "counting_inv s0 xs s" and "\<And>m. refines_at xs (now s) m \<Longrightarrow> get_stat m t = v"
  shows "counting_inv s0 xs (s\<lparr>reader_pc := Read_idle, history := history s @ [(Get t, Number v)]\<rparr>)"
proof -
  from inv obtain m where h: "calls stat_model (map fst (history s)) s0 = Inr (map snd (history s), m)"
    and r: "refines_at xs (now s) m" and "live_cursor m" and "counted xs s (counter_pc s) (updates_of (history s))"
    and "names_at (now s) xs = dom (counters s0)"
    by (rule counting_invE)
  then show ?thesis
    using assms(2) [OF r] counted_cong [of "s\<lparr>reader_pc := Read_idle, history := history s @ [(Get t, Number v)]\<rparr>" s]
    by (intro counting_inv_event [OF h, of "Get t" "Number v" m]) (simp_all add: updates_of_append)
qed

lemma get_walk_inv:
  assumes inv: "counting_inv s0 xs s"
  shows "counting_inv s0 xs (s\<lparr>reader_pc := Read_at t (stat_first (now s))\<rparr>)"
    and "reader_pc s = Read_at t (Some e) \<Longrightarrow> fst (elem_value e (now s)) \<noteq> t \<Longrightarrow>
      counting_inv s0 xs (s\<lparr>reader_pc := Read_at t (elem_after e (now s))\<rparr>)"
    and "reader_pc s = Read_at t (Some e) \<Longrightarrow> elem_value e (now s) = (t, v) \<Longrightarrow>
      counting_inv s0 xs (s\<lparr>reader_pc := Read_idle, history := history s @ [(Get t, Number v)]\<rparr>)"
    and "reader_pc s = Read_at t None \<Longrightarrow>
      counting_inv s0 xs (s\<lparr>reader_pc := Read_idle, history := history s @ [(Get t, Number 0)]\<rparr>)"
proof -
  from inv have mem: "in_memory (table (now s)) xs" and rd: "reading xs s (reader_pc s)" by (auto elim: counting_invE)
  show "counting_inv s0 xs (s\<lparr>reader_pc := Read_at t (stat_first (now s))\<rparr>)"
    using passed_first [OF mem] by (intro reader_moves [OF inv]) (auto intro!: exI [of _ "{}"])
  show "counting_inv s0 xs (s\<lparr>reader_pc := Read_at t (elem_after e (now s))\<rparr>)"
    if "reader_pc s = Read_at t (Some e)" "fst (elem_value e (now s)) \<noteq> t"
    using that rd passed_split(2) [OF mem] by (intro reader_moves [OF inv]) fastforce
  show "counting_inv s0 xs (s\<lparr>reader_pc := Read_idle, history := history s @ [(Get t, Number v)]\<rparr>)"
    if "reader_pc s = Read_at t (Some e)" "elem_value e (now s) = (t, v)"
    using that rd passed_split(1) [OF mem] by (intro get_answer_inv [OF inv]) (auto intro: get_refines)
  show "counting_inv s0 xs (s\<lparr>reader_pc := Read_idle, history := history s @ [(Get t, Number 0)]\<rparr>)"
    if "reader_pc s = Read_at t None"
    using that rd passed_end by (intro get_answer_inv [OF inv]) (auto intro!: get_refines_none)
qed

lemma get_entry_inv:
  assumes inv: "counting_inv s0 xs s" and g: "get_all_stats_in (now s) = Inr (a, m')"
    and s': "s' = s\<lparr>now := m', history := history s @ [(Get_all, Entry a)]\<rparr>"
  shows "counting_inv s0 xs s'"
proof -
  from inv obtain m where h: "calls stat_model (map fst (history s)) s0 = Inr (map snd (history s), m)"
    and r: "refines_at xs (now s) m" and live: "live_cursor m"
    and c: "counted xs s (counter_pc s) (updates_of (history s))" and rd: "reading xs s (reader_pc s)"
    and dom: "names_at (now s) xs = dom (counters s0)"
    by (rule counting_invE)
  obtain m2 where m2: "get_all_stats m = Inr (a, m2)" "refines_at xs m' m2" "live_cursor m2"
    using entry_refines [OF r g live] by blast
  have same: "elem_value x m' = elem_value x (now s)" for x using entry_table [OF g] by simp
  then have names: "names_at m' ys = names_at (now s) ys" for ys by (simp add: names_at_def)
  then have "passed xs m' p N = passed xs (now s) p N" for p N by (simp add: passed_def)
  with names same have "counted xs s' p us = counted xs s p us" for p us
    using s' by (cases p) simp_all
  then show ?thesis
    using s' m2 c reading_names [of xs s' s "reader_pc s"] same rd names dom
    by (intro counting_inv_event [OF h, of Get_all "Entry a" m2]) (simp_all add: updates_of_append)
qed

lemma counting_inv_step: "counting_inv s0 xs s \<Longrightarrow> count_step s s' \<Longrightarrow> counting_inv s0 xs s'"
  by (erule count_step.cases)
    (simp_all add: update_call_inv update_walk_inv update_store_inv [OF _ _ refl] update_return_inv
      get_walk_inv get_entry_inv [OF _ _ refl])

subsection \<open>The program's counters\<close>

lemma counting_inv_reachable:
  "count_step\<^sup>*\<^sup>* s s' \<Longrightarrow> counting_inv s0 xs s \<Longrightarrow> counting_inv s0 xs s'"
  by (induction rule: rtranclp_induct) (auto intro: counting_inv_step)

lemma names_at_dom:
  "list_all2 (same_elem (table m)) xs (stat_list s) \<Longrightarrow> names_at m xs = dom (counters s)"
  using all_same_ids [of "table m" xs "stat_list s"] by (auto simp: names_at_def comp_def counters_def dom_map_of_conv_image_fst image_image)

lemma counting_inv_start:
  assumes "stats_refine m s0" and "current s0 = Cursor_unset"
  shows "\<exists>xs. counting_inv s0 xs (counting_start m)"
proof -
  from assms(1) obtain xs where "in_memory (table m) xs" "list_all2 (same_elem (table m)) xs (stat_list s0)"
    by (rule stats_refineE)
  with assms have "counting_inv s0 xs (counting_start m)"
    by (auto simp: counting_inv_def counting_start_def refines_at_def live_cursor_def names_at_dom)
  then show ?thesis ..
qed

text \<open>
  C21: Without a mutex, the counters that the interface reads while the capture thread counts are those of a
  sequence of operations, one after the other: what it reads is what the model answers at this place of the
  sequence. No update is lost: whenever the capture thread is between two calls, the updates in the sequence are
  its calls of \<^verbatim>\<open>update_stat\<close> for registered names, in their order. (There is only one thread that counts.)
\<close>

theorem counters_without_mutex:
  assumes "stats_refine m s0" and "current s0 = Cursor_unset" and "count_step\<^sup>*\<^sup>* (counting_start m) s"
  shows "(\<exists>s'. calls stat_model (map fst (history s)) s0 = Inr (map snd (history s), s') \<and> stats_refine (now s) s') \<and>
    (counter_pc s = Count_idle \<longrightarrow> updates_of (history s) = filter (\<lambda>(t, k). t \<in> dom (counters s0)) (begun s))"
proof -
  obtain xs where "counting_inv s0 xs (counting_start m)" using counting_inv_start [OF assms(1,2)] ..
  with assms(3) have inv: "counting_inv s0 xs s" by (rule counting_inv_reachable)
  then obtain s' where "calls stat_model (map fst (history s)) s0 = Inr (map snd (history s), s')" "refines_at xs (now s) s'"
    and c: "counted xs s (counter_pc s) (updates_of (history s))" "names_at (now s) xs = dom (counters s0)"
    by (rule counting_invE)
  moreover have "updates_of (history s) = filter (\<lambda>(t, k). t \<in> dom (counters s0)) (begun s)" if "counter_pc s = Count_idle"
    using c that by simp
  ultimately show ?thesis by (auto simp: refines_at_def)
qed

text \<open>One counter. The interface reads it after the capture thread has loaded it, and again behind the store.\<close>

definition one_counter :: stats_memory where
  "one_counter = \<lparr>table = \<lparr>links = \<lparr>h_first = Some 0, h_last = First, e_next = (\<lambda>_. None), e_prev = (\<lambda>_. First)\<rparr>,
       content = (\<lambda>_. (''IP'', 0)), allocated = {0}\<rparr>, entries = 1, cursor = Cursor_unset\<rparr>"

lemma one_counter_refines: "stats_refine one_counter (register_stat ''IP'' stats_start)"
  by (rule stats_refineI [OF stats_invar_register [OF stats_invar_start], of _ _ "[0]"])
    (simp_all add: one_counter_def register_stat_def stats_start_def old_cursor_def in_memory_def shape_defs same_elem_def)

lemma counters_without_mutex_witness:
  "\<exists>s. count_step\<^sup>*\<^sup>* (counting_start one_counter) s \<and>
    history s = [(Get ''IP'', Number 0), (Update ''IP'' 2, Done), (Get ''IP'', Number 2)] \<and>
    updates_of (history s) = filter (\<lambda>(t, k). t \<in> dom (counters (register_stat ''IP'' stats_start))) (begun s)"
proof -
  define s0 where "s0 = counting_start one_counter"
  define s1 where "s1 = s0\<lparr>counter_pc := Count_at ''IP'' 2 (stat_first (now s0)), begun := begun s0 @ [(''IP'', 2)]\<rparr>"
  define s2 where "s2 = s1\<lparr>counter_pc := Count_add ''IP'' 2 0 0\<rparr>"
  define s3 where "s3 = s2\<lparr>reader_pc := Read_at ''IP'' (stat_first (now s2))\<rparr>"
  define s4 where "s4 = s3\<lparr>reader_pc := Read_idle, history := history s3 @ [(Get ''IP'', Number 0)]\<rparr>"
  define s5 where "s5 = s4\<lparr>now := set_num 0 ''IP'' (0 + 2) (now s4), counter_pc := Count_at ''IP'' 2 (elem_after 0 (now s4)),
    history := history s4 @ [(Update ''IP'' 2, Done)]\<rparr>"
  define s6 where "s6 = s5\<lparr>counter_pc := Count_idle\<rparr>"
  define s7 where "s7 = s6\<lparr>reader_pc := Read_at ''IP'' (stat_first (now s6))\<rparr>"
  define s8 where "s8 = s7\<lparr>reader_pc := Read_idle, history := history s7 @ [(Get ''IP'', Number 2)]\<rparr>"
  note d = s0_def s1_def s2_def s3_def s4_def s5_def s6_def s7_def counting_start_def one_counter_def
  have "count_step\<^sup>*\<^sup>* s0 s1" unfolding s1_def by (rule r_into_rtranclp, rule update_call) (simp add: d)
  also have "count_step\<^sup>*\<^sup>* s1 s2" unfolding s2_def by (rule r_into_rtranclp, rule update_load) (simp_all add: d)
  also have "count_step\<^sup>*\<^sup>* s2 s3" unfolding s3_def by (rule r_into_rtranclp, rule get_call) (simp add: d)
  also have "count_step\<^sup>*\<^sup>* s3 s4" unfolding s4_def by (rule r_into_rtranclp, rule get_found [of _ _ 0]) (simp_all add: d)
  also have "count_step\<^sup>*\<^sup>* s4 s5" unfolding s5_def by (rule r_into_rtranclp, rule update_store) (simp add: d)
  also have "count_step\<^sup>*\<^sup>* s5 s6" unfolding s6_def by (rule r_into_rtranclp, rule update_return) (simp add: d)
  also have "count_step\<^sup>*\<^sup>* s6 s7" unfolding s7_def by (rule r_into_rtranclp, rule get_call) (simp add: d)
  also have "count_step\<^sup>*\<^sup>* s7 s8" unfolding s8_def by (rule r_into_rtranclp, rule get_found [of _ _ 0]) (simp_all add: d)
  finally have run: "count_step\<^sup>*\<^sup>* (counting_start one_counter) s8" unfolding s0_def .
  have "current (register_stat ''IP'' stats_start) = Cursor_unset" by (simp add: register_stat_def stats_start_def)
  note fact = counters_without_mutex [OF one_counter_refines this run]
  have h: "history s8 = [(Get ''IP'', Number 0), (Update ''IP'' 2, Done), (Get ''IP'', Number 2)]" by (simp add: s8_def d)
  have "counter_pc s8 = Count_idle" by (simp add: s8_def d)
  with fact have "updates_of (history s8) = filter (\<lambda>(t, k). t \<in> dom (counters (register_stat ''IP'' stats_start))) (begun s8)"
    by blast
  with run h show ?thesis by blast
qed

end
