(* ===== verification/Getopt_Scan.thy ===== *)
theory Getopt_Scan
  imports Getopt "HOL-Library.Multiset"
begin

text \<open>
  The scanner of \<^verbatim>\<open>src/missing/getopt.c\<close> for any option string and any table of long options: a call never
  reads outside the arguments, only permutes them, and comes closer to their end.
\<close>

subsection \<open>States between two calls\<close>

definition pending :: "getopt_state \<Rightarrow> bool" where
  "pending s \<longleftrightarrow> nextchar s \<noteq> None \<and> nextchar s \<noteq> Some []"

definition scan_ok :: "getopt_state \<Rightarrow> bool" where
  "scan_ok s \<longleftrightarrow> getopt_initialized s \<and> 0 < optind s \<and> first_nonopt s \<le> last_nonopt s \<and> last_nonopt s \<le> optind s \<and> optind s \<le> argc s \<and>
     (pending s \<longrightarrow> optind s < argc s)"

text \<open>What is left to scan: the rest of the current element and the elements behind it, each with its end.\<close>

definition text_size :: "string list \<Rightarrow> nat" where
  "text_size xs = sum_list (map (\<lambda>a. length a + 1) xs)"

definition todo :: "getopt_state \<Rightarrow> nat" where
  "todo s =
     (if pending s then length (the (nextchar s)) + text_size (drop (optind s + 1) (argv s))
      else text_size (drop (optind s) (argv s)))"

text \<open>The effect of a call with the result \<open>c\<close>.\<close>

definition moved :: "getopt_state \<Rightarrow> int \<Rightarrow> getopt_state \<Rightarrow> bool" where
  "moved s c s' \<longleftrightarrow> mset (argv s') = mset (argv s) \<and> optind s' \<le> argc s' \<and>
     (c \<noteq> - 1 \<longrightarrow> scan_ok s' \<and> todo s' < todo s)"

text \<open>Without the option \<^verbatim>\<open>W;\<close>.\<close>

definition no_w :: "string \<Rightarrow> bool" where
  "no_w optstring \<longleftrightarrow> (\<forall>spec. my_index optstring (CHR ''W'') = Some spec \<longrightarrow> char_at spec 1 \<noteq> CHR '';'')"

lemma text_size_simps [simp]: "text_size [] = 0" "text_size (a # xs) = length a + 1 + text_size xs"
  by (simp_all add: text_size_def)

lemma text_size_drop_le: "text_size (drop n xs) \<le> text_size xs"
proof (induction xs arbitrary: n)
  case (Cons a xs)
  then show ?case by (cases n) (auto intro: le_trans [OF Cons])
qed simp

lemma text_size_drop: "i \<le> j \<Longrightarrow> text_size (drop j xs) \<le> text_size (drop i xs)"
  using text_size_drop_le [of "j - i" "drop i xs"] by simp

lemma text_size_nth: "i < length xs \<Longrightarrow> text_size (drop i xs) = length (xs ! i) + 1 + text_size (drop (Suc i) xs)"
  by (subst Cons_nth_drop_Suc [symmetric]) simp_all

lemma text_size_less: "i < j \<Longrightarrow> i < length xs \<Longrightarrow> text_size (drop j xs) < text_size (drop i xs)"
  using text_size_drop [of "Suc i" j xs] by (simp add: text_size_nth)

subsection \<open>The parts of a call\<close>

lemma three_blocks:
  assumes "f \<le> l" and "l \<le> e" and "e \<le> length xs"
  shows "\<exists>P X Y S. xs = P @ X @ Y @ S \<and> length P = f \<and> f + length X = l \<and> l + length Y = e"
proof -
  have split: "drop i xs = take (j - i) (drop i xs) @ drop j xs" if "i \<le> j" for i j
  proof -
    have "drop (j - i) (drop i xs) = drop j xs" using that by simp
    then show ?thesis by (metis append_take_drop_id)
  qed
  have "xs = take f xs @ drop f xs" by simp
  also have "drop f xs = take (l - f) (drop f xs) @ drop l xs" using assms(1) by (rule split)
  also have "drop l xs = take (e - l) (drop l xs) @ drop e xs" using assms(2) by (rule split)
  finally have "xs = take f xs @ take (l - f) (drop f xs) @ take (e - l) (drop l xs) @ drop e xs" .
  moreover have "length (take f xs) = f" "f + length (take (l - f) (drop f xs)) = l" "l + length (take (e - l) (drop l xs)) = e"
    using assms by auto
  ultimately show ?thesis by blast
qed

lemma exchange_ok:
  assumes "scan_ok s"
  shows "\<exists>xs. exchange s = Inr (s\<lparr>argv := xs, first_nonopt := first_nonopt s + (optind s - last_nonopt s), last_nonopt := optind s\<rparr>) \<and>
    mset xs = mset (argv s) \<and> drop (optind s) xs = drop (optind s) (argv s)"
proof -
  obtain P X Y S where b: "argv s = P @ X @ Y @ S" "length P = first_nonopt s" "first_nonopt s + length X = last_nonopt s"
    "last_nonopt s + length Y = optind s"
    using three_blocks [of "first_nonopt s" "last_nonopt s" "optind s" "argv s"] assms unfolding scan_ok_def by blast
  have "exchange_loop (first_nonopt s) (last_nonopt s) (optind s) (argv s) = P @ Y @ X @ S"
    unfolding b(1) using b(2-4) by (rule exchange_loop_rotates)
  moreover have "optind s = length (P @ Y @ X)" and "optind s = length (P @ X @ Y)" using b(2-4) by simp_all
  then have "drop (optind s) (P @ Y @ X @ S) = S" and "drop (optind s) (argv s) = S" unfolding b(1) by simp_all
  ultimately show ?thesis
    using assms by (intro exI [of _ "P @ Y @ X @ S"]) (simp add: exchange_def scan_ok_def b(1))
qed

text \<open>The first part of a call, when the last element is used up.\<close>

lemma clip_ok: "scan_ok s \<Longrightarrow> clip_nonopts s = s"
  by (simp add: clip_nonopts_def scan_ok_def)

lemma todo_idle: "\<not> pending s \<Longrightarrow> todo s = text_size (drop (optind s) (argv s))"
  by (simp add: todo_def)

lemma permute_ok:
  assumes "scan_ok s" and "\<not> pending s"
  shows "\<exists>s'. permute s = Inr s' \<and> scan_ok s' \<and> \<not> pending s' \<and> mset (argv s') = mset (argv s) \<and> todo s' \<le> todo s"
proof -
  define s1 where "s1 =
    (if first_nonopt s \<noteq> last_nonopt s \<and> last_nonopt s \<noteq> optind s then exchange s
     else if last_nonopt s \<noteq> optind s then Inr (s\<lparr>first_nonopt := optind s\<rparr>) else Inr s)"
  obtain t where t: "s1 = Inr t" "mset (argv t) = mset (argv s)" "drop (optind s) (argv t) = drop (optind s) (argv s)"
    "optind t = optind s" "nextchar t = nextchar s" "first_nonopt t \<le> optind s" "getopt_initialized t"
  proof (cases "first_nonopt s \<noteq> last_nonopt s \<and> last_nonopt s \<noteq> optind s")
    case True
    then show ?thesis using that exchange_ok [OF assms(1)] assms(1) by (auto simp: s1_def scan_ok_def)
  next
    case False
    have "s1 = Inr (if last_nonopt s \<noteq> optind s then s\<lparr>first_nonopt := optind s\<rparr> else s)"
      using False by (auto simp: s1_def)
    from that [OF this] show ?thesis using assms(1) by (simp add: scan_ok_def)
  qed
  let ?i = "optind t + length (takeWhile nonoption (drop (optind t) (argv t)))"
  have i: "?i \<le> argc t"
    using length_takeWhile_le [of nonoption "drop (optind t) (argv t)"] t(2,4) assms(1) mset_eq_length [OF t(2)]
    by (auto simp: scan_ok_def)
  show ?thesis
  proof (cases "order s = PERMUTE")
    case True
    then have "permute s = Inr (t\<lparr>optind := ?i, last_nonopt := ?i\<rparr>)"
      using t(1) by (simp add: permute_def s1_def Let_def)
    moreover have "text_size (drop ?i (argv t)) \<le> text_size (drop (optind s) (argv s))"
      using text_size_drop [of "optind t" ?i "argv t"] t(3,4) by simp
    ultimately show ?thesis
      using assms t i by (auto simp: scan_ok_def todo_def pending_def)
  qed (use assms in \<open>simp add: permute_def\<close>)
qed

lemma double_dash_ok:
  assumes "scan_ok s" and "\<not> pending s"
  shows "\<exists>s'. double_dash s = Inr s' \<and> scan_ok s' \<and> \<not> pending s' \<and> mset (argv s') = mset (argv s) \<and> todo s' \<le> todo s \<and>
    (optind s' < argc s' \<longrightarrow> s' = s \<and> argv s ! optind s \<noteq> ''--'')"
proof (cases "optind s = argc s \<or> argv s ! optind s \<noteq> ''--''")
  case True
  then show ?thesis using assms by (auto simp: double_dash_def arg_def scan_ok_def)
next
  case False
  then have dd: "optind s < argc s" "argv s ! optind s = ''--''" using assms(1) by (auto simp: scan_ok_def)
  let ?s = "s\<lparr>optind := optind s + 1\<rparr>"
  have ok: "scan_ok ?s" using assms dd by (auto simp: scan_ok_def pending_def)
  obtain t where t: "(if first_nonopt ?s \<noteq> last_nonopt ?s \<and> last_nonopt ?s \<noteq> optind ?s then exchange ?s
      else if first_nonopt ?s = last_nonopt ?s then Inr (?s\<lparr>first_nonopt := optind ?s\<rparr>) else Inr ?s) = Inr t"
    "mset (argv t) = mset (argv s)" "nextchar t = nextchar s" "first_nonopt t \<le> argc s" "getopt_initialized t"
  proof (cases "first_nonopt ?s \<noteq> last_nonopt ?s \<and> last_nonopt ?s \<noteq> optind ?s")
    case True
    then show ?thesis using that exchange_ok [OF ok] ok by (auto simp: scan_ok_def)
  next
    case False
    have "(if first_nonopt ?s \<noteq> last_nonopt ?s \<and> last_nonopt ?s \<noteq> optind ?s then exchange ?s
        else if first_nonopt ?s = last_nonopt ?s then Inr (?s\<lparr>first_nonopt := optind ?s\<rparr>) else Inr ?s) =
      Inr (if first_nonopt ?s = last_nonopt ?s then ?s\<lparr>first_nonopt := optind ?s\<rparr> else ?s)"
      using False by auto
    from that [OF this] show ?thesis using ok by (simp add: scan_ok_def)
  qed
  have len: "argc t = argc s" using t(2) by (rule mset_eq_length)
  have "double_dash s = bindE (if first_nonopt ?s \<noteq> last_nonopt ?s \<and> last_nonopt ?s \<noteq> optind ?s then exchange ?s
      else if first_nonopt ?s = last_nonopt ?s then Inr (?s\<lparr>first_nonopt := optind ?s\<rparr>) else Inr ?s)
    (\<lambda>s. Inr (s\<lparr>last_nonopt := argc s, optind := argc s\<rparr>))"
    using dd by (simp add: double_dash_def arg_def Let_def)
  then have "double_dash s = Inr (t\<lparr>last_nonopt := argc t, optind := argc t\<rparr>)" unfolding t(1) by simp
  then show ?thesis
    using t(2-5) len dd(1) assms(2) by (auto simp: scan_ok_def pending_def todo_def)
qed

lemma next_element_ok:
  assumes "scan_ok s"
  shows "\<exists>c s'. next_element long s = Inr (c, s') \<and> mset (argv s') = mset (argv s) \<and>
    (case c of Some c \<Rightarrow> moved s c s' | None \<Rightarrow> scan_ok s' \<and> pending s' \<and> todo s' \<le> todo s)"
proof (cases "pending s")
  case True
  then show ?thesis using assms by (auto simp: next_element_def pending_def)
next
  case False
  obtain s1 where s1: "permute s = Inr s1" "scan_ok s1" "\<not> pending s1" "mset (argv s1) = mset (argv s)" "todo s1 \<le> todo s"
    using permute_ok [OF assms False] by blast
  obtain s2 where s2: "double_dash s1 = Inr s2" "scan_ok s2" "\<not> pending s2" "mset (argv s2) = mset (argv s1)" "todo s2 \<le> todo s1"
    "optind s2 < argc s2 \<longrightarrow> s2 = s1 \<and> argv s1 ! optind s1 \<noteq> ''--''"
    using double_dash_ok [OF s1(2,3)] by blast
  have ne: "next_element long s =
      (if optind s2 = argc s2 then
         Inr (Some (- 1), if first_nonopt s2 \<noteq> last_nonopt s2 then s2\<lparr>optind := first_nonopt s2\<rparr> else s2)
       else
         bindE (arg s2 (optind s2)) (\<lambda>a.
         if nonoption a then
           if order s2 = REQUIRE_ORDER then Inr (Some (- 1), s2)
           else Inr (Some 1, s2\<lparr>optarg := Some a, optind := optind s2 + 1\<rparr>)
         else Inr (None, s2\<lparr>nextchar := Some (drop (if long \<and> char_at a 1 = CHR ''-'' then 2 else 1) a)\<rparr>)))"
    using False s1(1) s2(1) by (auto simp: next_element_def pending_def clip_ok [OF assms])
  have m: "mset (argv s2) = mset (argv s)" using s1(4) s2(4) by simp
  show ?thesis
  proof (cases "optind s2 = argc s2")
    case True
    then show ?thesis using s2(2) m by (auto simp: ne moved_def scan_ok_def)
  next
    case False
    then have i: "optind s2 < argc s2" using s2(2) by (simp add: scan_ok_def)
    let ?a = "argv s2 ! optind s2"
    have a: "?a \<noteq> ''--''" using s2(6) i by auto
    have t: "todo s2 = length ?a + 1 + text_size (drop (Suc (optind s2)) (argv s2))"
      using i s2(3) by (simp add: todo_idle text_size_nth)
    show ?thesis
    proof (cases "nonoption ?a")
      case True
      then show ?thesis
        using i m s2(2,3,5) s1(5) t by (auto simp: ne arg_def moved_def scan_ok_def pending_def todo_def)
    next
      case no: False
      then obtain c r where r: "?a = CHR ''-'' # c # r" by (cases ?a; cases "tl ?a") (auto simp: nonoption_def)
      with a have "drop (if long \<and> char_at ?a 1 = CHR ''-'' then 2 else 1) ?a \<noteq> []" by (auto simp: char_at_def)
      then show ?thesis
        using i m s2(2,3,5) s1(5) t no
        by (auto simp: ne arg_def scan_ok_def pending_def todo_def)
    qed
  qed
qed

text \<open>Inside an option element.\<close>

lemma say_same [simp]:
  "argv (say pe m s) = argv s" "optind (say pe m s) = optind s" "nextchar (say pe m s) = nextchar s"
  "first_nonopt (say pe m s) = first_nonopt s" "last_nonopt (say pe m s) = last_nonopt s"
  "getopt_initialized (say pe m s) = getopt_initialized s"
  by (simp_all add: say_def)

lemma skip_text_same [simp]:
  "argv (skip_text s) = argv s" "optind (skip_text s) = optind s" "nextchar (skip_text s) = Some []"
  "first_nonopt (skip_text s) = first_nonopt s" "last_nonopt (skip_text s) = last_nonopt s"
  "getopt_initialized (skip_text s) = getopt_initialized s"
  by (simp_all add: skip_text_def)

lemma long_result_same:
  "long_result p i s = (c, s') \<Longrightarrow> argv s' = argv s \<and> optind s' = optind s \<and> nextchar s' = Some [] \<and>
    first_nonopt s' = first_nonopt s \<and> last_nonopt s' = last_nonopt s \<and> getopt_initialized s' = getopt_initialized s"
  by (auto simp: long_result_def Let_def split: option.splits if_splits)

text \<open>A call that is done with the current element, and perhaps the one behind it.\<close>

lemma moved_next:
  assumes "scan_ok s" and "pending s" and "argv s' = argv s" and "optind s' = optind s + 1 \<or> optind s' = optind s + 2 \<and> optind s + 1 < argc s"
    and "\<not> pending s'" and "first_nonopt s' = first_nonopt s" and "last_nonopt s' = last_nonopt s"
    and "getopt_initialized s' = getopt_initialized s"
  shows "moved s c s'"
proof -
  have "text_size (drop (optind s') (argv s)) \<le> text_size (drop (Suc (optind s)) (argv s))"
    using assms(4) by (intro text_size_drop) auto
  moreover have "the (nextchar s) \<noteq> []" using assms(2) by (auto simp: pending_def)
  then have "text_size (drop (optind s') (argv s)) < length (the (nextchar s)) + text_size (drop (Suc (optind s)) (argv s))"
    using calculation by (cases "the (nextchar s)") auto
  then show ?thesis using assms by (auto simp: moved_def scan_ok_def todo_def)
qed

text \<open>A call that ends without a read outside the arguments, with this effect.\<close>

definition call_ok :: "getopt_state \<Rightarrow> c_error + (int \<times> getopt_state) \<Rightarrow> bool" where
  "call_ok s r \<longleftrightarrow> (\<exists>c s'. r = Inr (c, s') \<and> moved s c s')"

lemma call_okI: "moved s c s' \<Longrightarrow> call_ok s (Inr (c, s'))"
  by (simp add: call_ok_def)

lemma call_ok_result:
  assumes "scan_ok s" and "pending s" and "argv t = argv s" and "optind t = optind s + 1 \<or> optind t = optind s + 2 \<and> optind s + 1 < argc s"
    and "first_nonopt t = first_nonopt s" and "last_nonopt t = last_nonopt s"
    and "getopt_initialized t = getopt_initialized s"
  shows "call_ok s (Inr (long_result p i t))"
  using long_result_same [of p i t] assms
  by (cases "long_result p i t") (auto intro!: call_okI moved_next [OF assms(1,2)] simp: pending_def)

lemma found_long_ok:
  assumes "scan_ok s" and "pending s"
  shows "call_ok s (found_long optstring pe a rest p i s)"
  by (auto simp: found_long_def Let_def arg_def pending_def intro!: call_ok_result [OF assms] call_okI moved_next [OF assms])

lemma try_long_ok:
  assumes "scan_ok s" and "pending s"
  shows "try_long optstring pe longopts long_only s = Inr (None, s) \<or>
    (\<exists>c s'. try_long optstring pe longopts long_only s = Inr (Some c, s') \<and> moved s c s')"
proof (cases longopts)
  case (Some ps)
  have a: "arg s (optind s) = Inr (argv s ! optind s)" using assms by (simp add: arg_def scan_ok_def)
  obtain tx where tx: "nextchar s = Some tx" using assms(2) by (auto simp: pending_def)
  obtain pf ex am where m: "match_long (differs long_only) (takeWhile (\<lambda>c. c \<noteq> CHR ''='') tx) ps 0 None False = (pf, ex, am)"
    by (cases "match_long (differs long_only) (takeWhile (\<lambda>c. c \<noteq> CHR ''='') tx) ps 0 None False") auto
  have f: "\<exists>c s'. bindE (found_long optstring pe a' rest p i s) (\<lambda>(r, s). Inr (Some r, s)) = Inr (Some c, s') \<and> moved s c s'"
    for a' rest p i
    using found_long_ok [OF assms, of optstring pe a' rest p i] by (auto simp: call_ok_def)
  show ?thesis
  proof (cases "am \<and> \<not> ex")
    case True
    then show ?thesis
      by (auto simp: try_long_def Some a tx m Let_def pending_def intro!: moved_next [OF assms])
  next
    case False
    show ?thesis
    proof (cases pf)
      case None
      with False show ?thesis
        by (auto simp: try_long_def Some a tx m Let_def pending_def intro!: moved_next [OF assms])
    next
      case (Some q)
      obtain p i where q: "q = (p, i)" by (cases q)
      with False Some f show ?thesis
        by (auto simp: try_long_def \<open>longopts = Some ps\<close> a tx m Let_def)
    qed
  qed
qed (simp add: try_long_def)

lemma moved_char:
  assumes "scan_ok s" and "nextchar s = Some (c # tx)" and "argv s' = argv s" and "first_nonopt s' = first_nonopt s"
    and "last_nonopt s' = last_nonopt s" and "getopt_initialized s' = getopt_initialized s" and "nextchar s' = Some tx" and "optind s' = (if tx = [] then optind s + 1 else optind s)"
  shows "moved s r s'"
proof (cases "tx = []")
  case True
  then show ?thesis using assms by (intro moved_next) (auto simp: pending_def)
next
  case False
  then show ?thesis using assms by (auto simp: moved_def scan_ok_def todo_def pending_def)
qed

lemma short_option_ok:
  assumes "scan_ok s" and "pending s" and "no_w optstring"
  shows "call_ok s (short_option optstring pe longopts s)"
proof -
  obtain c tx where n: "nextchar s = Some (c # tx)"
    using assms(2) by (cases "the (nextchar s)") (auto simp: pending_def)
  have i: "optind s < argc s" using assms(1,2) by (simp add: scan_ok_def)
  define s1 where "s1 = (let s = s\<lparr>nextchar := Some tx\<rparr> in if tx = [] then s\<lparr>optind := optind s + 1\<rparr> else s)"
  have s1: "argv s1 = argv s" "getopt_initialized s1 = getopt_initialized s" "first_nonopt s1 = first_nonopt s" "last_nonopt s1 = last_nonopt s" "nextchar s1 = Some tx"
    "optind s1 = (if tx = [] then optind s + 1 else optind s)"
    by (simp_all add: s1_def Let_def)
  have char: "call_ok s (Inr (r, s'))" if "argv s' = argv s1" "getopt_initialized s' = getopt_initialized s1" "first_nonopt s' = first_nonopt s1" "last_nonopt s' = last_nonopt s1"
      "nextchar s' = nextchar s1" "optind s' = optind s1" for r s'
    using that s1 by (intro call_okI moved_char [OF assms(1) n]) simp_all
  have sa: "call_ok s (short_argument optstring pe c spec tx s1)" for spec
  proof (cases "char_at spec 1 = CHR '':''")
    case True
    then show ?thesis
      using i s1 by (auto simp: short_argument_def arg_def pending_def intro!: call_okI moved_next [OF assms(1,2)])
  next
    case False
    then show ?thesis by (simp add: short_argument_def char)
  qed
  have "short_option optstring pe longopts s =
     (case my_index optstring c of
        Some spec \<Rightarrow>
          if c = CHR '':'' then
            Inr (code CHR ''?'', (say pe ((if posixly_correct s1 then ''illegal option -- '' else ''invalid option -- '') @ [c]) s1)\<lparr>optopt := code c\<rparr>)
          else if c = CHR ''W'' \<and> char_at spec 1 = CHR '';'' then w_option optstring pe longopts c tx s1
          else short_argument optstring pe c spec tx s1
      | None \<Rightarrow>
          Inr (code CHR ''?'', (say pe ((if posixly_correct s1 then ''illegal option -- '' else ''invalid option -- '') @ [c]) s1)\<lparr>optopt := code c\<rparr>))"
    unfolding short_option_def n s1_def Let_def option.case list.case ..
  then show ?thesis
    using sa assms(3) by (auto simp: no_w_def intro!: char split: option.splits)
qed

text \<open>The state that a call starts from: the first one initialises the scanner.\<close>

definition prepared :: "string \<Rightarrow> getopt_state \<Rightarrow> getopt_state" where
  "prepared optstring s =
     (if optind s = 0 \<or> \<not> getopt_initialized s then
        (fst (getopt_initialize optstring (if optind s = 0 then s\<lparr>optind := 1\<rparr> else s)))\<lparr>getopt_initialized := True\<rparr>
      else s)"

lemma first_call_ok:
  assumes "0 < argc s" and "optind s \<le> argc s" and "optind s = 0 \<or> \<not> getopt_initialized s"
  shows "scan_ok (prepared optstring s) \<and> argv (prepared optstring s) = argv s \<and> \<not> pending (prepared optstring s)"
proof -
  have "Suc 0 \<le> argc s" using assms(1) by (rule Suc_leI)
  then show ?thesis using assms(2,3) by (auto simp: prepared_def getopt_initialize_def Let_def scan_ok_def pending_def)
qed

lemma prepared_optarg: "prepared optstring (s\<lparr>optarg := None\<rparr>) = (prepared optstring s)\<lparr>optarg := None\<rparr>"
  by (auto simp: prepared_def getopt_initialize_def Let_def)

lemma optarg_same: "scan_ok (s\<lparr>optarg := v\<rparr>) = scan_ok s" "todo (s\<lparr>optarg := v\<rparr>) = todo s"
  "moved (s\<lparr>optarg := v\<rparr>) c s' = moved s c s'"
  "argv (s\<lparr>optarg := v\<rparr>) = argv s"
  by (simp_all add: scan_ok_def todo_def pending_def moved_def)

text \<open>\<open>getopt_initialize\<close> strips \<^verbatim>\<open>-\<close> and \<^verbatim>\<open>+\<close> from the option string.\<close>

definition stripped :: "string \<Rightarrow> getopt_state \<Rightarrow> string" where
  "stripped optstring s =
     (if (optind s = 0 \<or> \<not> getopt_initialized s) \<and> optstring \<noteq> [] \<and> (hd optstring = CHR ''-'' \<or> hd optstring = CHR ''+'')
      then tl optstring else optstring)"

lemma init_pair:
  "(if optind s = 0 \<or> \<not> getopt_initialized s then
      (case getopt_initialize optstring (if optind s = 0 then s\<lparr>optind := 1\<rparr> else s) of
         (s, optstring) \<Rightarrow> (s\<lparr>getopt_initialized := True\<rparr>, optstring))
    else (s, optstring)) = (prepared optstring s, stripped optstring s)"
  by (auto simp: prepared_def stripped_def getopt_initialize_def Let_def)

lemma getopt_internal_prepared:
  assumes "0 < argc s"
  shows "getopt_internal optstring longopts long_only s =
    (let pe = (opterr s \<and> \<not> (optstring \<noteq> [] \<and> hd optstring = CHR '':'')) in
     bindE (next_element (longopts \<noteq> None) (prepared optstring (s\<lparr>optarg := None\<rparr>))) (\<lambda>(r, s').
       case r of
         Some r \<Rightarrow> Inr (r, s')
       | None \<Rightarrow>
           bindE (try_long (stripped optstring s) pe longopts long_only s') (\<lambda>(r, s').
             case r of
               Some r \<Rightarrow> Inr (r, s')
             | None \<Rightarrow> short_option (stripped optstring s) pe longopts s')))"
proof -
  have "\<not> argc s < 1" and "stripped optstring (s\<lparr>optarg := None\<rparr>) = stripped optstring s"
    using assms by (simp_all add: stripped_def)
  then show ?thesis unfolding getopt_internal_def Let_def init_pair if_False by simp
qed

lemma no_w_stripped: "no_w optstring \<Longrightarrow> no_w (stripped optstring s)"
  by (cases optstring) (auto simp: no_w_def stripped_def)

lemma getopt_internal_ok:
  assumes "0 < argc s" and "scan_ok (prepared optstring s)" and "no_w optstring"
  shows "call_ok (prepared optstring s) (getopt_internal optstring longopts long_only s)"
proof -
  let ?s = "prepared optstring s" and ?pe = "opterr s \<and> \<not> (optstring \<noteq> [] \<and> hd optstring = CHR '':'')"
  obtain c s1 where s1: "next_element (longopts \<noteq> None) (?s\<lparr>optarg := None\<rparr>) = Inr (c, s1)" "mset (argv s1) = mset (argv ?s)"
    "case c of Some c \<Rightarrow> moved ?s c s1 | None \<Rightarrow> scan_ok s1 \<and> pending s1 \<and> todo s1 \<le> todo ?s"
  proof -
    have "scan_ok (?s\<lparr>optarg := None\<rparr>)" using assms(2) by (simp add: optarg_same)
    from next_element_ok [OF this, of "longopts \<noteq> None", unfolded optarg_same] that show thesis by blast
  qed
  note g = getopt_internal_prepared [OF assms(1), of optstring longopts long_only, unfolded prepared_optarg s1(1) bindE.simps]
  show ?thesis
  proof (cases c)
    case (Some r)
    then show ?thesis using s1(3) g by (simp add: call_ok_def Let_def)
  next
    case None
    with s1(3) have ok: "scan_ok s1" "pending s1" and t: "todo s1 \<le> todo ?s" by simp_all
    have trans: "moved s1 r s' \<Longrightarrow> moved ?s r s'" for r s' using s1(2) t by (auto simp: moved_def)
    have "call_ok s1 (short_option (stripped optstring s) ?pe longopts s1)"
      by (rule short_option_ok [OF ok no_w_stripped [OF assms(3)]])
    then show ?thesis
      using try_long_ok [OF ok, of "stripped optstring s" ?pe longopts long_only] g None trans
      by (auto simp: call_ok_def Let_def)
  qed
qed

lemma prepared_scan_ok: "scan_ok s \<Longrightarrow> prepared optstring s = s"
  by (simp add: scan_ok_def prepared_def)

lemma prepared_argv: "argv (prepared optstring s) = argv s"
  by (simp add: prepared_def getopt_initialize_def Let_def)

text \<open>
  C15: For any option string without \<^verbatim>\<open>W;\<close> and any table of long options, from the first call on or between two
  calls, \<^verbatim>\<open>_getopt_internal\<close> never reads outside the argument vector, which it only permutes, and it leaves
  \<^verbatim>\<open>optind\<close> within it; and either it says with -1 that the options are over, or less is left to scan than
  before and it is again in a state for which this holds. So the loop around it always ends.
\<close>

theorem getopt_call_progress:
  assumes "no_w optstring" and "0 < argc s" and "optind s \<le> argc s"
    and "optind s = 0 \<or> \<not> getopt_initialized s \<or> scan_ok s"
  shows "\<exists>c s'. getopt_internal optstring longopts long_only s = Inr (c, s') \<and> mset (argv s') = mset (argv s) \<and>
    optind s' \<le> argc s' \<and> (c \<noteq> - 1 \<longrightarrow> scan_ok s' \<and> todo s' < todo (prepared optstring s))"
proof -
  have "scan_ok (prepared optstring s)"
    using first_call_ok [OF assms(2,3)] assms(4) prepared_scan_ok by (cases "optind s = 0 \<or> \<not> getopt_initialized s") auto
  from getopt_internal_ok [OF assms(2) this assms(1), of longopts long_only] show ?thesis
    by (auto simp: call_ok_def moved_def prepared_argv)
qed

text \<open>The state before the first call, for a program \<^verbatim>\<open>getopt\<close> with these arguments.\<close>

definition test_args :: "string list \<Rightarrow> getopt_state" where
  "test_args args = \<lparr>argv = ''getopt'' # args, optind = 1, optarg = None, optopt = 63, opterr = True,
     getopt_initialized = False, nextchar = None, first_nonopt = 0, last_nonopt = 0, order = REQUIRE_ORDER,
     posixly_correct = False, posix_env = False, longind = None, flag_vars = (\<lambda>_. 0), stderr = []\<rparr>"

lemma getopt_call_progress_witness:
  "\<exists>s'. getopt_internal ''ab:'' None False (test_args [''x'', ''-ab'', ''v'']) = Inr (97, s') \<and>
     mset (argv s') = mset [''getopt'', ''x'', ''-ab'', ''v''] \<and> optind s' \<le> 4 \<and> scan_ok s'"
proof -
  let ?s = "test_args [''x'', ''-ab'', ''v'']"
  have "map_sum id fst (getopt_internal ''ab:'' None False ?s) = Inr 97" by code_simp
  moreover have "no_w ''ab:''" by (simp add: no_w_def)
  then have "\<exists>c s'. getopt_internal ''ab:'' None False ?s = Inr (c, s') \<and> mset (argv s') = mset (argv ?s) \<and>
    optind s' \<le> argc s' \<and> (c \<noteq> - 1 \<longrightarrow> scan_ok s' \<and> todo s' < todo (prepared ''ab:'' ?s))"
    by (rule getopt_call_progress) (simp_all add: test_args_def)
  ultimately obtain s' where s': "getopt_internal ''ab:'' None False ?s = Inr (97, s')" "mset (argv s') = mset (argv ?s)"
    "optind s' \<le> argc s'" "scan_ok s'" by auto
  have "argv ?s = [''getopt'', ''x'', ''-ab'', ''v'']" by (simp add: test_args_def)
  moreover have "argc s' = argc ?s" using s'(2) by (metis size_mset)
  ultimately have "optind s' \<le> 4" using s'(3) by simp
  with s' \<open>argv ?s = _\<close> show ?thesis by (intro exI [of _ s']) simp
qed

end
