(* ===== verification/Getopt_Tests.thy ===== *)
theory Getopt_Tests
  imports Getopt_Scan
begin

text \<open>
  The test programs at the end of \<^verbatim>\<open>src/missing/getopt.c\<close> and \<^verbatim>\<open>getopt_long.c\<close>: they print the options and
  arguments that the scanner finds. They end for every command line.
\<close>

subsection \<open>The programs\<close>

text \<open>\<^verbatim>\<open>%o\<close>\<close>

fun octal :: "nat \<Rightarrow> string" where
  "octal n = (if n < 8 then [char_of (48 + n)] else octal (n div 8) @ [char_of (48 + n mod 8)])"

definition newline :: string where
  "newline = [CHR 0x0A]"

definition digit_code :: "int \<Rightarrow> bool" where
  "digit_code c \<longleftrightarrow> code CHR ''0'' \<le> c \<and> c \<le> code CHR ''9''"

text \<open>
  The \<^verbatim>\<open>switch\<close> of \<^verbatim>\<open>getopt.c\<close> on the result \<open>c\<close>, with \<open>this_option_optind\<close> and \<open>digit_optind\<close>: the text it prints
  and the new \<open>digit_optind\<close>. \<^verbatim>\<open>%s\<close> with a null pointer is an error.
\<close>

definition print_digit :: "int \<Rightarrow> nat \<Rightarrow> nat \<Rightarrow> c_error + (string \<times> nat)" where
  "print_digit c this_option_optind digit_optind =
     Inr ((if digit_optind \<noteq> 0 \<and> digit_optind \<noteq> this_option_optind
           then ''digits occur in two different argv-elements.'' @ newline else '''') @
          ''option '' @ [char_of (nat c)] @ newline, this_option_optind)"

definition print_value :: "char \<Rightarrow> getopt_state \<Rightarrow> nat \<Rightarrow> c_error + (string \<times> nat)" where
  "print_value c s digit_optind =
     (case optarg s of
        None \<Rightarrow> Inl Null_pointer
      | Some v \<Rightarrow> Inr (''option '' @ [c] @ '' with value '' @ quoted v @ newline, digit_optind))"

definition test_case :: "int \<Rightarrow> nat \<Rightarrow> getopt_state \<Rightarrow> nat \<Rightarrow> c_error + (string \<times> nat)" where
  "test_case c this_option_optind s digit_optind =
     (if digit_code c then print_digit c this_option_optind digit_optind
      else if c = code CHR ''a'' then Inr (''option a'' @ newline, digit_optind)
      else if c = code CHR ''b'' then Inr (''option b'' @ newline, digit_optind)
      else if c = code CHR ''c'' then print_value CHR ''c'' s digit_optind
      else if c = code CHR ''?'' then Inr ('''', digit_optind)
      else Inr (''?? getopt returned character code 0'' @ octal (nat c) @ '' ??'' @ newline, digit_optind))"

text \<open>\<^verbatim>\<open>long_options\<close> of \<^verbatim>\<open>getopt_long.c\<close>, and its \<^verbatim>\<open>switch\<close>; behind the six options \<^verbatim>\<open>name\<close> is \<^verbatim>\<open>NULL\<close>.\<close>

definition test_options :: "long_option list" where
  "test_options = map (\<lambda>(n, a). \<lparr>opt_name = n, has_arg = a, opt_flag = None, opt_val = 0\<rparr>)
     [(''add'', 1), (''append'', 0), (''delete'', 1), (''verbose'', 0), (''create'', 0), (''file'', 1)]"

definition option_name :: "getopt_state \<Rightarrow> c_error + string" where
  "option_name s =
     (case longind s of
        None \<Rightarrow> Inl Null_pointer
      | Some i \<Rightarrow>
          if 0 \<le> i \<and> nat i < length test_options then Inr (opt_name (test_options ! nat i))
          else if nat i = length test_options then Inl Null_pointer else Inl Out_of_bounds)"

definition long_test_case :: "int \<Rightarrow> nat \<Rightarrow> getopt_state \<Rightarrow> nat \<Rightarrow> c_error + (string \<times> nat)" where
  "long_test_case c this_option_optind s digit_optind =
     (if c = 0 then
        bindE (option_name s) (\<lambda>n.
        Inr (''option '' @ n @ (case optarg s of None \<Rightarrow> '''' | Some v \<Rightarrow> '' with arg '' @ v) @ newline, digit_optind))
      else if c = code CHR ''d'' then print_value CHR ''d'' s digit_optind
      else test_case c this_option_optind s digit_optind)"

text \<open>What is printed behind the loop.\<close>

definition print_arguments :: "getopt_state \<Rightarrow> string" where
  "print_arguments s =
     (if optind s < argc s then
        ''non-option ARGV-elements: '' @ concat (map (\<lambda>a. a @ '' '') (drop (optind s) (argv s))) @ newline
      else '''')"

text \<open>The loop of both: \<^term>\<open>Some\<close> of what is printed when the program exits.\<close>

partial_function (option) test_loop ::
  "(getopt_state \<Rightarrow> c_error + (int \<times> getopt_state)) \<Rightarrow> (int \<Rightarrow> nat \<Rightarrow> getopt_state \<Rightarrow> nat \<Rightarrow> c_error + (string \<times> nat))
    \<Rightarrow> getopt_state \<Rightarrow> nat \<Rightarrow> string \<Rightarrow> (c_error + string) option" where
  "test_loop scan cases s digit_optind out =
     (let this_option_optind = (if optind s \<noteq> 0 then optind s else 1) in
      case scan s of
        Inl e \<Rightarrow> Some (Inl e)
      | Inr (c, s) \<Rightarrow>
          if c = - 1 then Some (Inr (out @ print_arguments s))
          else
            (case cases c this_option_optind s digit_optind of
               Inl e \<Rightarrow> Some (Inl e)
             | Inr (t, digit_optind) \<Rightarrow> test_loop scan cases s digit_optind (out @ t)))"

declare test_loop.simps [code]

definition test_optstring :: string where
  "test_optstring = ''abc:d:0123456789''"

definition test_main :: "getopt_state \<Rightarrow> (c_error + string) option" where
  "test_main s = test_loop (getopt test_optstring) test_case s 0 ''''"

definition long_test_main :: "getopt_state \<Rightarrow> (c_error + string) option" where
  "long_test_main s =
     test_loop (\<lambda>s. getopt_long test_optstring test_options (s\<lparr>longind := Some 0\<rparr>)) long_test_case s 0 ''''"

subsection \<open>They end\<close>

definition ready :: "getopt_state \<Rightarrow> bool" where
  "ready s \<longleftrightarrow> 0 < argc s \<and> optind s \<le> argc s \<and> (optind s = 0 \<or> \<not> getopt_initialized s \<or> scan_ok s)"

lemma ready_prepared: "ready s \<Longrightarrow> scan_ok (prepared optstring s) \<and> 0 < argc s"
  using first_call_ok [of s optstring] prepared_scan_ok [of s optstring] by (auto simp: ready_def)

lemma scan_ok_ready: "scan_ok s \<Longrightarrow> ready s"
  by (auto simp: ready_def scan_ok_def)

text \<open>A scan that makes progress, and whose results the \<^verbatim>\<open>switch\<close> can print.\<close>

definition good_scan :: "string \<Rightarrow> (getopt_state \<Rightarrow> c_error + (int \<times> getopt_state)) \<Rightarrow>
    (int \<Rightarrow> nat \<Rightarrow> getopt_state \<Rightarrow> nat \<Rightarrow> c_error + (string \<times> nat)) \<Rightarrow> bool" where
  "good_scan optstring scan cases \<longleftrightarrow> (\<forall>s. ready s \<longrightarrow>
     (\<exists>c s'. scan s = Inr (c, s') \<and> moved (prepared optstring s) c s' \<and> (c \<noteq> - 1 \<longrightarrow> (\<forall>i d. \<exists>r. cases c i s' d = Inr r))))"

lemma test_loop_ends:
  assumes "good_scan optstring scan cases"
  shows "ready s \<Longrightarrow> \<exists>out'. test_loop scan cases s d out = Some (Inr out')"
proof (induction "todo (prepared optstring s)" arbitrary: s d out rule: less_induct)
  case less
  obtain c s' where c: "scan s = Inr (c, s')" "moved (prepared optstring s) c s'"
    "c \<noteq> - 1 \<longrightarrow> (\<forall>i d. \<exists>r. cases c i s' d = Inr r)"
    using assms less.prems by (auto simp: good_scan_def)
  show ?case
  proof (cases "c = - 1")
    case True
    then show ?thesis using c(1) by (subst test_loop.simps) (simp add: Let_def)
  next
    case False
    then have ok: "scan_ok s'" "todo (prepared optstring s') < todo (prepared optstring s)"
      using c(2) by (auto simp: moved_def prepared_scan_ok)
    obtain t d' where t: "cases c (if optind s \<noteq> 0 then optind s else 1) s' d = Inr (t, d')"
      using c(3) False by fastforce
    obtain out' where "test_loop scan cases s' d' (out @ t) = Some (Inr out')"
      using less.hyps [OF ok(2) scan_ok_ready [OF ok(1)]] by blast
    then show ?thesis using c(1) False t by (subst test_loop.simps) (simp add: Let_def)
  qed
qed

text \<open>The results that need something: a value for \<^verbatim>\<open>c\<close> and \<^verbatim>\<open>d\<close>, an index for a long option.\<close>

definition printable :: "int \<Rightarrow> getopt_state \<Rightarrow> bool" where
  "printable r s \<longleftrightarrow> (r = code CHR ''c'' \<or> r = code CHR ''d'' \<longrightarrow> optarg s \<noteq> None) \<and>
     (r = 0 \<longrightarrow> (\<exists>i < length test_options. longind s = Some (int i)))"

lemma code_eq [simp]: "code c = code d \<longleftrightarrow> c = d"
  by (simp add: code_def)

lemma code_numbers [simp]: "code CHR ''?'' = 63" "code CHR ''c'' = 99" "code CHR ''d'' = 100" "code CHR '':'' = 58"
  by (simp_all add: code_def)

lemma printable_other: "r \<noteq> 99 \<Longrightarrow> r \<noteq> 100 \<Longrightarrow> r \<noteq> 0 \<Longrightarrow> printable r s"
  by (simp add: printable_def)

lemma exchange_longind: "exchange s = Inr s' \<Longrightarrow> longind s' = longind s"
  by (auto simp: exchange_def split: if_splits)

lemma permute_longind: "permute s = Inr s' \<Longrightarrow> longind s' = longind s"
  by (auto simp: permute_def bindE_eq_Inr Let_def split: if_splits dest: exchange_longind)

lemma double_dash_longind: "double_dash s = Inr s' \<Longrightarrow> longind s' = longind s"
  by (auto simp: double_dash_def bindE_eq_Inr Let_def split: if_splits dest: exchange_longind)

lemma next_element_result:
  assumes "next_element long s = Inr (c, s')"
  shows "longind s' = longind s" and "c = Some r \<Longrightarrow> r = - 1 \<or> r = 1"
proof -
  have clip: "longind (clip_nonopts s) = longind s" by (simp add: clip_nonopts_def Let_def)
  show "longind s' = longind s"
    using assms clip
    by (auto simp: next_element_def bindE_eq_Inr split: if_splits dest!: permute_longind double_dash_longind)
  show "c = Some r \<Longrightarrow> r = - 1 \<or> r = 1"
    using assms by (auto simp: next_element_def bindE_eq_Inr split: if_splits)
qed

lemma my_index_test: "my_index test_optstring c = Some spec \<Longrightarrow>
    c \<in> set test_optstring \<and> (c = CHR ''c'' \<or> c = CHR ''d'' \<longrightarrow> char_at spec 1 = CHR '':'' \<and> char_at spec 2 \<noteq> CHR '':'')"
  by (auto simp: test_optstring_def char_at_def split: if_splits)

lemma no_w_test: "no_w test_optstring"
  by (simp add: no_w_def test_optstring_def)

lemma missing_code_test [simp]: "missing_code test_optstring = 63"
  by (simp add: missing_code_def test_optstring_def)

lemma short_argument_printable:
  assumes "short_argument test_optstring pe c spec tx s = Inr (r, s')" and "c \<in> set test_optstring"
    and "c = CHR ''c'' \<or> c = CHR ''d'' \<longrightarrow> char_at spec 1 = CHR '':'' \<and> char_at spec 2 \<noteq> CHR '':''"
  shows "printable r s'"
proof -
  have "code c \<noteq> 0" using assms(2) by (auto simp: test_optstring_def code_def)
  moreover have "code c = 99 \<longleftrightarrow> c = CHR ''c''" "code c = 100 \<longleftrightarrow> c = CHR ''d''"
    using code_eq [of c "CHR ''c''"] code_eq [of c "CHR ''d''"] by simp_all
  ultimately show ?thesis
    using assms(1,3) by (auto simp: short_argument_def printable_def bindE_eq_Inr split: if_splits)
qed

lemma short_option_printable:
  assumes "short_option test_optstring pe longopts s = Inr (r, s')"
  shows "printable r s'"
proof -
  obtain c tx where n: "nextchar s = Some (c # tx)"
    using assms by (auto simp: short_option_def split: option.splits list.splits)
  define s1 where "s1 = (let s = s\<lparr>nextchar := Some tx\<rparr> in if tx = [] then s\<lparr>optind := optind s + 1\<rparr> else s)"
  show ?thesis
  proof (cases "my_index test_optstring c")
    case None
    then show ?thesis using assms by (auto simp: short_option_def n Let_def intro: printable_other split: if_splits)
  next
    case (Some spec)
    have "c \<noteq> CHR ''W''" using my_index_test [OF Some] by (auto simp: test_optstring_def)
    then have "r = 63 \<or> short_argument test_optstring pe c spec tx s1 = Inr (r, s')"
      using assms by (auto simp: short_option_def n Some s1_def Let_def split: if_splits)
    then show ?thesis using short_argument_printable my_index_test [OF Some] printable_other by auto
  qed
qed

text \<open>Long options of the table.\<close>

lemma match_long_index:
  "match_long clash name ps i pf am = (Some (p, k), ex, am') \<Longrightarrow>
    (\<forall>q j. pf = Some (q, j) \<longrightarrow> P q j) \<Longrightarrow> (\<forall>j < length ps. P (ps ! j) (i + j)) \<Longrightarrow> P p k"
proof (induction clash name ps i pf am rule: match_long.induct)
  case (2 clash name q ps i pf am)
  have now: "P q i" and rest: "\<forall>j < length ps. P (ps ! j) (i + 1 + j)"
    using 2(6) by (force dest: spec [of _ 0], force dest: spec [of _ "Suc _"])
  show ?case
    using 2(4,5) now rest 2(1,2,3)
    by (auto split: if_splits option.splits)
qed simp

lemma long_result_printable:
  assumes "long_result p i s = (r, s')" and "opt_flag p = None" and "opt_val p = 0" and "i < length test_options" and "longind s \<noteq> None"
  shows "printable r s'"
  using assms by (auto simp: long_result_def skip_text_def printable_def Let_def)

lemma found_long_printable:
  assumes "found_long test_optstring pe a rest p i s = Inr (r, s')" and "opt_flag p = None" and "opt_val p = 0"
    and "i < length test_options" and "longind s \<noteq> None"
  shows "printable r s'"
  using assms
  by (auto simp: found_long_def Let_def bindE_eq_Inr printable_other split: if_splits intro: long_result_printable)

lemma try_long_printable:
  assumes "try_long test_optstring pe longopts False s = Inr (Some r, s')" and "longopts = None \<or> longopts = Some test_options \<and> longind s \<noteq> None"
  shows "printable r s'"
proof -
  have lo: "longopts = Some test_options" "longind s \<noteq> None"
    using assms by (auto simp: try_long_def)
  let ?P = "\<lambda>p i. opt_flag p = None \<and> opt_val p = 0 \<and> i < length test_options"
  have table: "\<forall>j < length test_options. ?P (test_options ! j) (0 + j)"
    by (auto simp: test_options_def nth_Cons' )
  have found: "?P p i" if "match_long (differs False) name test_options 0 None False = (Some (p, i), ex, am)" for name p i ex am
    by (rule match_long_index [OF that, of ?P]) (use table in auto)
  show ?thesis
    using assms(1) lo
    by (auto simp: try_long_def bindE_eq_Inr Let_def printable_other split: if_splits option.splits prod.splits
        dest!: found intro: found_long_printable)
qed

lemma getopt_internal_printable:
  assumes "getopt_internal test_optstring longopts False s = Inr (r, s')" and "0 < argc s"
    and "longopts = None \<or> longopts = Some test_options \<and> longind s \<noteq> None"
  shows "printable r s'"
proof -
  have [simp]: "stripped test_optstring s = test_optstring" by (simp add: stripped_def test_optstring_def)
  have prep: "longind (prepared test_optstring (s\<lparr>optarg := None\<rparr>)) = longind s"
    by (simp add: prepared_def getopt_initialize_def Let_def)
  note g = assms(1) [unfolded getopt_internal_prepared [OF assms(2)], unfolded Let_def]
  from g obtain c s1 where s1: "next_element (longopts \<noteq> None) (prepared test_optstring (s\<lparr>optarg := None\<rparr>)) = Inr (c, s1)"
    by (auto simp: bindE_eq_Inr)
  note res = next_element_result [OF s1, unfolded prep]
  show ?thesis
  proof (cases c)
    case (Some r')
    then show ?thesis using g s1 res(2) [OF Some] by (auto intro: printable_other)
  next
    case None
    with g s1 show ?thesis
      using assms(3) res(1)
      by (auto simp: bindE_eq_Inr split: option.splits intro: short_option_printable try_long_printable)
  qed
qed

lemma cases_printable:
  assumes "printable c s" and "c \<noteq> 0 \<or> longind s \<noteq> None"
  shows "\<exists>r. test_case c i s d = Inr r" and "\<exists>r. long_test_case c i s d = Inr r"
  using assms
  by (auto simp: test_case_def long_test_case_def print_digit_def print_value_def option_name_def printable_def split: option.splits)

lemma test_scans_good:
  "good_scan test_optstring (getopt test_optstring) test_case"
  "good_scan test_optstring (\<lambda>s. getopt_long test_optstring test_options (s\<lparr>longind := Some 0\<rparr>)) long_test_case"
proof -
  have one: "\<exists>c s'. getopt_internal test_optstring longopts False s = Inr (c, s') \<and> moved (prepared test_optstring s) c s' \<and> printable c s'"
    if "ready s" "longopts = None \<or> longopts = Some test_options \<and> longind s \<noteq> None" for s longopts
    using getopt_internal_ok [of s test_optstring longopts False] ready_prepared [OF that(1), of test_optstring] no_w_test
      getopt_internal_printable [of longopts s] that(2) by (fastforce simp: call_ok_def)
  show "good_scan test_optstring (getopt test_optstring) test_case"
    unfolding good_scan_def getopt_def using one [of _ None] by (force simp: test_case_def print_digit_def print_value_def printable_def split: option.splits)
  have [simp]: "prepared test_optstring (s\<lparr>longind := Some 0\<rparr>) = (prepared test_optstring s)\<lparr>longind := Some 0\<rparr>" for s
    by (simp add: prepared_def getopt_initialize_def Let_def)
  have "ready (s\<lparr>longind := Some 0\<rparr>) = ready s" and "moved (s\<lparr>longind := Some 0\<rparr>) c s' = moved s c s'" for s c s'
    by (simp_all add: ready_def scan_ok_def pending_def moved_def todo_def)
  then show "good_scan test_optstring (\<lambda>s. getopt_long test_optstring test_options (s\<lparr>longind := Some 0\<rparr>)) long_test_case"
    unfolding good_scan_def getopt_long_def using one [of "_\<lparr>longind := Some 0\<rparr>" "Some test_options"] cases_printable(2)
    by (fastforce simp: printable_def)
qed

lemma test_mains_end:
  assumes "ready s"
  shows "\<exists>out. test_main s = Some (Inr out)" and "\<exists>out. long_test_main s = Some (Inr out)"
  using test_loop_ends [OF test_scans_good(1) assms] test_loop_ends [OF test_scans_good(2) assms]
  by (auto simp: test_main_def long_test_main_def)

text \<open>
  C35: Both test programs end for every command line, without a read outside the arguments: none prints the
  value of an option that has none, or the name behind the last long option.
\<close>

theorem getopt_tests_end:
  assumes "argv s \<noteq> []" and "optind s \<le> argc s" and "\<not> getopt_initialized s"
  shows "(\<exists>out. test_main s = Some (Inr out)) \<and> (\<exists>out. long_test_main s = Some (Inr out))"
proof -
  have "ready s" using assms by (simp add: ready_def)
  then show ?thesis using test_mains_end by blast
qed

text \<open>\<^verbatim>\<open>getopt.c\<close> has no case for the option \<^verbatim>\<open>d\<close> of its own option string.\<close>

lemma getopt_tests_end_witness:
  "(\<exists>out. long_test_main (test_args [''x'', ''--add=1'', ''-d'', ''v'']) = Some (Inr out)) \<and>
    test_main (test_args [''x'', ''-1d'', ''v'', ''--'', ''-b'']) =
      Some (Inr (''option 1'' @ newline @ ''?? getopt returned character code 0144 ??'' @ newline @
        ''non-option ARGV-elements: x -b '' @ newline))"
proof -
  have "test_main (test_args [''x'', ''-1d'', ''v'', ''--'', ''-b'']) =
      Some (Inr (''option 1'' @ newline @ ''?? getopt returned character code 0144 ??'' @ newline @
        ''non-option ARGV-elements: x -b '' @ newline))"
    by code_simp
  then show ?thesis using getopt_tests_end [of "test_args [''x'', ''--add=1'', ''-d'', ''v'']"] by (simp add: test_args_def)
qed

end
