(* ===== verification/Spec2Isabelle.thy ===== *)
theory Spec2Isabelle
  imports Traffic Manuf RecMutex Cancel Debug_Log Queue Ui_Threads Platforms Thread_Memory RecMutex_Memory Table_Memory
    Stat_Threads Getopt_Tests
begin

text \<open>
  Verification development for lmap, the LAN mapper.

  \<^bold>\<open>The program.\<close> lmap opens a network interface (or a dump file) with libpcap, decodes every packet in a
  thread of its own, and shows counters, messages and the settings of the interface in a user
  interface made with ncurses. Its parts meet at the start (\<^verbatim>\<open>lmap_main.c\<close>): the constructors of the decoders
  and of the user interface have filled their tables before \<^verbatim>\<open>main\<close>; \<^verbatim>\<open>main\<close> allocates the globals, parses the
  options, starts ncurses, opens the capture, loads the two data files, creates the capture thread and runs
  the user interface, which polls the keyboard, the counters and the queue of messages until the user
  leaves. What has to be undone is registered with \<^verbatim>\<open>atexit\<close>.

  \<^bold>\<open>Conventions of the model.\<close> A function that can fail has a result of type \<open>c_error + 'a\<close>
  (theory Prelude). The errors are the ways in which the C program stops or goes wrong: \<open>Exit_process\<close> with
  the text it prints, \<open>Null_pointer\<close>, \<open>Out_of_bounds\<close> (a read or write outside an object), \<open>Use_after_free\<close>,
  \<open>Endless_loop\<close>, \<open>Integer_overflow\<close>, \<open>Division_by_zero\<close>. Integers have the width of their C type (\<open>u_int8\<close>,
  \<open>u_int16\<close>, \<open>u_int32\<close> are words); an \<^verbatim>\<open>int\<close> is an \<open>int\<close>, with \<open>checked\<close> where it can overflow. A buffer is the
  list of its bytes or characters, whose first contents are parameters (\<open>junk\<close>); \<open>c_str\<close> is the text up to
  the first NUL. What the program only calls is a parameter: libpcap (\<open>pcap_lib\<close>), the file system, \<^verbatim>\<open>ioctl\<close>,
  \<^verbatim>\<open>pthread_create\<close>, \<^verbatim>\<open>sigaction\<close>, the calls of \<^verbatim>\<open>calloc\<close> that succeed, the size of the terminal, the windows that
  ncurses gives, the byte order and the pointer width of the host, the version of the C library.

  \<^bold>\<open>Theories, by part of the program\<close> (files under \<^verbatim>\<open>src/\<close>):

  \<^item> Prelude, Formats: errors, bytes and memory accesses, the conversions of \<^verbatim>\<open>printf\<close> and \<^verbatim>\<open>scanf\<close> that occur.
  \<^item> Missing (\<^verbatim>\<open>src/missing/*.c\<close>): \<^verbatim>\<open>strlcpy\<close>, \<^verbatim>\<open>strlcat\<close>, \<^verbatim>\<open>memcmp\<close>, \<^verbatim>\<open>memmem\<close>, \<^verbatim>\<open>strsep\<close>, each with its contract.
  \<^item> Getopt (\<^verbatim>\<open>src/missing/getopt.c\<close>, \<^verbatim>\<open>getopt_long.c\<close>) and Options (\<^verbatim>\<open>src/lmap_parser.c\<close>): the scan of the arguments
    with their permutation; it is equivalent to a reference parser that reads the arguments once. Getopt_Scan has
    what holds for any options and arguments (no read outside of them, progress in every call), Getopt_Tests the
    test programs at the end of both files, with their output.
  \<^item> Hash, Data_Files, Manuf, Fingerprint (\<^verbatim>\<open>src/lmap_hash.c\<close>, \<^verbatim>\<open>lmap_data.c\<close>, \<^verbatim>\<open>lmap_manuf.c\<close>, \<^verbatim>\<open>lmap_fingerprint.c\<close>): the
    two tables are hash tables that implement the locale \<open>key_database\<close>; a fingerprint under construction, a
    string of 28 characters, refines the record \<open>finfo\<close>.
  \<^item> Stat, Ui (\<^verbatim>\<open>src/lmap_stat.c\<close>, \<^verbatim>\<open>lmap_ui.c\<close>): the counters implement \<open>counter_set\<close>, a finite map; the messages
    implement \<open>message_queue\<close>: nothing is lost, doubled or reordered. Ui_Threads has the queue as several threads
    use it, with one step for each access to it; Stat_Threads does this for the counters.
  \<^item> Inet, Iface (\<^verbatim>\<open>src/lmap_inet.c\<close>, \<^verbatim>\<open>lmap_if.c\<close>): addresses and their texts, queries of the interface.
  \<^item> Bucket, Table, Decoders, Tcp, Decode (\<^verbatim>\<open>src/lmap_db.c\<close>, \<^verbatim>\<open>lmap_decode.c\<close>, \<^verbatim>\<open>lmap_decoder_*.c\<close>): the structures of a
    packet and their report; the table of decoders; the decoders as functions of the position in the packet
    and the environment; \<open>decode_loop\<close>, the loop over the layers, and \<open>lmap_decode\<close>. Packets has the lemmas about
    each header, given by its bytes; Frames describes a whole frame by a datatype, its bytes, its counters and
    its report, and proves what \<open>lmap_decode\<close> does with it.
  \<^item> Locks, RecMutex, Threads (\<^verbatim>\<open>src/lmap_recursive_mutex.c\<close>, \<^verbatim>\<open>lmap_threads.c\<close>): step relations with one transition for
    each access to shared data, with invariants by rule induction; the thread list as a finite map. Cancel adds
    the end of threads: cancellation, at once or at a cancellation point, and the wait in \<^verbatim>\<open>pthread_join\<close>.
  \<^item> Curses, Screen, Session (\<^verbatim>\<open>src/lmap_ncurses*.c\<close>): windows as the sequences of calls they make to ncurses; the
    screens over a list of events (a key or none, a packet counted, a message sent), in the order in
    which they happen; Session has what holds of a whole session of the user interface.
  \<^item> Debug, Debug_Log (\<^verbatim>\<open>src/lmap_debug.c\<close>): the log of debug builds, its messages and the hexadecimal dump; the exit
    and the crash of a process that has such a log.
  \<^item> Platforms (\<^verbatim>\<open>src/lmap_if.c\<close> on BSD and Solaris, \<^verbatim>\<open>include/lmap_if_solaris.h\<close>): the link layer address there; on
    Solaris it is asked of a stream that is opened by requests and acknowledgements. The predicate
    \<open>dlpi_provider\<close> says what the system does with a request; \<open>yields\<close> composes the steps.
  \<^item> Queue (\<^verbatim>\<open>include/missing/queue.h\<close>): the list macros over a heap of links, with the invariants \<open>is_list\<close>,
    \<open>is_tailq\<close>, \<open>is_ring\<close>, and the locales \<open>linked_list\<close> and \<open>linked_queue\<close> that the kinds of lists implement. The
    theories above use lists where the program uses these macros; the next ones show for the lists with a state
    of their own that the code does the same in memory.
  \<^item> Memory, Stat_Memory, Thread_Memory, RecMutex_Memory (\<^verbatim>\<open>lmap_stat.c\<close>, \<^verbatim>\<open>lmap_threads.c\<close>,
    \<^verbatim>\<open>lmap_recursive_mutex.c\<close>): the operations again, on structures that are allocated and freed and that the
    macros of Queue link; every use of a structure checks that it has not been freed. Each is an instance of the
    locale \<open>memory_refinement\<close>, so a sequence of calls gives the answers that the list gives. A freed
    structure is used where the lists say so: by \<^verbatim>\<open>lmap_thread_kill_all\<close>, and by \<^verbatim>\<open>get_all_stats\<close> if a counter were
    registered again while it points to it. Table_Memory does the same for the hash tables of \<^verbatim>\<open>lmap_manuf.c\<close> and
    \<^verbatim>\<open>lmap_fingerprint.c\<close>, from the loading to the exit that frees them.
  \<^item> Program, Process, Traffic (\<^verbatim>\<open>src/lmap_main.c\<close>, \<^verbatim>\<open>lmap_globals.c\<close>, \<^verbatim>\<open>lmap_capture.c\<close>, \<^verbatim>\<open>lmap_error.c\<close>,
    \<^verbatim>\<open>lmap_signal.c\<close>): the process. \<open>main_steps\<close> composes the parts; \<open>exit_process\<close> runs the functions of \<^verbatim>\<open>atexit\<close>;
    \<open>capture\<close> is the thread. Process proves that every way out releases what was acquired and what a
    successful start leaves; Traffic connects the capture with \<open>lmap_decode\<close> and the messages with the screen.

  \<^bold>\<open>Loops.\<close> Loops over the data are recursive functions. \<open>decode_loop\<close> and \<open>parse_loop\<close> are partial functions
  whose value \<^term>\<open>None\<close> would be a loop without end; lemmas show when they return (the layers of the decoders
  go up; the scan of the options and the test programs of getopt always end), and the one loop of the program that can run for ever,
  that over the TCP options, is characterised in both directions. Fuel occurs in five places and is
  always enough: \<open>start_loop\<close> has one unit for each event and one more, and every screen takes an event;
  \<open>all_stats\<close> has the number of counters and one; the traversals of Queue have the length of the list and one;
  those of a list in memory have \<open>steps\<close>, the number of allocated structures and one;
  \<open>screen_loop\<close> is structural in the events, and a session that is not over when the events end says so.

  \<^bold>\<open>Interleaving.\<close> The models of the parts take their operations one after the other. For the messages this
  is proved: Ui_Threads has the steps of \<^verbatim>\<open>ui_msg\<close> and \<^verbatim>\<open>ui_msg_flush\<close> on the memory of the queue, interleaved
  with those of other threads, and shows that they behave like the operations of Ui one by one. RecMutex
  and Threads do this for the mutexes of their parts, Cancel shows what becomes of them when a thread is
  cancelled. The counters have no mutex: behind the start only the capture thread writes them, and the
  interface reads one word at a time. Stat_Threads interleaves every load and store of the two and shows that what
  the interface reads is what a sequence of operations of Stat gives; the models of the screens let it see the
  counters between two frames, in the code it may see those of a part of the frame in progress. A signal arrives between two steps of \<^verbatim>\<open>main\<close>.

  \<^bold>\<open>Not modelled.\<close> The branches of \<^verbatim>\<open>lmap_if_solaris.h\<close> for \<^verbatim>\<open>/dev/dlpi\<close>, \<^verbatim>\<open>bufmod\<close> and HP-UX: the first calls a
  function that exists nowhere, the second does not compile. The debug messages, except those of a
  crash and of the functions of \<^verbatim>\<open>atexit\<close>; exit codes; \<^verbatim>\<open>CIRCLEQ_REPLACE\<close>, which cannot be compiled; a failing \<^verbatim>\<open>strdup\<close> (the program does not
  look at its result), and the memory of the strings it gives, which are contents of the structures in Memory;
  headers with nothing but declarations.
\<close>

end
